(* ===== verification/Go_Prelude.thy ===== *)
theory Go_Prelude
  imports Main "HOL-Library.Word" "HOL-Library.Monad_Syntax"
begin

unbundle bit_operations_syntax

section \<open>Shared vocabulary of the development\<close>

text \<open>
  The types and the fragment of Go that every component uses: machine integers as words, byte
  slices as lists, slice expressions and index expressions with their run-time checks, the
  big- and little-endian accessors of the standard package \<^verbatim>\<open>encoding/binary\<close>, and the
  generic lemmas about them.

  Conventions.
  \<^item> A Go function that may panic has a result of type \<open>'a option\<close>: \<^const>\<open>None\<close> is
    the run-time panic, and sequencing is \<open>Option.bind\<close> in \<open>do\<close> notation.
  \<^item> A Go function that returns an \<^verbatim>\<open>error\<close> returns a \<open>goerr option\<close> next to its
    other results: \<^const>\<open>None\<close> is \<^verbatim>\<open>nil\<close>, and \<open>Some e\<close> is the error with its format
    string and its numeric arguments.
  \<^item> A method with a pointer receiver takes the old struct and returns the new one, on the
    error paths too.
  \<^item> A byte slice is the list of its elements. A slice expression is checked against the
    length; where a decoder can slice beyond the length into spare capacity, the spare bytes
    are an argument of its own.
\<close>

type_synonym byte = "8 word"
type_synonym bytes = "8 word list"
type_synonym u8 = "8 word"
type_synonym u16 = "16 word"
type_synonym u32 = "32 word"
type_synonym u64 = "64 word"

datatype goerr = Errorf string "int list"

named_theorems go_simps \<open>evaluation of checked slice and index expressions\<close>
named_theorems wire_simps \<open>words to bytes and back\<close>

subsection \<open>Index and slice expressions\<close>

definition idx :: "'a list \<Rightarrow> nat \<Rightarrow> 'a option" where
  "idx xs i = (if i < length xs then Some (xs ! i) else None)"

definition slice :: "'a list \<Rightarrow> nat \<Rightarrow> nat \<Rightarrow> 'a list option" where
  "slice xs lo hi = (if lo \<le> hi \<and> hi \<le> length xs then Some (take (hi - lo) (drop lo xs)) else None)"

text \<open>\<open>slice_cap xs spare lo hi\<close> is \<^verbatim>\<open>xs[lo:hi]\<close> for a slice whose backing array
  continues with the bytes \<open>spare\<close>: Go checks \<open>hi\<close> against the capacity.\<close>

definition slice_cap :: "'a list \<Rightarrow> 'a list \<Rightarrow> nat \<Rightarrow> nat \<Rightarrow> 'a list option" where
  "slice_cap xs spare lo hi = slice (xs @ spare) lo hi"

text \<open>\<open>write_at b off xs\<close> overwrites the bytes from \<open>off\<close> on: every store into a slice
  (\<^verbatim>\<open>b[off] = x\<close>, \<^verbatim>\<open>PutUint16(b[off:], v)\<close>, \<^verbatim>\<open>copy(b[off:], xs)\<close> with room for
  all of \<open>xs\<close>) is an instance.\<close>

definition write_at :: "'a list \<Rightarrow> nat \<Rightarrow> 'a list \<Rightarrow> 'a list option" where
  "write_at b off xs =
     (if off + length xs \<le> length b then Some (take off b @ xs @ drop (off + length xs) b) else None)"

text \<open>\<open>copy_at b off xs\<close> is \<^verbatim>\<open>copy(b[off:], xs)\<close>: it copies as many elements as fit.\<close>

definition copy_at :: "'a list \<Rightarrow> nat \<Rightarrow> 'a list \<Rightarrow> 'a list option" where
  "copy_at b off xs = (if off \<le> length b then write_at b off (take (length b - off) xs) else None)"

lemma idx_in [simp, go_simps]: "Suc i \<le> length xs \<Longrightarrow> idx xs i = Some (xs ! i)"
  by (simp add: idx_def)

lemma idx_out [go_simps]: "length xs \<le> i \<Longrightarrow> idx xs i = None"
  by (simp add: idx_def)

lemma slice_in [simp, go_simps]:
  "lo \<le> hi \<Longrightarrow> hi \<le> length xs \<Longrightarrow> slice xs lo hi = Some (take (hi - lo) (drop lo xs))"
  by (simp add: slice_def)

lemma slice_eq_Some:
  "slice xs lo hi = Some ys \<longleftrightarrow> lo \<le> hi \<and> hi \<le> length xs \<and> ys = take (hi - lo) (drop lo xs)"
  by (auto simp: slice_def)

lemma slice_length: "slice xs lo hi = Some ys \<Longrightarrow> length ys = hi - lo"
  by (auto simp: slice_eq_Some)

lemma slice_cap_in [go_simps]:
  "lo \<le> hi \<Longrightarrow> hi \<le> length xs \<Longrightarrow> slice_cap xs spare lo hi = Some (take (hi - lo) (drop lo xs))"
  by (simp add: slice_cap_def)

lemma write_at_in [simp, go_simps]:
  "off + length xs \<le> length b \<Longrightarrow> write_at b off xs = Some (take off b @ xs @ drop (off + length xs) b)"
  by (simp add: write_at_def)

lemma write_at_length: "write_at b off xs = Some b' \<Longrightarrow> length b' = length b"
  by (auto simp: write_at_def split: if_splits)

lemma copy_at_length: "copy_at b off xs = Some b' \<Longrightarrow> length b' = length b"
  by (auto simp: copy_at_def dest: write_at_length split: if_splits)

lemma copy_at_fits [simp, go_simps]:
  "off + length xs \<le> length b \<Longrightarrow> copy_at b off xs = Some (take off b @ xs @ drop (off + length xs) b)"
  by (simp add: copy_at_def)

lemma length_2_conv: "length xs = 2 \<longleftrightarrow> (\<exists>x y. xs = [x, y])"
  by (cases xs; cases "drop 1 xs") auto

lemma split_whole [simp]: "\<exists>rest. data = take n data @ drop n data @ rest"
  by (rule exI [of _ "[]"]) simp

lemma split_cut [simp]: "\<exists>rest. data = take n data @ take m (drop n data) @ rest"
  by (rule exI [of _ "drop m (drop n data)"]) (simp only: append_take_drop_id)

subsection \<open>Multi-byte integers\<close>

definition be16 :: "u16 \<Rightarrow> bytes" where
  "be16 w = [ucast (drop_bit 8 w), ucast w]"

definition be32 :: "u32 \<Rightarrow> bytes" where
  "be32 w = [ucast (drop_bit 24 w), ucast (drop_bit 16 w), ucast (drop_bit 8 w), ucast w]"

definition le16 :: "u16 \<Rightarrow> bytes" where
  "le16 w = [ucast w, ucast (drop_bit 8 w)]"

definition le32 :: "u32 \<Rightarrow> bytes" where
  "le32 w = [ucast w, ucast (drop_bit 8 w), ucast (drop_bit 16 w), ucast (drop_bit 24 w)]"

definition mk16 :: "byte \<Rightarrow> byte \<Rightarrow> u16" where
  "mk16 hi lo = push_bit 8 (ucast hi) OR ucast lo"

definition mk32 :: "byte \<Rightarrow> byte \<Rightarrow> byte \<Rightarrow> byte \<Rightarrow> u32" where
  "mk32 a b c d = push_bit 24 (ucast a) OR push_bit 16 (ucast b) OR push_bit 8 (ucast c) OR ucast d"

text \<open>\<^verbatim>\<open>binary.BigEndian.Uint16\<close> and its kin read the first bytes of their argument and
  panic when there are too few.\<close>

definition get_be16 :: "bytes \<Rightarrow> u16 option" where
  "get_be16 b = (if 2 \<le> length b then Some (mk16 (b ! 0) (b ! 1)) else None)"

definition get_be32 :: "bytes \<Rightarrow> u32 option" where
  "get_be32 b = (if 4 \<le> length b then Some (mk32 (b ! 0) (b ! 1) (b ! 2) (b ! 3)) else None)"

definition get_le16 :: "bytes \<Rightarrow> u16 option" where
  "get_le16 b = (if 2 \<le> length b then Some (mk16 (b ! 1) (b ! 0)) else None)"

definition get_le32 :: "bytes \<Rightarrow> u32 option" where
  "get_le32 b = (if 4 \<le> length b then Some (mk32 (b ! 3) (b ! 2) (b ! 1) (b ! 0)) else None)"

lemma length_be16 [simp]: "length (be16 w) = 2"
  by (simp add: be16_def)

lemma be16_0 [simp]: "be16 0 = [0, 0]"
  by (simp add: be16_def)

lemma length_be32 [simp]: "length (be32 w) = 4"
  by (simp add: be32_def)

lemma length_le16 [simp]: "length (le16 w) = 2"
  by (simp add: le16_def)

lemma length_le32 [simp]: "length (le32 w) = 4"
  by (simp add: le32_def)

lemma mk16_split [wire_simps]: "mk16 (ucast (drop_bit 8 w)) (ucast w) = w"
  by (rule bit_word_eqI) (auto simp: mk16_def bit_simps)

lemma mk32_split [wire_simps]:
  "mk32 (ucast (drop_bit 24 w)) (ucast (drop_bit 16 w)) (ucast (drop_bit 8 w)) (ucast w) = w"
proof (rule bit_word_eqI)
  fix n assume "n < LENGTH(32)"
  then consider "n < 8" | "8 \<le> n \<and> n < 16" | "16 \<le> n \<and> n < 24" | "24 \<le> n \<and> n < 32"
    by fastforce
  then show "bit (mk32 (ucast (drop_bit 24 w)) (ucast (drop_bit 16 w)) (ucast (drop_bit 8 w)) (ucast w)) n
      = bit w n"
    by cases (auto simp: mk32_def bit_simps)
qed

lemma mk16_hi [wire_simps]: "ucast (drop_bit 8 (mk16 a b)) = a"
  by (rule bit_word_eqI) (auto simp: mk16_def bit_simps dest: bit_imp_le_length)

lemma mk16_lo [wire_simps]: "ucast (mk16 a b) = b"
  by (rule bit_word_eqI) (auto simp: mk16_def bit_simps)

lemma be16_mk16 [wire_simps]: "be16 (mk16 a b) = [a, b]"
  by (simp add: be16_def mk16_hi mk16_lo)

lemma mk16_inject: "mk16 a b = mk16 c d \<longleftrightarrow> a = c \<and> b = d"
  by (metis mk16_hi mk16_lo)

lemma get_be16_be16 [simp, wire_simps]: "get_be16 (be16 w @ rest) = Some w"
  by (simp add: get_be16_def be16_def mk16_split)

lemma get_be16_be16_single [simp, wire_simps]: "get_be16 (be16 w) = Some w"
  by (simp add: get_be16_def be16_def mk16_split)

lemma get_be32_be32 [simp, wire_simps]: "get_be32 (be32 w @ rest) = Some w"
  by (simp add: get_be32_def be32_def mk32_split)

lemma get_be32_be32_single [simp, wire_simps]: "get_be32 (be32 w) = Some w"
  by (simp add: get_be32_def be32_def mk32_split)

lemma get_le16_le16 [simp, wire_simps]: "get_le16 (le16 w @ rest) = Some w"
  by (simp add: get_le16_def le16_def mk16_split)

lemma get_le32_le32 [simp, wire_simps]: "get_le32 (le32 w @ rest) = Some w"
  by (simp add: get_le32_def le32_def mk32_split)

lemma unat_mk16: "unat (mk16 a b) = 256 * unat a + unat b"
proof -
  have "mk16 a b = push_bit 8 (ucast a) + ucast b"
    unfolding mk16_def
    by (rule disjunctive_add [symmetric]) (auto simp: bit_simps dest: bit_imp_le_length)
  moreover have "unat (ucast a :: u16) = unat a" "unat (ucast b :: u16) = unat b"
    by (simp_all add: unsigned_ucast_eq take_bit_nat_eq_self_iff less_le_trans [OF unsigned_less])
  moreover have "unat a < 256" "unat b < 256"
    using unsigned_less [of a] unsigned_less [of b] by simp_all
  ultimately show ?thesis
    by (simp add: push_bit_eq_mult unat_word_ariths)
qed

subsection \<open>Values of words\<close>

lemma unat_byte_less: "unat (w :: byte) < 256"
  using unsigned_less [where 'a = nat, of w] by simp

lemma unat_u16_less: "unat (w :: u16) < 65536"
  using unsigned_less [where 'a = nat, of w] by simp

lemma unat_u32_less: "unat (w :: u32) < 4294967296"
  using unsigned_less [where 'a = nat, of w] by simp

lemma unat_shiftr: "unat (drop_bit n w) = unat w div 2 ^ n"
  unfolding unat_drop_bit_eq by (simp add: drop_bit_eq_div)

lemma unat_and_low: "unat (w AND mask n) = unat w mod 2 ^ n"
  by (simp add: take_bit_eq_mask [symmetric] unsigned_take_bit_eq) (simp add: take_bit_eq_mod)

lemma unat_complement_u16: "unat (NOT (x :: u16)) = 65535 - unat x"
proof -
  have "NOT x = -1 - x" by (simp add: not_eq_complement)
  moreover have "unat (-1 - x) = unat (-1 :: u16) - unat x"
    by (rule unat_sub) simp
  moreover have "(-1 :: u16) = 65535" by simp
  ultimately show ?thesis by simp
qed

lemma mod_complement: "f \<le> M \<Longrightarrow> f mod M = s mod M \<Longrightarrow> (M - f + s) mod M = (0 :: nat)"
  by (metis le_add_diff_inverse2 mod_add_right_eq mod_self)

lemma unat_ucast_up [simp]:
  "unat (ucast (a :: byte) :: u16) = unat a" "unat (ucast (a :: byte) :: u32) = unat a"
  "unat (ucast (b :: u16) :: u32) = unat b"
  by (simp_all add: unsigned_ucast_eq take_bit_nat_eq_self_iff less_le_trans [OF unsigned_less])

lemma unat_ucast_low: "unat (ucast (w :: u16) :: byte) = unat w mod 256"
  by (simp add: unsigned_ucast_eq take_bit_eq_mod)

lemma unat_of_nat_u16: "n < 65536 \<Longrightarrow> unat (of_nat n :: u16) = n"
  by (simp add: unsigned_of_nat take_bit_nat_eq_self_iff)

lemma unat_of_nat_u32: "n < 4294967296 \<Longrightarrow> unat (of_nat n :: u32) = n"
  by (simp add: unsigned_of_nat take_bit_nat_eq_self_iff)

lemma unat_of_nat_byte: "n < 256 \<Longrightarrow> unat (of_nat n :: byte) = n"
  by (simp add: unsigned_of_nat take_bit_nat_eq_self_iff)

subsection \<open>Bit fields\<close>

text \<open>A packed field is recovered bit by bit: small values have no high bits, and the positions of
  a byte or of a 16-bit word are enumerated.\<close>

lemma not_bit_small:
  assumes "unat w < 2 ^ k" and "k \<le> n"
  shows "\<not> bit w n"
proof -
  have "unat w div 2 ^ n = 0"
    using assms by (simp add: less_le_trans [OF assms(1)] power_increasing)
  then have "\<not> bit (unat w) n" by (simp add: bit_iff_odd)
  then show ?thesis by (simp add: bit_unsigned_iff)
qed

lemma and_mask_eqI:
  assumes "m = mask k" and "\<And>n. n < k \<Longrightarrow> bit w n = bit v n" and "\<And>n. k \<le> n \<Longrightarrow> \<not> bit v n"
  shows "w AND m = (v :: 'a :: len word)"
proof (rule bit_word_eqI)
  fix n assume "n < LENGTH('a)"
  then show "bit (w AND m) n = bit v n"
    using assms(2,3) [of n] by (cases "n < k") (simp_all add: assms(1) bit_simps)
qed

lemma less8_cases:
  "n < (8::nat) \<Longrightarrow> n = 7 \<or> n = 5 \<or> n = 3 \<or> n = 1 \<or> n = 6 \<or> n = 4 \<or> n = 2 \<or> n = 0"
  by arith

lemma less16_cases:
  "n < (16::nat) \<Longrightarrow> n = 15 \<or> n = 13 \<or> n = 11 \<or> n = 9 \<or> n = 7 \<or> n = 5 \<or> n = 3 \<or> n = 1
     \<or> n = 14 \<or> n = 12 \<or> n = 10 \<or> n = 8 \<or> n = 6 \<or> n = 4 \<or> n = 2 \<or> n = 0"
  by arith

lemma word_nonzero_bit: "(w :: 'a :: len word) AND 2 ^ n \<noteq> 0 \<longleftrightarrow> bit w n"
  by (metis and_exp_eq_0_iff_not_bit)

lemma nibbles:
  assumes "hi < 16" and "lo < (16 :: byte)"
  shows "drop_bit 4 (push_bit 4 hi OR lo) = hi" and "(push_bit 4 hi OR lo) AND 0x0F = lo"
proof -
  have h: "\<And>n. 4 \<le> n \<Longrightarrow> \<not> bit hi n" and l: "\<And>n. 4 \<le> n \<Longrightarrow> \<not> bit lo n"
    using assms by (simp_all add: not_bit_small [of _ 4] word_less_nat_alt)
  show "drop_bit 4 (push_bit 4 hi OR lo) = hi" "(push_bit 4 hi OR lo) AND 0x0F = lo"
    by (rule bit_word_eqI; auto simp: bit_simps h l dest!: less8_cases)+
qed

lemma byte_no_high_bit: "8 \<le> n \<Longrightarrow> \<not> bit (b :: byte) n"
  by (auto dest: bit_imp_le_length)

lemma u16_no_high_bit: "16 \<le> n \<Longrightarrow> \<not> bit (b :: u16) n"
  by (auto dest: bit_imp_le_length)

lemma bit_pow2: "bit (2 ^ k :: 'a :: len word) n \<longleftrightarrow> n = k \<and> k < LENGTH('a)"
  by (auto simp: bit_exp_iff exp_eq_0_imp_not_bit)

subsection \<open>Fields at an offset\<close>

text \<open>The integer at an index of a slice, and writes into a slice whose bytes behind a prefix are still to be written.\<close>

definition u16_at :: "bytes \<Rightarrow> nat \<Rightarrow> u16 option" where
  "u16_at data i = do { s \<leftarrow> slice data i (i + 2); get_be16 s }"

definition u32_at :: "bytes \<Rightarrow> nat \<Rightarrow> u32 option" where
  "u32_at data i = do { s \<leftarrow> slice data i (i + 4); get_be32 s }"

lemma u16_at_in [simp]: "i + 2 \<le> length data \<Longrightarrow> u16_at data i = Some (mk16 (data ! i) (data ! Suc i))"
  by (simp add: u16_at_def get_be16_def)

lemma u32_at_in [simp]: "i + 4 \<le> length data \<Longrightarrow> u32_at data i = Some (mk32 (data ! i) (data ! (i + 1)) (data ! (i + 2)) (data ! (i + 3)))"
  by (simp add: u32_at_def get_be32_def add.commute)

lemma u16_at_mid: "n = length pre \<Longrightarrow> u16_at (pre @ be16 v @ rest) n = Some v"
  by (simp add: u16_at_def)

lemma u32_at_mid: "n = length pre \<Longrightarrow> u32_at (pre @ be32 v @ rest) n = Some v"
  by (simp add: u32_at_def)

lemma slice_mid: "\<lbrakk>lo = length pre; hi = length pre + length x\<rbrakk> \<Longrightarrow> slice (pre @ x @ rest) lo hi = Some x"
  by (simp add: slice_def)

lemma write_mid: "\<lbrakk>length junk = length bs; n = length pre\<rbrakk> \<Longrightarrow> write_at (pre @ junk @ rest) n bs = Some (pre @ bs @ rest)"
  by (simp add: write_at_def)

lemma copy_mid: "\<lbrakk>length junk = length bs; n = length pre\<rbrakk> \<Longrightarrow> copy_at (pre @ junk @ rest) n bs = Some (pre @ bs @ rest)"
  by (simp add: copy_at_def write_at_def)

lemma cut_junk: "length junk = a + b \<Longrightarrow> \<exists>j1 j2. junk = j1 @ j2 \<and> length j1 = a \<and> length j2 = b"
  by (rule exI [of _ "take a junk"], rule exI [of _ "drop a junk"]) simp

lemma write_next:
  assumes "length junk = length bs + m" "n = length pre"
  shows "\<exists>junk'. write_at (pre @ junk @ rest) n bs = Some ((pre @ bs) @ junk' @ rest) \<and> length junk' = m"
proof -
  obtain j1 j2 where "junk = j1 @ j2" "length j1 = length bs" "length j2 = m" using cut_junk [OF assms(1)] by blast
  then show ?thesis using write_mid [of j1 bs n pre "j2 @ rest"] assms(2) by auto
qed

end
