(* ===== verification/Flows.thy ===== *)
theory Flows
  imports Go_Prelude
begin

section \<open>Endpoints and flows (\<^verbatim>\<open>flows.go\<close>)\<close>

text \<open>
  Endpoints and flows are the map keys of every stateful component: a type number and one or two
  byte strings of at most sixteen bytes kept in fixed arrays. The theory models the constructors,
  the accessors, the order, the FNV hashes and the registry of endpoint types, and shows that the
  padded representation is canonical, that the order is a strict total order on well-formed
  endpoints and that a flow hashes like its reverse.
\<close>

definition MaxEndpointSize :: nat where
  "MaxEndpointSize = 16"

type_synonym EndpointType = int

record Endpoint =
  ep_typ :: EndpointType
  ep_len :: nat
  ep_raw :: bytes

record Flow =
  fl_typ :: EndpointType
  fl_slen :: nat
  fl_dlen :: nat
  fl_src :: bytes
  fl_dst :: bytes

subsection \<open>Operations\<close>

text \<open>\<^verbatim>\<open>copy(e.raw[:], raw)\<close> into a fresh zeroed array.\<close>

definition pad16 :: "bytes \<Rightarrow> bytes" where
  "pad16 raw = raw @ replicate (MaxEndpointSize - length raw) 0"

definition NewEndpoint :: "EndpointType \<Rightarrow> bytes \<Rightarrow> Endpoint option" where
  "NewEndpoint typ raw =
     (if length raw > MaxEndpointSize then None
      else Some \<lparr>ep_typ = typ, ep_len = length raw, ep_raw = pad16 raw\<rparr>)"

definition Raw :: "Endpoint \<Rightarrow> bytes" where
  "Raw a = take (ep_len a) (ep_raw a)"

text \<open>\<^verbatim>\<open>bytes.Compare\<close>: lexicographic, a proper prefix is smaller.\<close>

fun bytes_compare :: "bytes \<Rightarrow> bytes \<Rightarrow> int" where
  "bytes_compare [] [] = 0"
| "bytes_compare [] (y # ys) = -1"
| "bytes_compare (x # xs) [] = 1"
| "bytes_compare (x # xs) (y # ys) =
     (if x < y then -1 else if y < x then 1 else bytes_compare xs ys)"

definition LessThan :: "Endpoint \<Rightarrow> Endpoint \<Rightarrow> bool" where
  "LessThan a b \<longleftrightarrow> ep_typ a < ep_typ b \<or> (ep_typ a = ep_typ b \<and> bytes_compare (Raw a) (Raw b) < 0)"

definition fnvBasis :: u64 where
  "fnvBasis = 14695981039346656037"

definition fnvPrime :: u64 where
  "fnvPrime = 1099511628211"

definition fnvHash :: "bytes \<Rightarrow> u64" where
  "fnvHash s = foldl (\<lambda>h b. (h XOR ucast b) * fnvPrime) fnvBasis s"

definition Endpoint_FastHash :: "Endpoint \<Rightarrow> u64" where
  "Endpoint_FastHash a = (fnvHash (Raw a) XOR word_of_int (ep_typ a)) * fnvPrime"

definition FlowFromEndpoints :: "Endpoint \<Rightarrow> Endpoint \<Rightarrow> goerr + Flow" where
  "FlowFromEndpoints src dst =
     (if ep_typ src \<noteq> ep_typ dst
      then Inl (Errorf ''Mismatched endpoint types: %v->%v'' [ep_typ src, ep_typ dst])
      else Inr \<lparr>fl_typ = ep_typ src, fl_slen = ep_len src, fl_dlen = ep_len dst,
                fl_src = ep_raw src, fl_dst = ep_raw dst\<rparr>)"

definition Flow_FastHash :: "Flow \<Rightarrow> u64" where
  "Flow_FastHash f =
     ((fnvHash (take (fl_slen f) (fl_src f)) + fnvHash (take (fl_dlen f) (fl_dst f)))
      XOR word_of_int (fl_typ f)) * fnvPrime"

definition Endpoints :: "Flow \<Rightarrow> Endpoint \<times> Endpoint" where
  "Endpoints f = (\<lparr>ep_typ = fl_typ f, ep_len = fl_slen f, ep_raw = fl_src f\<rparr>,
                  \<lparr>ep_typ = fl_typ f, ep_len = fl_dlen f, ep_raw = fl_dst f\<rparr>)"

definition Src :: "Flow \<Rightarrow> Endpoint" where
  "Src f = fst (Endpoints f)"

definition Dst :: "Flow \<Rightarrow> Endpoint" where
  "Dst f = snd (Endpoints f)"

definition Reverse :: "Flow \<Rightarrow> Flow" where
  "Reverse f = \<lparr>fl_typ = fl_typ f, fl_slen = fl_dlen f, fl_dlen = fl_slen f,
                fl_src = fl_dst f, fl_dst = fl_src f\<rparr>"

definition NewFlow :: "EndpointType \<Rightarrow> bytes \<Rightarrow> bytes \<Rightarrow> Flow option" where
  "NewFlow t src dst =
     (if length src > MaxEndpointSize \<or> length dst > MaxEndpointSize then None
      else Some \<lparr>fl_typ = t, fl_slen = length src, fl_dlen = length dst,
                 fl_src = pad16 src, fl_dst = pad16 dst\<rparr>)"

text \<open>The registry \<^verbatim>\<open>endpointTypes\<close>: names and formatters by type number. Registering a
  number twice panics.\<close>

record EndpointTypeMetadata =
  etm_Name :: string
  etm_Formatter :: "(bytes \<Rightarrow> string) option"

type_synonym endpoint_registry = "EndpointType \<rightharpoonup> EndpointTypeMetadata"

definition RegisterEndpointType ::
  "endpoint_registry \<Rightarrow> int \<Rightarrow> EndpointTypeMetadata \<Rightarrow> (endpoint_registry \<times> EndpointType) option" where
  "RegisterEndpointType reg num meta =
     (case reg num of Some _ \<Rightarrow> None | None \<Rightarrow> Some (reg(num \<mapsto> meta), num))"

definition EndpointInvalid :: EndpointType where
  "EndpointInvalid = 0"

definition InvalidEndpoint :: Endpoint where
  "InvalidEndpoint = \<lparr>ep_typ = EndpointInvalid, ep_len = 0, ep_raw = pad16 []\<rparr>"

definition InvalidFlow :: Flow where
  "InvalidFlow = \<lparr>fl_typ = EndpointInvalid, fl_slen = 0, fl_dlen = 0, fl_src = pad16 [], fl_dst = pad16 []\<rparr>"

subsection \<open>Well-formedness\<close>

text \<open>What the constructors establish: a sixteen-byte array that is zero beyond the length.\<close>

definition wf_raw :: "nat \<Rightarrow> bytes \<Rightarrow> bool" where
  "wf_raw n raw \<longleftrightarrow> n \<le> MaxEndpointSize \<and> raw = pad16 (take n raw) \<and> n \<le> length raw"

definition wf_endpoint :: "Endpoint \<Rightarrow> bool" where
  "wf_endpoint a \<longleftrightarrow> wf_raw (ep_len a) (ep_raw a)"

definition wf_flow :: "Flow \<Rightarrow> bool" where
  "wf_flow f \<longleftrightarrow> wf_raw (fl_slen f) (fl_src f) \<and> wf_raw (fl_dlen f) (fl_dst f)"

lemmas flow_defs = FlowFromEndpoints_def Flow_FastHash_def Endpoints_def Src_def Dst_def
  Reverse_def NewFlow_def NewEndpoint_def Raw_def wf_endpoint_def wf_flow_def

lemma length_pad16: "length raw \<le> 16 \<Longrightarrow> length (pad16 raw) = 16"
  by (simp add: pad16_def MaxEndpointSize_def)

lemma take_pad16 [simp]: "take (length raw) (pad16 raw) = raw"
  by (simp add: pad16_def)

lemma wf_raw_pad16: "length raw \<le> 16 \<Longrightarrow> wf_raw (length raw) (pad16 raw)"
  by (simp add: wf_raw_def MaxEndpointSize_def length_pad16)

lemma wf_raw_eqI:
  "wf_raw n a \<Longrightarrow> wf_raw m b \<Longrightarrow> take n a = take m b \<Longrightarrow> n = m \<and> a = b"
  unfolding wf_raw_def by (metis length_take min.absorb2)

lemma pad16_inject:
  "length a = length b \<Longrightarrow> pad16 a = pad16 b \<Longrightarrow> a = b"
  by (simp add: pad16_def)

lemma NewEndpoint_wf: "NewEndpoint t raw = Some e \<Longrightarrow> wf_endpoint e \<and> ep_typ e = t \<and> Raw e = raw"
  by (auto simp: flow_defs MaxEndpointSize_def wf_raw_pad16 split: if_splits)

lemma NewFlow_wf: "NewFlow t s d = Some f \<Longrightarrow> wf_flow f"
  by (auto simp: flow_defs MaxEndpointSize_def wf_raw_pad16 split: if_splits)

lemma Endpoints_wf: "wf_flow f \<Longrightarrow> wf_endpoint (Src f) \<and> wf_endpoint (Dst f)"
  by (simp add: flow_defs)

lemma Reverse_wf: "wf_flow f \<Longrightarrow> wf_flow (Reverse f)"
  by (simp add: flow_defs)

subsection \<open>The order on endpoints\<close>

text \<open>The contract of a comparison function such as \<^verbatim>\<open>LessThan\<close>, on the values its clients
  build: a strict total order. Sorting and canonical flow direction rest on it.\<close>

locale strict_total_on =
  fixes wf :: "'a \<Rightarrow> bool" and less :: "'a \<Rightarrow> 'a \<Rightarrow> bool"
  assumes irrefl: "\<not> less a a"
    and trans: "less a b \<Longrightarrow> less b c \<Longrightarrow> less a c"
    and total: "wf a \<Longrightarrow> wf b \<Longrightarrow> a \<noteq> b \<Longrightarrow> less a b \<or> less b a"
begin

lemma asym: "less a b \<Longrightarrow> \<not> less b a"
  using irrefl trans by blast

lemma eq_iff: "wf a \<Longrightarrow> wf b \<Longrightarrow> a = b \<longleftrightarrow> \<not> less a b \<and> \<not> less b a"
  using irrefl total by blast

text \<open>Choosing the smaller endpoint first gives the same pair for both directions of a
  conversation.\<close>

lemma canonical_pair:
  "wf a \<Longrightarrow> wf b \<Longrightarrow> (if less b a then (b, a) else (a, b)) = (if less a b then (a, b) else (b, a))"
  using total asym by auto

end

lemma bytes_compare_eq: "bytes_compare xs ys = 0 \<longleftrightarrow> xs = ys"
  by (induction xs ys rule: bytes_compare.induct) auto

lemma bytes_compare_refl [simp]: "bytes_compare xs xs = 0"
  by (simp add: bytes_compare_eq)

lemma bytes_compare_swap: "bytes_compare ys xs = - bytes_compare xs ys"
  by (induction xs ys rule: bytes_compare.induct) auto

lemma bytes_compare_trans:
  "bytes_compare xs ys < 0 \<Longrightarrow> bytes_compare ys zs < 0 \<Longrightarrow> bytes_compare xs zs < 0"
proof (induction xs ys arbitrary: zs rule: bytes_compare.induct)
  case (4 x xs y ys)
  then show ?case
    by (cases zs) (auto split: if_splits)
next
  case (2 y ys)
  then show ?case by (cases zs) auto
qed auto

interpretation ep_order: strict_total_on wf_endpoint LessThan
proof
  fix a b :: Endpoint
  show "\<not> LessThan a a" by (simp add: LessThan_def)
  assume wf: "wf_endpoint a" "wf_endpoint b" and ne: "a \<noteq> b"
  show "LessThan a b \<or> LessThan b a"
  proof (rule ccontr)
    assume "\<not> (LessThan a b \<or> LessThan b a)"
    then have "ep_typ a = ep_typ b" and "bytes_compare (Raw a) (Raw b) = 0"
      by (auto simp: LessThan_def bytes_compare_swap [of "Raw b"])
    then have "Raw a = Raw b" by (simp add: bytes_compare_eq)
    with wf have "ep_len a = ep_len b \<and> ep_raw a = ep_raw b"
      unfolding wf_endpoint_def Raw_def by (rule wf_raw_eqI)
    with \<open>ep_typ a = ep_typ b\<close> ne show False by simp
  qed
next
  fix a b c :: Endpoint
  show "LessThan a b \<Longrightarrow> LessThan b c \<Longrightarrow> LessThan a c"
    by (auto simp: LessThan_def intro: bytes_compare_trans)
qed

subsection \<open>Properties\<close>

lemma Reverse_Reverse [simp]: "Reverse (Reverse f) = f"
  by (simp add: Reverse_def)

lemma Src_Reverse [simp]: "Src (Reverse f) = Dst f" and Dst_Reverse [simp]: "Dst (Reverse f) = Src f"
  by (simp_all add: flow_defs)

text \<open>Flows built by \<^verbatim>\<open>NewFlow\<close> are canonical map keys: two of them are equal exactly
  when their type and both byte strings are, and the byte strings are recovered by
  \<^verbatim>\<open>Src\<close>, \<^verbatim>\<open>Dst\<close> and \<^verbatim>\<open>Raw\<close>.\<close>

lemma NewFlow_canonical:
  assumes "NewFlow t s d = Some f" and "NewFlow t' s' d' = Some f'"
  shows "(f = f' \<longleftrightarrow> t = t' \<and> s = s' \<and> d = d') \<and> Raw (Src f) = s \<and> Raw (Dst f) = d"
proof -
  from assms(1) have f: "f = \<lparr>fl_typ = t, fl_slen = length s, fl_dlen = length d, fl_src = pad16 s, fl_dst = pad16 d\<rparr>"
    by (simp add: NewFlow_def split: if_splits)
  from assms(2) have f': "f' = \<lparr>fl_typ = t', fl_slen = length s', fl_dlen = length d', fl_src = pad16 s', fl_dst = pad16 d'\<rparr>"
    by (simp add: NewFlow_def split: if_splits)
  show ?thesis
    using pad16_inject [of s s'] pad16_inject [of d d'] by (auto simp: f f' flow_defs)
qed

lemma NewFlow_canonical_witness:
  "\<exists>f. NewFlow 1 [10, 0, 0, 1] [10, 0, 0, 2] = Some f \<and> Raw (Src f) = [10, 0, 0, 1] \<and> Raw (Dst f) = [10, 0, 0, 2]"
proof -
  have "NewFlow 1 [10, 0, 0, 1] [10, 0, 0, 2] \<noteq> None"
    by (simp add: NewFlow_def MaxEndpointSize_def)
  then obtain f where f: "NewFlow 1 [10, 0, 0, 1] [10, 0, 0, 2] = Some f" by blast
  from NewFlow_canonical [OF f f] f show ?thesis by blast
qed

text \<open>A flow and its reverse hash alike, so both directions of a conversation go to the same
  bucket; reversing swaps the two endpoints and is its own inverse.\<close>

lemma Flow_FastHash_Reverse:
  "Flow_FastHash (Reverse f) = Flow_FastHash f \<and> Endpoints (Reverse f) = prod.swap (Endpoints f)
   \<and> Reverse (Reverse f) = f"
  by (simp add: flow_defs add.commute)

text \<open>\<^verbatim>\<open>Endpoint.LessThan\<close> is a strict total order on the endpoints the constructors build:
  irreflexive, transitive, and two well-formed endpoints that are not ordered either way are
  equal.\<close>

lemma LessThan_strict_total:
  "\<not> LessThan a a
   \<and> (LessThan a b \<longrightarrow> LessThan b c \<longrightarrow> LessThan a c)
   \<and> (wf_endpoint a \<longrightarrow> wf_endpoint b \<longrightarrow> (a = b \<longleftrightarrow> \<not> LessThan a b \<and> \<not> LessThan b a))"
  using ep_order.irrefl ep_order.trans ep_order.eq_iff by blast

lemma LessThan_strict_total_witness:
  "wf_endpoint \<lparr>ep_typ = 1, ep_len = 1, ep_raw = pad16 [7]\<rparr> \<and>
   LessThan \<lparr>ep_typ = 1, ep_len = 1, ep_raw = pad16 [7]\<rparr> \<lparr>ep_typ = 1, ep_len = 2, ep_raw = pad16 [7, 0]\<rparr> \<and>
   \<not> LessThan \<lparr>ep_typ = 1, ep_len = 2, ep_raw = pad16 [7, 0]\<rparr> \<lparr>ep_typ = 1, ep_len = 1, ep_raw = pad16 [7]\<rparr>"
proof -
  let ?a = "\<lparr>ep_typ = 1, ep_len = 1, ep_raw = pad16 [7]\<rparr>"
  let ?b = "\<lparr>ep_typ = 1, ep_len = 2, ep_raw = pad16 [7, 0]\<rparr>"
  have wf: "wf_endpoint ?a" "wf_endpoint ?b"
    using wf_raw_pad16 [of "[7]"] wf_raw_pad16 [of "[7, 0]"]
    by (simp_all add: wf_endpoint_def numeral_2_eq_2)
  have lt: "LessThan ?a ?b"
    by (simp add: LessThan_def Raw_def pad16_def MaxEndpointSize_def)
  have "\<not> LessThan ?b ?a"
    using LessThan_strict_total [of ?a ?b ?a] lt by blast
  with wf lt show ?thesis by blast
qed

end
