(* ===== verification/Serialize_Buffer.thy ===== *)
theory Serialize_Buffer
  imports Go_Prelude
begin

section \<open>The serialization buffer (\<^verbatim>\<open>writer.go\<close>)\<close>

text \<open>
  \<^verbatim>\<open>serializeBuffer\<close> keeps the packet being built at the end of a growing array, so that layers
  can prepend their headers without moving the payload. The model keeps the backing array
  explicitly: \<open>sb_data\<close> is \<^verbatim>\<open>w.data\<close>, \<open>sb_spare\<close> the bytes between its length and its
  capacity. Bytes handed out again after \<^verbatim>\<open>Clear\<close> are the stale ones of the array, as in the
  code. The locale \<open>byte_buffer\<close> states the contract of the interface \<^verbatim>\<open>SerializeBuffer\<close>; the
  interpretation shows that \<^verbatim>\<open>serializeBuffer\<close> keeps it.
\<close>

type_synonym LayerType = int

record serializeBuffer =
  sb_data :: bytes
  sb_spare :: bytes
  sb_start :: nat
  sb_prepended :: nat
  sb_appended :: nat
  sb_layers :: "LayerType list"

record SerializeOptions =
  FixLengths :: bool
  ComputeChecksums :: bool

abbreviation sb_cap :: "serializeBuffer \<Rightarrow> nat" where
  "sb_cap w \<equiv> length (sb_data w) + length (sb_spare w)"

subsection \<open>Operations\<close>

definition NewSerializeBuffer :: serializeBuffer where
  "NewSerializeBuffer = \<lparr>sb_data = [], sb_spare = [], sb_start = 0, sb_prepended = 0, sb_appended = 0, sb_layers = []\<rparr>"

text \<open>\<^verbatim>\<open>make\<close> panics on a negative length or capacity.\<close>

definition NewSerializeBufferExpectedSize :: "int \<Rightarrow> int \<Rightarrow> serializeBuffer option" where
  "NewSerializeBufferExpectedSize expectedPrependLength expectedAppendLength =
     (if expectedPrependLength < 0 \<or> expectedAppendLength < 0 then None
      else Some \<lparr>sb_data = replicate (nat expectedPrependLength) 0,
                 sb_spare = replicate (nat expectedAppendLength) 0,
                 sb_start = nat expectedPrependLength,
                 sb_prepended = nat expectedPrependLength,
                 sb_appended = nat expectedAppendLength,
                 sb_layers = []\<rparr>)"

definition Bytes :: "serializeBuffer \<Rightarrow> bytes" where
  "Bytes w = drop (sb_start w) (sb_data w)"

text \<open>The growing half of \<^verbatim>\<open>PrependBytes\<close>: a new array, the live bytes copied to its end.\<close>

definition grow_front :: "serializeBuffer \<Rightarrow> nat \<Rightarrow> serializeBuffer" where
  "grow_front w num =
     (let toPrepend = (if sb_prepended w < num then num else sb_prepended w);
          newStart = sb_start w + toPrepend
      in w\<lparr>sb_prepended := sb_prepended w + toPrepend,
           sb_start := newStart,
           sb_data := replicate newStart 0 @ Bytes w,
           sb_spare := replicate (sb_cap w - length (sb_data w)) 0\<rparr>)"

definition PrependBytes :: "serializeBuffer \<Rightarrow> int \<Rightarrow> serializeBuffer option" where
  "PrependBytes w num =
     (if num < 0 then None
      else let w1 = (if sb_start w < nat num then grow_front w (nat num) else w)
           in Some (w1\<lparr>sb_start := sb_start w1 - nat num\<rparr>))"

definition grow_back :: "serializeBuffer \<Rightarrow> nat \<Rightarrow> serializeBuffer" where
  "grow_back w num =
     (let toAppend = (if sb_appended w < num then num else sb_appended w)
      in w\<lparr>sb_appended := sb_appended w + toAppend,
           sb_data := replicate (sb_start w) 0 @ Bytes w,
           sb_spare := replicate (sb_cap w + toAppend - length (sb_data w)) 0\<rparr>)"

definition AppendBytes :: "serializeBuffer \<Rightarrow> int \<Rightarrow> serializeBuffer option" where
  "AppendBytes w num =
     (if num < 0 then None
      else let w1 = (if length (sb_spare w) < nat num then grow_back w (nat num) else w)
           in Some (w1\<lparr>sb_data := sb_data w1 @ take (nat num) (sb_spare w1),
                       sb_spare := drop (nat num) (sb_spare w1)\<rparr>))"

text \<open>\<^verbatim>\<open>w.data[:w.start]\<close> is checked against the capacity, not the length.\<close>

definition Clear :: "serializeBuffer \<Rightarrow> serializeBuffer option" where
  "Clear w =
     (let whole = sb_data w @ sb_spare w; start = sb_prepended w
      in if start \<le> length whole
         then Some (w\<lparr>sb_start := start, sb_data := take start whole, sb_spare := drop start whole,
                      sb_layers := []\<rparr>)
         else None)"

definition Layers :: "serializeBuffer \<Rightarrow> LayerType list" where
  "Layers w = sb_layers w"

definition PushLayer :: "serializeBuffer \<Rightarrow> LayerType \<Rightarrow> serializeBuffer" where
  "PushLayer w l = w\<lparr>sb_layers := sb_layers w @ [l]\<rparr>"

text \<open>The slice returned by \<^verbatim>\<open>PrependBytes\<close> aliases the buffer: it is the first \<open>n\<close> live bytes,
  and what the caller stores in it is stored in the buffer. \<open>store_front\<close> puts the bytes of such a
  slice back; \<open>store_back\<close> does it for the slice returned by \<^verbatim>\<open>AppendBytes\<close>.\<close>

definition store_front :: "serializeBuffer \<Rightarrow> bytes \<Rightarrow> serializeBuffer" where
  "store_front w bs =
     w\<lparr>sb_data := take (sb_start w) (sb_data w) @ bs @ drop (sb_start w + length bs) (sb_data w)\<rparr>"

definition store_back :: "serializeBuffer \<Rightarrow> bytes \<Rightarrow> serializeBuffer" where
  "store_back w bs = w\<lparr>sb_data := take (length (sb_data w) - length bs) (sb_data w) @ bs\<rparr>"

text \<open>A value of the interface \<^verbatim>\<open>SerializableLayer\<close>: its layer type and its \<^verbatim>\<open>SerializeTo\<close>.\<close>

record SerializableLayer =
  sl_LayerType :: LayerType
  sl_SerializeTo :: "serializeBuffer \<Rightarrow> SerializeOptions \<Rightarrow> (serializeBuffer \<times> goerr option) option"

text \<open>The loop of \<^verbatim>\<open>SerializeLayers\<close> runs from the last layer to the first; the argument list is
  reversed.\<close>

fun serialize_loop ::
  "serializeBuffer \<Rightarrow> SerializeOptions \<Rightarrow> SerializableLayer list \<Rightarrow> (serializeBuffer \<times> goerr option) option" where
  "serialize_loop w opts [] = Some (w, None)"
| "serialize_loop w opts (layer # layers) =
     do { (w1, err) \<leftarrow> sl_SerializeTo layer w opts;
          case err of
            Some e \<Rightarrow> Some (w1, Some e)
          | None \<Rightarrow> serialize_loop (PushLayer w1 (sl_LayerType layer)) opts layers }"

definition SerializeLayers ::
  "serializeBuffer \<Rightarrow> SerializeOptions \<Rightarrow> SerializableLayer list \<Rightarrow> (serializeBuffer \<times> goerr option) option" where
  "SerializeLayers w opts layers = do { w1 \<leftarrow> Clear w; serialize_loop w1 opts (rev layers) }"

text \<open>\<^verbatim>\<open>SerializePacket\<close> walks the layers of a decoded packet; the type assertion to
  \<^verbatim>\<open>SerializableLayer\<close> fails for layers without a \<^verbatim>\<open>SerializeTo\<close>.\<close>

fun collect_serializable :: "(LayerType \<times> SerializableLayer option) list \<Rightarrow> goerr + SerializableLayer list" where
  "collect_serializable [] = Inr []"
| "collect_serializable ((t, l) # ls) =
     (case l of
        None \<Rightarrow> Inl (Errorf ''layer %s is not serializable'' [t])
      | Some sl \<Rightarrow>
          (case collect_serializable ls of Inl e \<Rightarrow> Inl e | Inr sls \<Rightarrow> Inr (sl # sls)))"

definition SerializePacket ::
  "serializeBuffer \<Rightarrow> SerializeOptions \<Rightarrow> (LayerType \<times> SerializableLayer option) list
     \<Rightarrow> (serializeBuffer \<times> goerr option) option" where
  "SerializePacket buf opts packet_layers =
     (case collect_serializable packet_layers of
        Inl e \<Rightarrow> Some (buf, Some e)
      | Inr sls \<Rightarrow> SerializeLayers buf opts sls)"

text \<open>The layers \<^verbatim>\<open>Payload\<close> and \<^verbatim>\<open>Fragment\<close> of \<^verbatim>\<open>base.go\<close> serialize alike: they prepend
  their bytes.\<close>

definition Payload_SerializeTo ::
  "bytes \<Rightarrow> serializeBuffer \<Rightarrow> SerializeOptions \<Rightarrow> (serializeBuffer \<times> goerr option) option" where
  "Payload_SerializeTo p b opts =
     do { b1 \<leftarrow> PrependBytes b (int (length p));
          window \<leftarrow> copy_at (take (length p) (Bytes b1)) 0 p;
          Some (store_front b1 window, None) }"

definition Fragment_SerializeTo ::
  "bytes \<Rightarrow> serializeBuffer \<Rightarrow> SerializeOptions \<Rightarrow> (serializeBuffer \<times> goerr option) option" where
  "Fragment_SerializeTo p b opts =
     do { b1 \<leftarrow> PrependBytes b (int (length p));
          window \<leftarrow> copy_at (take (length p) (Bytes b1)) 0 p;
          Some (store_front b1 window, None) }"

subsection \<open>Invariant\<close>

definition sb_inv :: "serializeBuffer \<Rightarrow> bool" where
  "sb_inv w \<longleftrightarrow> sb_start w \<le> length (sb_data w) \<and> sb_prepended w \<le> sb_cap w"

lemma sb_inv_New [simp]: "sb_inv NewSerializeBuffer"
  by (simp add: sb_inv_def NewSerializeBuffer_def)

lemma Bytes_New [simp]: "Bytes NewSerializeBuffer = []"
  by (simp add: Bytes_def NewSerializeBuffer_def)

lemma sb_inv_NewExpected: "NewSerializeBufferExpectedSize p a = Some w \<Longrightarrow> sb_inv w \<and> Bytes w = []"
  by (auto simp: sb_inv_def NewSerializeBufferExpectedSize_def Bytes_def split: if_splits)

lemma grow_front_props:
  assumes "sb_inv w"
  shows "sb_inv (grow_front w n)" and "Bytes (grow_front w n) = Bytes w" and "n \<le> sb_start (grow_front w n)"
  using assms by (auto simp: grow_front_def sb_inv_def Bytes_def Let_def)

lemma grow_back_props:
  assumes "sb_inv w"
  shows "sb_inv (grow_back w n)" and "Bytes (grow_back w n) = Bytes w"
    and "n \<le> length (sb_spare (grow_back w n))" and "sb_start (grow_back w n) = sb_start w"
  using assms by (auto simp: grow_back_def sb_inv_def Bytes_def Let_def)

lemma Bytes_move_start:
  assumes "n \<le> sb_start w"
  shows "Bytes (w\<lparr>sb_start := sb_start w - n\<rparr>) = take n (drop (sb_start w - n) (sb_data w)) @ Bytes w"
proof -
  let ?d = "drop (sb_start w - n) (sb_data w)"
  have "drop (sb_start w) (sb_data w) = drop n ?d"
    using assms by simp
  then have "take n ?d @ drop (sb_start w) (sb_data w) = ?d"
    by (metis append_take_drop_id)
  then show ?thesis by (simp add: Bytes_def)
qed

subsection \<open>The contract of the interface\<close>

text \<open>
  What a serializer relies on: after \<open>prep w n\<close> the live bytes are \<open>n\<close> bytes in an
  indeterminate state followed by the old ones, storing into the returned slice replaces exactly
  those, and \<open>clear\<close> empties the buffer.
\<close>

locale byte_buffer =
  fixes inv :: "'b \<Rightarrow> bool" and live :: "'b \<Rightarrow> bytes"
    and prep :: "'b \<Rightarrow> int \<Rightarrow> 'b option" and app :: "'b \<Rightarrow> int \<Rightarrow> 'b option"
    and put_front :: "'b \<Rightarrow> bytes \<Rightarrow> 'b" and put_back :: "'b \<Rightarrow> bytes \<Rightarrow> 'b"
    and clear :: "'b \<Rightarrow> 'b option"
  assumes prep_ok: "inv w \<Longrightarrow> \<exists>w' junk. prep w (int n) = Some w' \<and> inv w' \<and> length junk = n \<and> live w' = junk @ live w"
    and app_ok: "inv w \<Longrightarrow> \<exists>w' junk. app w (int n) = Some w' \<and> inv w' \<and> length junk = n \<and> live w' = live w @ junk"
    and clear_ok: "inv w \<Longrightarrow> \<exists>w'. clear w = Some w' \<and> inv w' \<and> live w' = []"
    and put_front_ok: "inv w \<Longrightarrow> length bs \<le> length (live w) \<Longrightarrow>
          inv (put_front w bs) \<and> live (put_front w bs) = bs @ drop (length bs) (live w)"
    and put_back_ok: "inv w \<Longrightarrow> length bs \<le> length (live w) \<Longrightarrow>
          inv (put_back w bs) \<and> live (put_back w bs) = take (length (live w) - length bs) (live w) @ bs"
begin

text \<open>Prepending and filling the whole slice prepends exactly the header, whatever the buffer held
  before.\<close>

lemma prepend_header:
  assumes "inv w" and "prep w (int (length h)) = Some w'"
  shows "inv (put_front w' h) \<and> live (put_front w' h) = h @ live w"
proof -
  from prep_ok [OF assms(1), of "length h"] assms(2) obtain junk where
    "inv w'" "length junk = length h" "live w' = junk @ live w"
    by auto
  then show ?thesis using put_front_ok [of w' h] by simp
qed

lemma append_trailer:
  assumes "inv w" and "app w (int (length t)) = Some w'"
  shows "inv (put_back w' t) \<and> live (put_back w' t) = live w @ t"
proof -
  from app_ok [OF assms(1), of "length t"] assms(2) obtain junk where
    "inv w'" "length junk = length t" "live w' = live w @ junk"
    by auto
  then show ?thesis using put_back_ok [of w' t] by simp
qed

end

interpretation sb: byte_buffer sb_inv Bytes PrependBytes AppendBytes store_front store_back Clear
proof
  fix w :: serializeBuffer and n :: nat and bs :: bytes
  assume inv: "sb_inv w"
  show "\<exists>w' junk. PrependBytes w (int n) = Some w' \<and> sb_inv w' \<and> length junk = n \<and> Bytes w' = junk @ Bytes w"
  proof -
    let ?w1 = "if sb_start w < n then grow_front w n else w"
    have w1: "sb_inv ?w1" "Bytes ?w1 = Bytes w" "n \<le> sb_start ?w1"
      using grow_front_props [OF inv, of n] inv by auto
    let ?junk = "take n (drop (sb_start ?w1 - n) (sb_data ?w1))"
    have "PrependBytes w (int n) = Some (?w1\<lparr>sb_start := sb_start ?w1 - n\<rparr>)"
      by (simp add: PrependBytes_def Let_def)
    moreover have "sb_inv (?w1\<lparr>sb_start := sb_start ?w1 - n\<rparr>)"
      using w1 by (auto simp: sb_inv_def)
    moreover have "length ?junk = n" using w1 by (auto simp: sb_inv_def)
    moreover have "Bytes (?w1\<lparr>sb_start := sb_start ?w1 - n\<rparr>) = ?junk @ Bytes w"
      using Bytes_move_start [OF w1(3)] w1(2) by simp
    ultimately show ?thesis by blast
  qed
  show "\<exists>w' junk. AppendBytes w (int n) = Some w' \<and> sb_inv w' \<and> length junk = n \<and> Bytes w' = Bytes w @ junk"
  proof -
    let ?w1 = "if length (sb_spare w) < n then grow_back w n else w"
    have w1: "sb_inv ?w1" "Bytes ?w1 = Bytes w" "n \<le> length (sb_spare ?w1)"
      using grow_back_props [OF inv, of n] inv by auto
    let ?w' = "?w1\<lparr>sb_data := sb_data ?w1 @ take n (sb_spare ?w1), sb_spare := drop n (sb_spare ?w1)\<rparr>"
    have "AppendBytes w (int n) = Some ?w'"
      by (simp add: AppendBytes_def Let_def)
    moreover have "sb_inv ?w'" using w1 by (auto simp: sb_inv_def)
    moreover have "Bytes ?w' = Bytes w @ take n (sb_spare ?w1)"
      unfolding w1(2) [symmetric] using w1(1) by (simp add: Bytes_def sb_inv_def)
    ultimately show ?thesis using w1(3) by (intro exI [of _ ?w'] exI [of _ "take n (sb_spare ?w1)"]) simp
  qed
  show "\<exists>w'. Clear w = Some w' \<and> sb_inv w' \<and> Bytes w' = []"
    using inv by (auto simp: Clear_def sb_inv_def Bytes_def Let_def)
  assume len: "length bs \<le> length (Bytes w)"
  show "sb_inv (store_front w bs) \<and> Bytes (store_front w bs) = bs @ drop (length bs) (Bytes w)"
    using inv len by (auto simp: store_front_def sb_inv_def Bytes_def add.commute)
  show "sb_inv (store_back w bs) \<and> Bytes (store_back w bs) = take (length (Bytes w) - length bs) (Bytes w) @ bs"
    using inv len by (auto simp: store_back_def sb_inv_def Bytes_def drop_take add.commute)
qed

text \<open>C20. \<^verbatim>\<open>serializeBuffer\<close> keeps the contract of the \<^verbatim>\<open>SerializeBuffer\<close> interface in every state
  that satisfies its invariant: \<^verbatim>\<open>PrependBytes\<close> and \<^verbatim>\<open>AppendBytes\<close> never panic, extend the live
  bytes by exactly the requested number at the front or at the back and leave the others as they
  are, whether or not the array has to grow; \<^verbatim>\<open>Clear\<close> never slices beyond the capacity and leaves
  no live byte; and the invariant is kept.\<close>

theorem serializeBuffer_contract:
  assumes "sb_inv w"
  shows "(\<exists>w' junk. PrependBytes w (int n) = Some w' \<and> sb_inv w' \<and> length junk = n \<and> Bytes w' = junk @ Bytes w)
    \<and> (\<exists>w' junk. AppendBytes w (int n) = Some w' \<and> sb_inv w' \<and> length junk = n \<and> Bytes w' = Bytes w @ junk)
    \<and> (\<exists>w'. Clear w = Some w' \<and> sb_inv w' \<and> Bytes w' = [])"
  using sb.prep_ok [OF assms] sb.app_ok [OF assms] sb.clear_ok [OF assms] by blast

theorem serializeBuffer_contract_witness:
  "\<exists>w' junk. PrependBytes NewSerializeBuffer (int 14) = Some w' \<and> sb_inv w' \<and> length junk = 14 \<and> Bytes w' = junk"
  using serializeBuffer_contract [of NewSerializeBuffer 14, OF sb_inv_New]
  by (simp add: Bytes_def NewSerializeBuffer_def)

subsection \<open>What the layers' serializers are proved to do\<close>

text \<open>\<open>layer_encodes opts l f\<close>: whatever the buffer held, \<open>l\<close> serializes without panic or error
  and turns the live bytes \<open>p\<close> into \<open>f p\<close>. Every serializer of the development is shown to
  satisfy it for its own \<open>f\<close>, the header followed by the payload in the usual case.\<close>

definition layer_encodes :: "SerializeOptions \<Rightarrow> SerializableLayer \<Rightarrow> (bytes \<Rightarrow> bytes) \<Rightarrow> bool" where
  "layer_encodes opts l f \<longleftrightarrow>
     (\<forall>w. sb_inv w \<longrightarrow> (\<exists>w'. sl_SerializeTo l w opts = Some (w', None) \<and> sb_inv w' \<and>
            Bytes w' = f (Bytes w) \<and> sb_layers w' = sb_layers w))"

lemma sb_layers_ops [simp]:
  "PrependBytes w n = Some w' \<Longrightarrow> sb_layers w' = sb_layers w"
  "AppendBytes w n = Some w' \<Longrightarrow> sb_layers w' = sb_layers w"
  "sb_layers (store_front w bs) = sb_layers w"
  "sb_layers (store_back w bs) = sb_layers w"
  by (auto simp: PrependBytes_def AppendBytes_def grow_front_def grow_back_def Let_def
        store_front_def store_back_def split: if_splits)

lemma Bytes_PushLayer [simp]: "Bytes (PushLayer w l) = Bytes w" "sb_inv (PushLayer w l) = sb_inv w"
  by (simp_all add: PushLayer_def Bytes_def sb_inv_def)

lemma sb_layers_PushLayer: "sb_layers (PushLayer w l) = sb_layers w @ [l]"
  by (simp add: PushLayer_def)

lemma serialize_loop_encodes:
  assumes "list_all2 (layer_encodes opts) ls fs" and "sb_inv w"
  shows "\<exists>w'. serialize_loop w opts ls = Some (w', None) \<and> sb_inv w' \<and> Bytes w' = fold id fs (Bytes w)
           \<and> sb_layers w' = sb_layers w @ map sl_LayerType ls"
  using assms
proof (induction ls fs arbitrary: w rule: list_all2_induct)
  case Nil
  then show ?case by simp
next
  case (Cons l ls f fs)
  from Cons.hyps(1) Cons.prems obtain w1 where w1: "sl_SerializeTo l w opts = Some (w1, None)"
      "sb_inv w1" "Bytes w1 = f (Bytes w)" "sb_layers w1 = sb_layers w"
    unfolding layer_encodes_def by blast
  from Cons.IH [of "PushLayer w1 (sl_LayerType l)"] w1 show ?case
    by (auto simp: sb_layers_PushLayer)
qed

text \<open>C21. \<^verbatim>\<open>SerializeLayers\<close> builds the packet from the inside out: if the layers encode
  their payloads with the functions \<open>fs\<close>, the buffer ends up holding the first function applied to
  the second, and so on down to the empty payload, whatever it held before, without panic or error, and \<^verbatim>\<open>Layers\<close> lists the layer types innermost first.\<close>

theorem SerializeLayers_encodes:
  assumes "list_all2 (layer_encodes opts) ls fs" and "sb_inv w"
  shows "\<exists>w'. SerializeLayers w opts ls = Some (w', None) \<and> sb_inv w'
           \<and> Bytes w' = foldr id fs [] \<and> Layers w' = rev (map sl_LayerType ls)"
proof -
  from sb.clear_ok [OF assms(2)] obtain w1 where w1: "Clear w = Some w1" "sb_inv w1" "Bytes w1 = []"
    by blast
  then have "sb_layers w1 = []"
    by (auto simp: Clear_def Let_def split: if_splits)
  moreover have "list_all2 (layer_encodes opts) (rev ls) (rev fs)"
    using assms(1) by simp
  ultimately show ?thesis
    using serialize_loop_encodes [of opts "rev ls" "rev fs" w1] w1
    by (auto simp: SerializeLayers_def Layers_def foldr_conv_fold rev_map)
qed

lemma PrependBytes_obtain:
  assumes "sb_inv w"
  obtains w' where "PrependBytes w (int n) = Some w'" and "sb_inv w'" and "length (take n (Bytes w')) = n"
    and "\<And>h. length h = n \<Longrightarrow> sb_inv (store_front w' h)"
    and "\<And>h. length h = n \<Longrightarrow> Bytes (store_front w' h) = h @ Bytes w"
    and "sb_layers w' = sb_layers w" and "drop n (Bytes w') = Bytes w"
proof -
  from sb.prep_ok [OF assms, of n] obtain w' junk where
    w': "PrependBytes w (int n) = Some w'" "sb_inv w'" "length junk = n" "Bytes w' = junk @ Bytes w"
    by blast
  show ?thesis
  proof (rule that [OF w'(1) w'(2)])
    show "length (take n (Bytes w')) = n" using w' by simp
    fix h :: bytes assume "length h = n"
    then show "sb_inv (store_front w' h)" "Bytes (store_front w' h) = h @ Bytes w"
      using sb.prepend_header [OF assms, of h w'] w'(1) by simp_all
  next
    show "sb_layers w' = sb_layers w" using w'(1) by simp
    show "drop n (Bytes w') = Bytes w" using w' by simp
  qed
qed

lemma Payload_encodes: "layer_encodes opts \<lparr>sl_LayerType = t, sl_SerializeTo = Payload_SerializeTo p\<rparr> ((@) p)"
  unfolding layer_encodes_def
proof (intro allI impI)
  fix w assume "sb_inv w"
  then show "\<exists>w'. sl_SerializeTo \<lparr>sl_LayerType = t, sl_SerializeTo = Payload_SerializeTo p\<rparr> w opts = Some (w', None) \<and>
      sb_inv w' \<and> Bytes w' = p @ Bytes w \<and> sb_layers w' = sb_layers w"
    by (rule PrependBytes_obtain [where n = "length p"]) (simp add: Payload_SerializeTo_def)
qed

theorem SerializeLayers_encodes_witness:
  "\<exists>w'. SerializeLayers NewSerializeBuffer \<lparr>FixLengths = True, ComputeChecksums = True\<rparr>
      [\<lparr>sl_LayerType = 3, sl_SerializeTo = Payload_SerializeTo [1, 2]\<rparr>,
       \<lparr>sl_LayerType = 2, sl_SerializeTo = Payload_SerializeTo [3]\<rparr>] = Some (w', None)
     \<and> Bytes w' = [1, 2, 3] \<and> Layers w' = [2, 3]"
  using SerializeLayers_encodes [of "\<lparr>FixLengths = True, ComputeChecksums = True\<rparr>"
      "[\<lparr>sl_LayerType = 3, sl_SerializeTo = Payload_SerializeTo [1, 2]\<rparr>,
        \<lparr>sl_LayerType = 2, sl_SerializeTo = Payload_SerializeTo [3]\<rparr>]"
      "[(@) [1, 2], (@) [3]]" NewSerializeBuffer]
  by (auto simp: Payload_encodes)

end
