(* ===== verification/Checksum.thy ===== *)
theory Checksum
  imports Go_Prelude
begin

section \<open>The Internet checksum (\<^verbatim>\<open>layers/tcpip.go\<close>, \<^verbatim>\<open>layers/ip4.go\<close>)\<close>

text \<open>
  The sum of the big-endian 16-bit words in a 32-bit accumulator, the loop that folds the carries
  back in, and the complement. The accumulator wraps; the lemmas say when it does not. The main
  result is the receiver's check: the checksum of the data with the computed checksum stored in it
  is zero.
\<close>

subsection \<open>Definitions\<close>

text \<open>The summation loop of \<^verbatim>\<open>tcpipChecksum\<close>, with its treatment of an odd last byte.\<close>

fun sum_words :: "bytes \<Rightarrow> u32 \<Rightarrow> u32" where
  "sum_words (a # b # rest) csum = sum_words rest ((csum + push_bit 8 (ucast a)) + ucast b)"
| "sum_words [a] csum = csum + push_bit 8 (ucast a)"
| "sum_words [] csum = csum"

lemma unat_and_ffff: "unat (c AND 0xffff :: u32) = unat c mod 65536"
  using unat_and_low [of c 16] by (simp add: mask_eq_exp_minus_1)

lemma fold_decreases:
  assumes "0xffff < (c :: u32)"
  shows "unat (drop_bit 16 c + (c AND 0xffff)) = unat c div 65536 + unat c mod 65536"
    and "unat (drop_bit 16 c + (c AND 0xffff)) < unat c"
proof -
  have c: "unat c < 4294967296" by (rule unat_u32_less)
  have d: "unat (drop_bit 16 c) = unat c div 65536"
    using unat_shiftr [of 16 c] by simp
  have "unat c div 65536 < 65536" using c by (simp add: div_less_iff_less_mult)
  moreover have "unat c mod 65536 < 65536" by simp
  ultimately have "unat c div 65536 + unat c mod 65536 < 4294967296" by linarith
  then show eq: "unat (drop_bit 16 c + (c AND 0xffff)) = unat c div 65536 + unat c mod 65536"
    by (simp add: unat_word_ariths d unat_and_ffff)
  have "65535 < unat c" using assms by (simp add: word_less_nat_alt)
  then have "1 \<le> unat c div 65536" by simp
  moreover have "unat c = 65536 * (unat c div 65536) + unat c mod 65536" by simp
  ultimately show "unat (drop_bit 16 c + (c AND 0xffff)) < unat c" unfolding eq by linarith
qed

text \<open>The folding loop.\<close>

function fold_carry :: "u32 \<Rightarrow> u32" where
  "fold_carry csum = (if 0xffff < csum then fold_carry (drop_bit 16 csum + (csum AND 0xffff)) else csum)"
  by pat_completeness auto
termination
  by (relation "measure unat") (simp_all add: fold_decreases(2))

declare fold_carry.simps [simp del]

definition tcpipChecksum :: "bytes \<Rightarrow> u32 \<Rightarrow> u16" where
  "tcpipChecksum data csum = NOT (ucast (fold_carry (sum_words data csum)))"

text \<open>\<^verbatim>\<open>checksum\<close> of \<^verbatim>\<open>ip4.go\<close>: it clears bytes 10 and 11 of the header first, panics on fewer
  than twelve bytes and on an odd length, and folds with \<^verbatim>\<open>uint32(uint16(csum))\<close>.\<close>

lemma ucast_ucast_and: "ucast (ucast (c :: u32) :: u16) = c AND 0xffff"
proof -
  have m: "(0xffff :: u32) = mask 16" by (simp add: mask_eq_exp_minus_1)
  show ?thesis
    unfolding m by (rule bit_word_eqI) (auto simp: bit_simps)
qed

function ip4_fold :: "u32 \<Rightarrow> u32" where
  "ip4_fold csum = (if csum \<le> 65535 then csum else ip4_fold (drop_bit 16 csum + ucast (ucast csum :: u16)))"
  by pat_completeness auto
termination
  by (relation "measure unat") (simp_all add: ucast_ucast_and fold_decreases(2))

declare ip4_fold.simps [simp del]

definition ip4_checksum :: "bytes \<Rightarrow> (bytes \<times> u16) option" where
  "ip4_checksum bs =
     do { b1 \<leftarrow> write_at bs 10 [0];
          b2 \<leftarrow> write_at b1 11 [0];
          if odd (length b2) then None
          else Some (b2, NOT (ucast (ip4_fold (sum_words b2 0)))) }"

subsection \<open>Arithmetic of the sum\<close>

fun wsum :: "bytes \<Rightarrow> nat" where
  "wsum (a # b # rest) = 256 * unat a + unat b + wsum rest"
| "wsum [a] = 256 * unat a"
| "wsum [] = 0"

lemma wsum_append: "even (length xs) \<Longrightarrow> wsum (xs @ ys) = wsum xs + wsum ys"
  by (induction xs rule: wsum.induct) auto

lemma wsum_bound: "wsum xs \<le> 65535 * ((length xs + 1) div 2)"
proof (induction xs rule: wsum.induct)
  case (1 a b rest)
  have "unat a < 256" "unat b < 256" by (rule unat_byte_less)+
  with 1 show ?case by simp
next
  case (2 a)
  have "unat a < 256" by (rule unat_byte_less)
  then show ?case by simp
qed simp

lemma unat_push_byte: "unat (push_bit 8 (ucast (a :: byte)) :: u32) = 256 * unat a"
proof -
  have "unat a < 256" by (rule unat_byte_less)
  then show ?thesis by (simp add: push_bit_eq_mult unat_word_ariths)
qed

lemma unat_sum_words:
  "unat csum + wsum data < 4294967296 \<Longrightarrow> unat (sum_words data csum) = unat csum + wsum data"
proof (induction data csum rule: sum_words.induct)
  case (1 a b rest csum)
  have "unat ((csum + push_bit 8 (ucast a)) + ucast b) = unat csum + 256 * unat a + unat b"
    using 1(2) by (simp add: unat_word_ariths unat_push_byte)
  with 1 show ?case by simp
next
  case (2 a csum)
  then show ?case by (simp add: unat_word_ariths unat_push_byte)
qed simp

lemma fold_carry_props:
  "unat (fold_carry c) \<le> 65535 \<and> unat (fold_carry c) mod 65535 = unat c mod 65535
   \<and> (unat (fold_carry c) = 0 \<longleftrightarrow> unat c = 0)"
proof (induction c rule: fold_carry.induct)
  case (1 c)
  show ?case
  proof (cases "0xffff < c")
    case True
    let ?c' = "drop_bit 16 c + (c AND 0xffff)"
    have eq: "unat ?c' = unat c div 65536 + unat c mod 65536" by (rule fold_decreases(1) [OF True])
    have "unat c = 65535 * (unat c div 65536) + unat ?c'" unfolding eq by simp
    then have "unat c mod 65535 = unat ?c' mod 65535"
      by (metis mod_mult_self4)
    moreover have "unat ?c' \<noteq> 0" "unat c \<noteq> 0"
      using True eq by (auto simp: word_less_nat_alt)
    ultimately show ?thesis using 1 [OF True] by (simp add: fold_carry.simps [of c] True)
  next
    case False
    then have "unat c \<le> 65535" by (simp add: word_less_nat_alt)
    then show ?thesis by (simp add: fold_carry.simps [of c] False)
  qed
qed

lemma fold_carry_all_ones:
  assumes "unat c mod 65535 = 0" and "0 < unat c"
  shows "fold_carry c = 0xffff"
proof -
  let ?f = "unat (fold_carry c)"
  from fold_carry_props [of c] assms have "?f \<le> 65535" "?f mod 65535 = 0" "0 < ?f" by auto
  then have "?f = 65535"
    by (metis le_neq_implies_less mod_less neq0_conv)
  then have "unat (fold_carry c) = unat (0xffff :: u32)" by simp
  then show ?thesis by (simp only: word_unat_eq_iff)
qed

lemma ip4_fold_eq: "ip4_fold c = fold_carry c"
proof (induction c rule: ip4_fold.induct)
  case (1 c)
  then show ?case
    by (subst ip4_fold.simps, subst fold_carry.simps) (auto simp: ucast_ucast_and not_le)
qed

subsection \<open>The receiver's check\<close>

lemma unat_checksum:
  assumes "unat c + wsum data < 4294967296"
  shows "(unat (tcpipChecksum data c) + (unat c + wsum data)) mod 65535 = 0"
    and "unat (tcpipChecksum data c) + (unat c + wsum data) > 0"
proof -
  let ?f = "fold_carry (sum_words data c)"
  have s: "unat (sum_words data c) = unat c + wsum data" by (rule unat_sum_words [OF assms])
  have f: "unat ?f \<le> 65535" "unat ?f mod 65535 = (unat c + wsum data) mod 65535"
      "unat ?f = 0 \<longleftrightarrow> unat c + wsum data = 0"
    using fold_carry_props [of "sum_words data c"] by (auto simp: s)
  have "unat (ucast ?f :: u16) = unat ?f"
    using f(1) by (simp add: unsigned_ucast_eq take_bit_nat_eq_self_iff)
  then have n: "unat (tcpipChecksum data c) = 65535 - unat ?f"
    by (simp add: tcpipChecksum_def unat_complement_u16)
  show "(unat (tcpipChecksum data c) + (unat c + wsum data)) mod 65535 = 0"
    unfolding n by (rule mod_complement [OF f(1,2)])
  show "unat (tcpipChecksum data c) + (unat c + wsum data) > 0"
    using n f(3) by (cases "unat c + wsum data = 0") auto
qed

lemma wsum_be16 [simp]: "wsum (be16 k) = unat k"
proof -
  have "unat (ucast (drop_bit 8 k) :: byte) = unat k div 256"
    using unat_shiftr [of 8 k] unat_u16_less [of k]
    by (simp add: unat_ucast_low div_less_iff_less_mult)
  moreover have "unat (ucast k :: byte) = unat k mod 256"
    by (rule unat_ucast_low)
  ultimately show ?thesis by (simp add: be16_def)
qed

lemma stored_checksum_verifies:
  assumes "even (length pre)" and "unat c + wsum (pre @ [0, 0] @ post) + 65535 < 4294967296"
  shows "tcpipChecksum (pre @ be16 (tcpipChecksum (pre @ [0, 0] @ post) c) @ post) c = 0"
proof -
  let ?k = "tcpipChecksum (pre @ [0, 0] @ post) c"
  let ?s = "unat c + wsum (pre @ [0, 0] @ post)"
  have kb: "unat ?k \<le> 65535" using unat_u16_less [of ?k] by simp
  have w: "wsum (pre @ be16 ?k @ post) = wsum (pre @ [0, 0] @ post) + unat ?k"
    using assms(1) wsum_append [of "be16 ?k" post] by (simp add: wsum_append)
  have u: "unat (sum_words (pre @ be16 ?k @ post) c) = unat ?k + ?s"
    using unat_sum_words [of c "pre @ be16 ?k @ post"] assms(2) kb by (simp only: w)
  have "unat c + wsum (pre @ [0, 0] @ post) < 4294967296" using assms(2) by simp
  from unat_checksum [OF this] have f: "fold_carry (sum_words (pre @ be16 ?k @ post) c) = 0xffff"
    by (intro fold_carry_all_ones) (simp_all only: u)
  have "tcpipChecksum (pre @ be16 ?k @ post) c = NOT (ucast (0xffff :: u32))"
    by (simp only: tcpipChecksum_def [of "pre @ be16 ?k @ post"] f)
  then show ?thesis by simp
qed

end
