(* ===== verification/Layer_Base.thy ===== *)
theory Layer_Base
  imports Serialize_Buffer Flows
begin

section \<open>What the layers share (\<^verbatim>\<open>layers/base.go\<close>, \<^verbatim>\<open>enums.go\<close>, \<^verbatim>\<open>ports.go\<close>, \<^verbatim>\<open>endpoints.go\<close>)\<close>

text \<open>
  The struct \<^verbatim>\<open>BaseLayer\<close> every layer embeds, the layer type numbers, the tables from wire
  type codes and ports to layer types, and the endpoint constructors. The contract
  \<open>decoding_layer\<close> states what the parser relies on in a layer's decoder.
\<close>

record BaseLayer =
  Contents :: bytes
  Payload :: bytes

text \<open>The result of \<^verbatim>\<open>DecodeFromBytes(data, df)\<close>: the receiver after the call, the feedback's
  \<^verbatim>\<open>Truncated\<close> flag after the call and the returned error; \<^const>\<open>None\<close> is a panic.\<close>

type_synonym 'l decoded = "('l \<times> bool \<times> goerr option) option"

type_synonym 'l serialized = "('l \<times> serializeBuffer \<times> goerr option) option"

abbreviation (input) LayerTypeZero :: LayerType where "LayerTypeZero \<equiv> 0"
abbreviation (input) LayerTypeDecodeFailure :: LayerType where "LayerTypeDecodeFailure \<equiv> 1"
abbreviation (input) LayerTypePayload :: LayerType where "LayerTypePayload \<equiv> 2"
abbreviation (input) LayerTypeFragment :: LayerType where "LayerTypeFragment \<equiv> 3"
abbreviation (input) LayerTypeARP :: LayerType where "LayerTypeARP \<equiv> 10"
abbreviation (input) LayerTypeDot1Q :: LayerType where "LayerTypeDot1Q \<equiv> 15"
abbreviation (input) LayerTypeEthernet :: LayerType where "LayerTypeEthernet \<equiv> 17"
abbreviation (input) LayerTypeIPv4 :: LayerType where "LayerTypeIPv4 \<equiv> 20"
abbreviation (input) LayerTypeTCP :: LayerType where "LayerTypeTCP \<equiv> 44"
abbreviation (input) LayerTypeUDP :: LayerType where "LayerTypeUDP \<equiv> 45"

subsection \<open>Type codes\<close>

text \<open>The layer types stored in \<^verbatim>\<open>EthernetTypeMetadata\<close>; every other entry has the zero layer
  type, set by \<^verbatim>\<open>initUnknownTypesForEthernetType\<close>.\<close>

definition EthernetTypeMetadata :: "(u16 \<times> LayerType) list" where
  "EthernetTypeMetadata =
     [(0, 22), (0x0800, 20), (0x86DD, 21), (0x0806, 10), (0x8100, 15), (0x880b, 25), (0x8863, 26),
      (0x8864, 26), (0x9000, 12), (0x2000, 11), (0x01a2, 61), (0x88cc, 58), (0x8847, 24), (0x8848, 24),
      (0x888e, 56), (0x88a8, 15), (0x6558, 17), (0x88be, 145)]"

definition EthernetType_LayerType :: "u16 \<Rightarrow> LayerType" where
  "EthernetType_LayerType a = (case map_of EthernetTypeMetadata a of Some t \<Rightarrow> t | None \<Rightarrow> LayerTypeZero)"

definition IPProtocolMetadata :: "(u8 \<times> LayerType) list" where
  "IPProtocolMetadata =
     [(4, 20), (6, 44), (17, 45), (1, 19), (58, 57), (132, 28), (41, 21), (94, 20), (97, 16), (27, 27),
      (47, 18), (0, 46), (43, 47), (44, 48), (60, 49), (89, 123), (51, 50), (50, 51), (136, 52), (137, 24),
      (59, 2), (2, 62), (112, 119)]"

definition IPProtocol_LayerType :: "u8 \<Rightarrow> LayerType" where
  "IPProtocol_LayerType a = (case map_of IPProtocolMetadata a of Some t \<Rightarrow> t | None \<Rightarrow> LayerTypeZero)"

definition ProtocolFamilyMetadata :: "(u8 \<times> LayerType) list" where
  "ProtocolFamilyMetadata = [(2, 20), (24, 21), (28, 21), (30, 21), (10, 21)]"

definition ProtocolFamily_LayerType :: "u8 \<Rightarrow> LayerType" where
  "ProtocolFamily_LayerType a = (case map_of ProtocolFamilyMetadata a of Some t \<Rightarrow> t | None \<Rightarrow> LayerTypeZero)"

text \<open>The port tables are arrays that programs may extend; they are arguments of the functions that
  read them.\<close>

type_synonym port_table = "u16 \<Rightarrow> LayerType"

definition tcpPortLayerType :: port_table where
  "tcpPortLayerType a =
     (case map_of [(53, 107), (443, 140), (502, 141), (636, 140), (989, 140), (990, 140), (992, 140),
        (993, 140), (994, 140), (995, 140), (5061, 140)] a of Some t \<Rightarrow> t | None \<Rightarrow> 0)"

definition TCPPort_LayerType :: "port_table \<Rightarrow> u16 \<Rightarrow> LayerType" where
  "TCPPort_LayerType tbl a = (let lt = tbl a in if lt \<noteq> 0 then lt else LayerTypePayload)"

definition RegisterTCPPortLayerType :: "port_table \<Rightarrow> u16 \<Rightarrow> LayerType \<Rightarrow> port_table" where
  "RegisterTCPPortLayerType tbl port layerType = tbl(port := layerType)"

definition udpPortLayerType :: port_table where
  "udpPortLayerType a =
     (case map_of [(53, 107), (123, 117), (4789, 116), (67, 118), (68, 118), (546, 134), (547, 134),
        (666, 147), (1000, 149), (5060, 133), (6343, 114), (6081, 120), (3784, 122), (2152, 129),
        (623, 142), (1812, 146)] a of Some t \<Rightarrow> t | None \<Rightarrow> 0)"

definition UDPPort_LayerType :: "port_table \<Rightarrow> u16 \<Rightarrow> LayerType" where
  "UDPPort_LayerType tbl a = (let lt = tbl a in if lt \<noteq> 0 then lt else LayerTypePayload)"

definition RegisterUDPPortLayerType :: "port_table \<Rightarrow> u16 \<Rightarrow> LayerType \<Rightarrow> port_table" where
  "RegisterUDPPortLayerType tbl port layerType = tbl(port := layerType)"

subsection \<open>Endpoints of the layers\<close>

abbreviation (input) EndpointIPv4 :: EndpointType where "EndpointIPv4 \<equiv> 1"
abbreviation (input) EndpointIPv6 :: EndpointType where "EndpointIPv6 \<equiv> 2"
abbreviation (input) EndpointMAC :: EndpointType where "EndpointMAC \<equiv> 3"
abbreviation (input) EndpointTCPPort :: EndpointType where "EndpointTCPPort \<equiv> 4"
abbreviation (input) EndpointUDPPort :: EndpointType where "EndpointUDPPort \<equiv> 5"

text \<open>\<^verbatim>\<open>net.IP.To4\<close> and \<^verbatim>\<open>net.IP.To16\<close> of the standard library.\<close>

definition v4InV6Prefix :: bytes where
  "v4InV6Prefix = replicate 10 0 @ [0xff, 0xff]"

definition To4 :: "bytes \<Rightarrow> bytes option" where
  "To4 ip = (if length ip = 4 then Some ip
             else if length ip = 16 \<and> take 12 ip = v4InV6Prefix then Some (drop 12 ip) else None)"

definition To16 :: "bytes \<Rightarrow> bytes option" where
  "To16 ip = (if length ip = 4 then Some (v4InV6Prefix @ ip)
              else if length ip = 16 then Some ip else None)"

definition NewIPEndpoint :: "bytes \<Rightarrow> Endpoint option" where
  "NewIPEndpoint a =
     (case To4 a of
        Some ipv4 \<Rightarrow> NewEndpoint EndpointIPv4 ipv4
      | None \<Rightarrow> (case To16 a of Some ipv6 \<Rightarrow> NewEndpoint EndpointIPv6 ipv6 | None \<Rightarrow> Some InvalidEndpoint))"

definition newPortEndpoint :: "EndpointType \<Rightarrow> u16 \<Rightarrow> Endpoint option" where
  "newPortEndpoint t p = NewEndpoint t [ucast (drop_bit 8 p), ucast p]"

lemma To4_length: "To4 ip = Some a \<Longrightarrow> length a = 4"
  by (auto simp: To4_def split: if_splits)

lemma To4_idem: "To4 ip = Some a \<Longrightarrow> To4 a = Some a"
  by (auto simp: To4_def split: if_splits)

lemma NewIPEndpoint_total: "\<exists>e. NewIPEndpoint a = Some e"
  by (auto simp: NewIPEndpoint_def NewEndpoint_def MaxEndpointSize_def To4_def To16_def v4InV6Prefix_def)

subsection \<open>Decoders and what they do to a packet\<close>

text \<open>
  A value of the interface \<^verbatim>\<open>Decoder\<close> is one of the type codes, each of which finds its
  decoding function in a table, or one of the named decoding functions. A decoding function calls
  methods of its \<^verbatim>\<open>PacketBuilder\<close> and ends by returning an error or by handing the rest of the
  data to \<^verbatim>\<open>NextDecoder\<close>; the model is the list of those calls and the way it ends.
\<close>

record Layer =
  ly_type :: LayerType
  ly_contents :: bytes
  ly_payload :: bytes

datatype Decoder =
    ByLayerType LayerType
  | ByEthernetType u16
  | ByIPProtocol u8
  | ByLinkType u8
  | ByPPPType u16
  | ByPPPoECode u8
  | ByFDDIFrameControl u8
  | ByProtocolFamily u8
  | ProtocolGuessing
  | MPLSFunc
  | DecodePayload
  | DecodeFragment

datatype action =
    AddLayer Layer
  | SetLinkLayer Layer
  | SetNetworkLayer Layer
  | SetTransportLayer Layer
  | SetApplicationLayer Layer
  | SetTruncated

datatype outcome =
    Return "goerr option"
  | NextDecoder Decoder
  | Panics

type_synonym decode_step = "action list \<times> outcome"

definition truncation :: "bool \<Rightarrow> action list" where
  "truncation t = (if t then [SetTruncated] else [])"

text \<open>\<^verbatim>\<open>decodingLayerDecoder\<close> of \<^verbatim>\<open>layers/base.go\<close>, applied to what \<^verbatim>\<open>DecodeFromBytes\<close> did.\<close>

definition decodingLayerDecoder ::
  "('l \<times> bool \<times> goerr option) option \<Rightarrow> ('l \<Rightarrow> Layer) \<Rightarrow> ('l \<Rightarrow> LayerType) \<Rightarrow> decode_step" where
  "decodingLayerDecoder r to_layer next_type =
     (case r of
        None \<Rightarrow> ([], Panics)
      | Some (d, t, Some e) \<Rightarrow> (truncation t, Return (Some e))
      | Some (d, t, None) \<Rightarrow>
          (truncation t @ [AddLayer (to_layer d)],
           if next_type d = LayerTypeZero then Return None else NextDecoder (ByLayerType (next_type d))))"

text \<open>A decoding function without error checks: whatever goes wrong is an index panic.\<close>

definition steps_or_panic :: "decode_step option \<Rightarrow> decode_step" where
  "steps_or_panic r = (case r of None \<Rightarrow> ([], Panics) | Some s \<Rightarrow> s)"

subsection \<open>The contract of a decoding layer\<close>

text \<open>
  What the parser relies on: a decoder never panics, on success it leaves less data than it was
  given, and what it leaves in the decoded fields of the receiver, its \<open>view\<close>, does not depend on what a
  reused receiver held.
\<close>

locale total_decoder =
  fixes decode :: "('l :: type) \<Rightarrow> bytes \<Rightarrow> bool \<Rightarrow> 'l decoded"
    and payload :: "'l \<Rightarrow> bytes"
    and view :: "'l \<Rightarrow> 'v"
  assumes no_panic: "decode l data df \<noteq> None"
    and payload_shorter: "decode l data df = Some (l', df', None) \<Longrightarrow> length (payload l') < length data"
    and reuse: "decode l data df = Some (l', df', None) \<Longrightarrow> \<exists>m'. decode m data df = Some (m', df', None) \<and> view m' = view l'"
begin

lemma returns: "\<exists>l' df' err. decode l data df = Some (l', df', err)"
  using no_panic [of l data df] by auto

end

text \<open>
  Most decoders read one header off the front of the data: contents and payload are then
  consecutive parts of the data with nothing before the contents.
\<close>

locale decoding_layer =
  fixes decode :: "('l :: type) \<Rightarrow> bytes \<Rightarrow> bool \<Rightarrow> 'l decoded"
    and contents :: "'l \<Rightarrow> bytes" and payload :: "'l \<Rightarrow> bytes"
    and hdr_min :: nat
    and view :: "'l \<Rightarrow> 'v"
  assumes dl_no_panic: "decode l data df \<noteq> None"
    and splits: "decode l data df = Some (l', df', None) \<Longrightarrow>
          hdr_min \<le> length (contents l') \<and> (\<exists>rest. data = contents l' @ payload l' @ rest)"
    and hdr_pos: "0 < hdr_min"
    and dl_reuse: "decode l data df = Some (l', df', None) \<Longrightarrow> \<exists>m'. decode m data df = Some (m', df', None) \<and> view m' = view l'"

sublocale decoding_layer \<subseteq> total_decoder decode payload view
proof
  fix l m l' :: 'l and data df df'
  show "decode l data df \<noteq> None" by (rule dl_no_panic)
  assume ok: "decode l data df = Some (l', df', None)"
  then show "\<exists>m'. decode m data df = Some (m', df', None) \<and> view m' = view l'" by (rule dl_reuse)
  from splits [OF ok] obtain rest where "hdr_min \<le> length (contents l')" "data = contents l' @ payload l' @ rest"
    by blast
  with hdr_pos show "length (payload l') < length data" by (cases "contents l'") auto
qed

lemma reuse_idI: "d = Some (l, df, None) \<Longrightarrow> \<exists>m. d = Some (m, df, None) \<and> id m = id l"
  by simp

end
