(* ===== verification/Layer_Class.thy ===== *)
theory Layer_Class
  imports Serialize_Buffer
begin

section \<open>Layer types and layer classes (\<^verbatim>\<open>layertype.go\<close>, \<^verbatim>\<open>layerclass.go\<close>)\<close>

text \<open>
  The global registry of layer types, an array for the numbers 0 to 1999 and a map for the others, and the
  two representations of sets of layer types. A map of Go is an association list here, in one of its possible
  iteration orders.
\<close>

subsection \<open>The registry\<close>

definition maxLayerType :: int where
  "maxLayerType = 2000"

record 'd LayerTypeMetadata =
  lt_Name :: string
  lt_Decoder :: "'d option"

text \<open>An entry of \<^verbatim>\<open>ltMeta\<close> or \<^verbatim>\<open>ltMetaMap\<close> with \<^verbatim>\<open>inUse\<close> set is \<open>Some\<close> of its metadata; an entry with
  \<^verbatim>\<open>inUse\<close> unset is a zero value and is \<open>None\<close>.\<close>

record 'd lt_registry =
  ltMeta :: "nat \<rightharpoonup> 'd LayerTypeMetadata"
  ltMetaMap :: "LayerType \<rightharpoonup> 'd LayerTypeMetadata"
  DecodersByLayerName :: "string \<rightharpoonup> 'd option"

definition empty_registry :: "'d lt_registry" where
  "empty_registry = \<lparr>ltMeta = Map.empty, ltMetaMap = Map.empty, DecodersByLayerName = Map.empty\<rparr>"

definition in_array :: "int \<Rightarrow> bool" where
  "in_array num \<longleftrightarrow> 0 \<le> num \<and> num < maxLayerType"

definition OverrideLayerType :: "'d lt_registry \<Rightarrow> int \<Rightarrow> 'd LayerTypeMetadata \<Rightarrow> 'd lt_registry \<times> LayerType" where
  "OverrideLayerType r num meta =
     (let r1 = (if in_array num then r\<lparr>ltMeta := (ltMeta r)(nat num \<mapsto> meta)\<rparr>
                else r\<lparr>ltMetaMap := (ltMetaMap r)(num \<mapsto> meta)\<rparr>)
      in (r1\<lparr>DecodersByLayerName := (DecodersByLayerName r1)(lt_Name meta \<mapsto> lt_Decoder meta)\<rparr>, num))"

definition RegisterLayerType :: "'d lt_registry \<Rightarrow> int \<Rightarrow> 'd LayerTypeMetadata \<Rightarrow> ('d lt_registry \<times> LayerType) option" where
  "RegisterLayerType r num meta =
     (if in_array num
      then (if ltMeta r (nat num) \<noteq> None then None else Some (OverrideLayerType r num meta))
      else (if ltMetaMap r num \<noteq> None then None else Some (OverrideLayerType r num meta)))"

definition lt_lookup :: "'d lt_registry \<Rightarrow> LayerType \<Rightarrow> 'd LayerTypeMetadata option" where
  "lt_lookup r t = (if in_array t then ltMeta r (nat t) else ltMetaMap r t)"

text \<open>The decoder \<^verbatim>\<open>LayerType.Decode\<close> calls, or the error it returns.\<close>

definition LayerType_Decoder :: "'d lt_registry \<Rightarrow> LayerType \<Rightarrow> goerr + 'd" where
  "LayerType_Decoder r t =
     (case lt_lookup r t of
        Some meta \<Rightarrow> (case lt_Decoder meta of Some d \<Rightarrow> Inr d | None \<Rightarrow> Inl (Errorf ''Layer type %v has no associated decoder'' [t]))
      | None \<Rightarrow> Inl (Errorf ''Layer type %v has no associated decoder'' [t]))"

subsection \<open>Layer classes\<close>

datatype LayerClass =
    LC_Type LayerType
  | LayerClassSlice "bool list"
  | LayerClassMap "(LayerType \<times> bool) list"

text \<open>An index out of range panics, and so does a negative one.\<close>

definition slice_at :: "bool list \<Rightarrow> LayerType \<Rightarrow> bool option" where
  "slice_at s t = (if t < 0 then None else idx s (nat t))"

definition LC_Contains :: "LayerClass \<Rightarrow> LayerType \<Rightarrow> bool option" where
  "LC_Contains c t =
     (case c of
        LC_Type l \<Rightarrow> Some (l = t)
      | LayerClassSlice s \<Rightarrow> if t < int (length s) then slice_at s t else Some False
      | LayerClassMap m \<Rightarrow> Some (case map_of m t of Some b \<Rightarrow> b | None \<Rightarrow> False))"

definition LC_LayerTypes :: "LayerClass \<Rightarrow> LayerType list" where
  "LC_LayerTypes c =
     (case c of
        LC_Type l \<Rightarrow> [l]
      | LayerClassSlice s \<Rightarrow> map int (filter (\<lambda>i. s ! i) [0..<length s])
      | LayerClassMap m \<Rightarrow> map fst m)"

definition slice_set :: "bool list \<Rightarrow> LayerType \<Rightarrow> bool list option" where
  "slice_set s t = (if t < 0 then None else write_at s (nat t) [True])"

fun set_types :: "bool list \<Rightarrow> LayerType list \<Rightarrow> bool list option" where
  "set_types s [] = Some s"
| "set_types s (t # ts) = do { s1 \<leftarrow> slice_set s t; set_types s1 ts }"

definition NewLayerClassSlice :: "LayerType list \<Rightarrow> LayerClass option" where
  "NewLayerClassSlice types =
     (let m = foldl (\<lambda>m t. if t > m then t else m) 0 types
      in do { s \<leftarrow> set_types (replicate (nat (m + 1)) False) types; Some (LayerClassSlice s) })"

fun map_set :: "(LayerType \<times> bool) list \<Rightarrow> LayerType \<Rightarrow> (LayerType \<times> bool) list" where
  "map_set [] t = [(t, True)]"
| "map_set ((k, b) # m) t = (if k = t then (k, True) # m else (k, b) # map_set m t)"

definition NewLayerClassMap :: "LayerType list \<Rightarrow> LayerClass" where
  "NewLayerClassMap types = LayerClassMap (foldl map_set [] types)"

definition NewLayerClass :: "LayerType list \<Rightarrow> LayerClass option" where
  "NewLayerClass types =
     (if \<exists>typ \<in> set types. typ > maxLayerType then Some (NewLayerClassMap types) else NewLayerClassSlice types)"

subsection \<open>The registry behaves as one map\<close>

lemma lt_lookup_Override:
  "lt_lookup (fst (OverrideLayerType r num meta)) t = (if t = num then Some meta else lt_lookup r t)"
proof -
  have "in_array t \<Longrightarrow> in_array num \<Longrightarrow> nat t = nat num \<longleftrightarrow> t = num" by (auto simp: in_array_def)
  then show ?thesis by (auto simp: OverrideLayerType_def lt_lookup_def Let_def)
qed

lemma RegisterLayerType_eq:
  "RegisterLayerType r num meta = (if lt_lookup r num = None then Some (OverrideLayerType r num meta) else None)"
  by (simp add: RegisterLayerType_def lt_lookup_def)

text \<open>The registry is a partial map from all integers, whichever of its two tables holds a number:
  registering a free number makes exactly that number's decoder available and returns the number,
  registering a number again panics, and overriding always replaces.\<close>

lemma registry_laws:
  "RegisterLayerType r num meta = (if lt_lookup r num = None then Some (OverrideLayerType r num meta) else None)
   \<and> snd (OverrideLayerType r num meta) = num
   \<and> LayerType_Decoder (fst (OverrideLayerType r num meta)) t =
       (if t = num
        then (case lt_Decoder meta of Some d \<Rightarrow> Inr d | None \<Rightarrow> Inl (Errorf ''Layer type %v has no associated decoder'' [t]))
        else LayerType_Decoder r t)
   \<and> DecodersByLayerName (fst (OverrideLayerType r num meta)) = (DecodersByLayerName r)(lt_Name meta \<mapsto> lt_Decoder meta)"
  by (simp add: RegisterLayerType_eq LayerType_Decoder_def lt_lookup_Override) (simp add: OverrideLayerType_def Let_def)

subsection \<open>Classes contain what they were built from\<close>

lemma foldl_max: "m0 \<le> foldl (\<lambda>m t. if t > m then t else m) m0 ts \<and> (\<forall>t \<in> set ts. t \<le> foldl (\<lambda>m t. if t > m then t else m) m0 ts)"
  for m0 :: int
proof (induction ts arbitrary: m0)
  case (Cons t ts)
  show ?case using Cons [of "if t > m0 then t else m0"] by (auto split: if_splits)
qed simp

lemma set_types_ok:
  "(\<forall>t \<in> set ts. 0 \<le> t \<and> nat t < length s) \<Longrightarrow>
   \<exists>s'. set_types s ts = Some s' \<and> length s' = length s \<and> (\<forall>i < length s. s' ! i \<longleftrightarrow> s ! i \<or> int i \<in> set ts)"
proof (induction ts arbitrary: s)
  case (Cons t ts)
  let ?s = "take (nat t) s @ True # drop (Suc (nat t)) s"
  have t: "0 \<le> t" "nat t < length s" using Cons.prems by simp_all
  have s: "slice_set s t = Some ?s" "length ?s = length s" using t by (simp_all add: slice_set_def Suc_leI)
  have i: "i < length s \<Longrightarrow> ?s ! i \<longleftrightarrow> s ! i \<or> int i = t" for i
    using t by (auto simp: nth_append nth_Cons' min_def)
  obtain s' where "set_types ?s ts = Some s'" "length s' = length s" "\<forall>i < length s. s' ! i \<longleftrightarrow> ?s ! i \<or> int i \<in> set ts"
    using Cons.IH [of ?s] Cons.prems s(2) by auto
  with s(1) i show ?case by auto
qed simp

lemma map_of_map_set: "map_of (map_set m t) k = (if k = t then Some True else map_of m k)"
  by (induction m t rule: map_set.induct) auto

lemma fst_map_set: "fst ` set (map_set m t) = insert t (fst ` set m)"
  by (induction m t rule: map_set.induct) auto

lemma foldl_map_set:
  "map_of (foldl map_set m ts) k = (if k \<in> set ts then Some True else map_of m k)
   \<and> fst ` set (foldl map_set m ts) = set ts \<union> fst ` set m"
proof (induction ts arbitrary: m)
  case (Cons t ts)
  show ?case unfolding foldl_Cons using Cons [of "map_set m t"] by (auto simp: map_of_map_set fst_map_set)
qed simp

lemma NewLayerClassSlice_ok:
  assumes "\<forall>t \<in> set types. 0 \<le> t"
  shows "\<exists>s. NewLayerClassSlice types = Some (LayerClassSlice s) \<and> (\<forall>t \<in> set types. t < int (length s))
           \<and> (\<forall>i < length s. s ! i \<longleftrightarrow> int i \<in> set types)"
proof -
  define m where "m = foldl (\<lambda>m t. if t > m then t else m) 0 types"
  have m: "0 \<le> m" "\<forall>t \<in> set types. t \<le> m" using foldl_max [of 0 types] by (simp_all add: m_def)
  then have "\<forall>t \<in> set types. 0 \<le> t \<and> nat t < length (replicate (nat (m + 1)) False)" using assms by auto
  from set_types_ok [OF this] obtain s where "set_types (replicate (nat (m + 1)) False) types = Some s"
      "length s = nat (m + 1)" "\<forall>i < nat (m + 1). s ! i \<longleftrightarrow> int i \<in> set types" by auto
  with m show ?thesis by (auto simp: NewLayerClassSlice_def m_def [symmetric])
qed

text \<open>A layer class built from non-negative types contains exactly those types and lists exactly them,
  whether it is represented as a slice or as a map; a query for a non-negative type never panics.\<close>

lemma NewLayerClass_exact:
  assumes "\<forall>t \<in> set types. 0 \<le> t" and "0 \<le> t"
  shows "\<exists>c. NewLayerClass types = Some c \<and> LC_Contains c t = Some (t \<in> set types) \<and> set (LC_LayerTypes c) = set types"
proof (cases "\<exists>typ \<in> set types. typ > maxLayerType")
  case True
  then show ?thesis
    using foldl_map_set [of "[]" types t] by (simp add: NewLayerClass_def NewLayerClassMap_def LC_Contains_def LC_LayerTypes_def)
next
  case False
  obtain s where s: "NewLayerClassSlice types = Some (LayerClassSlice s)" "\<forall>t \<in> set types. t < int (length s)"
      "\<forall>i < length s. s ! i \<longleftrightarrow> int i \<in> set types"
    using NewLayerClassSlice_ok [OF assms(1)] by blast
  have "LC_Contains (LayerClassSlice s) t = Some (t \<in> set types)"
    using s(2,3) assms(2) by (auto simp: LC_Contains_def slice_at_def nat_less_iff Suc_le_eq)
  moreover have "set (LC_LayerTypes (LayerClassSlice s)) = set types"
  proof (intro set_eqI iffI)
    fix x assume "x \<in> set types"
    with s assms(1) have "nat x < length s" "s ! nat x" "x = int (nat x)" by (auto simp: nat_less_iff)
    then show "x \<in> set (LC_LayerTypes (LayerClassSlice s))" by (force simp: LC_LayerTypes_def)
  qed (use s(3) in \<open>auto simp: LC_LayerTypes_def\<close>)
  ultimately show ?thesis using False s(1) by (simp add: NewLayerClass_def)
qed

lemma NewLayerClass_exact_witness:
  "\<exists>c. NewLayerClass [46, 47, 3000] = Some c \<and> LC_Contains c 47 = Some True \<and> set (LC_LayerTypes c) = {46, 47, 3000}"
  using NewLayerClass_exact [of "[46, 47, 3000]" 47] by simp

text \<open>Negative layer types may be registered but not put into classes: building a class from a negative type
  and no type above 2000 panics, and so does asking a slice class about a negative type.\<close>

lemma negative_types_panic:
  "(t < 0 \<longrightarrow> NewLayerClass [t] = None) \<and> (t < 0 \<longrightarrow> LC_Contains (LayerClassSlice s) t = None)
   \<and> (t < 0 \<longrightarrow> (\<exists>r. RegisterLayerType empty_registry t meta = Some (r, t)))"
proof (intro conjI impI)
  assume "t < 0"
  then show "NewLayerClass [t] = None"
    by (simp add: NewLayerClass_def NewLayerClassSlice_def slice_set_def maxLayerType_def Let_def)
  from \<open>t < 0\<close> show "LC_Contains (LayerClassSlice s) t = None"
    by (simp add: LC_Contains_def slice_at_def)
  from \<open>t < 0\<close> show "\<exists>r. RegisterLayerType empty_registry t meta = Some (r, t)"
    by (simp add: RegisterLayerType_eq empty_registry_def lt_lookup_def OverrideLayerType_def Let_def)
qed

lemma negative_types_panic_witness:
  "NewLayerClass [-1] = None \<and> LC_Contains (LayerClassSlice [True]) (-1) = None"
  using negative_types_panic [of "-1" "[True]" "\<lparr>lt_Name = [], lt_Decoder = Some ()\<rparr>"] by simp

end
