(* ===== verification/Layer_Ethernet.thy ===== *)
theory Layer_Ethernet
  imports Layer_Base
begin

section \<open>Ethernet frames (\<^verbatim>\<open>layers/ethernet.go\<close>)\<close>

text \<open>
  Decoder and serializer of Ethernet II and 802.3 frames: values below \<^verbatim>\<open>0x0600\<close> in the type field
  are lengths, the payload is cut to them, and short frames are padded with zeros to 60 bytes.
\<close>

abbreviation (input) EthernetTypeLLC :: u16 where "EthernetTypeLLC \<equiv> 0"

record Ethernet = BaseLayer +
  eth_SrcMAC :: bytes
  eth_DstMAC :: bytes
  eth_EthernetType :: u16
  eth_Length :: u16

definition Ethernet_DecodeFromBytes :: "Ethernet \<Rightarrow> bytes \<Rightarrow> bool \<Rightarrow> Ethernet decoded" where
  "Ethernet_DecodeFromBytes eth data df =
     (if length data < 14 then Some (eth, df, Some (Errorf ''Ethernet packet too small'' []))
      else do {
        dst \<leftarrow> slice data 0 6;
        src \<leftarrow> slice data 6 12;
        t2 \<leftarrow> slice data 12 14;
        et \<leftarrow> get_be16 t2;
        c \<leftarrow> slice data 0 14;
        p \<leftarrow> slice data 14 (length data);
        let eth1 = eth\<lparr>eth_DstMAC := dst, eth_SrcMAC := src, eth_EthernetType := et,
                       Contents := c, Payload := p, eth_Length := 0\<rparr>;
        if et < 0x0600 then do {
          let eth2 = eth1\<lparr>eth_Length := et, eth_EthernetType := EthernetTypeLLC\<rparr>;
          let cmp = int (length p) - int (unat et);
          if cmp < 0 then Some (eth2, True, None)
          else if cmp > 0 then do {
            p1 \<leftarrow> slice p 0 (nat (int (length p) - cmp));
            Some (eth2\<lparr>Payload := p1\<rparr>, df, None) }
          else Some (eth2, df, None) }
        else Some (eth1, df, None) })"

definition lotsOfZeros :: bytes where
  "lotsOfZeros = replicate 1024 0"

text \<open>The tail of \<^verbatim>\<open>SerializeTo\<close>: pad the frame to 60 bytes.\<close>

definition Ethernet_pad :: "Ethernet \<Rightarrow> serializeBuffer \<Rightarrow> Ethernet serialized" where
  "Ethernet_pad eth b =
     (let n = length (Bytes b) in
      if n < 60 then do {
        b1 \<leftarrow> AppendBytes b (int (60 - n));
        padding \<leftarrow> copy_at (drop n (Bytes b1)) 0 lotsOfZeros;
        Some (eth, store_back b1 padding, None) }
      else Some (eth, b, None))"

definition Ethernet_SerializeTo :: "Ethernet \<Rightarrow> serializeBuffer \<Rightarrow> SerializeOptions \<Rightarrow> Ethernet serialized" where
  "Ethernet_SerializeTo eth b opts =
     (if length (eth_DstMAC eth) \<noteq> 6 then Some (eth, b, Some (Errorf ''invalid dst MAC: %v'' (map uint (eth_DstMAC eth))))
      else if length (eth_SrcMAC eth) \<noteq> 6 then Some (eth, b, Some (Errorf ''invalid src MAC: %v'' (map uint (eth_SrcMAC eth))))
      else do {
        let payload = Bytes b;
        b1 \<leftarrow> PrependBytes b 14;
        w1 \<leftarrow> copy_at (take 14 (Bytes b1)) 0 (eth_DstMAC eth);
        w2 \<leftarrow> copy_at w1 6 (eth_SrcMAC eth);
        if eth_Length eth \<noteq> 0 \<or> eth_EthernetType eth = EthernetTypeLLC then do {
          let eth1 = (if FixLengths opts then eth\<lparr>eth_Length := of_nat (length payload)\<rparr> else eth);
          if eth_EthernetType eth1 \<noteq> EthernetTypeLLC
          then Some (eth1, store_front b1 w2,
                 Some (Errorf ''ethernet type %v not compatible with length value %v''
                         [uint (eth_EthernetType eth1), uint (eth_Length eth1)]))
          else if eth_Length eth1 > 0x0600
          then Some (eth1, store_front b1 w2, Some (Errorf ''invalid ethernet length %v'' [uint (eth_Length eth1)]))
          else do {
            w3 \<leftarrow> write_at w2 12 (be16 (eth_Length eth1));
            Ethernet_pad eth1 (store_front b1 w3) } }
        else do {
          w3 \<leftarrow> write_at w2 12 (be16 (eth_EthernetType eth));
          Ethernet_pad eth (store_front b1 w3) } })"

definition Ethernet_NextLayerType :: "Ethernet \<Rightarrow> LayerType" where
  "Ethernet_NextLayerType eth = EthernetType_LayerType (eth_EthernetType eth)"

definition Ethernet_LinkFlow :: "Ethernet \<Rightarrow> Flow option" where
  "Ethernet_LinkFlow e = NewFlow EndpointMAC (eth_SrcMAC e) (eth_DstMAC e)"

definition zero_Ethernet :: Ethernet where
  "zero_Ethernet = \<lparr>Contents = [], Payload = [], eth_SrcMAC = [], eth_DstMAC = [], eth_EthernetType = 0, eth_Length = 0\<rparr>"

abbreviation eth_layer :: "Ethernet \<Rightarrow> Layer" where
  "eth_layer e \<equiv> \<lparr>ly_type = LayerTypeEthernet, ly_contents = Contents e, ly_payload = Payload e\<rparr>"

definition decodeEthernet :: "bytes \<Rightarrow> decode_step" where
  "decodeEthernet data =
     (case Ethernet_DecodeFromBytes zero_Ethernet data False of
        None \<Rightarrow> ([], Panics)
      | Some (eth, t, Some e) \<Rightarrow> (truncation t, Return (Some e))
      | Some (eth, t, None) \<Rightarrow>
          (truncation t @ [AddLayer (eth_layer eth), SetLinkLayer (eth_layer eth)],
           NextDecoder (ByEthernetType (eth_EthernetType eth))))"

subsection \<open>The decoder keeps the contract of decoding layers\<close>

lemma Ethernet_decode_simp:
  assumes "14 \<le> length data"
  shows "Ethernet_DecodeFromBytes eth data df =
    (let et = mk16 (data ! 12) (data ! 13); p = drop 14 data;
         eth1 = eth\<lparr>eth_DstMAC := take 6 data, eth_SrcMAC := take 6 (drop 6 data), eth_EthernetType := et,
                    Contents := take 14 data, Payload := p, eth_Length := 0\<rparr>
     in if et < 0x0600
        then Some (eth1\<lparr>eth_Length := et, eth_EthernetType := EthernetTypeLLC, Payload := take (unat et) p\<rparr>,
                   df \<or> length p < unat et, None)
        else Some (eth1, df, None))"
  using assms
  by (cases "length data - 14" "unat (mk16 (data ! 12) (data ! 13))" rule: linorder_cases)
    (auto simp: Ethernet_DecodeFromBytes_def get_be16_def Let_def simp del: of_nat_unat)

interpretation eth_dl: decoding_layer Ethernet_DecodeFromBytes Contents Payload 14 id
proof
  fix l l' m :: Ethernet and data df df'
  show "Ethernet_DecodeFromBytes l data df \<noteq> None"
  proof (cases "14 \<le> length data")
    case True
    then show ?thesis by (simp add: Ethernet_decode_simp Let_def)
  next
    case False
    then show ?thesis by (simp add: Ethernet_DecodeFromBytes_def)
  qed
  assume ok: "Ethernet_DecodeFromBytes l data df = Some (l', df', None)"
  then have len: "14 \<le> length data"
    by (simp add: Ethernet_DecodeFromBytes_def split: if_splits)
  let ?et = "mk16 (data ! 12) (data ! 13)"
  have "Contents l' = take 14 data \<and> (Payload l' = drop 14 data \<or> Payload l' = take (unat ?et) (drop 14 data))"
    using ok len by (auto simp: Ethernet_decode_simp Let_def split: if_splits)
  then show "14 \<le> length (Contents l') \<and> (\<exists>rest. data = Contents l' @ Payload l' @ rest)"
    using len by auto
  show "\<exists>m'. Ethernet_DecodeFromBytes m data df = Some (m', df', None) \<and> id m' = id l'"
    using ok len by (intro reuse_idI) (auto simp: Ethernet_decode_simp Let_def split: if_splits)
next
  show "0 < (14 :: nat)" by simp
qed

subsection \<open>What the serializer writes\<close>

definition eth_frame :: "Ethernet \<Rightarrow> u16 \<Rightarrow> bytes \<Rightarrow> bytes" where
  "eth_frame eth tyl payload =
     (let f = eth_DstMAC eth @ eth_SrcMAC eth @ be16 tyl @ payload in f @ replicate (60 - length f) 0)"

lemma Ethernet_pad_ok:
  assumes "sb_inv b"
  shows "\<exists>b'. Ethernet_pad eth b = Some (eth, b', None) \<and> sb_inv b'
           \<and> Bytes b' = Bytes b @ replicate (60 - length (Bytes b)) 0 \<and> sb_layers b' = sb_layers b"
proof (cases "length (Bytes b) < 60")
  case True
  let ?n = "60 - length (Bytes b)"
  from sb.app_ok [OF assms, of ?n] obtain b1 junk where
    b1: "AppendBytes b (int ?n) = Some b1" "length junk = ?n" "Bytes b1 = Bytes b @ junk" by blast
  have "copy_at junk 0 lotsOfZeros = Some (replicate ?n 0)"
    using b1(2) by (simp add: copy_at_def lotsOfZeros_def)
  moreover have "sb_inv (store_back b1 (replicate ?n 0)) \<and> Bytes (store_back b1 (replicate ?n 0)) = Bytes b @ replicate ?n 0"
    using sb.append_trailer [OF assms, of "replicate ?n 0" b1] b1(1) by simp
  moreover have "sb_layers b1 = sb_layers b" using b1(1) by simp
  ultimately show ?thesis using True b1 by (simp add: Ethernet_pad_def Let_def)
next
  case False
  then show ?thesis using assms by (simp add: Ethernet_pad_def Let_def)
qed

lemma Ethernet_write_ok:
  assumes "sb_inv b" and "length (eth_DstMAC eth) = 6" and "length (eth_SrcMAC eth) = 6"
  shows "\<exists>b1 b'. PrependBytes b 14 = Some b1
     \<and> write_at (eth_DstMAC eth @ eth_SrcMAC eth @ drop 12 (take 14 (Bytes b1))) 12 (be16 tyl)
         = Some (eth_DstMAC eth @ eth_SrcMAC eth @ be16 tyl)
     \<and> copy_at (take 14 (Bytes b1)) 0 (eth_DstMAC eth) = Some (eth_DstMAC eth @ drop 6 (take 14 (Bytes b1)))
     \<and> copy_at (eth_DstMAC eth @ drop 6 (take 14 (Bytes b1))) 6 (eth_SrcMAC eth)
         = Some (eth_DstMAC eth @ eth_SrcMAC eth @ drop 12 (take 14 (Bytes b1)))
     \<and> Ethernet_pad m (store_front b1 (eth_DstMAC eth @ eth_SrcMAC eth @ be16 tyl)) = Some (m, b', None)
     \<and> sb_inv b' \<and> Bytes b' = eth_frame eth tyl (Bytes b) \<and> sb_layers b' = sb_layers b"
proof -
  let ?h = "eth_DstMAC eth @ eth_SrcMAC eth @ be16 tyl"
  have h: "length ?h = 14" using assms by simp
  obtain b1 where b1: "PrependBytes b (int 14) = Some b1" "sb_inv b1" "length (take 14 (Bytes b1)) = 14"
      "sb_inv (store_front b1 ?h)" "Bytes (store_front b1 ?h) = ?h @ Bytes b" "sb_layers b1 = sb_layers b"
    using PrependBytes_obtain [OF assms(1), of 14] h by metis
  from Ethernet_pad_ok [OF b1(4), of m] obtain b' where
    "Ethernet_pad m (store_front b1 ?h) = Some (m, b', None)" "sb_inv b'"
    "Bytes b' = eth_frame eth tyl (Bytes b)" "sb_layers b' = sb_layers b"
    using b1(5,6) by (auto simp: eth_frame_def Let_def)
  with b1 assms show ?thesis by (intro exI [of _ b1] exI [of _ b']) simp
qed

lemma Ethernet_SerializeTo_type:
  assumes "sb_inv b" and "length (eth_DstMAC eth) = 6" and "length (eth_SrcMAC eth) = 6"
    and "eth_Length eth = 0" and "eth_EthernetType eth \<noteq> EthernetTypeLLC"
  shows "\<exists>b'. Ethernet_SerializeTo eth b opts = Some (eth, b', None) \<and> sb_inv b'
           \<and> Bytes b' = eth_frame eth (eth_EthernetType eth) (Bytes b) \<and> sb_layers b' = sb_layers b"
  using Ethernet_write_ok [OF assms(1-3), of "eth_EthernetType eth" eth] assms(2-)
  by (auto simp: Ethernet_SerializeTo_def Let_def)

lemma Ethernet_SerializeTo_length:
  assumes "sb_inv b" and "length (eth_DstMAC eth) = 6" and "length (eth_SrcMAC eth) = 6"
    and "eth_EthernetType eth = EthernetTypeLLC" and "FixLengths opts" and "length (Bytes b) \<le> 0x0600"
  shows "\<exists>b'. Ethernet_SerializeTo eth b opts = Some (eth\<lparr>eth_Length := of_nat (length (Bytes b))\<rparr>, b', None) \<and> sb_inv b'
           \<and> Bytes b' = eth_frame eth (of_nat (length (Bytes b))) (Bytes b) \<and> sb_layers b' = sb_layers b"
proof -
  have "\<not> of_nat (length (Bytes b)) > (0x0600 :: u16)"
    using assms(6) by (simp add: word_less_nat_alt unat_of_nat_u16)
  then show ?thesis
    using Ethernet_write_ok [OF assms(1-3), of "of_nat (length (Bytes b))" "eth\<lparr>eth_Length := of_nat (length (Bytes b))\<rparr>"] assms(2-)
    by (auto simp: Ethernet_SerializeTo_def Let_def)
qed

lemma Ethernet_encodes:
  assumes "length (eth_DstMAC eth) = 6" and "length (eth_SrcMAC eth) = 6"
    and "eth_Length eth = 0" and "eth_EthernetType eth \<noteq> EthernetTypeLLC"
  shows "layer_encodes opts \<lparr>sl_LayerType = LayerTypeEthernet,
            sl_SerializeTo = (\<lambda>b opts. map_option snd (Ethernet_SerializeTo eth b opts))\<rparr>
          (eth_frame eth (eth_EthernetType eth))"
  using Ethernet_SerializeTo_type [OF _ assms] by (fastforce simp: layer_encodes_def)

subsection \<open>Round trips\<close>

lemma eth_frame_decode:
  assumes "length (eth_DstMAC eth) = 6" and "length (eth_SrcMAC eth) = 6"
  shows "take 6 (eth_frame eth tyl p) = eth_DstMAC eth" "take 6 (drop 6 (eth_frame eth tyl p)) = eth_SrcMAC eth"
    "mk16 (eth_frame eth tyl p ! 12) (eth_frame eth tyl p ! 13) = tyl"
    "drop 14 (eth_frame eth tyl p) = p @ replicate (46 - length p) 0" "14 \<le> length (eth_frame eth tyl p)"
  using assms by (simp_all add: eth_frame_def Let_def nth_append be16_def mk16_split)

lemma Ethernet_roundtrip_type:
  assumes "sb_inv b" and "length (eth_DstMAC eth) = 6" and "length (eth_SrcMAC eth) = 6"
    and t: "eth_Length eth = 0" "\<not> eth_EthernetType eth < 0x0600"
  shows "\<exists>b'. Ethernet_SerializeTo eth b opts = Some (eth, b', None) \<and>
           Ethernet_DecodeFromBytes old (Bytes b') df =
             Some (eth\<lparr>Contents := take 14 (Bytes b'), Payload := Bytes b @ replicate (46 - length (Bytes b)) 0\<rparr>, df, None)"
proof -
  from t have "eth_EthernetType eth \<noteq> EthernetTypeLLC" by auto
  from Ethernet_SerializeTo_type [OF assms(1-3) t(1) this] obtain b' where
    b': "Ethernet_SerializeTo eth b opts = Some (eth, b', None)"
      "Bytes b' = eth_frame eth (eth_EthernetType eth) (Bytes b)" by blast
  have "Ethernet_DecodeFromBytes old (Bytes b') df =
      Some (eth\<lparr>Contents := take 14 (Bytes b'), Payload := Bytes b @ replicate (46 - length (Bytes b)) 0\<rparr>, df, None)"
    using t b'(2) by (simp add: Ethernet_decode_simp eth_frame_decode [OF assms(2,3)] Let_def)
  with b'(1) show ?thesis by blast
qed

lemma Ethernet_roundtrip_llc:
  assumes "sb_inv b" and "length (eth_DstMAC eth) = 6" and "length (eth_SrcMAC eth) = 6"
    and l: "eth_EthernetType eth = EthernetTypeLLC" "FixLengths opts" "length (Bytes b) < 0x0600"
  shows "\<exists>b'. Ethernet_SerializeTo eth b opts = Some (eth\<lparr>eth_Length := of_nat (length (Bytes b))\<rparr>, b', None) \<and>
           Ethernet_DecodeFromBytes old (Bytes b') df =
             Some (eth\<lparr>eth_Length := of_nat (length (Bytes b)), Contents := take 14 (Bytes b'), Payload := Bytes b\<rparr>, df, None)"
proof -
  let ?n = "of_nat (length (Bytes b)) :: u16"
  from l(3) have "length (Bytes b) \<le> 0x0600" by simp
  from Ethernet_SerializeTo_length [OF assms(1-3) l(1,2) this] obtain b' where
    b': "Ethernet_SerializeTo eth b opts = Some (eth\<lparr>eth_Length := ?n\<rparr>, b', None)"
      "Bytes b' = eth_frame eth ?n (Bytes b)" by blast
  have n: "unat ?n = length (Bytes b)" "?n < 0x0600"
    using l(3) by (simp_all add: unat_of_nat_u16 word_less_nat_alt)
  have "Ethernet_DecodeFromBytes old (Bytes b') df =
      Some (eth\<lparr>eth_Length := ?n, Contents := take 14 (Bytes b'), Payload := Bytes b\<rparr>, df, None)"
    using b'(2) n l(1) by (simp add: Ethernet_decode_simp eth_frame_decode [OF assms(2,3)] Let_def)
  with b'(1) show ?thesis by blast
qed

text \<open>C26. Ethernet frames survive a round trip. A frame with an EtherType of at least \<^verbatim>\<open>0x0600\<close> is
  decoded to the serialized fields with the payload followed by the zero padding to 60 bytes; a
  frame with an 802.3 length below \<^verbatim>\<open>0x0600\<close> is decoded to exactly the payload, the padding being
  cut off. Neither depends on what the buffer or the receiver held before.\<close>

theorem Ethernet_roundtrip:
  assumes "sb_inv b" and "length (eth_DstMAC eth) = 6" and "length (eth_SrcMAC eth) = 6"
  shows "(eth_Length eth = 0 \<and> \<not> eth_EthernetType eth < 0x0600 \<longrightarrow>
      (\<exists>b'. Ethernet_SerializeTo eth b opts = Some (eth, b', None) \<and>
           Ethernet_DecodeFromBytes old (Bytes b') df =
             Some (eth\<lparr>Contents := take 14 (Bytes b'), Payload := Bytes b @ replicate (46 - length (Bytes b)) 0\<rparr>, df, None)))
    \<and> (eth_EthernetType eth = EthernetTypeLLC \<and> FixLengths opts \<and> length (Bytes b) < 0x0600 \<longrightarrow>
      (\<exists>b'. Ethernet_SerializeTo eth b opts = Some (eth\<lparr>eth_Length := of_nat (length (Bytes b))\<rparr>, b', None) \<and>
           Ethernet_DecodeFromBytes old (Bytes b') df =
             Some (eth\<lparr>eth_Length := of_nat (length (Bytes b)), Contents := take 14 (Bytes b'), Payload := Bytes b\<rparr>, df, None)))"
  using Ethernet_roundtrip_type [OF assms] Ethernet_roundtrip_llc [OF assms] by blast

definition ex_eth :: Ethernet where
  "ex_eth = \<lparr>Contents = [], Payload = [], eth_SrcMAC = [2, 0, 0, 0, 0, 1], eth_DstMAC = [2, 0, 0, 0, 0, 2],
             eth_EthernetType = 0x0800, eth_Length = 0\<rparr>"

theorem Ethernet_roundtrip_witness:
  "\<exists>b'. Ethernet_SerializeTo ex_eth NewSerializeBuffer \<lparr>FixLengths = True, ComputeChecksums = True\<rparr> = Some (ex_eth, b', None) \<and>
        Ethernet_DecodeFromBytes ex_eth (Bytes b') False =
          Some (ex_eth\<lparr>Contents := take 14 (Bytes b'), Payload := replicate 46 0\<rparr>, False, None)"
proof -
  have m: "length (eth_DstMAC ex_eth) = 6" "length (eth_SrcMAC ex_eth) = 6"
    "eth_Length ex_eth = 0" "\<not> eth_EthernetType ex_eth < 0x0600"
    by (simp_all add: ex_eth_def)
  show ?thesis
    using Ethernet_roundtrip [OF sb_inv_New m(1,2), of "\<lparr>FixLengths = True, ComputeChecksums = True\<rparr>" ex_eth False] m(3,4)
    by simp
qed

text \<open>The serializer's length guard is off by one: an 802.3 payload of exactly \<^verbatim>\<open>0x0600\<close> bytes is
  accepted, although the decoder reads \<^verbatim>\<open>0x0600\<close> as an EtherType, so the frame comes back as a
  non-LLC frame without a length.\<close>

lemma Ethernet_length_0600:
  assumes "sb_inv b" and "length (eth_DstMAC eth) = 6" and "length (eth_SrcMAC eth) = 6"
    and "eth_EthernetType eth = EthernetTypeLLC" and "FixLengths opts" and "length (Bytes b) = 0x0600"
  shows "\<exists>b' eth'. Ethernet_SerializeTo eth b opts = Some (eth\<lparr>eth_Length := 0x0600\<rparr>, b', None) \<and>
           Ethernet_DecodeFromBytes old (Bytes b') df = Some (eth', df, None) \<and>
           eth_EthernetType eth' = 0x0600 \<and> eth_Length eth' = 0"
proof -
  have "length (Bytes b) \<le> 0x0600" using assms(6) by simp
  from Ethernet_SerializeTo_length [OF assms(1-5) this] obtain b' where
    "Ethernet_SerializeTo eth b opts = Some (eth\<lparr>eth_Length := 0x0600\<rparr>, b', None)"
    "Bytes b' = eth_frame eth 0x0600 (Bytes b)" by (auto simp: assms(6))
  then show ?thesis
    by (simp add: Ethernet_decode_simp eth_frame_decode [OF assms(2,3)] Let_def)
qed

lemma Ethernet_length_0600_witness:
  "\<exists>b' eth'. Ethernet_SerializeTo (ex_eth\<lparr>eth_EthernetType := 0\<rparr>)
       \<lparr>sb_data = replicate 0x0600 0, sb_spare = [], sb_start = 0, sb_prepended = 0, sb_appended = 0, sb_layers = []\<rparr>
       \<lparr>FixLengths = True, ComputeChecksums = True\<rparr> = Some (ex_eth\<lparr>eth_EthernetType := 0, eth_Length := 0x0600\<rparr>, b', None) \<and>
     Ethernet_DecodeFromBytes ex_eth (Bytes b') False = Some (eth', False, None) \<and>
     eth_EthernetType eth' = 0x0600 \<and> eth_Length eth' = 0"
  by (rule Ethernet_length_0600) (simp_all add: ex_eth_def sb_inv_def Bytes_def)

end
