(* ===== verification/Layer_Tags.thy ===== *)
theory Layer_Tags
  imports Layer_Base
begin

section \<open>Shim headers with packed bit fields\<close>

text \<open>
  802.1Q tags (\<^verbatim>\<open>layers/dot1q.go\<close>), MPLS labels (\<^verbatim>\<open>mpls.go\<close>), VXLAN (\<^verbatim>\<open>vxlan.go\<close>), ERSPAN
  type II (\<^verbatim>\<open>erspan2.go\<close>) and EtherIP (\<^verbatim>\<open>etherip.go\<close>): fixed-size headers whose fields share
  bytes. Each has its decoder and, where the code has one, its serializer; the round trips show
  that packing and unpacking agree on every field that fits its width.
\<close>

subsection \<open>802.1Q\<close>

record Dot1Q = BaseLayer +
  dq_Priority :: u8
  dq_DropEligible :: bool
  dq_VLANIdentifier :: u16
  dq_Type :: u16

definition Dot1Q_DecodeFromBytes :: "Dot1Q \<Rightarrow> bytes \<Rightarrow> bool \<Rightarrow> Dot1Q decoded" where
  "Dot1Q_DecodeFromBytes d data df =
     (if length data < 4
      then Some (d, True, Some (Errorf ''802.1Q tag length %d too short'' [int (length data)]))
      else do {
        b0 \<leftarrow> idx data 0;
        first2 \<leftarrow> slice data 0 2;
        tag \<leftarrow> get_be16 first2;
        next2 \<leftarrow> slice data 2 4;
        typ \<leftarrow> get_be16 next2;
        c \<leftarrow> slice data 0 4;
        p \<leftarrow> slice data 4 (length data);
        Some (d\<lparr>dq_Priority := drop_bit 5 (b0 AND 0xE0), dq_DropEligible := (b0 AND 0x10 \<noteq> 0),
                dq_VLANIdentifier := tag AND 0x0FFF, dq_Type := typ, Contents := c, Payload := p\<rparr>, df, None) })"

definition Dot1Q_NextLayerType :: "Dot1Q \<Rightarrow> LayerType" where
  "Dot1Q_NextLayerType d = EthernetType_LayerType (dq_Type d)"

definition decodeDot1Q :: "bytes \<Rightarrow> decode_step" where
  "decodeDot1Q data =
     decodingLayerDecoder
       (Dot1Q_DecodeFromBytes \<lparr>Contents = [], Payload = [], dq_Priority = 0, dq_DropEligible = False,
                               dq_VLANIdentifier = 0, dq_Type = 0\<rparr> data False)
       (\<lambda>d. \<lparr>ly_type = LayerTypeDot1Q, ly_contents = Contents d, ly_payload = Payload d\<rparr>) Dot1Q_NextLayerType"

definition Dot1Q_SerializeTo :: "Dot1Q \<Rightarrow> serializeBuffer \<Rightarrow> SerializeOptions \<Rightarrow> Dot1Q serialized" where
  "Dot1Q_SerializeTo d b opts =
     do { b1 \<leftarrow> PrependBytes b 4;
          if dq_VLANIdentifier d > 0xFFF
          then Some (d, b1, Some (Errorf ''vlan identifier %v is too high'' [uint (dq_VLANIdentifier d)]))
          else do {
            let firstBytes = push_bit 13 (ucast (dq_Priority d)) OR dq_VLANIdentifier d;
            let firstBytes1 = (if dq_DropEligible d then firstBytes OR 0x1000 else firstBytes);
            w1 \<leftarrow> write_at (take 4 (Bytes b1)) 0 (be16 firstBytes1);
            w2 \<leftarrow> write_at w1 2 (be16 (dq_Type d));
            Some (d, store_front b1 w2, None) } }"

definition dot1q_tag :: "Dot1Q \<Rightarrow> u16" where
  "dot1q_tag d = (push_bit 13 (ucast (dq_Priority d)) OR dq_VLANIdentifier d) OR (if dq_DropEligible d then 0x1000 else 0)"

interpretation dq_dl: decoding_layer Dot1Q_DecodeFromBytes Contents Payload 4 id
proof
  fix l l' m :: Dot1Q and data df df'
  show "Dot1Q_DecodeFromBytes l data df \<noteq> None"
    by (auto simp: Dot1Q_DecodeFromBytes_def get_be16_def)
  assume ok: "Dot1Q_DecodeFromBytes l data df = Some (l', df', None)"
  then have len: "4 \<le> length data"
    by (simp add: Dot1Q_DecodeFromBytes_def split: if_splits)
  then show "4 \<le> length (Contents l') \<and> (\<exists>rest. data = Contents l' @ Payload l' @ rest)"
    using ok by (auto simp: Dot1Q_DecodeFromBytes_def get_be16_def)
  show "\<exists>m'. Dot1Q_DecodeFromBytes m data df = Some (m', df', None) \<and> id m' = id l'"
    using ok len by (intro reuse_idI) (auto simp: Dot1Q_DecodeFromBytes_def get_be16_def)
qed simp

lemma Dot1Q_SerializeTo_ok:
  assumes "sb_inv b" and "dq_VLANIdentifier d \<le> 0xFFF"
  shows "\<exists>b'. Dot1Q_SerializeTo d b opts = Some (d, b', None) \<and> sb_inv b' \<and> sb_layers b' = sb_layers b
           \<and> Bytes b' = be16 (dot1q_tag d) @ be16 (dq_Type d) @ Bytes b"
proof -
  obtain b1 where b1: "PrependBytes b (int 4) = Some b1" "length (take 4 (Bytes b1)) = 4"
      "\<And>h. length h = 4 \<Longrightarrow> sb_inv (store_front b1 h)"
      "\<And>h. length h = 4 \<Longrightarrow> Bytes (store_front b1 h) = h @ Bytes b" "sb_layers b1 = sb_layers b"
    using PrependBytes_obtain [OF assms(1), of 4] by metis
  have "\<not> dq_VLANIdentifier d > 0xFFF" using assms(2) by simp
  with b1 show ?thesis
    by (simp add: Dot1Q_SerializeTo_def Let_def dot1q_tag_def)
qed

lemma dot1q_unpack:
  assumes "dq_Priority d < 8" and "dq_VLANIdentifier d \<le> 0xFFF"
  shows "drop_bit 5 ((ucast (drop_bit 8 (dot1q_tag d)) :: byte) AND 0xE0) = dq_Priority d"
    and "((ucast (drop_bit 8 (dot1q_tag d)) :: byte) AND 0x10 \<noteq> 0) = dq_DropEligible d"
    and "dot1q_tag d AND 0x0FFF = dq_VLANIdentifier d"
proof -
  have p: "\<And>n. 3 \<le> n \<Longrightarrow> \<not> bit (dq_Priority d) n"
    using assms(1) by (intro not_bit_small [of _ 3]) (auto simp: word_less_nat_alt)
  have v: "\<And>n. 12 \<le> n \<Longrightarrow> \<not> bit (dq_VLANIdentifier d) n"
    using assms(2) by (intro not_bit_small [of _ 12]) (auto simp: word_le_nat_alt)
  show "drop_bit 5 ((ucast (drop_bit 8 (dot1q_tag d)) :: byte) AND 0xE0) = dq_Priority d"
    by (rule bit_word_eqI) (auto simp: dot1q_tag_def bit_simps p v dest!: less8_cases)
  show "((ucast (drop_bit 8 (dot1q_tag d)) :: byte) AND 0x10 \<noteq> 0) = dq_DropEligible d"
    using word_nonzero_bit [of "ucast (drop_bit 8 (dot1q_tag d)) :: byte" 4]
    by (simp add: dot1q_tag_def bit_simps p v)
  show "dot1q_tag d AND 0x0FFF = dq_VLANIdentifier d"
    using bit_exp_iff [of 12, where 'a = int]
    by (intro and_mask_eqI [of _ 12]) (simp_all add: mask_eq_exp_minus_1 dot1q_tag_def bit_simps p v)
qed

lemma Dot1Q_roundtrip_bytes:
  assumes "dq_Priority d < 8" and "dq_VLANIdentifier d \<le> 0xFFF"
  shows "Dot1Q_DecodeFromBytes old (be16 (dot1q_tag d) @ be16 (dq_Type d) @ p) df =
           Some (d\<lparr>Contents := be16 (dot1q_tag d) @ be16 (dq_Type d), Payload := p\<rparr>, df, None)"
  by (simp add: Dot1Q_DecodeFromBytes_def)
    (simp add: be16_def dot1q_unpack [OF assms, simplified])

subsection \<open>MPLS\<close>

record MPLS = BaseLayer +
  mpls_Label :: u32
  mpls_TrafficClass :: u8
  mpls_StackBottom :: bool
  mpls_TTL :: u8

abbreviation (input) LayerTypeMPLS :: LayerType where "LayerTypeMPLS \<equiv> 24"

text \<open>The struct that \<^verbatim>\<open>decodeMPLS\<close> builds; the index expressions panic on fewer than four bytes.\<close>

definition mpls_of :: "bytes \<Rightarrow> MPLS option" where
  "mpls_of data =
     do { first4 \<leftarrow> slice data 0 4;
          decoded \<leftarrow> get_be32 first4;
          p \<leftarrow> slice data 4 (length data);
          Some \<lparr>Contents = first4, Payload = p, mpls_Label = drop_bit 12 decoded,
                mpls_TrafficClass = ucast (drop_bit 9 decoded) AND 0x7,
                mpls_StackBottom = (decoded AND 0x100 \<noteq> 0), mpls_TTL = ucast decoded\<rparr> }"

definition decodeMPLS :: "bytes \<Rightarrow> decode_step" where
  "decodeMPLS data =
     steps_or_panic (do {
       mpls \<leftarrow> mpls_of data;
       Some ([AddLayer \<lparr>ly_type = LayerTypeMPLS, ly_contents = Contents mpls, ly_payload = Payload mpls\<rparr>],
             if mpls_StackBottom mpls then NextDecoder ProtocolGuessing else NextDecoder MPLSFunc) })"

definition MPLS_SerializeTo :: "MPLS \<Rightarrow> serializeBuffer \<Rightarrow> SerializeOptions \<Rightarrow> MPLS serialized" where
  "MPLS_SerializeTo m b opts =
     do { b1 \<leftarrow> PrependBytes b 4;
          let encoded = push_bit 12 (mpls_Label m) OR push_bit 9 (ucast (mpls_TrafficClass m)) OR ucast (mpls_TTL m);
          let encoded1 = (if mpls_StackBottom m then encoded OR 0x100 else encoded);
          w \<leftarrow> write_at (take 4 (Bytes b1)) 0 (be32 encoded1);
          Some (m, store_front b1 w, None) }"

definition mpls_word :: "MPLS \<Rightarrow> u32" where
  "mpls_word m = (push_bit 12 (mpls_Label m) OR push_bit 9 (ucast (mpls_TrafficClass m)) OR ucast (mpls_TTL m))
     OR (if mpls_StackBottom m then 0x100 else 0)"

lemma MPLS_SerializeTo_ok:
  assumes "sb_inv b"
  shows "\<exists>b'. MPLS_SerializeTo m b opts = Some (m, b', None) \<and> sb_inv b' \<and> sb_layers b' = sb_layers b
           \<and> Bytes b' = be32 (mpls_word m) @ Bytes b"
proof -
  obtain b1 where b1: "PrependBytes b (int 4) = Some b1" "length (take 4 (Bytes b1)) = 4"
      "\<And>h. length h = 4 \<Longrightarrow> sb_inv (store_front b1 h)"
      "\<And>h. length h = 4 \<Longrightarrow> Bytes (store_front b1 h) = h @ Bytes b" "sb_layers b1 = sb_layers b"
    using PrependBytes_obtain [OF assms, of 4] by metis
  then show ?thesis by (simp add: MPLS_SerializeTo_def Let_def mpls_word_def)
qed

lemma mpls_unpack:
  assumes "mpls_Label m < 0x100000" and "mpls_TrafficClass m < 8"
  shows "drop_bit 12 (mpls_word m) = mpls_Label m"
    and "ucast (drop_bit 9 (mpls_word m)) AND 0x7 = mpls_TrafficClass m"
    and "(mpls_word m AND 0x100 \<noteq> 0) = mpls_StackBottom m"
    and "ucast (mpls_word m) = mpls_TTL m"
proof -
  have l: "\<And>n. 20 \<le> n \<Longrightarrow> \<not> bit (mpls_Label m) n"
    using assms(1) by (intro not_bit_small [of _ 20]) (auto simp: word_less_nat_alt)
  have t: "\<And>n. 3 \<le> n \<Longrightarrow> \<not> bit (mpls_TrafficClass m) n"
    using assms(2) by (intro not_bit_small [of _ 3]) (auto simp: word_less_nat_alt)
  note h = byte_no_high_bit [of _ "mpls_TTL m"]
  have x: "bit (0x100 :: int) n \<longleftrightarrow> n = 8" for n
    using bit_exp_iff [of 8 n, where 'a = int] by simp
  have l': "bit (mpls_Label m) n \<Longrightarrow> n < 20" for n
    using l [of n] by (cases "n < 20") auto
  show "drop_bit 12 (mpls_word m) = mpls_Label m"
    by (rule bit_word_eqI) (auto simp: mpls_word_def bit_simps l t h x dest: l')
  show "ucast (drop_bit 9 (mpls_word m)) AND 0x7 = mpls_TrafficClass m"
    by (rule bit_word_eqI) (auto simp: mpls_word_def bit_simps l t h x dest!: less8_cases)
  show "(mpls_word m AND 0x100 \<noteq> 0) = mpls_StackBottom m"
    using word_nonzero_bit [of "mpls_word m" 8]
    by (simp add: mpls_word_def bit_simps l t h)
  show "ucast (mpls_word m) = mpls_TTL m"
    by (rule bit_word_eqI) (auto simp: mpls_word_def bit_simps l t h x)
qed

lemma MPLS_roundtrip_bytes:
  assumes "mpls_Label m < 0x100000" and "mpls_TrafficClass m < 8"
  shows "mpls_of (be32 (mpls_word m) @ p) = Some (m\<lparr>Contents := be32 (mpls_word m), Payload := p\<rparr>)"
  by (simp add: mpls_of_def mpls_unpack [OF assms])

subsection \<open>VXLAN\<close>

record VXLAN = BaseLayer +
  vx_ValidIDFlag :: bool
  vx_VNI :: u32
  vx_GBPExtension :: bool
  vx_GBPDontLearn :: bool
  vx_GBPApplied :: bool
  vx_GBPGroupPolicyID :: u16

abbreviation (input) LayerTypeVXLAN :: LayerType where "LayerTypeVXLAN \<equiv> 116"

definition VXLAN_DecodeFromBytes :: "VXLAN \<Rightarrow> bytes \<Rightarrow> bool \<Rightarrow> VXLAN decoded" where
  "VXLAN_DecodeFromBytes vx data df =
     (if length data < 8 then Some (vx, df, Some (Errorf ''vxlan packet too small'' []))
      else do {
        vni3 \<leftarrow> slice data 4 7;
        buf \<leftarrow> copy_at [0, 0, 0, 0] 1 vni3;
        b0 \<leftarrow> idx data 0;
        vni \<leftarrow> get_be32 buf;
        b1 \<leftarrow> idx data 1;
        policy2 \<leftarrow> slice data 2 4;
        policy \<leftarrow> get_be16 policy2;
        c \<leftarrow> slice data 0 8;
        p \<leftarrow> slice data 8 (length data);
        Some (vx\<lparr>vx_ValidIDFlag := (b0 AND 0x08 > 0), vx_VNI := vni, vx_GBPExtension := (b0 AND 0x80 > 0),
                 vx_GBPDontLearn := (b1 AND 0x40 > 0), vx_GBPApplied := (b1 AND 0x80 > 0),
                 vx_GBPGroupPolicyID := policy, Contents := c, Payload := p\<rparr>, df, None) })"

definition decodeVXLAN :: "bytes \<Rightarrow> decode_step" where
  "decodeVXLAN data =
     (case VXLAN_DecodeFromBytes \<lparr>Contents = [], Payload = [], vx_ValidIDFlag = False, vx_VNI = 0, vx_GBPExtension = False,
             vx_GBPDontLearn = False, vx_GBPApplied = False, vx_GBPGroupPolicyID = 0\<rparr> data False of
        None \<Rightarrow> ([], Panics)
      | Some (vx, t, Some e) \<Rightarrow> (truncation t, Return (Some e))
      | Some (vx, t, None) \<Rightarrow>
          (truncation t @ [AddLayer \<lparr>ly_type = LayerTypeVXLAN, ly_contents = Contents vx, ly_payload = Payload vx\<rparr>],
           NextDecoder (ByLinkType 1)))"

definition VXLAN_SerializeTo :: "VXLAN \<Rightarrow> serializeBuffer \<Rightarrow> SerializeOptions \<Rightarrow> VXLAN serialized" where
  "VXLAN_SerializeTo vx b opts =
     do { b1 \<leftarrow> PrependBytes b 8;
          let f0 = (if vx_ValidIDFlag vx then 0x08 else 0) OR (if vx_GBPExtension vx then 0x80 else 0);
          let f1 = (if vx_GBPDontLearn vx then 0x40 else 0) OR (if vx_GBPApplied vx then 0x80 else 0);
          w1 \<leftarrow> write_at (take 8 (Bytes b1)) 0 [f0];
          w2 \<leftarrow> write_at w1 1 [f1];
          w3 \<leftarrow> write_at w2 2 (be16 (vx_GBPGroupPolicyID vx));
          if vx_VNI vx \<ge> 0x1000000
          then Some (vx, store_front b1 w3,
                 Some (Errorf ''Virtual Network Identifier = %x exceeds max for 24-bit uint'' [uint (vx_VNI vx)]))
          else do {
            w4 \<leftarrow> write_at w3 4 (be32 (push_bit 8 (vx_VNI vx)));
            Some (vx, store_front b1 w4, None) } }"

definition vxlan_header :: "VXLAN \<Rightarrow> bytes" where
  "vxlan_header vx =
     [(if vx_ValidIDFlag vx then 0x08 else 0) OR (if vx_GBPExtension vx then 0x80 else 0),
      (if vx_GBPDontLearn vx then 0x40 else 0) OR (if vx_GBPApplied vx then 0x80 else 0)]
     @ be16 (vx_GBPGroupPolicyID vx) @ be32 (push_bit 8 (vx_VNI vx))"

interpretation vx_dl: decoding_layer VXLAN_DecodeFromBytes Contents Payload 8 id
proof
  fix l l' m :: VXLAN and data df df'
  show "VXLAN_DecodeFromBytes l data df \<noteq> None"
    by (auto simp: VXLAN_DecodeFromBytes_def get_be16_def get_be32_def)
  assume ok: "VXLAN_DecodeFromBytes l data df = Some (l', df', None)"
  then have len: "8 \<le> length data"
    by (simp add: VXLAN_DecodeFromBytes_def split: if_splits)
  then show "8 \<le> length (Contents l') \<and> (\<exists>rest. data = Contents l' @ Payload l' @ rest)"
    using ok by (auto simp: VXLAN_DecodeFromBytes_def get_be16_def get_be32_def)
  show "\<exists>m'. VXLAN_DecodeFromBytes m data df = Some (m', df', None) \<and> id m' = id l'"
    using ok len by (intro reuse_idI) (auto simp: VXLAN_DecodeFromBytes_def get_be16_def get_be32_def)
qed simp

lemma VXLAN_SerializeTo_ok:
  assumes "sb_inv b" and "vx_VNI vx < 0x1000000"
  shows "\<exists>b'. VXLAN_SerializeTo vx b opts = Some (vx, b', None) \<and> sb_inv b' \<and> sb_layers b' = sb_layers b
           \<and> Bytes b' = vxlan_header vx @ Bytes b"
proof -
  obtain b1 where b1: "PrependBytes b (int 8) = Some b1" "length (take 8 (Bytes b1)) = 8"
      "\<And>h. length h = 8 \<Longrightarrow> sb_inv (store_front b1 h)"
      "\<And>h. length h = 8 \<Longrightarrow> Bytes (store_front b1 h) = h @ Bytes b" "sb_layers b1 = sb_layers b"
    using PrependBytes_obtain [OF assms(1), of 8] by metis
  have "\<not> vx_VNI vx \<ge> 0x1000000" using assms(2) by simp
  with b1 show ?thesis
    by (simp add: VXLAN_SerializeTo_def Let_def vxlan_header_def be16_def be32_def)
qed

lemma mk32_24bit:
  assumes "v < 0x1000000"
  shows "mk32 0 (ucast (drop_bit 24 (push_bit 8 v))) (ucast (drop_bit 16 (push_bit 8 v))) (ucast (drop_bit 8 (push_bit 8 v))) = v"
proof (rule bit_word_eqI)
  have v: "\<And>n. 24 \<le> n \<Longrightarrow> \<not> bit v n"
    using assms by (intro not_bit_small [of _ 24]) (auto simp: word_less_nat_alt)
  fix n assume "n < LENGTH(32)"
  then consider "n < 8" | "8 \<le> n \<and> n < 16" | "16 \<le> n \<and> n < 24" | "24 \<le> n \<and> n < 32"
    by fastforce
  then show "bit (mk32 0 (ucast (drop_bit 24 (push_bit 8 v))) (ucast (drop_bit 16 (push_bit 8 v)))
      (ucast (drop_bit 8 (push_bit 8 v)))) n = bit v n"
    by cases (auto simp: mk32_def bit_simps v)
qed

lemma VXLAN_roundtrip_bytes:
  assumes "vx_VNI vx < 0x1000000"
  shows "VXLAN_DecodeFromBytes old (vxlan_header vx @ p) df =
           Some (vx\<lparr>Contents := vxlan_header vx, Payload := p\<rparr>, df, None)"
  using mk32_24bit [OF assms]
  by (simp add: VXLAN_DecodeFromBytes_def vxlan_header_def be16_def be32_def get_be16_def get_be32_def mk16_split)

subsection \<open>ERSPAN type II\<close>

record ERSPANII = BaseLayer +
  er_IsTruncated :: bool
  er_Version :: u8
  er_CoS :: u8
  er_TrunkEncap :: u8
  er_VLANIdentifier :: u16
  er_SessionID :: u16
  er_Reserved :: u16
  er_Index :: u32

abbreviation (input) LayerTypeERSPANII :: LayerType where "LayerTypeERSPANII \<equiv> 145"

definition ERSPANII_DecodeFromBytes :: "ERSPANII \<Rightarrow> bytes \<Rightarrow> bool \<Rightarrow> ERSPANII decoded" where
  "ERSPANII_DecodeFromBytes e data df =
     do { b0 \<leftarrow> idx data 0;
          h0 \<leftarrow> slice data 0 2; v0 \<leftarrow> get_be16 h0;
          b2 \<leftarrow> idx data 2;
          h2 \<leftarrow> slice data 2 4; v2 \<leftarrow> get_be16 h2;
          h4 \<leftarrow> slice data 4 6; v4 \<leftarrow> get_be16 h4;
          h8 \<leftarrow> slice data 4 8; v8 \<leftarrow> get_be32 h8;
          c \<leftarrow> slice data 0 8;
          p \<leftarrow> slice data 8 (length data);
          Some (e\<lparr>er_Version := drop_bit 4 (b0 AND 0xF0), er_VLANIdentifier := v0 AND 0x0FFF,
                  er_CoS := drop_bit 5 (b2 AND 0xE0), er_TrunkEncap := drop_bit 3 (b2 AND 0x18),
                  er_IsTruncated := (drop_bit 2 (b2 AND 0x4) \<noteq> 0), er_SessionID := v2 AND 0x03FF,
                  er_Reserved := drop_bit 4 (v4 AND 0xFFF0), er_Index := v8 AND 0x000FFFFF,
                  Contents := c, Payload := p\<rparr>, df, None) }"

definition erspan_w0 :: "ERSPANII \<Rightarrow> u16" where
  "erspan_w0 e = push_bit 12 (ucast (er_Version e AND 0xF)) OR (er_VLANIdentifier e AND 0x0FFF)"

definition erspan_w1 :: "ERSPANII \<Rightarrow> u16" where
  "erspan_w1 e =
     (let twoByteInt = push_bit 13 (ucast (er_CoS e AND 0x7)) OR push_bit 11 (ucast (er_TrunkEncap e AND 0x3))
                       OR (er_SessionID e AND 0x03FF)
      in if er_IsTruncated e then twoByteInt OR 0x400 else twoByteInt)"

definition erspan_w2 :: "ERSPANII \<Rightarrow> u32" where
  "erspan_w2 e = push_bit 20 (ucast (er_Reserved e AND 0x0FFF)) OR (er_Index e AND 0x000FFFFF)"

definition ERSPANII_SerializeTo :: "ERSPANII \<Rightarrow> serializeBuffer \<Rightarrow> SerializeOptions \<Rightarrow> ERSPANII serialized" where
  "ERSPANII_SerializeTo e b opts =
     do { b1 \<leftarrow> PrependBytes b 8;
          w1 \<leftarrow> write_at (take 8 (Bytes b1)) 0 (be16 (erspan_w0 e));
          w2 \<leftarrow> write_at w1 2 (be16 (erspan_w1 e));
          w3 \<leftarrow> write_at w2 4 (be32 (erspan_w2 e));
          Some (e, store_front b1 w3, None) }"

definition ERSPANII_NextLayerType :: "ERSPANII \<Rightarrow> LayerType" where
  "ERSPANII_NextLayerType e = LayerTypeEthernet"

definition erspan_header :: "ERSPANII \<Rightarrow> bytes" where
  "erspan_header e = be16 (erspan_w0 e) @ be16 (erspan_w1 e) @ be32 (erspan_w2 e)"

lemma ERSPANII_SerializeTo_ok:
  assumes "sb_inv b"
  shows "\<exists>b'. ERSPANII_SerializeTo e b opts = Some (e, b', None) \<and> sb_inv b' \<and> sb_layers b' = sb_layers b
           \<and> Bytes b' = erspan_header e @ Bytes b"
proof -
  obtain b1 where b1: "PrependBytes b (int 8) = Some b1" "length (take 8 (Bytes b1)) = 8"
      "\<And>h. length h = 8 \<Longrightarrow> sb_inv (store_front b1 h)"
      "\<And>h. length h = 8 \<Longrightarrow> Bytes (store_front b1 h) = h @ Bytes b" "sb_layers b1 = sb_layers b"
    using PrependBytes_obtain [OF assms, of 8] by metis
  then show ?thesis
    by (simp add: ERSPANII_SerializeTo_def erspan_header_def be16_def be32_def)
qed

lemma erspan_unpack:
  assumes "er_Version e < 16" "er_VLANIdentifier e \<le> 0xFFF" "er_CoS e < 8" "er_TrunkEncap e < 4"
    and "er_SessionID e < 0x400"
  shows "drop_bit 4 ((ucast (drop_bit 8 (erspan_w0 e)) :: byte) AND 0xF0) = er_Version e"
    and "erspan_w0 e AND 0x0FFF = er_VLANIdentifier e"
    and "drop_bit 5 ((ucast (drop_bit 8 (erspan_w1 e)) :: byte) AND 0xE0) = er_CoS e"
    and "drop_bit 3 ((ucast (drop_bit 8 (erspan_w1 e)) :: byte) AND 0x18) = er_TrunkEncap e"
    and "(drop_bit 2 ((ucast (drop_bit 8 (erspan_w1 e)) :: byte) AND 0x4) \<noteq> 0) = er_IsTruncated e"
    and "erspan_w1 e AND 0x03FF = er_SessionID e"
proof -
  have ver: "\<And>n. 4 \<le> n \<Longrightarrow> \<not> bit (er_Version e) n"
    using assms(1) by (intro not_bit_small [of _ 4]) (auto simp: word_less_nat_alt)
  have vl: "\<And>n. 12 \<le> n \<Longrightarrow> \<not> bit (er_VLANIdentifier e) n"
    using assms(2) by (intro not_bit_small [of _ 12]) (auto simp: word_le_nat_alt)
  have cos: "\<And>n. 3 \<le> n \<Longrightarrow> \<not> bit (er_CoS e) n"
    using assms(3) by (intro not_bit_small [of _ 3]) (auto simp: word_less_nat_alt)
  have tr: "\<And>n. 2 \<le> n \<Longrightarrow> \<not> bit (er_TrunkEncap e) n"
    using assms(4) by (intro not_bit_small [of _ 2]) (auto simp: word_less_nat_alt)
  have ses: "\<And>n. 10 \<le> n \<Longrightarrow> \<not> bit (er_SessionID e) n"
    using assms(5) by (intro not_bit_small [of _ 10]) (auto simp: word_less_nat_alt)
  note b = bit_simps ver vl cos tr ses erspan_w0_def erspan_w1_def Let_def
  show "drop_bit 4 ((ucast (drop_bit 8 (erspan_w0 e)) :: byte) AND 0xF0) = er_Version e"
    by (rule bit_word_eqI) (auto simp: b dest!: less8_cases)
  show "erspan_w0 e AND 0x0FFF = er_VLANIdentifier e"
    using bit_mask_iff [of 12, where 'a = int]
    by (intro and_mask_eqI [of _ 12]) (simp_all add: mask_eq_exp_minus_1 b)
  show "drop_bit 5 ((ucast (drop_bit 8 (erspan_w1 e)) :: byte) AND 0xE0) = er_CoS e"
    by (rule bit_word_eqI) (auto simp: b dest!: less8_cases)
  show "drop_bit 3 ((ucast (drop_bit 8 (erspan_w1 e)) :: byte) AND 0x18) = er_TrunkEncap e"
  proof (rule bit_word_eqI)
    fix n assume "n < LENGTH(8)"
    then have "n < 8" by simp
    from less8_cases [OF this]
    show "bit (drop_bit 3 ((ucast (drop_bit 8 (erspan_w1 e)) :: byte) AND 0x18)) n = bit (er_TrunkEncap e) n"
      by (elim disjE) (simp_all add: b)
  qed
  show "erspan_w1 e AND 0x03FF = er_SessionID e"
    using bit_mask_iff [of 10, where 'a = int] bit_exp_iff [of 10, where 'a = int]
    by (intro and_mask_eqI [of _ 10]) (simp_all add: mask_eq_exp_minus_1 b)
  have "drop_bit 2 ((ucast (drop_bit 8 (erspan_w1 e)) :: byte) AND 0x4) = (if er_IsTruncated e then 1 else 0)"
  proof (rule bit_word_eqI)
    fix n assume "n < LENGTH(8)"
    then have "n < 8" by simp
    from less8_cases [OF this]
    show "bit (drop_bit 2 ((ucast (drop_bit 8 (erspan_w1 e)) :: byte) AND 0x4)) n = bit (if er_IsTruncated e then 1 else 0 :: byte) n"
      by (elim disjE) (simp_all add: b)
  qed
  then show "(drop_bit 2 ((ucast (drop_bit 8 (erspan_w1 e)) :: byte) AND 0x4) \<noteq> 0) = er_IsTruncated e"
    by simp
qed

lemma erspan_unpack_index:
  assumes "er_Reserved e < 0x1000" and "er_Index e < 0x100000"
  shows "drop_bit 4 (ucast (drop_bit 16 (erspan_w2 e)) AND 0xFFF0) = er_Reserved e"
    and "erspan_w2 e AND 0x000FFFFF = er_Index e"
proof -
  have m: "(0xFFFFF :: u32) = mask 20" "(0xFFF :: u16) = mask 12" by (simp_all add: mask_eq_exp_minus_1)
  have rb: "\<And>n. 12 \<le> n \<Longrightarrow> \<not> bit (er_Reserved e) n"
    using assms(1) by (intro not_bit_small [of _ 12]) (auto simp: word_less_nat_alt)
  have ib: "\<And>n. 20 \<le> n \<Longrightarrow> \<not> bit (er_Index e) n"
    using assms(2) by (intro not_bit_small [of _ 20]) (auto simp: word_less_nat_alt)
  have rb': "bit (er_Reserved e) n \<Longrightarrow> n < 12" for n using rb [of n] by (cases "n < 12") auto
  have ib': "bit (er_Index e) n \<Longrightarrow> n < 20" for n using ib [of n] by (cases "n < 20") auto
  have r: "er_Reserved e AND 0xFFF = er_Reserved e" and i: "er_Index e AND 0xFFFFF = er_Index e"
    unfolding m by (rule bit_word_eqI, auto simp: bit_simps dest: rb' ib')+
  have w: "erspan_w2 e = push_bit 20 (ucast (er_Reserved e)) OR er_Index e"
    by (simp add: erspan_w2_def r i)
  show "erspan_w2 e AND 0x000FFFFF = er_Index e"
    unfolding w m by (rule bit_word_eqI) (auto simp: bit_simps dest: ib')
  show "drop_bit 4 (ucast (drop_bit 16 (erspan_w2 e)) AND 0xFFF0) = er_Reserved e"
  proof (rule bit_word_eqI)
    fix n assume "n < LENGTH(16)"
    then have "n < 16" by simp
    from less16_cases [OF this] show "bit (drop_bit 4 (ucast (drop_bit 16 (erspan_w2 e)) AND (0xFFF0 :: u16))) n = bit (er_Reserved e) n"
      by (elim disjE) (simp_all add: w bit_simps rb ib)
  qed
qed

lemma take4_be32: "take 2 (be32 w) = be16 (ucast (drop_bit 16 w))"
  by (simp add: be32_def be16_def) (rule conjI; rule bit_word_eqI; auto simp: bit_simps)

lemma ERSPANII_roundtrip_bytes:
  assumes "er_Version e < 16" "er_VLANIdentifier e \<le> 0xFFF" "er_CoS e < 8" "er_TrunkEncap e < 4"
    and "er_SessionID e < 0x400" and "er_Reserved e < 0x1000" and "er_Index e < 0x100000"
  shows "ERSPANII_DecodeFromBytes old (erspan_header e @ p) df =
           Some (e\<lparr>Contents := erspan_header e, Payload := p\<rparr>, df, None)"
  using erspan_unpack [OF assms(1-5), simplified] erspan_unpack_index [OF assms(6,7), simplified]
  by (simp add: ERSPANII_DecodeFromBytes_def erspan_header_def take4_be32) (simp add: be16_def be32_def)

definition decodeERSPANII :: "bytes \<Rightarrow> decode_step" where
  "decodeERSPANII data =
     decodingLayerDecoder
       (ERSPANII_DecodeFromBytes \<lparr>Contents = [], Payload = [], er_IsTruncated = False, er_Version = 0, er_CoS = 0, er_TrunkEncap = 0,
          er_VLANIdentifier = 0, er_SessionID = 0, er_Reserved = 0, er_Index = 0\<rparr> data False)
       (\<lambda>e. \<lparr>ly_type = LayerTypeERSPANII, ly_contents = Contents e, ly_payload = Payload e\<rparr>) ERSPANII_NextLayerType"

subsection \<open>EtherIP\<close>

record EtherIP = BaseLayer +
  eip_Version :: u8
  eip_Reserved :: u16

abbreviation (input) LayerTypeEtherIP :: LayerType where "LayerTypeEtherIP \<equiv> 16"

definition EtherIP_DecodeFromBytes :: "EtherIP \<Rightarrow> bytes \<Rightarrow> bool \<Rightarrow> EtherIP decoded" where
  "EtherIP_DecodeFromBytes e data df =
     do { b0 \<leftarrow> idx data 0;
          h \<leftarrow> slice data 0 2;
          v \<leftarrow> get_be16 h;
          p \<leftarrow> slice data 2 (length data);
          Some (e\<lparr>eip_Version := drop_bit 4 b0, eip_Reserved := v AND 0x0fff, Contents := h, Payload := p\<rparr>, df, None) }"

definition EtherIP_NextLayerType :: "EtherIP \<Rightarrow> LayerType" where
  "EtherIP_NextLayerType e = LayerTypeEthernet"

definition decodeEtherIP :: "bytes \<Rightarrow> decode_step" where
  "decodeEtherIP data =
     decodingLayerDecoder (EtherIP_DecodeFromBytes \<lparr>Contents = [], Payload = [], eip_Version = 0, eip_Reserved = 0\<rparr> data False)
       (\<lambda>e. \<lparr>ly_type = LayerTypeEtherIP, ly_contents = Contents e, ly_payload = Payload e\<rparr>) EtherIP_NextLayerType"

lemma unchecked_decoders_panic:
  "ERSPANII_DecodeFromBytes er data df = None \<longleftrightarrow> length data < 8"
  "EtherIP_DecodeFromBytes ei data df = None \<longleftrightarrow> length data < 2"
  "mpls_of data = None \<longleftrightarrow> length data < 4"
  by (auto simp: ERSPANII_DecodeFromBytes_def EtherIP_DecodeFromBytes_def mpls_of_def get_be16_def get_be32_def
      idx_def slice_def Option.bind_eq_None_conv split: if_splits)

subsection \<open>Round trips through the buffer\<close>

text \<open>C27. The packed shim headers survive a round trip: for every 802.1Q tag, MPLS label, VXLAN and
  ERSPAN header whose fields fit their bit widths, serializing succeeds on any buffer and decoding
  the result gives back every field and the payload, whatever the receiver held before.\<close>

theorem shim_headers_roundtrip:
  assumes "sb_inv b"
  shows "(dq_Priority d < 8 \<and> dq_VLANIdentifier d \<le> 0xFFF \<longrightarrow>
           (\<exists>b'. Dot1Q_SerializeTo d b opts = Some (d, b', None) \<and>
                 Dot1Q_DecodeFromBytes oldd (Bytes b') df = Some (d\<lparr>Contents := take 4 (Bytes b'), Payload := Bytes b\<rparr>, df, None)))
       \<and> (mpls_Label m < 0x100000 \<and> mpls_TrafficClass m < 8 \<longrightarrow>
           (\<exists>b'. MPLS_SerializeTo m b opts = Some (m, b', None) \<and>
                 mpls_of (Bytes b') = Some (m\<lparr>Contents := take 4 (Bytes b'), Payload := Bytes b\<rparr>)))
       \<and> (vx_VNI vx < 0x1000000 \<longrightarrow>
           (\<exists>b'. VXLAN_SerializeTo vx b opts = Some (vx, b', None) \<and>
                 VXLAN_DecodeFromBytes oldv (Bytes b') df = Some (vx\<lparr>Contents := take 8 (Bytes b'), Payload := Bytes b\<rparr>, df, None)))
       \<and> (er_Version e < 16 \<and> er_VLANIdentifier e \<le> 0xFFF \<and> er_CoS e < 8 \<and> er_TrunkEncap e < 4
            \<and> er_SessionID e < 0x400 \<and> er_Reserved e < 0x1000 \<and> er_Index e < 0x100000 \<longrightarrow>
           (\<exists>b'. ERSPANII_SerializeTo e b opts = Some (e, b', None) \<and>
                 ERSPANII_DecodeFromBytes olde (Bytes b') df = Some (e\<lparr>Contents := take 8 (Bytes b'), Payload := Bytes b\<rparr>, df, None)))"
proof (intro conjI impI)
  assume "dq_Priority d < 8 \<and> dq_VLANIdentifier d \<le> 0xFFF"
  then show "\<exists>b'. Dot1Q_SerializeTo d b opts = Some (d, b', None) \<and>
      Dot1Q_DecodeFromBytes oldd (Bytes b') df = Some (d\<lparr>Contents := take 4 (Bytes b'), Payload := Bytes b\<rparr>, df, None)"
    using Dot1Q_SerializeTo_ok [OF assms, of d opts] by (auto simp: Dot1Q_roundtrip_bytes)
next
  assume "mpls_Label m < 0x100000 \<and> mpls_TrafficClass m < 8"
  then show "\<exists>b'. MPLS_SerializeTo m b opts = Some (m, b', None) \<and>
      mpls_of (Bytes b') = Some (m\<lparr>Contents := take 4 (Bytes b'), Payload := Bytes b\<rparr>)"
    using MPLS_SerializeTo_ok [OF assms, of m opts] by (auto simp: MPLS_roundtrip_bytes)
next
  assume "vx_VNI vx < 0x1000000"
  then show "\<exists>b'. VXLAN_SerializeTo vx b opts = Some (vx, b', None) \<and>
      VXLAN_DecodeFromBytes oldv (Bytes b') df = Some (vx\<lparr>Contents := take 8 (Bytes b'), Payload := Bytes b\<rparr>, df, None)"
    using VXLAN_SerializeTo_ok [OF assms, of vx opts]
    by (auto simp: VXLAN_roundtrip_bytes) (simp add: vxlan_header_def be16_def be32_def)
next
  assume f: "er_Version e < 16 \<and> er_VLANIdentifier e \<le> 0xFFF \<and> er_CoS e < 8 \<and> er_TrunkEncap e < 4
            \<and> er_SessionID e < 0x400 \<and> er_Reserved e < 0x1000 \<and> er_Index e < 0x100000"
  obtain b' where b': "ERSPANII_SerializeTo e b opts = Some (e, b', None)" "Bytes b' = erspan_header e @ Bytes b"
    using ERSPANII_SerializeTo_ok [OF assms, of e opts] by blast
  have "take 8 (Bytes b') = erspan_header e"
    using b'(2) by (simp add: erspan_header_def be16_def be32_def)
  then show "\<exists>b'. ERSPANII_SerializeTo e b opts = Some (e, b', None) \<and>
      ERSPANII_DecodeFromBytes olde (Bytes b') df = Some (e\<lparr>Contents := take 8 (Bytes b'), Payload := Bytes b\<rparr>, df, None)"
    using b' f ERSPANII_roundtrip_bytes [of e olde "Bytes b" df] by auto
qed

definition ex_dot1q :: Dot1Q where
  "ex_dot1q = \<lparr>Contents = [], Payload = [], dq_Priority = 5, dq_DropEligible = True, dq_VLANIdentifier = 42, dq_Type = 0x0800\<rparr>"

theorem shim_headers_roundtrip_witness:
  "\<exists>b'. Dot1Q_SerializeTo ex_dot1q NewSerializeBuffer \<lparr>FixLengths = True, ComputeChecksums = True\<rparr> = Some (ex_dot1q, b', None) \<and>
        Dot1Q_DecodeFromBytes ex_dot1q (Bytes b') False = Some (ex_dot1q\<lparr>Contents := take 4 (Bytes b'), Payload := []\<rparr>, False, None)"
proof -
  have "dq_Priority ex_dot1q < 8 \<and> dq_VLANIdentifier ex_dot1q \<le> 0xFFF"
    by (simp add: ex_dot1q_def)
  then show ?thesis
    using shim_headers_roundtrip [OF sb_inv_New, of ex_dot1q "\<lparr>FixLengths = True, ComputeChecksums = True\<rparr>" ex_dot1q False]
    by (simp only: Bytes_New)
qed

end
