(* ===== verification/Layer_IPv4.thy ===== *)
theory Layer_IPv4
  imports Layer_Base Checksum
begin

section \<open>IPv4 (\<^verbatim>\<open>layers/ip4.go\<close>)\<close>

text \<open>
  The IPv4 header with its options: decoder, serializer, header checksum and next-layer choice. The
  arithmetic on \<^verbatim>\<open>IHL\<close>, option lengths and option sizes is eight-bit arithmetic, as in the code.
\<close>

record IPv4Option =
  opt_OptionType :: u8
  opt_OptionLength :: u8
  opt_OptionData :: bytes

record IPv4 = BaseLayer +
  ip_Version :: u8
  ip_IHL :: u8
  ip_TOS :: u8
  ip_Length :: u16
  ip_Id :: u16
  ip_Flags :: u8
  ip_FragOffset :: u16
  ip_TTL :: u8
  ip_Protocol :: u8
  ip_Checksum :: u16
  ip_SrcIP :: bytes
  ip_DstIP :: bytes
  ip_Options :: "IPv4Option list"
  ip_Padding :: bytes

abbreviation (input) IPv4EvilBit :: u8 where "IPv4EvilBit \<equiv> 4"
abbreviation (input) IPv4DontFragment :: u8 where "IPv4DontFragment \<equiv> 2"
abbreviation (input) IPv4MoreFragments :: u8 where "IPv4MoreFragments \<equiv> 1"

definition IPv4_NetworkFlow :: "IPv4 \<Rightarrow> Flow option" where
  "IPv4_NetworkFlow i = NewFlow EndpointIPv4 (ip_SrcIP i) (ip_DstIP i)"

subsection \<open>Serializer\<close>

fun add_option_size :: "u8 \<Rightarrow> IPv4Option \<Rightarrow> u8" where
  "add_option_size optionSize opt =
     (if opt_OptionType opt = 0 then optionSize + 1
      else if opt_OptionType opt = 1 then optionSize + 1
      else optionSize + opt_OptionLength opt)"

definition getIPv4OptionSize :: "IPv4 \<Rightarrow> u8" where
  "getIPv4OptionSize ip =
     (let optionSize = foldl add_option_size 0 (ip_Options ip)
      in if optionSize mod 4 \<noteq> 0 then optionSize + (4 - optionSize mod 4) else optionSize)"

definition flagsfrags :: "IPv4 \<Rightarrow> u16" where
  "flagsfrags ip = push_bit 13 (ucast (ip_Flags ip)) OR ip_FragOffset ip"

definition checkIPv4Address :: "bytes \<Rightarrow> goerr + bytes" where
  "checkIPv4Address addr =
     (case To4 addr of
        Some c \<Rightarrow> Inr c
      | None \<Rightarrow> if length addr = 16 then Inl (Errorf ''address is IPv6'' [])
                else Inl (Errorf ''wrong length of %d bytes instead of %d'' [int (length addr), 4]))"

definition AddressTo4 :: "IPv4 \<Rightarrow> IPv4 \<times> goerr option" where
  "AddressTo4 ip =
     (case checkIPv4Address (ip_SrcIP ip) of
        Inl (Errorf m as) \<Rightarrow> (ip, Some (Errorf (''Invalid source IPv4 address ('' @ m @ '')'') as))
      | Inr src \<Rightarrow>
          (case checkIPv4Address (ip_DstIP ip) of
             Inl (Errorf m as) \<Rightarrow> (ip, Some (Errorf (''Invalid destination IPv4 address ('' @ m @ '')'') as))
           | Inr dst \<Rightarrow> (ip\<lparr>ip_SrcIP := src, ip_DstIP := dst\<rparr>, None)))"

text \<open>The loop that encodes the options at \<^verbatim>\<open>curLocation\<close>. The slice \<^verbatim>\<open>bytes\<close> has \<open>n\<close> bytes, but its
  capacity reaches to the end of the buffer's array, and \<^verbatim>\<open>bytes[i:j]\<close> may go up to the capacity: \<open>m\<close> is
  all of that memory. Element assignments are bounded by \<open>n\<close>.\<close>

definition set_byte :: "nat \<Rightarrow> bytes \<Rightarrow> nat \<Rightarrow> byte \<Rightarrow> bytes option" where
  "set_byte n m i x = (if i < n then write_at m i [x] else None)"

fun write_options :: "IPv4Option list \<Rightarrow> nat \<Rightarrow> bytes \<Rightarrow> nat \<Rightarrow> (bytes \<times> goerr option) option" where
  "write_options [] n m cur = Some (m, None)"
| "write_options (opt # opts) n m cur =
     (if opt_OptionType opt = 0 then do { m1 \<leftarrow> set_byte n m cur 0; write_options opts n m1 (cur + 1) }
      else if opt_OptionType opt = 1 then do { m1 \<leftarrow> set_byte n m cur 1; write_options opts n m1 (cur + 1) }
      else do {
        m1 \<leftarrow> set_byte n m cur (opt_OptionType opt);
        m2 \<leftarrow> set_byte n m1 (cur + 1) (opt_OptionLength opt);
        if length (opt_OptionData opt) > unat (opt_OptionLength opt - 2)
        then Some (m2, Some (Errorf ''option length is smaller than length of option data'' []))
        else do {
          room \<leftarrow> slice m2 (cur + 2) (cur + unat (opt_OptionLength opt));
          m3 \<leftarrow> write_at m2 (cur + 2) (take (length room) (opt_OptionData opt));
          write_options opts n m3 (cur + unat (opt_OptionLength opt)) } })"

definition front_memory :: "serializeBuffer \<Rightarrow> bytes" where
  "front_memory b = Bytes b @ sb_spare b"

definition store_memory :: "serializeBuffer \<Rightarrow> bytes \<Rightarrow> serializeBuffer" where
  "store_memory b m = b\<lparr>sb_data := take (sb_start b) (sb_data b) @ take (length (Bytes b)) m,
                        sb_spare := drop (length (Bytes b)) m\<rparr>"

text \<open>The first ten bytes of the header.\<close>

definition write_fixed :: "IPv4 \<Rightarrow> bytes \<Rightarrow> bytes option" where
  "write_fixed ip w0 =
     do { w1 \<leftarrow> write_at w0 0 [push_bit 4 (ip_Version ip) OR ip_IHL ip];
          w2 \<leftarrow> write_at w1 1 [ip_TOS ip];
          w3 \<leftarrow> write_at w2 2 (be16 (ip_Length ip));
          w4 \<leftarrow> write_at w3 4 (be16 (ip_Id ip));
          w5 \<leftarrow> write_at w4 6 (be16 (flagsfrags ip));
          w6 \<leftarrow> write_at w5 8 [ip_TTL ip];
          write_at w6 9 [ip_Protocol ip] }"

definition IPv4_SerializeTo :: "IPv4 \<Rightarrow> serializeBuffer \<Rightarrow> SerializeOptions \<Rightarrow> IPv4 serialized" where
  "IPv4_SerializeTo ip0 b opts =
     do { let optionLength = getIPv4OptionSize ip0;
          let n = 20 + unat optionLength;
          b1 \<leftarrow> PrependBytes b (int n);
          let ip = (if FixLengths opts
                    then ip0\<lparr>ip_IHL := 5 + optionLength div 4, ip_Length := of_nat (length (Bytes b1))\<rparr>
                    else ip0);
          w7 \<leftarrow> write_fixed ip (take n (Bytes b1));
          case AddressTo4 ip of
            (ip1, Some e) \<Rightarrow> Some (ip1, store_front b1 w7, Some e)
          | (ip1, None) \<Rightarrow> do {
              w8 \<leftarrow> write_at w7 12 (take 4 (ip_SrcIP ip1));
              w9 \<leftarrow> write_at w8 16 (take 4 (ip_DstIP ip1));
              (m, err) \<leftarrow> write_options (ip_Options ip1) n (w9 @ drop n (front_memory b1)) 20;
              let b2 = store_memory b1 m;
              case err of
                Some e \<Rightarrow> Some (ip1, b2, Some e)
              | None \<Rightarrow> do {
                  (w11, ip2) \<leftarrow> (if ComputeChecksums opts
                                then do { (w, c) \<leftarrow> ip4_checksum (take n m); Some (w, ip1\<lparr>ip_Checksum := c\<rparr>) }
                                else Some (take n m, ip1));
                  w12 \<leftarrow> write_at w11 10 (be16 (ip_Checksum ip2));
                  Some (ip2, store_front b2 w12, None) } } }"

subsection \<open>Decoder\<close>

text \<open>The loop over the options; on an error the options decoded so far stay in the receiver.\<close>

function decode_options :: "IPv4 \<Rightarrow> bytes \<Rightarrow> bool \<Rightarrow> IPv4 decoded" where
  "decode_options ip data df =
     (if data = [] then Some (ip, df, None)
      else do {
        t \<leftarrow> idx data 0;
        if t = 0 then do {
          pad \<leftarrow> slice data 1 (length data);
          Some (ip\<lparr>ip_Options := ip_Options ip @ [\<lparr>opt_OptionType = t, opt_OptionLength = 1, opt_OptionData = []\<rparr>],
                   ip_Padding := pad\<rparr>, df, None) }
        else if t = 1 then
          decode_options (ip\<lparr>ip_Options := ip_Options ip @ [\<lparr>opt_OptionType = t, opt_OptionLength = 1, opt_OptionData = []\<rparr>]\<rparr>)
            (drop 1 data) df
        else if length data < 2
        then Some (ip, True, Some (Errorf ''Invalid ip4 option length. Length %d less than 2'' [int (length data)]))
        else do {
          l \<leftarrow> idx data 1;
          if length data < unat l
          then Some (ip, True, Some (Errorf ''IP option length exceeds remaining IP header size, option type %v length %v'' [uint t, uint l]))
          else if l \<le> 2
          then Some (ip, df, Some (Errorf ''Invalid IP option type %v length %d. Must be greater than 2'' [uint t, uint l]))
          else do {
            d \<leftarrow> slice data 2 (unat l);
            decode_options (ip\<lparr>ip_Options := ip_Options ip @ [\<lparr>opt_OptionType = t, opt_OptionLength = l, opt_OptionData = d\<rparr>]\<rparr>)
              (drop (unat l) data) df } } })"
  by pat_completeness auto
termination
  by (relation "measure (\<lambda>(ip, data, df). length data)") (auto simp: word_le_nat_alt)

declare decode_options.simps [simp del]

text \<open>The second half of \<^verbatim>\<open>DecodeFromBytes\<close>: the checks of the lengths in the header just read, the cut of
  the data to the total length, and the options.\<close>

definition IPv4_decode_body :: "IPv4 \<Rightarrow> bytes \<Rightarrow> bool \<Rightarrow> IPv4 decoded" where
  "IPv4_decode_body ip data df =
     (if ip_Length ip < 20
      then Some (ip, df, Some (Errorf ''Invalid (too small) IP length (%d < 20)'' [uint (ip_Length ip)]))
      else if ip_IHL ip < 5
      then Some (ip, df, Some (Errorf ''Invalid (too small) IP header length (%d < 5)'' [uint (ip_IHL ip)]))
      else if unat (ip_IHL ip * 4) > unat (ip_Length ip)
      then Some (ip, df, Some (Errorf ''Invalid IP header length > IP length (%d > %d)''
                                 [uint (ip_IHL ip), uint (ip_Length ip)]))
      else do {
        let cmp = int (length data) - int (unat (ip_Length ip));
        if cmp < 0 \<and> unat (ip_IHL ip) * 4 > length data
        then Some (ip, True, Some (Errorf ''Not all IP header bytes available'' []))
        else do {
          data1 \<leftarrow> (if cmp > 0 then slice data 0 (unat (ip_Length ip)) else Some data);
          c \<leftarrow> slice data1 0 (unat (ip_IHL ip * 4));
          p \<leftarrow> slice data1 (unat (ip_IHL ip * 4)) (length data1);
          o1 \<leftarrow> slice data1 20 (unat (ip_IHL ip * 4));
          decode_options (ip\<lparr>Contents := c, Payload := p\<rparr>) o1 (df \<or> cmp < 0) } })"

definition IPv4_DecodeFromBytes :: "IPv4 \<Rightarrow> bytes \<Rightarrow> bool \<Rightarrow> IPv4 decoded" where
  "IPv4_DecodeFromBytes ip data df =
     (if length data < 20
      then Some (ip, True, Some (Errorf ''Invalid ip4 header. Length %d less than 20'' [int (length data)]))
      else do {
        ff2 \<leftarrow> slice data 6 8; flagsfrags \<leftarrow> get_be16 ff2;
        b0 \<leftarrow> idx data 0;
        b1 \<leftarrow> idx data 1;
        l2 \<leftarrow> slice data 2 4; len0 \<leftarrow> get_be16 l2;
        i2 \<leftarrow> slice data 4 6; id0 \<leftarrow> get_be16 i2;
        b8 \<leftarrow> idx data 8;
        b9 \<leftarrow> idx data 9;
        c2 \<leftarrow> slice data 10 12; csum \<leftarrow> get_be16 c2;
        src \<leftarrow> slice data 12 16;
        dst \<leftarrow> slice data 16 20;
        let len = (if len0 = 0 then of_nat (length data) else len0);
        IPv4_decode_body
          (ip\<lparr>ip_Version := drop_bit 4 b0, ip_IHL := b0 AND 0x0F, ip_TOS := b1, ip_Length := len, ip_Id := id0,
              ip_Flags := ucast (drop_bit 13 flagsfrags), ip_FragOffset := flagsfrags AND 0x1FFF,
              ip_TTL := b8, ip_Protocol := b9, ip_Checksum := csum, ip_SrcIP := src, ip_DstIP := dst,
              ip_Options := [], ip_Padding := [], Contents := data, Payload := []\<rparr>) data df })"

definition IPv4_NextLayerType :: "IPv4 \<Rightarrow> LayerType" where
  "IPv4_NextLayerType i =
     (if ip_Flags i AND IPv4MoreFragments \<noteq> 0 \<or> ip_FragOffset i \<noteq> 0 then LayerTypeFragment
      else IPProtocol_LayerType (ip_Protocol i))"

definition zero_IPv4 :: IPv4 where
  "zero_IPv4 = \<lparr>Contents = [], Payload = [], ip_Version = 0, ip_IHL = 0, ip_TOS = 0, ip_Length = 0, ip_Id = 0, ip_Flags = 0,
      ip_FragOffset = 0, ip_TTL = 0, ip_Protocol = 0, ip_Checksum = 0, ip_SrcIP = [], ip_DstIP = [], ip_Options = [], ip_Padding = []\<rparr>"

abbreviation ip_layer :: "IPv4 \<Rightarrow> Layer" where
  "ip_layer ip \<equiv> \<lparr>ly_type = LayerTypeIPv4, ly_contents = Contents ip, ly_payload = Payload ip\<rparr>"

text \<open>\<^verbatim>\<open>decodeIPv4\<close> adds the layer even when decoding it failed.\<close>

definition decodeIPv4 :: "bytes \<Rightarrow> decode_step" where
  "decodeIPv4 data =
     (case IPv4_DecodeFromBytes zero_IPv4 data False of
        None \<Rightarrow> ([], Panics)
      | Some (ip, t, err) \<Rightarrow>
          (truncation t @ [AddLayer (ip_layer ip), SetNetworkLayer (ip_layer ip)],
           case err of Some e \<Rightarrow> Return (Some e) | None \<Rightarrow> NextDecoder (ByLayerType (IPv4_NextLayerType ip))))"

subsection \<open>The decoder keeps the contract of decoding layers\<close>

lemma unat_ihl: "unat ((b :: u8) AND 0x0F) < 16"
  using unat_and_low [of b 4] by (simp add: mask_eq_exp_minus_1)

lemma unat_ihl4 [simp]: "unat (((b :: u8) AND 0x0F) * 4) = 4 * unat (b AND 0x0F)"
  using unat_ihl [of b] by (simp add: unat_word_ariths)

definition ip_header_of :: "bytes \<Rightarrow> IPv4" where
  "ip_header_of data =
     (let len0 = mk16 (data ! 2) (data ! 3); ff = mk16 (data ! 6) (data ! 7) in
      \<lparr>Contents = data, Payload = [], ip_Version = drop_bit 4 (data ! 0), ip_IHL = data ! 0 AND 0x0F, ip_TOS = data ! 1,
       ip_Length = (if len0 = 0 then of_nat (length data) else len0), ip_Id = mk16 (data ! 4) (data ! 5),
       ip_Flags = ucast (drop_bit 13 ff), ip_FragOffset = ff AND 0x1FFF, ip_TTL = data ! 8, ip_Protocol = data ! 9,
       ip_Checksum = mk16 (data ! 10) (data ! 11), ip_SrcIP = take 4 (drop 12 data), ip_DstIP = take 4 (drop 16 data),
       ip_Options = [], ip_Padding = []\<rparr>)"

lemma IPv4_decode_simp:
  "20 \<le> length data \<Longrightarrow> IPv4_DecodeFromBytes ip data df = IPv4_decode_body (ip_header_of data) data df"
  by (cases ip) (simp add: IPv4_DecodeFromBytes_def get_be16_def Let_def ip_header_of_def)

lemma ip_header_ihl: "4 * unat (ip_IHL (ip_header_of data)) = unat (ip_IHL (ip_header_of data) * 4)"
  by (simp add: ip_header_of_def Let_def)

lemma IPv4_body_simp:
  assumes "unat (ip_IHL ip * 4) = 4 * unat (ip_IHL ip)"
    and "\<not> ip_IHL ip < 5" "\<not> ip_Length ip < 20" "4 * unat (ip_IHL ip) \<le> unat (ip_Length ip)" "4 * unat (ip_IHL ip) \<le> length data"
  shows "IPv4_decode_body ip data df =
    decode_options (ip\<lparr>Contents := take (4 * unat (ip_IHL ip)) data,
                       Payload := drop (4 * unat (ip_IHL ip)) (take (unat (ip_Length ip)) data)\<rparr>)
      (drop 20 (take (4 * unat (ip_IHL ip)) data)) (df \<or> length data < unat (ip_Length ip))"
proof -
  have five: "20 \<le> 4 * unat (ip_IHL ip)" using assms(2) by (simp add: word_less_nat_alt)
  show ?thesis
    using assms five
    by (cases "length data" "unat (ip_Length ip)" rule: linorder_cases)
      (simp_all add: IPv4_decode_body_def Let_def min_def drop_take del: of_nat_unat)
qed

abbreviation add_opt :: "IPv4 \<Rightarrow> u8 \<Rightarrow> u8 \<Rightarrow> bytes \<Rightarrow> IPv4" where
  "add_opt ip t l d \<equiv> ip\<lparr>ip_Options := ip_Options ip @ [\<lparr>opt_OptionType = t, opt_OptionLength = l, opt_OptionData = d\<rparr>]\<rparr>"

lemma decode_options_Nil: "decode_options ip [] df = Some (ip, df, None)"
  by (simp add: decode_options.simps)

lemma decode_options_EOL: "decode_options ip (0 # pad) df = Some (add_opt ip 0 1 []\<lparr>ip_Padding := pad\<rparr>, df, None)"
  by (simp add: decode_options.simps [of ip "0 # pad"])

lemma decode_options_NOP: "decode_options ip (1 # rest) df = decode_options (add_opt ip 1 1 []) rest df"
  by (simp add: decode_options.simps [of ip "1 # rest"])

lemma decode_options_short:
  "t \<noteq> 0 \<Longrightarrow> t \<noteq> 1 \<Longrightarrow> decode_options ip [t] df
     = Some (ip, True, Some (Errorf ''Invalid ip4 option length. Length %d less than 2'' [1]))"
  by (simp add: decode_options.simps [of ip "[t]"])

lemma decode_options_long:
  "t \<noteq> 0 \<Longrightarrow> t \<noteq> 1 \<Longrightarrow> decode_options ip (t # l # rest) df =
    (if 2 + length rest < unat l
     then Some (ip, True, Some (Errorf ''IP option length exceeds remaining IP header size, option type %v length %v'' [uint t, uint l]))
     else if l \<le> 2
     then Some (ip, df, Some (Errorf ''Invalid IP option type %v length %d. Must be greater than 2'' [uint t, uint l]))
     else decode_options (add_opt ip t l (take (unat l - 2) rest)) (drop (unat l - 2) rest) df)"
proof (cases "l \<le> 2")
  case True
  then show "t \<noteq> 0 \<Longrightarrow> t \<noteq> 1 \<Longrightarrow> ?thesis" by (simp add: decode_options.simps [of ip "t # l # rest"])
next
  case False
  then have "2 \<le> unat l" by (simp add: word_le_nat_alt)
  with False show "t \<noteq> 0 \<Longrightarrow> t \<noteq> 1 \<Longrightarrow> ?thesis"
    by (simp add: decode_options.simps [of ip "t # l # rest"] slice_def drop_Cons' numeral_2_eq_2)
qed

lemmas decode_options_eqs =
  decode_options_Nil decode_options_EOL decode_options_NOP decode_options_short decode_options_long

abbreviation sans_opts :: "IPv4 \<Rightarrow> IPv4" where
  "sans_opts ip \<equiv> ip\<lparr>ip_Options := [], ip_Padding := []\<rparr>"

lemma decode_options_result:
  "\<exists>ip' df' err. decode_options ip data df = Some (ip', df', err) \<and> sans_opts ip' = sans_opts ip"
proof (induction "length data" arbitrary: ip data rule: less_induct)
  case less
  have rec: "\<exists>ip' df' err. decode_options (add_opt ip t l d) data' df = Some (ip', df', err) \<and> sans_opts ip' = sans_opts ip"
    if "length data' < length data" for t l d data'
    using less [OF that, of "add_opt ip t l d"] by simp
  consider "data = []" | pad where "data = 0 # pad" | rest where "data = 1 # rest"
    | t where "data = [t]" "t \<noteq> 0" "t \<noteq> 1" | t l rest where "data = t # l # rest" "t \<noteq> 0" "t \<noteq> 1"
    by (metis list.exhaust)
  then show ?case
  proof cases
    case (5 t l rest)
    then show ?thesis
      using rec [of "drop (unat l - 2) rest" t l "take (unat l - 2) rest"]
      by (cases "unat l \<le> 2 + length rest") (auto simp: decode_options_eqs)
  qed (use rec in \<open>auto simp: decode_options_eqs\<close>)
qed

lemma decode_options_keeps:
  assumes "decode_options ip data df = Some (ip', df', err)"
  shows "Contents ip' = Contents ip" and "Payload ip' = Payload ip"
proof -
  from decode_options_result [of ip data df] assms have eq: "sans_opts ip' = sans_opts ip" by auto
  from arg_cong [OF eq, of Contents] show "Contents ip' = Contents ip" by simp
  from arg_cong [OF eq, of Payload] show "Payload ip' = Payload ip" by simp
qed

lemma IPv4_body_cases:
  assumes "unat (ip_IHL ip * 4) = 4 * unat (ip_IHL ip)"
  obtains (fails) df' e where "IPv4_decode_body ip data df = Some (ip, df', Some e)"
  | (options) "\<not> ip_IHL ip < 5" "\<not> ip_Length ip < 20" "4 * unat (ip_IHL ip) \<le> unat (ip_Length ip)" "4 * unat (ip_IHL ip) \<le> length data"
proof -
  let ?h = "4 * unat (ip_IHL ip)"
  note defs = IPv4_decode_body_def Let_def assms mult.commute [of "unat (ip_IHL ip)" 4]
  consider "ip_Length ip < 20" | "\<not> ip_Length ip < 20" "ip_IHL ip < 5"
    | "\<not> ip_Length ip < 20" "\<not> ip_IHL ip < 5" "unat (ip_Length ip) < ?h"
    | "\<not> ip_Length ip < 20" "\<not> ip_IHL ip < 5" "\<not> unat (ip_Length ip) < ?h" "length data < ?h"
    | "\<not> ip_IHL ip < 5" "\<not> ip_Length ip < 20" "?h \<le> unat (ip_Length ip)" "?h \<le> length data"
    by linarith
  then show thesis
  proof cases
    case 4
    then have "int (length data) - int (unat (ip_Length ip)) < 0" by linarith
    with 4 show thesis by (intro fails) (simp only: defs if_True if_False simp_thms)
  qed (use options in \<open>auto intro: fails simp only: defs if_True if_False simp_thms\<close>)
qed

interpretation ip4_dl: decoding_layer IPv4_DecodeFromBytes Contents Payload 20 id
proof
  fix l l' m :: IPv4 and data df df'
  show "IPv4_DecodeFromBytes l data df \<noteq> None"
  proof (cases "20 \<le> length data")
    case True
    show ?thesis
    proof (cases rule: IPv4_body_cases [of "ip_header_of data" data df, OF ip_header_ihl [symmetric], case_names fails options])
      case fails
      with True show ?thesis by (simp add: IPv4_decode_simp)
    next
      case options
      with True decode_options_result show ?thesis
        by (metis IPv4_decode_simp IPv4_body_simp ip_header_ihl option.distinct(1))
    qed
  next
    case False
    then show ?thesis by (simp add: IPv4_DecodeFromBytes_def)
  qed
  assume ok: "IPv4_DecodeFromBytes l data df = Some (l', df', None)"
  then have len: "20 \<le> length data"
    by (simp add: IPv4_DecodeFromBytes_def split: if_splits)
  show "\<exists>m'. IPv4_DecodeFromBytes m data df = Some (m', df', None) \<and> id m' = id l'"
    using ok len by (intro reuse_idI) (simp add: IPv4_decode_simp)
  let ?ip = "ip_header_of data"
  let ?h = "4 * unat (ip_IHL ?ip)"
  let ?d = "take (unat (ip_Length ?ip)) data"
  show "20 \<le> length (Contents l') \<and> (\<exists>rest. data = Contents l' @ Payload l' @ rest)"
  proof (cases rule: IPv4_body_cases [of ?ip data df, OF ip_header_ihl [symmetric], case_names fails options])
    case fails
    with ok len show ?thesis by (simp add: IPv4_decode_simp)
  next
    case options
    from ok len options have "decode_options (?ip\<lparr>Contents := take ?h data, Payload := drop ?h ?d\<rparr>)
        (drop 20 (take ?h data)) (df \<or> length data < unat (ip_Length ?ip)) = Some (l', df', None)"
      by (simp add: IPv4_decode_simp IPv4_body_simp [OF ip_header_ihl [symmetric]])
    then have "Contents l' = take ?h data" "Payload l' = drop ?h ?d"
      by (simp_all add: decode_options_keeps)
    moreover have "20 \<le> ?h" using options(1) by (simp add: word_less_nat_alt)
    moreover have "data = take ?h data @ drop ?h ?d @ drop (unat (ip_Length ?ip)) data"
      using options(3) by (metis append.assoc append_take_drop_id min.absorb1 take_take)
    ultimately show ?thesis using options(4) by auto
  qed
next
  show "0 < (20 :: nat)" by simp
qed

subsection \<open>Options on the wire\<close>

definition opt_wire :: "IPv4Option \<Rightarrow> bytes" where
  "opt_wire opt = (if opt_OptionType opt = 1 then [1] else opt_OptionType opt # opt_OptionLength opt # opt_OptionData opt)"

definition opts_wire :: "IPv4Option list \<Rightarrow> bytes" where
  "opts_wire os = concat (map opt_wire os)"

text \<open>Options as the decoder produces them, end-of-list excluded.\<close>

definition wf_opt :: "IPv4Option \<Rightarrow> bool" where
  "wf_opt opt \<longleftrightarrow> opt_OptionType opt \<noteq> 0 \<and>
     (if opt_OptionType opt = 1 then opt_OptionLength opt = 1 \<and> opt_OptionData opt = []
      else opt_OptionData opt \<noteq> [] \<and> unat (opt_OptionLength opt) = 2 + length (opt_OptionData opt))"

lemma opts_wire_simps [simp]:
  "opts_wire [] = []" "opts_wire (opt # os) = opt_wire opt @ opts_wire os"
  by (simp_all add: opts_wire_def)

lemma length_opt_wire: "wf_opt opt \<Longrightarrow>
    length (opt_wire opt) = (if opt_OptionType opt = 1 then 1 else unat (opt_OptionLength opt))"
  by (simp add: wf_opt_def opt_wire_def)

lemma option_size:
  "list_all wf_opt os \<Longrightarrow> foldl add_option_size acc os = acc + of_nat (length (opts_wire os))"
proof (induction os arbitrary: acc)
  case (Cons opt os)
  then have "of_nat (length (opt_wire opt)) = (if opt_OptionType opt = 1 then 1 else opt_OptionLength opt)"
    by (simp add: length_opt_wire)
  with Cons show ?case by (auto simp: wf_opt_def)
qed simp

lemma getIPv4OptionSize_wf:
  assumes "list_all wf_opt (ip_Options ip)" and "length (opts_wire (ip_Options ip)) \<le> 40"
    and "4 dvd length (opts_wire (ip_Options ip))"
  shows "getIPv4OptionSize ip = of_nat (length (opts_wire (ip_Options ip)))"
proof -
  let ?n = "length (opts_wire (ip_Options ip))"
  have "unat ((of_nat ?n :: u8) mod 4) = 0"
    using assms(2,3) by (simp add: unat_mod unat_of_nat_byte)
  then have "(of_nat ?n :: u8) mod 4 = 0" by (simp only: unat_eq_0)
  then show ?thesis by (simp add: getIPv4OptionSize_def option_size [OF assms(1)])
qed

lemma write_options_wf:
  "list_all wf_opt os \<Longrightarrow> cur = length pre \<Longrightarrow> cur + length (opts_wire os) \<le> n \<Longrightarrow> n \<le> length (pre @ junk) \<Longrightarrow>
   write_options os n (pre @ junk) cur = Some (pre @ opts_wire os @ drop (length (opts_wire os)) junk, None)"
proof (induction os arbitrary: pre junk cur)
  case (Cons opt os)
  let ?w = "opt_wire opt"
  have wf: "wf_opt opt" and len: "cur + length ?w + length (opts_wire os) \<le> n" using Cons.prems by simp_all
  have IH: "write_options os n ((pre @ ?w) @ drop (length ?w) junk) (cur + length ?w)
      = Some ((pre @ ?w) @ opts_wire os @ drop (length (opts_wire os)) (drop (length ?w) junk), None)"
    by (rule Cons.IH) (use Cons.prems len in simp_all)
  show ?case
  proof (cases "opt_OptionType opt = 1")
    case True
    with wf IH Cons.prems len show ?thesis by (simp add: opt_wire_def wf_opt_def set_byte_def)
  next
    case False
    let ?l = "opt_OptionLength opt" let ?d = "opt_OptionData opt"
    have l: "unat ?l = 2 + length ?d" "opt_OptionType opt \<noteq> 0" using wf False by (simp_all add: wf_opt_def)
    have "unat (?l - 2) = length ?d" using l by (simp add: unat_sub word_le_nat_alt)
    with wf IH Cons.prems len False l show ?thesis
      by (simp add: opt_wire_def set_byte_def add.commute)
  qed
qed simp

lemma decode_options_wf:
  "list_all wf_opt os \<Longrightarrow> decode_options ip (opts_wire os) df = Some (ip\<lparr>ip_Options := ip_Options ip @ os\<rparr>, df, None)"
proof (induction os arbitrary: ip)
  case (Cons opt os)
  have wf: "wf_opt opt" using Cons.prems by simp
  show ?case
  proof (cases "opt_OptionType opt = 1")
    case True
    then have "opt = \<lparr>opt_OptionType = 1, opt_OptionLength = 1, opt_OptionData = []\<rparr>"
      using wf by (cases opt) (simp add: wf_opt_def)
    then show ?thesis using Cons by (simp add: opt_wire_def decode_options_eqs)
  next
    case False
    let ?l = "opt_OptionLength opt"
    have t: "opt_OptionType opt \<noteq> 0" "unat ?l = 2 + length (opt_OptionData opt)" "opt_OptionData opt \<noteq> []"
      using wf False by (simp_all add: wf_opt_def)
    then have "\<not> ?l \<le> 2" by (simp add: word_le_nat_alt)
    moreover have "\<lparr>opt_OptionType = opt_OptionType opt, opt_OptionLength = ?l, opt_OptionData = opt_OptionData opt\<rparr> = opt"
      by (cases opt) simp
    ultimately show ?thesis using Cons t False by (simp add: opt_wire_def decode_options_long)
  qed
qed (simp add: decode_options_eqs)

subsection \<open>What the serializer writes\<close>

lemma store_front_memory:
  assumes "length h = n" and "length w = n" and "n \<le> length (Bytes b)"
  shows "store_front (store_memory b (h @ drop n (front_memory b))) w = store_front b w"
  using assms by (simp add: store_front_def store_memory_def front_memory_def Bytes_def min_def add.commute) auto

lemma sb_layers_store_memory [simp]: "sb_layers (store_memory b m) = sb_layers b"
  by (simp add: store_memory_def)

definition ip_fixed_part :: "IPv4 \<Rightarrow> bytes" where
  "ip_fixed_part ip =
     [push_bit 4 (ip_Version ip) OR ip_IHL ip, ip_TOS ip] @ be16 (ip_Length ip) @ be16 (ip_Id ip) @ be16 (flagsfrags ip)
     @ [ip_TTL ip, ip_Protocol ip]"

definition ip_wire :: "IPv4 \<Rightarrow> u16 \<Rightarrow> bytes" where
  "ip_wire ip csum = ip_fixed_part ip @ be16 csum @ ip_SrcIP ip @ ip_DstIP ip @ opts_wire (ip_Options ip)"

lemma length_ip_fixed_part [simp]: "length (ip_fixed_part ip) = 10"
  by (simp add: ip_fixed_part_def)

lemma write_fixed_eq: "10 \<le> length w \<Longrightarrow> write_fixed ip w = Some (ip_fixed_part ip @ drop 10 w)"
  by (simp add: write_fixed_def ip_fixed_part_def)

lemma ip4_checksum_eq:
  assumes "length pre = 10" and "even (length post)"
  shows "ip4_checksum (pre @ [x, y] @ post) = Some (pre @ [0, 0] @ post, tcpipChecksum (pre @ [0, 0] @ post) 0)"
  using assms by (simp add: ip4_checksum_def tcpipChecksum_def ip4_fold_eq)

definition ip_fixed :: "IPv4 \<Rightarrow> bytes \<Rightarrow> IPv4" where
  "ip_fixed ip payload = ip\<lparr>ip_IHL := 5 + of_nat (length (opts_wire (ip_Options ip)) div 4),
      ip_Length := of_nat (20 + length (opts_wire (ip_Options ip)) + length payload)\<rparr>"

definition ip_csum :: "IPv4 \<Rightarrow> SerializeOptions \<Rightarrow> u16" where
  "ip_csum ip opts = (if ComputeChecksums opts then tcpipChecksum (ip_wire ip 0) 0 else ip_Checksum ip)"

text \<open>A header the round trip is about: field values that fit their bit fields, four-byte addresses, and
  options that fill whole 32-bit words.\<close>

definition wf_ip :: "IPv4 \<Rightarrow> bool" where
  "wf_ip ip \<longleftrightarrow> ip_Version ip < 16 \<and> ip_Flags ip < 8 \<and> ip_FragOffset ip < 0x2000
     \<and> length (ip_SrcIP ip) = 4 \<and> length (ip_DstIP ip) = 4 \<and> list_all wf_opt (ip_Options ip)
     \<and> length (opts_wire (ip_Options ip)) \<le> 40 \<and> 4 dvd length (opts_wire (ip_Options ip))"

lemma IPv4_SerializeTo_ok:
  assumes "sb_inv b" and "wf_ip ip" and "FixLengths opts"
  shows "\<exists>b'. IPv4_SerializeTo ip b opts =
            Some ((ip_fixed ip (Bytes b))\<lparr>ip_Checksum := ip_csum (ip_fixed ip (Bytes b)) opts\<rparr>, b', None)
           \<and> sb_inv b' \<and> Bytes b' = ip_wire (ip_fixed ip (Bytes b)) (ip_csum (ip_fixed ip (Bytes b)) opts) @ Bytes b
           \<and> sb_layers b' = sb_layers b"
proof -
  let ?o = "opts_wire (ip_Options ip)" let ?n = "length ?o"
  let ?ip = "ip_fixed ip (Bytes b)"
  have wf: "list_all wf_opt (ip_Options ip)" "?n \<le> 40" "4 dvd ?n" "length (ip_SrcIP ip) = 4" "length (ip_DstIP ip) = 4"
    using assms(2) by (simp_all add: wf_ip_def)
  have n: "getIPv4OptionSize ip = of_nat ?n" "unat (of_nat ?n :: u8) = ?n"
    using getIPv4OptionSize_wf [OF wf(1-3)] wf(2) by (simp_all add: unat_of_nat_byte)
  have ev: "even ?n" using wf(3) by (metis dvd_trans even_numeral)
  obtain b1 where b1: "PrependBytes b (int (20 + ?n)) = Some b1" "length (take (20 + ?n) (Bytes b1)) = 20 + ?n"
      "\<And>h. length h = 20 + ?n \<Longrightarrow> sb_inv (store_front b1 h)"
      "\<And>h. length h = 20 + ?n \<Longrightarrow> Bytes (store_front b1 h) = h @ Bytes b" "sb_layers b1 = sb_layers b"
      "drop (20 + ?n) (Bytes b1) = Bytes b"
    using PrependBytes_obtain [OF assms(1), of "20 + ?n"] by metis
  define junk where "junk = take (20 + ?n) (Bytes b1)"
  have junk: "length junk = 20 + ?n" unfolding junk_def by (rule b1(2))
  have lenb1: "length (Bytes b1) = 20 + ?n + length (Bytes b)"
    using b1(2) b1(6) by (metis append_take_drop_id length_append)
  have "(of_nat ?n :: u8) div 4 = of_nat (?n div 4)"
    using wf(2) by (simp add: word_unat_eq_iff unat_div unat_of_nat_byte)
  then have fixed: "ip\<lparr>ip_IHL := 5 + getIPv4OptionSize ip div 4, ip_Length := of_nat (length (Bytes b1))\<rparr> = ?ip"
    by (simp add: ip_fixed_def n(1) lenb1)
  let ?pre = "ip_fixed_part ?ip" let ?post = "ip_SrcIP ?ip @ ip_DstIP ?ip @ ?o" let ?old = "take 2 (drop 10 junk)"
  have same: "ip_SrcIP ?ip = ip_SrcIP ip" "ip_DstIP ?ip = ip_DstIP ip" "ip_Options ?ip = ip_Options ip"
    by (simp_all add: ip_fixed_def)
  have to4: "AddressTo4 ?ip = (?ip, None)"
    using wf(4,5) by (simp add: AddressTo4_def checkIPv4Address_def To4_def same)
  let ?rest = "drop (20 + ?n) (front_memory b1)"
  have wopts: "write_options (ip_Options ?ip) (20 + ?n)
        ((?pre @ ?old @ ip_SrcIP ?ip @ ip_DstIP ?ip) @ drop 20 junk @ ?rest) 20
      = Some ((?pre @ ?old @ ip_SrcIP ?ip @ ip_DstIP ?ip) @ ?o @ drop ?n (drop 20 junk @ ?rest), None)"
    unfolding same by (rule write_options_wf) (use wf junk in simp_all)
  have stored: "store_front (store_memory b1 (?pre @ ?old @ ip_SrcIP ip @ ip_DstIP ip @ ?o @ ?rest)) w = store_front b1 w"
    if "length w = 20 + ?n" for w
    using store_front_memory [of "?pre @ ?old @ ip_SrcIP ip @ ip_DstIP ip @ ?o" _ w b1] that lenb1 wf(4,5) junk by simp
  have "length ?old = 2" using junk by simp
  then obtain x y where old: "?old = [x, y]" unfolding length_2_conv by blast
  have evpost: "even (length ?post)" using ev wf(4,5) by (simp add: same)
  have csum: "ip4_checksum (?pre @ ?old @ ?post) = Some (?pre @ [0, 0] @ ?post, tcpipChecksum (?pre @ [0, 0] @ ?post) 0)"
    unfolding old by (rule ip4_checksum_eq [OF _ evpost]) simp
  have wf7: "write_fixed ?ip junk = Some (?pre @ drop 10 junk)" using junk by (simp add: write_fixed_eq)
  show ?thesis
    using b1(1,3-5) wopts csum
    by (simp add: IPv4_SerializeTo_def Let_def n fixed [unfolded n] assms(3) junk_def [symmetric] wf7 to4 same wf(4,5) junk stored ip_csum_def ip_wire_def
        del: of_nat_unat)
qed

subsection \<open>Round trip\<close>

lemma flagsfrags_unpack:
  assumes "ip_Flags ip < 8" and "ip_FragOffset ip < 0x2000"
  shows "ucast (drop_bit 13 (flagsfrags ip)) = ip_Flags ip" and "flagsfrags ip AND 0x1FFF = ip_FragOffset ip"
proof -
  have f: "\<And>n. 3 \<le> n \<Longrightarrow> \<not> bit (ip_Flags ip) n"
    using assms(1) by (intro not_bit_small [of _ 3]) (auto simp: word_less_nat_alt)
  have o: "\<And>n. 13 \<le> n \<Longrightarrow> \<not> bit (ip_FragOffset ip) n"
    using assms(2) by (intro not_bit_small [of _ 13]) (auto simp: word_less_nat_alt)
  show "ucast (drop_bit 13 (flagsfrags ip)) = ip_Flags ip"
    by (rule bit_word_eqI) (auto simp: flagsfrags_def bit_simps f o dest!: less8_cases)
  show "flagsfrags ip AND 0x1FFF = ip_FragOffset ip"
    by (rule and_mask_eqI [of _ 13]) (simp_all add: mask_eq_exp_minus_1 flagsfrags_def bit_simps f o)
qed

lemma ip_header_of_wire:
  assumes "wf_ip ip" and "ip_IHL ip < 16" and "ip_Length ip \<noteq> 0"
  shows "ip_header_of (ip_wire ip c @ p) =
    ip\<lparr>Contents := ip_wire ip c @ p, Payload := [], ip_Checksum := c, ip_Options := [], ip_Padding := []\<rparr>"
proof -
  have v: "ip_Version ip < 16" "ip_Flags ip < 8" "ip_FragOffset ip < 0x2000"
    and a: "length (ip_SrcIP ip) = 4" "length (ip_DstIP ip) = 4"
    using assms(1) by (simp_all add: wf_ip_def)
  show ?thesis
    using assms(3)
    by (intro IPv4.equality)
      (simp_all add: ip_header_of_def Let_def ip_wire_def ip_fixed_part_def be16_def nth_append mk16_split
        nibbles [OF v(1) assms(2)] nibbles [OF v(1) assms(2), simplified] flagsfrags_unpack [OF v(2,3)] a)
qed

lemma IPv4_decode_wire:
  assumes "wf_ip ip" and "20 + length (opts_wire (ip_Options ip)) + length p < 65536"
  shows "IPv4_DecodeFromBytes old (ip_wire (ip_fixed ip p) c @ p @ trailer) df =
     Some ((ip_fixed ip p)\<lparr>ip_Checksum := c, Contents := ip_wire (ip_fixed ip p) c, Payload := p, ip_Padding := []\<rparr>, df, None)"
proof -
  let ?ip = "ip_fixed ip p" let ?w = "ip_wire ?ip c" let ?o = "opts_wire (ip_Options ip)"
  have wf: "list_all wf_opt (ip_Options ip)" "length ?o \<le> 40" "4 dvd length ?o"
    and a: "length (ip_SrcIP ip) = 4" "length (ip_DstIP ip) = 4"
    using assms(1) by (simp_all add: wf_ip_def)
  have "length ?o div 4 \<le> 10" using wf(2) by simp
  then have ihl: "unat (ip_IHL ?ip) = 5 + length ?o div 4"
    by (simp add: ip_fixed_def unat_word_ariths unat_of_nat_byte)
  then have h: "4 * unat (ip_IHL ?ip) = 20 + length ?o" using wf(3) by simp
  then have h4: "unat (ip_IHL ?ip * 4) = 20 + length ?o" using wf(2) by (simp add: unat_word_ariths)
  have len: "unat (ip_Length ?ip) = 20 + length ?o + length p"
    using unat_of_nat_u16 [OF assms(2)] by (simp add: ip_fixed_def)
  have wfip: "wf_ip ?ip" using assms(1) by (simp add: wf_ip_def ip_fixed_def)
  have small: "ip_IHL ?ip < 16" "ip_Length ?ip \<noteq> 0"
    using ihl len wf(2) by (auto simp: word_less_nat_alt)
  have w: "length ?w = 20 + length ?o" "drop 20 ?w = ?o"
    using a by (simp_all add: ip_wire_def ip_fixed_def)
  let ?hd = "?ip\<lparr>Contents := ?w @ p @ trailer, Payload := [], ip_Checksum := c, ip_Options := [], ip_Padding := []\<rparr>"
  have "IPv4_DecodeFromBytes old (?w @ p @ trailer) df = IPv4_decode_body ?hd (?w @ p @ trailer) df"
    by (simp add: IPv4_decode_simp w ip_header_of_wire [OF wfip small])
  also have "\<dots> = decode_options (?hd\<lparr>Contents := ?w, Payload := p\<rparr>) ?o df"
    by (subst IPv4_body_simp) (use ihl len h h4 w in \<open>simp_all add: word_less_nat_alt\<close>)
  also have "\<dots> = Some (?ip\<lparr>ip_Checksum := c, Contents := ?w, Payload := p, ip_Padding := []\<rparr>, df, None)"
    using wf(1) by (simp add: decode_options_wf ip_fixed_def)
  finally show ?thesis .
qed

lemma IPv4_roundtrip_bytes:
  assumes "sb_inv b" and "wf_ip ip" and "FixLengths opts"
    and "20 + length (opts_wire (ip_Options ip)) + length (Bytes b) < 65536"
  shows "\<exists>b' ip'. IPv4_SerializeTo ip b opts = Some (ip', b', None) \<and> sb_inv b'
     \<and> sb_layers b' = sb_layers b
     \<and> ip' = (ip_fixed ip (Bytes b))\<lparr>ip_Checksum := ip_csum (ip_fixed ip (Bytes b)) opts\<rparr>
     \<and> Bytes b' = ip_wire ip' (ip_Checksum ip') @ Bytes b
     \<and> IPv4_DecodeFromBytes old (Bytes b') df =
         Some (ip'\<lparr>Contents := ip_wire ip' (ip_Checksum ip'), Payload := Bytes b, ip_Padding := []\<rparr>, df, None)"
proof -
  let ?ip = "ip_fixed ip (Bytes b)"
  have "ip_wire (?ip\<lparr>ip_Checksum := c\<rparr>) c = ip_wire ?ip c" for c
    by (simp add: ip_wire_def ip_fixed_part_def flagsfrags_def)
  with IPv4_SerializeTo_ok [OF assms(1-3)] IPv4_decode_wire [OF assms(2,4), of old _ "[]"] show ?thesis by auto
qed

lemma wsum_ip_wire: "length (ip_wire ip c) \<le> 60 \<Longrightarrow> wsum (ip_wire ip c) \<le> 65535 * 30"
  using wsum_bound [of "ip_wire ip c"] by (rule order_trans) simp

lemma ip_wire_verifies:
  assumes "wf_ip ip"
  shows "tcpipChecksum (ip_wire ip (tcpipChecksum (ip_wire ip 0) 0)) 0 = 0"
proof -
  have "length (ip_wire ip 0) \<le> 60" using assms by (simp add: wf_ip_def ip_wire_def)
  from wsum_ip_wire [OF this] show ?thesis
    using stored_checksum_verifies [of "ip_fixed_part ip" 0 "ip_SrcIP ip @ ip_DstIP ip @ opts_wire (ip_Options ip)"]
    by (simp add: ip_wire_def)
qed

text \<open>C22. IPv4 headers survive a round trip. A header with fields that fit, four-byte addresses and options
  that fill whole words is serialized, with lengths fixed, to a packet the decoder reads back as the
  same header: same options, \<^verbatim>\<open>IHL\<close> and \<^verbatim>\<open>Length\<close> computed, payload intact, whatever the receiver
  held. With checksums computed, the 16-bit one's complement sum over the header verifies.\<close>

theorem IPv4_roundtrip:
  assumes "sb_inv b" and "wf_ip ip" and "FixLengths opts"
    and "20 + length (opts_wire (ip_Options ip)) + length (Bytes b) < 65536"
  shows "\<exists>b' ip' w. IPv4_SerializeTo ip b opts = Some (ip', b', None) \<and> Bytes b' = w @ Bytes b
     \<and> IPv4_DecodeFromBytes old (Bytes b') df =
         Some (ip'\<lparr>Contents := w, Payload := Bytes b, ip_Padding := []\<rparr>, df, None)
     \<and> ip_Options ip' = ip_Options ip \<and> ip_SrcIP ip' = ip_SrcIP ip \<and> ip_DstIP ip' = ip_DstIP ip
     \<and> 4 * unat (ip_IHL ip') = length w \<and> unat (ip_Length ip') = length (Bytes b')
     \<and> (ComputeChecksums opts \<longrightarrow> tcpipChecksum w 0 = 0)"
proof -
  let ?ip = "ip_fixed ip (Bytes b)" let ?o = "opts_wire (ip_Options ip)"
  have o: "length ?o \<le> 40" "4 dvd length ?o" "length (ip_SrcIP ip) = 4" "length (ip_DstIP ip) = 4"
    using assms(2) by (simp_all add: wf_ip_def)
  then have "length ?o div 4 \<le> 10" by simp
  with o have l: "4 * unat (ip_IHL ?ip) = length (ip_wire ?ip c)" for c
    by (simp add: ip_fixed_def ip_wire_def unat_word_ariths unat_of_nat_byte)
  have t: "unat (ip_Length ?ip) = length (ip_wire ?ip c) + length (Bytes b)" for c
    using unat_of_nat_u16 [OF assms(4)] o(3,4)
    by (simp add: ip_fixed_def ip_wire_def)
  have "ip_wire (?ip\<lparr>ip_Checksum := c\<rparr>) c = ip_wire ?ip c" for c
    by (simp add: ip_wire_def ip_fixed_part_def flagsfrags_def)
  moreover have "wf_ip ?ip" using assms(2) by (simp add: wf_ip_def ip_fixed_def)
  ultimately show ?thesis
    using IPv4_roundtrip_bytes [OF assms, of old df] l t ip_wire_verifies [of ?ip]
    by (auto simp: ip_csum_def ip_fixed_def)
qed

definition ex_ip :: IPv4 where
  "ex_ip = zero_IPv4\<lparr>ip_Version := 4, ip_TTL := 64, ip_Protocol := 17, ip_Flags := 2, ip_SrcIP := [10, 0, 0, 1], ip_DstIP := [10, 0, 0, 2],
     ip_Options := [\<lparr>opt_OptionType = 1, opt_OptionLength = 1, opt_OptionData = []\<rparr>,
                    \<lparr>opt_OptionType = 7, opt_OptionLength = 3, opt_OptionData = [4]\<rparr>]\<rparr>"

lemma wf_ex_ip: "wf_ip ex_ip" "opts_wire (ip_Options ex_ip) = [1, 7, 3, 4]"
  by code_simp+

theorem IPv4_roundtrip_witness:
  "\<exists>b' ip' w. IPv4_SerializeTo ex_ip NewSerializeBuffer \<lparr>FixLengths = True, ComputeChecksums = True\<rparr> = Some (ip', b', None)
     \<and> IPv4_DecodeFromBytes zero_IPv4 (Bytes b') False =
         Some (ip'\<lparr>Contents := w, Payload := [], ip_Padding := []\<rparr>, False, None) \<and> tcpipChecksum w 0 = 0"
proof -
  have "20 + length (opts_wire (ip_Options ex_ip)) + length (Bytes NewSerializeBuffer) < 65536"
    by (simp add: wf_ex_ip)
  from IPv4_roundtrip [OF sb_inv_New wf_ex_ip(1) _ this, of "\<lparr>FixLengths = True, ComputeChecksums = True\<rparr>" zero_IPv4 False]
  show ?thesis by (auto simp: wf_ex_ip)
qed

subsection \<open>Padding of the options\<close>

definition used_buffer :: "byte \<Rightarrow> serializeBuffer" where
  "used_buffer x = \<lparr>sb_data = replicate 24 x, sb_spare = [], sb_start = 24, sb_prepended = 0, sb_appended = 0, sb_layers = []\<rparr>"

text \<open>The serializer does not write the padding after options that do not fill whole words: two
  buffers with equal contents give packets that differ, the padding being whatever the buffer held
  before. The contract of \<^verbatim>\<open>PrependBytes\<close> asks every caller to overwrite all the bytes it gets.\<close>

lemma IPv4_padding_leaks:
  "\<exists>b1 b2 ip1 ip2 b1' b2'. sb_inv b1 \<and> sb_inv b2 \<and> Bytes b1 = [] \<and> Bytes b2 = [] \<and>
     (let ip = ex_ip\<lparr>ip_Options := [\<lparr>opt_OptionType = 1, opt_OptionLength = 1, opt_OptionData = []\<rparr>]\<rparr>;
          opts = \<lparr>FixLengths = True, ComputeChecksums = False\<rparr>
      in IPv4_SerializeTo ip b1 opts = Some (ip1, b1', None) \<and> IPv4_SerializeTo ip b2 opts = Some (ip2, b2', None)
         \<and> Bytes b1' \<noteq> Bytes b2')"
proof -
  let ?ip = "ex_ip\<lparr>ip_Options := [\<lparr>opt_OptionType = 1, opt_OptionLength = 1, opt_OptionData = []\<rparr>]\<rparr>"
  let ?opts = "\<lparr>FixLengths = True, ComputeChecksums = False\<rparr>"
  have inv: "sb_inv (used_buffer x) \<and> Bytes (used_buffer x) = []" for x
    by (simp add: used_buffer_def sb_inv_def Bytes_def)
  have "map_option (\<lambda>(ip, b, e). (e, drop 20 (Bytes b))) (IPv4_SerializeTo ?ip (used_buffer 0) ?opts) = Some (None, [1, 0, 0, 0])"
    "map_option (\<lambda>(ip, b, e). (e, drop 20 (Bytes b))) (IPv4_SerializeTo ?ip (used_buffer 7) ?opts) = Some (None, [1, 7, 7, 7])"
    by code_simp+
  then obtain ip1 b1 ip2 b2 where "IPv4_SerializeTo ?ip (used_buffer 0) ?opts = Some (ip1, b1, None)" "drop 20 (Bytes b1) = [1, 0, 0, 0]"
    "IPv4_SerializeTo ?ip (used_buffer 7) ?opts = Some (ip2, b2, None)" "drop 20 (Bytes b2) = [1, 7, 7, 7]"
    by auto
  moreover from this have "Bytes b1 \<noteq> Bytes b2" by auto
  ultimately show ?thesis unfolding Let_def using inv by blast
qed

end
