(* ===== verification/Layer_IPv6.thy ===== *)
theory Layer_IPv6
  imports Layer_Base
begin

section \<open>IPv6 and its extension headers (\<^verbatim>\<open>layers/ip6.go\<close>)\<close>

text \<open>
  The IPv6 header, the options of hop-by-hop and destination headers, jumbograms and the routing and
  fragment headers. The decoder treats a hop-by-hop header as part of the IPv6 layer. The private field
  \<^verbatim>\<open>hbh\<close>, the storage \<^verbatim>\<open>HopByHop\<close> points to after decoding, is part of \<open>v6_HopByHop\<close> here.
\<close>

abbreviation (input) LayerTypeIPv6 :: LayerType where "LayerTypeIPv6 \<equiv> 21"
abbreviation (input) LayerTypeIPv6HopByHop :: LayerType where "LayerTypeIPv6HopByHop \<equiv> 46"
abbreviation (input) LayerTypeIPv6Routing :: LayerType where "LayerTypeIPv6Routing \<equiv> 47"
abbreviation (input) LayerTypeIPv6Fragment :: LayerType where "LayerTypeIPv6Fragment \<equiv> 48"
abbreviation (input) LayerTypeIPv6Destination :: LayerType where "LayerTypeIPv6Destination \<equiv> 49"
abbreviation (input) IPProtocolIPv6HopByHop :: u8 where "IPProtocolIPv6HopByHop \<equiv> 0"
abbreviation (input) IPv6HopByHopOptionJumbogram :: u8 where "IPv6HopByHopOptionJumbogram \<equiv> 0xC2"
abbreviation (input) ipv6MaxPayloadLength :: nat where "ipv6MaxPayloadLength \<equiv> 65535"

subsection \<open>Data\<close>

text \<open>Option data is \<open>None\<close> where the Go slice is nil.\<close>

record ipv6HeaderTLVOption =
  tlv_OptionType :: u8
  tlv_OptionLength :: u8
  tlv_ActualLength :: nat
  tlv_OptionData :: "bytes option"
  tlv_OptionAlignment :: "u8 \<times> u8"

abbreviation tlv_data :: "ipv6HeaderTLVOption \<Rightarrow> bytes" where
  "tlv_data h \<equiv> case tlv_OptionData h of None \<Rightarrow> [] | Some d \<Rightarrow> d"

definition zero_tlv :: ipv6HeaderTLVOption where
  "zero_tlv = \<lparr>tlv_OptionType = 0, tlv_OptionLength = 0, tlv_ActualLength = 0, tlv_OptionData = None, tlv_OptionAlignment = (0, 0)\<rparr>"

record ipv6ExtensionBase = BaseLayer +
  ext_NextHeader :: u8
  ext_HeaderLength :: u8
  ext_ActualLength :: nat

text \<open>\<^verbatim>\<open>IPv6HopByHop\<close> and \<^verbatim>\<open>IPv6Destination\<close> have the same fields.\<close>

record IPv6Options = ipv6ExtensionBase +
  ext_Options :: "ipv6HeaderTLVOption list"

definition zero_IPv6Options :: IPv6Options where
  "zero_IPv6Options = \<lparr>Contents = [], Payload = [], ext_NextHeader = 0, ext_HeaderLength = 0, ext_ActualLength = 0, ext_Options = []\<rparr>"

record IPv6 = BaseLayer +
  v6_Version :: u8
  v6_TrafficClass :: u8
  v6_FlowLabel :: u32
  v6_Length :: u16
  v6_NextHeader :: u8
  v6_HopLimit :: u8
  v6_SrcIP :: bytes
  v6_DstIP :: bytes
  v6_HopByHop :: "IPv6Options option"

definition zero_IPv6 :: IPv6 where
  "zero_IPv6 = \<lparr>Contents = [], Payload = [], v6_Version = 0, v6_TrafficClass = 0, v6_FlowLabel = 0, v6_Length = 0,
     v6_NextHeader = 0, v6_HopLimit = 0, v6_SrcIP = [], v6_DstIP = [], v6_HopByHop = None\<rparr>"

definition IPv6_NetworkFlow :: "IPv6 \<Rightarrow> Flow option" where
  "IPv6_NetworkFlow i = NewFlow EndpointIPv6 (v6_SrcIP i) (v6_DstIP i)"

definition checkIPv6Address :: "bytes \<Rightarrow> goerr option" where
  "checkIPv6Address addr =
     (if length addr = 16 then None
      else if length addr = 4 then Some (Errorf ''address is IPv4'' [])
      else Some (Errorf ''wrong length of %d bytes instead of %d'' [int (length addr), 16]))"

definition AddressTo16 :: "IPv6 \<Rightarrow> goerr option" where
  "AddressTo16 ip =
     (case checkIPv6Address (v6_SrcIP ip) of
        Some (Errorf m as) \<Rightarrow> Some (Errorf (''Invalid source IPv6 address ('' @ m @ '')'') as)
      | None \<Rightarrow>
          (case checkIPv6Address (v6_DstIP ip) of
             Some (Errorf m as) \<Rightarrow> Some (Errorf (''Invalid destination IPv6 address ('' @ m @ '')'') as)
           | None \<Rightarrow> None))"

subsection \<open>Options\<close>

text \<open>\<^verbatim>\<open>serializeTo\<close> of an option; \<open>None\<close> for the data is the dry run.\<close>

definition tlv_serializeTo ::
  "ipv6HeaderTLVOption \<Rightarrow> bytes option \<Rightarrow> bool \<Rightarrow> (ipv6HeaderTLVOption \<times> bytes option \<times> nat) option" where
  "tlv_serializeTo h0 data fixLengths =
     (let h = (if fixLengths then h0\<lparr>tlv_OptionLength := of_nat (length (tlv_data h0))\<rparr> else h0);
          l = unat (tlv_OptionLength h) + 2
      in case data of
           None \<Rightarrow> Some (h, None, l)
         | Some d \<Rightarrow> do {
             d1 \<leftarrow> write_at d 0 [tlv_OptionType h];
             d2 \<leftarrow> write_at d1 1 [tlv_OptionLength h];
             d3 \<leftarrow> copy_at d2 2 (tlv_data h);
             Some (h, Some d3, l) })"

definition decodeIPv6HeaderTLVOption :: "bytes \<Rightarrow> bool \<Rightarrow> ((goerr + ipv6HeaderTLVOption) \<times> bool) option" where
  "decodeIPv6HeaderTLVOption data df =
     (if length data < 2 then Some (Inl (Errorf ''IPv6 header option too small'' []), True)
      else do {
        t \<leftarrow> idx data 0;
        if t = 0 then Some (Inr (zero_tlv\<lparr>tlv_ActualLength := 1\<rparr>), df)
        else do {
          l \<leftarrow> idx data 1;
          let n = unat l + 2;
          if length data < n then Some (Inl (Errorf ''IPv6 header TLV option too small'' []), True)
          else do {
            d \<leftarrow> slice data 2 n;
            Some (Inr (zero_tlv\<lparr>tlv_OptionType := t, tlv_OptionLength := l, tlv_ActualLength := n,
                                tlv_OptionData := Some d\<rparr>), df) } } })"

text \<open>Padding with \<^verbatim>\<open>Pad1\<close> or \<^verbatim>\<open>PadN\<close>; the zeros of \<^verbatim>\<open>PadN\<close> go to the end of the slice given.\<close>

definition serializeTLVOptionPadding :: "bytes \<Rightarrow> nat \<Rightarrow> bytes option" where
  "serializeTLVOptionPadding data padLength =
     (if padLength = 0 then Some data
      else if padLength = 1 then write_at data 0 [0]
      else do {
        let tlvLength = (of_nat padLength :: u8) - 2;
        d1 \<leftarrow> write_at data 0 [1];
        d2 \<leftarrow> write_at d1 1 [tlvLength];
        if tlvLength \<noteq> 0 then Some (take 2 d2 @ replicate (length d2 - 2) 0) else Some d2 })"

text \<open>Write into \<^verbatim>\<open>buf[k:]\<close>, unless the run is dry.\<close>

definition at_offset :: "bytes option \<Rightarrow> nat \<Rightarrow> (bytes \<Rightarrow> bytes option) \<Rightarrow> bytes option option" where
  "at_offset buf k f =
     (case buf of
        None \<Rightarrow> Some None
      | Some d \<Rightarrow> do { sub \<leftarrow> slice d k (length d); sub1 \<leftarrow> f sub; Some (Some (take k d @ sub1)) })"

definition tlv_alignment_pad :: "ipv6HeaderTLVOption \<Rightarrow> nat \<Rightarrow> nat" where
  "tlv_alignment_pad opt len =
     (let x = unat (fst (tlv_OptionAlignment opt)); y = unat (snd (tlv_OptionAlignment opt)) in
      if x = 0 then 0
      else let offset = x * (len div x) + y;
               offset1 = (if offset < len then offset + x else offset)
           in offset1 - len)"

fun tlv_loop :: "ipv6HeaderTLVOption list \<Rightarrow> bytes option \<Rightarrow> bool \<Rightarrow> nat \<Rightarrow> (ipv6HeaderTLVOption list \<times> bytes option \<times> nat) option" where
  "tlv_loop [] buf fixLengths len = Some ([], buf, len)"
| "tlv_loop (opt # opts) buf fixLengths len =
     do { let pad = (if fixLengths then tlv_alignment_pad opt len else 0);
          buf1 \<leftarrow> (if pad = 0 then Some buf else at_offset buf (len - 2) (\<lambda>d. serializeTLVOptionPadding d pad));
          let len1 = len + pad;
          (opt1, buf2, l) \<leftarrow>
            (case buf1 of
               None \<Rightarrow> tlv_serializeTo opt None fixLengths
             | Some d \<Rightarrow> do { sub \<leftarrow> slice d (len1 - 2) (length d);
                              (o1, sub1, l) \<leftarrow> tlv_serializeTo opt (Some sub) fixLengths;
                              Some (o1, map_option (\<lambda>s. take (len1 - 2) d @ s) sub1, l) });
          (opts1, buf3, len2) \<leftarrow> tlv_loop opts buf2 fixLengths (len1 + l);
          Some (opt1 # opts1, buf3, len2) }"

text \<open>The final padding: the code adds \<^verbatim>\<open>length % 8\<close> bytes.\<close>

definition serializeIPv6HeaderTLVOptions ::
  "bytes option \<Rightarrow> ipv6HeaderTLVOption list \<Rightarrow> bool \<Rightarrow> (ipv6HeaderTLVOption list \<times> bytes option \<times> nat) option" where
  "serializeIPv6HeaderTLVOptions buf options fixLengths =
     do { (opts1, buf1, len) \<leftarrow> tlv_loop options buf fixLengths 2;
          let pad = (if fixLengths then len mod 8 else 0);
          buf2 \<leftarrow> (if pad = 0 then Some buf1 else at_offset buf1 (len - 2) (\<lambda>d. serializeTLVOptionPadding d pad));
          Some (opts1, buf2, len + pad - 2) }"

subsection \<open>Extension headers\<close>

definition decodeIPv6ExtensionBase :: "bytes \<Rightarrow> bool \<Rightarrow> ((goerr + ipv6ExtensionBase) \<times> bool) option" where
  "decodeIPv6ExtensionBase data df =
     (if length data < 2
      then Some (Inl (Errorf ''Invalid ip6-extension header. Length %d less than 2'' [int (length data)]), True)
      else do {
        nh \<leftarrow> idx data 0;
        hl \<leftarrow> idx data 1;
        let n = unat hl * 8 + 8;
        if length data < n
        then Some (Inl (Errorf ''Invalid ip6-extension header. Length %d less than specified length %d'' [int (length data), int n]), df)
        else do {
          c \<leftarrow> slice data 0 n;
          p \<leftarrow> slice data n (length data);
          Some (Inr \<lparr>Contents = c, Payload = p, ext_NextHeader = nh, ext_HeaderLength = hl, ext_ActualLength = n\<rparr>, df) } })"

record IPv6ExtensionSkipper = BaseLayer +
  skip_NextHeader :: u8

definition IPv6ExtensionSkipper_DecodeFromBytes ::
  "IPv6ExtensionSkipper \<Rightarrow> bytes \<Rightarrow> bool \<Rightarrow> IPv6ExtensionSkipper decoded" where
  "IPv6ExtensionSkipper_DecodeFromBytes i data df =
     do { (r, df1) \<leftarrow> decodeIPv6ExtensionBase data df;
          case r of
            Inl e \<Rightarrow> Some (i, df1, Some e)
          | Inr ext \<Rightarrow> do {
              c \<leftarrow> slice data 0 (ext_ActualLength ext);
              p \<leftarrow> slice data (ext_ActualLength ext) (length data);
              Some (i\<lparr>Contents := c, Payload := p, skip_NextHeader := ext_NextHeader ext\<rparr>, df1, None) } }"

definition IPv6ExtensionSkipper_NextLayerType :: "IPv6ExtensionSkipper \<Rightarrow> LayerType" where
  "IPv6ExtensionSkipper_NextLayerType i = IPProtocol_LayerType (skip_NextHeader i)"

text \<open>The loop over the options of an extension header. It reads from all of the data, not only from
  the header. Every option has a positive actual length, so it ends.\<close>

function decode_tlvs ::
  "bytes \<Rightarrow> nat \<Rightarrow> nat \<Rightarrow> ipv6HeaderTLVOption list \<Rightarrow> bool \<Rightarrow> (ipv6HeaderTLVOption list \<times> bool \<times> goerr option) option" where
  "decode_tlvs data offset actual acc df =
     (if offset < actual then do {
        sub \<leftarrow> slice data offset (length data);
        (r, df1) \<leftarrow> decodeIPv6HeaderTLVOption sub df;
        case r of
          Inl e \<Rightarrow> Some (acc, df1, Some e)
        | Inr opt \<Rightarrow> if tlv_ActualLength opt = 0 then None
                     else decode_tlvs data (offset + tlv_ActualLength opt) actual (acc @ [opt]) df1 }
      else Some (acc, df, None))"
  by pat_completeness auto
termination
  by (relation "measure (\<lambda>(data, offset, actual, acc, df). actual - offset)") auto

declare decode_tlvs.simps [simp del]

definition set_ext_base :: "IPv6Options \<Rightarrow> ipv6ExtensionBase \<Rightarrow> IPv6Options" where
  "set_ext_base i ext = i\<lparr>Contents := Contents ext, Payload := Payload ext, ext_NextHeader := ext_NextHeader ext,
      ext_HeaderLength := ext_HeaderLength ext, ext_ActualLength := ext_ActualLength ext\<rparr>"

definition zero_ext_base :: ipv6ExtensionBase where
  "zero_ext_base = \<lparr>Contents = [], Payload = [], ext_NextHeader = 0, ext_HeaderLength = 0, ext_ActualLength = 0\<rparr>"

definition IPv6HopByHop_DecodeFromBytes :: "IPv6Options \<Rightarrow> bytes \<Rightarrow> bool \<Rightarrow> IPv6Options decoded" where
  "IPv6HopByHop_DecodeFromBytes i data df =
     do { (r, df1) \<leftarrow> decodeIPv6ExtensionBase data df;
          case r of
            Inl e \<Rightarrow> Some (set_ext_base i zero_ext_base, df1, Some e)
          | Inr ext \<Rightarrow> do {
              (os, df2, err) \<leftarrow> decode_tlvs data 2 (ext_ActualLength ext) [] df1;
              Some ((set_ext_base i ext)\<lparr>ext_Options := os\<rparr>, df2, err) } }"

text \<open>The destination header appends to the options the receiver already has.\<close>

definition IPv6Destination_DecodeFromBytes :: "IPv6Options \<Rightarrow> bytes \<Rightarrow> bool \<Rightarrow> IPv6Options decoded" where
  "IPv6Destination_DecodeFromBytes i data df =
     do { (r, df1) \<leftarrow> decodeIPv6ExtensionBase data df;
          case r of
            Inl e \<Rightarrow> Some (set_ext_base i zero_ext_base, df1, Some e)
          | Inr ext \<Rightarrow> do {
              (os, df2, err) \<leftarrow> decode_tlvs data 2 (ext_ActualLength ext) (ext_Options i) df1;
              Some ((set_ext_base i ext)\<lparr>ext_Options := os\<rparr>, df2, err) } }"

text \<open>\<^verbatim>\<open>SerializeTo\<close> of both headers; they differ in the text of the error.\<close>

definition IPv6Options_SerializeTo :: "string \<Rightarrow> IPv6Options \<Rightarrow> serializeBuffer \<Rightarrow> SerializeOptions \<Rightarrow> IPv6Options serialized" where
  "IPv6Options_SerializeTo name i b opts =
     do { (os1, _, l) \<leftarrow> serializeIPv6HeaderTLVOptions None (ext_Options i) (FixLengths opts);
          b1 \<leftarrow> PrependBytes b (int l);
          (os2, w, _) \<leftarrow> serializeIPv6HeaderTLVOptions (Some (take l (Bytes b1))) os1 (FixLengths opts);
          let b2 = store_front b1 (case w of None \<Rightarrow> [] | Some d \<Rightarrow> d);
          let i1 = i\<lparr>ext_Options := os2\<rparr>;
          let len = l + 2;
          if len mod 8 \<noteq> 0
          then Some (i1, b2, Some (Errorf (name @ '' actual length must be multiple of 8'') []))
          else do {
            b3 \<leftarrow> PrependBytes b2 2;
            let i2 = (if FixLengths opts then i1\<lparr>ext_HeaderLength := of_nat (len div 8 - 1)\<rparr> else i1);
            w1 \<leftarrow> write_at (take 2 (Bytes b3)) 0 [ext_NextHeader i2];
            w2 \<leftarrow> write_at w1 1 [ext_HeaderLength i2];
            Some (i2, store_front b3 w2, None) } }"

definition IPv6HopByHop_SerializeTo :: "IPv6Options \<Rightarrow> serializeBuffer \<Rightarrow> SerializeOptions \<Rightarrow> IPv6Options serialized" where
  "IPv6HopByHop_SerializeTo = IPv6Options_SerializeTo ''IPv6HopByHop''"

definition IPv6Destination_SerializeTo :: "IPv6Options \<Rightarrow> serializeBuffer \<Rightarrow> SerializeOptions \<Rightarrow> IPv6Options serialized" where
  "IPv6Destination_SerializeTo = IPv6Options_SerializeTo ''IPv6Destination''"

subsection \<open>Jumbograms\<close>

definition getIPv6HopByHopJumboLength :: "IPv6Options \<Rightarrow> (goerr + u32 option) option" where
  "getIPv6HopByHopJumboLength hopopts =
     (case find (\<lambda>t. tlv_OptionType t = IPv6HopByHopOptionJumbogram) (ext_Options hopopts) of
        None \<Rightarrow> Some (Inr None)
      | Some tlv \<Rightarrow>
          if length (tlv_data tlv) \<noteq> 4 then Some (Inl (Errorf ''Jumbo length TLV data must have length 4'' []))
          else do {
            l \<leftarrow> get_be32 (tlv_data tlv);
            if unat l \<le> ipv6MaxPayloadLength
            then Some (Inl (Errorf ''Jumbo length cannot be less than %d'' [65536]))
            else Some (Inr (Some l)) })"

definition SetJumboLength :: "ipv6HeaderTLVOption \<Rightarrow> u32 \<Rightarrow> ipv6HeaderTLVOption option" where
  "SetJumboLength o1 len =
     do { d \<leftarrow> write_at (case tlv_OptionData o1 of None \<Rightarrow> replicate 4 0 | Some d \<Rightarrow> d) 0 (be32 len);
          Some (o1\<lparr>tlv_OptionType := IPv6HopByHopOptionJumbogram, tlv_OptionLength := 4, tlv_ActualLength := 6,
                   tlv_OptionData := Some d, tlv_OptionAlignment := (4, 2)\<rparr>) }"

text \<open>The option found or appended by \<^verbatim>\<open>addIPv6JumboOption\<close> gets length zero.\<close>

fun set_jumbo_option :: "ipv6HeaderTLVOption list \<Rightarrow> ipv6HeaderTLVOption list option" where
  "set_jumbo_option [] = do { o1 \<leftarrow> SetJumboLength zero_tlv 0; Some [o1] }"
| "set_jumbo_option (t # ts) =
     (if tlv_OptionType t = IPv6HopByHopOptionJumbogram then do { t1 \<leftarrow> SetJumboLength t 0; Some (t1 # ts) }
      else do { ts1 \<leftarrow> set_jumbo_option ts; Some (t # ts1) })"

definition addIPv6JumboOption :: "IPv6 \<Rightarrow> IPv6 option" where
  "addIPv6JumboOption ip6 =
     (let (ip, h) = (case v6_HopByHop ip6 of
                       None \<Rightarrow> (ip6\<lparr>v6_NextHeader := IPProtocolIPv6HopByHop\<rparr>,
                                zero_IPv6Options\<lparr>ext_NextHeader := v6_NextHeader ip6, ext_HeaderLength := 0\<rparr>)
                     | Some h \<Rightarrow> (ip6, h))
      in do { os \<leftarrow> set_jumbo_option (ext_Options h); Some (ip\<lparr>v6_HopByHop := Some (h\<lparr>ext_Options := os\<rparr>)\<rparr>) })"

text \<open>\<^verbatim>\<open>setIPv6PayloadJumboLength\<close>: the header length is computed in eight bits.\<close>

function jumbo_scan :: "bytes \<Rightarrow> nat \<Rightarrow> nat \<Rightarrow> (bytes \<times> goerr option) option" where
  "jumbo_scan hbh hbhLen offset =
     (if offset < hbhLen then do {
        opt \<leftarrow> idx hbh offset;
        if opt = 0 then jumbo_scan hbh hbhLen (offset + 1)
        else do {
          l \<leftarrow> idx hbh (offset + 1);
          if opt = IPv6HopByHopOptionJumbogram then
            (if unat l = 4
             then do { w \<leftarrow> write_at hbh (offset + 2) (be32 (of_nat (length hbh))); Some (w, None) }
             else Some (hbh, Some (Errorf ''Jumbo TLV too short (%d bytes)'' [uint l])))
          else jumbo_scan hbh hbhLen (offset + (2 + unat l)) } }
      else Some (hbh, Some (Errorf ''Jumbo TLV not found'' [])))"
  by pat_completeness auto
termination
  by (relation "measure (\<lambda>(hbh, hbhLen, offset). hbhLen - offset)") auto

declare jumbo_scan.simps [simp del]

definition setIPv6PayloadJumboLength :: "bytes \<Rightarrow> (bytes \<times> goerr option) option" where
  "setIPv6PayloadJumboLength hbh =
     (if length hbh < 8 then Some (hbh, Some (Errorf ''Invalid IPv6 payload (length %d)'' [int (length hbh)]))
      else do {
        l \<leftarrow> idx hbh 1;
        let hbhLen = unat ((l + 1) * 8 :: u8);
        if hbhLen > length hbh
        then Some (hbh, Some (Errorf ''Invalid hop-by-hop length (length: %d, payload: %d'' [int hbhLen, int (length hbh)]))
        else jumbo_scan hbh hbhLen 2 })"

subsection \<open>Serializer\<close>

text \<open>The 40 bytes of the header, after extension headers have been dealt with.\<close>

definition IPv6_write_header :: "IPv6 \<Rightarrow> serializeBuffer \<Rightarrow> SerializeOptions \<Rightarrow> bool \<Rightarrow> IPv6 serialized" where
  "IPv6_write_header ip0 b opts jumbo =
     do { let pLen = length (Bytes b);
          b1 \<leftarrow> PrependBytes b 40;
          w1 \<leftarrow> write_at (take 40 (Bytes b1)) 0 [push_bit 4 (v6_Version ip0) OR drop_bit 4 (v6_TrafficClass ip0)];
          w2 \<leftarrow> write_at w1 1 [push_bit 4 (v6_TrafficClass ip0) OR ucast (drop_bit 16 (v6_FlowLabel ip0))];
          w3 \<leftarrow> write_at w2 2 (be16 (ucast (v6_FlowLabel ip0)));
          let ip = (if FixLengths opts then ip0\<lparr>v6_Length := (if jumbo then 0 else of_nat pLen)\<rparr> else ip0);
          w4 \<leftarrow> write_at w3 4 (be16 (v6_Length ip));
          w5 \<leftarrow> write_at w4 6 [v6_NextHeader ip];
          w6 \<leftarrow> write_at w5 7 [v6_HopLimit ip];
          case AddressTo16 ip of
            Some e \<Rightarrow> Some (ip, store_front b1 w6, Some e)
          | None \<Rightarrow> do {
              w7 \<leftarrow> copy_at w6 8 (v6_SrcIP ip);
              w8 \<leftarrow> copy_at w7 24 (v6_DstIP ip);
              Some (ip, store_front b1 w8, None) } }"

definition IPv6_write_hbh :: "IPv6 \<Rightarrow> serializeBuffer \<Rightarrow> SerializeOptions \<Rightarrow> bool \<Rightarrow> IPv6 serialized" where
  "IPv6_write_hbh ip b opts jumbo =
     (case v6_HopByHop ip of
        None \<Rightarrow> Some (ip, b, None)
      | Some h \<Rightarrow>
          if LayerTypeIPv6HopByHop \<in> set (Layers b) then Some (ip, b, None)
          else do {
            (h1, b1, err) \<leftarrow> IPv6HopByHop_SerializeTo h b opts;
            let ip1 = ip\<lparr>v6_NextHeader := IPProtocolIPv6HopByHop, v6_HopByHop := Some h1\<rparr>;
            case err of
              Some e \<Rightarrow> Some (ip1, b1, Some e)
            | None \<Rightarrow>
                if FixLengths opts \<and> jumbo then do {
                  (w, err1) \<leftarrow> setIPv6PayloadJumboLength (Bytes b1);
                  Some (ip1, store_front b1 w, err1) }
                else Some (ip1, b1, None) })"

definition IPv6_check_jumbo :: "IPv6 \<Rightarrow> nat \<Rightarrow> SerializeOptions \<Rightarrow> (IPv6 \<times> goerr option) option" where
  "IPv6_check_jumbo ip pLen opts =
     (if pLen \<le> ipv6MaxPayloadLength then Some (ip, None)
      else if FixLengths opts then do { ip1 \<leftarrow> addIPv6JumboOption ip; Some (ip1, None) }
      else case v6_HopByHop ip of
             None \<Rightarrow> Some (ip, Some (Errorf ''Cannot fit payload length of %d into IPv6 packet'' [int pLen]))
           | Some h \<Rightarrow> do {
               r \<leftarrow> getIPv6HopByHopJumboLength h;
               case r of
                 Inl e \<Rightarrow> Some (ip, Some e)
               | Inr None \<Rightarrow> Some (ip, Some (Errorf ''Missing jumbo length hop-by-hop option'' []))
               | Inr (Some _) \<Rightarrow> Some (ip, None) })"

definition IPv6_SerializeTo :: "IPv6 \<Rightarrow> serializeBuffer \<Rightarrow> SerializeOptions \<Rightarrow> IPv6 serialized" where
  "IPv6_SerializeTo ip b opts =
     do { let jumbo = (length (Bytes b) > ipv6MaxPayloadLength);
          (ip1, err1) \<leftarrow> IPv6_check_jumbo ip (length (Bytes b)) opts;
          case err1 of
            Some e \<Rightarrow> Some (ip1, b, Some e)
          | None \<Rightarrow> do {
              (ip2, b2, err2) \<leftarrow> IPv6_write_hbh ip1 b opts jumbo;
              case err2 of
                Some e \<Rightarrow> Some (ip2, b2, Some e)
              | None \<Rightarrow>
                  if \<not> jumbo \<and> length (Bytes b2) > ipv6MaxPayloadLength
                  then Some (ip2, b2, Some (Errorf ''Cannot fit payload into IPv6 header'' []))
                  else IPv6_write_header ip2 b2 opts jumbo } }"

subsection \<open>Decoder\<close>

text \<open>The tail of \<^verbatim>\<open>DecodeFromBytes\<close>: cut the payload to the length in the header.\<close>

definition IPv6_cut :: "IPv6 \<Rightarrow> nat \<Rightarrow> bool \<Rightarrow> IPv6 decoded" where
  "IPv6_cut ip pEnd df =
     (let n = (if pEnd > length (Payload ip) then length (Payload ip) else pEnd)
      in do { p \<leftarrow> slice (Payload ip) 0 n; Some (ip\<lparr>Payload := p\<rparr>, df \<or> pEnd > length (Payload ip), None) })"

definition IPv6_decode_tail :: "IPv6 \<Rightarrow> bool \<Rightarrow> IPv6 decoded" where
  "IPv6_decode_tail ip df =
     (if v6_Length ip = 0
      then Some (ip, df, Some (Errorf ''IPv6 length 0, but next header is %v, not HopByHop'' [uint (v6_NextHeader ip)]))
      else IPv6_cut ip (unat (v6_Length ip)) df)"

definition IPv6_decode_hbh :: "IPv6 \<Rightarrow> bool \<Rightarrow> IPv6 decoded" where
  "IPv6_decode_hbh ip df =
     do { (h, df1, err) \<leftarrow> IPv6HopByHop_DecodeFromBytes zero_IPv6Options (Payload ip) df;
          case err of
            Some e \<Rightarrow> Some (ip, df1, Some e)
          | None \<Rightarrow> do {
              let ip1 = ip\<lparr>v6_HopByHop := Some h\<rparr>;
              r \<leftarrow> getIPv6HopByHopJumboLength h;
              case r of
                Inl e \<Rightarrow> Some (ip1, df1, Some e)
              | Inr (Some pEnd) \<Rightarrow>
                  if v6_Length ip1 = 0 then IPv6_cut ip1 (unat pEnd) df1
                  else Some (ip1, df1, Some (Errorf ''IPv6 has jumbo length and IPv6 length is not 0'' []))
              | Inr None \<Rightarrow>
                  if v6_Length ip1 = 0
                  then Some (ip1, df1, Some (Errorf ''IPv6 length 0, but HopByHop header does not have jumbogram option'' []))
                  else do {
                    p \<leftarrow> slice (Payload ip1) (ext_ActualLength h) (length (Payload ip1));
                    IPv6_decode_tail (ip1\<lparr>Payload := p\<rparr>) df1 } } }"

definition IPv6_DecodeFromBytes :: "IPv6 \<Rightarrow> bytes \<Rightarrow> bool \<Rightarrow> IPv6 decoded" where
  "IPv6_DecodeFromBytes ip data df =
     (if length data < 40
      then Some (ip, True, Some (Errorf ''Invalid ip6 header. Length %d less than 40'' [int (length data)]))
      else do {
        b0 \<leftarrow> idx data 0;
        s2 \<leftarrow> slice data 0 2; v01 \<leftarrow> get_be16 s2;
        s4 \<leftarrow> slice data 0 4; v03 \<leftarrow> get_be32 s4;
        s6 \<leftarrow> slice data 4 6; len \<leftarrow> get_be16 s6;
        nh \<leftarrow> idx data 6;
        hl \<leftarrow> idx data 7;
        src \<leftarrow> slice data 8 24;
        dst \<leftarrow> slice data 24 40;
        c \<leftarrow> slice data 0 40;
        p \<leftarrow> slice data 40 (length data);
        let ip1 = ip\<lparr>v6_Version := drop_bit 4 b0, v6_TrafficClass := ucast (drop_bit 4 v01 AND 0x00FF),
                     v6_FlowLabel := v03 AND 0x000FFFFF, v6_Length := len, v6_NextHeader := nh, v6_HopLimit := hl,
                     v6_SrcIP := src, v6_DstIP := dst, v6_HopByHop := None, Contents := c, Payload := p\<rparr>;
        if nh = IPProtocolIPv6HopByHop then IPv6_decode_hbh ip1 df else IPv6_decode_tail ip1 df })"

definition IPv6_NextLayerType :: "IPv6 \<Rightarrow> LayerType" where
  "IPv6_NextLayerType ip =
     (case v6_HopByHop ip of
        Some h \<Rightarrow> IPProtocol_LayerType (ext_NextHeader h)
      | None \<Rightarrow> IPProtocol_LayerType (v6_NextHeader ip))"

abbreviation v6_layer :: "IPv6 \<Rightarrow> Layer" where
  "v6_layer ip \<equiv> \<lparr>ly_type = LayerTypeIPv6, ly_contents = Contents ip, ly_payload = Payload ip\<rparr>"

abbreviation ext_layer :: "LayerType \<Rightarrow> 'a ipv6ExtensionBase_scheme \<Rightarrow> Layer" where
  "ext_layer t i \<equiv> \<lparr>ly_type = t, ly_contents = Contents i, ly_payload = Payload i\<rparr>"

definition decodeIPv6 :: "bytes \<Rightarrow> decode_step" where
  "decodeIPv6 data =
     (case IPv6_DecodeFromBytes zero_IPv6 data False of
        None \<Rightarrow> ([], Panics)
      | Some (ip, t, err) \<Rightarrow>
          (truncation t @ [AddLayer (v6_layer ip), SetNetworkLayer (v6_layer ip)]
             @ (case v6_HopByHop ip of None \<Rightarrow> [] | Some h \<Rightarrow> [AddLayer (ext_layer LayerTypeIPv6HopByHop h)]),
           case err of Some e \<Rightarrow> Return (Some e) | None \<Rightarrow> NextDecoder (ByLayerType (IPv6_NextLayerType ip))))"

definition decodeIPv6HopByHop :: "bytes \<Rightarrow> decode_step" where
  "decodeIPv6HopByHop data =
     (case IPv6HopByHop_DecodeFromBytes zero_IPv6Options data False of
        None \<Rightarrow> ([], Panics)
      | Some (i, t, err) \<Rightarrow>
          (truncation t @ [AddLayer (ext_layer LayerTypeIPv6HopByHop i)],
           case err of Some e \<Rightarrow> Return (Some e) | None \<Rightarrow> NextDecoder (ByIPProtocol (ext_NextHeader i))))"

definition decodeIPv6Destination :: "bytes \<Rightarrow> decode_step" where
  "decodeIPv6Destination data =
     (case IPv6Destination_DecodeFromBytes zero_IPv6Options data False of
        None \<Rightarrow> ([], Panics)
      | Some (i, t, err) \<Rightarrow>
          (truncation t @ [AddLayer (ext_layer LayerTypeIPv6Destination i)],
           case err of Some e \<Rightarrow> Return (Some e) | None \<Rightarrow> NextDecoder (ByIPProtocol (ext_NextHeader i))))"

text \<open>Routing and fragment headers.\<close>

record IPv6Routing = ipv6ExtensionBase +
  rt_RoutingType :: u8
  rt_SegmentsLeft :: u8
  rt_Reserved :: bytes
  rt_SourceRoutingIPs :: "bytes list"

fun split16 :: "bytes \<Rightarrow> bytes list" where
  "split16 d = (if length d < 16 then [] else take 16 d # split16 (drop 16 d))"

declare split16.simps [simp del]

definition decodeIPv6Routing :: "bytes \<Rightarrow> decode_step" where
  "decodeIPv6Routing data =
     steps_or_panic (do {
       (r, t) \<leftarrow> decodeIPv6ExtensionBase data False;
       case r of
         Inl e \<Rightarrow> Some (truncation t, Return (Some e))
       | Inr base \<Rightarrow> do {
           ty \<leftarrow> idx data 2;
           sl \<leftarrow> idx data 3;
           res \<leftarrow> slice data 4 8;
           if ty \<noteq> 0 then Some (truncation t, Return (Some (Errorf ''Unknown IPv6 routing header type %d'' [uint ty])))
           else if (ext_ActualLength base - 8) mod 16 \<noteq> 0
           then Some (truncation t, Return (Some (Errorf ''Invalid IPv6 source routing, length of type 0 packet %d'' [int (ext_ActualLength base)])))
           else do {
             d \<leftarrow> slice (Contents base) 8 (length (Contents base));
             let i = \<lparr>Contents = Contents base, Payload = Payload base, ext_NextHeader = ext_NextHeader base,
                      ext_HeaderLength = ext_HeaderLength base, ext_ActualLength = ext_ActualLength base,
                      rt_RoutingType = ty, rt_SegmentsLeft = sl, rt_Reserved = res, rt_SourceRoutingIPs = split16 d\<rparr>;
             Some (truncation t @ [AddLayer (ext_layer LayerTypeIPv6Routing i)],
                   NextDecoder (ByIPProtocol (ext_NextHeader i))) } } })"

record IPv6Fragment = BaseLayer +
  frag_NextHeader :: u8
  frag_Reserved1 :: u8
  frag_FragmentOffset :: u16
  frag_Reserved2 :: u8
  frag_MoreFragments :: bool
  frag_Identification :: u32

definition IPv6Fragment_of :: "bytes \<Rightarrow> IPv6Fragment option" where
  "IPv6Fragment_of data =
     do { c \<leftarrow> slice data 0 8;
          p \<leftarrow> slice data 8 (length data);
          nh \<leftarrow> idx data 0;
          r1 \<leftarrow> idx data 1;
          s2 \<leftarrow> slice data 2 4; fo \<leftarrow> get_be16 s2;
          b3 \<leftarrow> idx data 3;
          s4 \<leftarrow> slice data 4 8; ident \<leftarrow> get_be32 s4;
          Some \<lparr>Contents = c, Payload = p, frag_NextHeader = nh, frag_Reserved1 = r1, frag_FragmentOffset = drop_bit 3 fo,
                frag_Reserved2 = drop_bit 1 (b3 AND 0x6), frag_MoreFragments = (b3 AND 0x1 \<noteq> 0), frag_Identification = ident\<rparr> }"

definition decodeIPv6Fragment :: "bytes \<Rightarrow> decode_step" where
  "decodeIPv6Fragment data =
     (if length data < 8
      then ([SetTruncated], Return (Some (Errorf ''Invalid ip6-fragment header. Length %d less than 8'' [int (length data)])))
      else steps_or_panic (do {
        i \<leftarrow> IPv6Fragment_of data;
        Some ([AddLayer \<lparr>ly_type = LayerTypeIPv6Fragment, ly_contents = Contents i, ly_payload = Payload i\<rparr>],
              NextDecoder DecodeFragment) }))"

subsection \<open>The decoders return\<close>

lemma decode_tlv_result:
  "\<exists>r df'. decodeIPv6HeaderTLVOption data df = Some (r, df') \<and> (\<forall>opt. r = Inr opt \<longrightarrow> 0 < tlv_ActualLength opt)"
  by (auto simp: decodeIPv6HeaderTLVOption_def Let_def zero_tlv_def)

lemma decode_tlvs_append:
  assumes "actual \<le> length data"
  shows "\<exists>os df' err. \<forall>acc. decode_tlvs data offset actual acc df = Some (acc @ os, df', err)"
  using assms
proof (induction "actual - offset" arbitrary: offset df rule: less_induct)
  case less
  show ?case
  proof (cases "offset < actual")
    case True
    obtain r df1 where r: "decodeIPv6HeaderTLVOption (drop offset data) df = Some (r, df1)"
        "\<forall>opt. r = Inr opt \<longrightarrow> 0 < tlv_ActualLength opt"
      using decode_tlv_result by blast
    have step: "decode_tlvs data offset actual acc df = (case r of Inl e \<Rightarrow> Some (acc, df1, Some e)
        | Inr opt \<Rightarrow> decode_tlvs data (offset + tlv_ActualLength opt) actual (acc @ [opt]) df1)" for acc
      using True less.prems r by (subst decode_tlvs.simps) (auto split: sum.splits)
    show ?thesis
    proof (cases r)
      case (Inl e)
      then show ?thesis by (auto simp: step intro!: exI [of _ "[]"])
    next
      case (Inr opt)
      then have "actual - (offset + tlv_ActualLength opt) < actual - offset" using r(2) True by auto
      from less.hyps [OF this less.prems, of df1] obtain os df' err where
        "\<forall>acc. decode_tlvs data (offset + tlv_ActualLength opt) actual acc df1 = Some (acc @ os, df', err)" by blast
      then show ?thesis by (auto simp: step Inr intro!: exI [of _ "opt # os"])
    qed
  next
    case False
    then show ?thesis by (auto simp: decode_tlvs.simps intro!: exI [of _ "[]"])
  qed
qed

lemma ext_base_cases:
  obtains (bad) e df' where "decodeIPv6ExtensionBase data df = Some (Inl e, df')"
  | (good) ext where "decodeIPv6ExtensionBase data df = Some (Inr ext, df)" "ext_ActualLength ext \<le> length data"
      "8 \<le> ext_ActualLength ext" "Contents ext = take (ext_ActualLength ext) data" "Payload ext = drop (ext_ActualLength ext) data"
  by (cases "length data < 2"; cases "length data < unat (data ! 1) * 8 + 8")
    (auto simp: decodeIPv6ExtensionBase_def Let_def)

lemma options_decoders_total:
  "IPv6HopByHop_DecodeFromBytes i data df \<noteq> None" "IPv6Destination_DecodeFromBytes i data df \<noteq> None"
proof -
  have "IPv6HopByHop_DecodeFromBytes i data df \<noteq> None \<and> IPv6Destination_DecodeFromBytes i data df \<noteq> None"
  proof (cases rule: ext_base_cases [of data df, case_names bad good])
    case bad
    then show ?thesis by (simp add: IPv6HopByHop_DecodeFromBytes_def IPv6Destination_DecodeFromBytes_def)
  next
    case (good ext)
    with decode_tlvs_append [of "ext_ActualLength ext" data 2 df] show ?thesis
      by (auto simp: IPv6HopByHop_DecodeFromBytes_def IPv6Destination_DecodeFromBytes_def)
  qed
  then show "IPv6HopByHop_DecodeFromBytes i data df \<noteq> None" "IPv6Destination_DecodeFromBytes i data df \<noteq> None"
    by simp_all
qed

lemma hbh_actual_length:
  assumes "IPv6HopByHop_DecodeFromBytes i data df = Some (h, df', None)"
  shows "ext_ActualLength h \<le> length data"
proof (cases rule: ext_base_cases [of data df, case_names bad good])
  case bad
  with assms show ?thesis by (simp add: IPv6HopByHop_DecodeFromBytes_def)
next
  case (good ext)
  with decode_tlvs_append [of "ext_ActualLength ext" data 2 df] assms show ?thesis
    by (auto simp: IPv6HopByHop_DecodeFromBytes_def set_ext_base_def)
qed

interpretation hbh_td: total_decoder IPv6HopByHop_DecodeFromBytes Payload id
proof
  fix l l' m :: IPv6Options and data df df'
  show "IPv6HopByHop_DecodeFromBytes l data df \<noteq> None" by (rule options_decoders_total)
  assume ok: "IPv6HopByHop_DecodeFromBytes l data df = Some (l', df', None)"
  have "length (Payload l') < length data \<and> IPv6HopByHop_DecodeFromBytes m data df = Some (l', df', None)"
  proof (cases rule: ext_base_cases [of data df, case_names bad good])
    case bad
    with ok show ?thesis by (simp add: IPv6HopByHop_DecodeFromBytes_def)
  next
    case (good ext)
    with decode_tlvs_append [of "ext_ActualLength ext" data 2 df] ok show ?thesis
      by (auto simp: IPv6HopByHop_DecodeFromBytes_def set_ext_base_def)
  qed
  then show "length (Payload l') < length data" "\<exists>m'. IPv6HopByHop_DecodeFromBytes m data df = Some (m', df', None) \<and> id m' = id l'"
    by simp_all
qed

lemma jumbo_length_total: "getIPv6HopByHopJumboLength h \<noteq> None"
  by (auto simp: getIPv6HopByHopJumboLength_def get_be32_def split: option.splits)

lemma IPv6_cut_simp:
  "IPv6_cut ip n df = Some (ip\<lparr>Payload := take n (Payload ip)\<rparr>, df \<or> n > length (Payload ip), None)"
  by (simp add: IPv6_cut_def Let_def)

lemma IPv6_decode_tail_simp:
  "IPv6_decode_tail ip df =
    (if v6_Length ip = 0
     then Some (ip, df, Some (Errorf ''IPv6 length 0, but next header is %v, not HopByHop'' [uint (v6_NextHeader ip)]))
     else Some (ip\<lparr>Payload := take (unat (v6_Length ip)) (Payload ip)\<rparr>, df \<or> unat (v6_Length ip) > length (Payload ip), None))"
  by (simp add: IPv6_decode_tail_def IPv6_cut_simp)

definition v6_header_of :: "bytes \<Rightarrow> IPv6" where
  "v6_header_of data =
     \<lparr>Contents = take 40 data, Payload = drop 40 data, v6_Version = drop_bit 4 (data ! 0),
      v6_TrafficClass = ucast (drop_bit 4 (mk16 (data ! 0) (data ! 1)) AND 0x00FF),
      v6_FlowLabel = mk32 (data ! 0) (data ! 1) (data ! 2) (data ! 3) AND 0x000FFFFF, v6_Length = mk16 (data ! 4) (data ! 5),
      v6_NextHeader = data ! 6, v6_HopLimit = data ! 7, v6_SrcIP = take 16 (drop 8 data), v6_DstIP = take 16 (drop 24 data),
      v6_HopByHop = None\<rparr>"

lemma IPv6_decode_simp:
  "40 \<le> length data \<Longrightarrow> IPv6_DecodeFromBytes ip data df =
     (if v6_NextHeader (v6_header_of data) = 0 then IPv6_decode_hbh (v6_header_of data) df
      else IPv6_decode_tail (v6_header_of data) df)"
  by (cases ip) (simp add: IPv6_DecodeFromBytes_def get_be16_def get_be32_def Let_def v6_header_of_def)

lemma IPv6_decode_hbh_result:
  "\<exists>ip' df' err. IPv6_decode_hbh ip df = Some (ip', df', err) \<and> length (Payload ip') \<le> length (Payload ip)"
proof -
  obtain h df1 err where h: "IPv6HopByHop_DecodeFromBytes zero_IPv6Options (Payload ip) df = Some (h, df1, err)"
    using hbh_td.returns by blast
  obtain r where r: "getIPv6HopByHopJumboLength h = Some r" using jumbo_length_total by auto
  show ?thesis
  proof (cases err)
    case None
    with h have "ext_ActualLength h \<le> length (Payload ip)" by (auto dest: hbh_actual_length)
    with None h r show ?thesis
      by (auto simp: IPv6_decode_hbh_def Let_def IPv6_cut_simp IPv6_decode_tail_simp split: sum.splits option.splits)
  qed (simp add: IPv6_decode_hbh_def h)
qed

interpretation ip6_td: total_decoder IPv6_DecodeFromBytes Payload id
proof
  fix l l' m :: IPv6 and data df df'
  show "IPv6_DecodeFromBytes l data df \<noteq> None"
  proof (cases "40 \<le> length data")
    case True
    with IPv6_decode_hbh_result [of "v6_header_of data" df] show ?thesis
      by (auto simp: IPv6_decode_simp IPv6_decode_tail_simp)
  qed (simp add: IPv6_DecodeFromBytes_def)
  assume ok: "IPv6_DecodeFromBytes l data df = Some (l', df', None)"
  then have len: "40 \<le> length data" by (simp add: IPv6_DecodeFromBytes_def split: if_splits)
  show "\<exists>m'. IPv6_DecodeFromBytes m data df = Some (m', df', None) \<and> id m' = id l'"
    using ok len by (intro reuse_idI) (simp add: IPv6_decode_simp)
  have "length (Payload l') \<le> length (Payload (v6_header_of data))"
    using ok len IPv6_decode_hbh_result [of "v6_header_of data" df]
    by (auto simp: IPv6_decode_simp IPv6_decode_tail_simp split: if_splits)
  then show "length (Payload l') < length data" using len by (simp add: v6_header_of_def)
qed

subsection \<open>Round trip\<close>

definition v6_b0 :: "IPv6 \<Rightarrow> byte" where "v6_b0 ip = push_bit 4 (v6_Version ip) OR drop_bit 4 (v6_TrafficClass ip)"
definition v6_b1 :: "IPv6 \<Rightarrow> byte" where "v6_b1 ip = push_bit 4 (v6_TrafficClass ip) OR ucast (drop_bit 16 (v6_FlowLabel ip))"

lemma v6_unpack:
  assumes "v6_Version ip < 16" and "v6_FlowLabel ip < 0x100000"
  shows "drop_bit 4 (v6_b0 ip) = v6_Version ip"
    and "ucast (drop_bit 4 (mk16 (v6_b0 ip) (v6_b1 ip)) AND 0x00FF) = v6_TrafficClass ip"
    and "mk32 (v6_b0 ip) (v6_b1 ip) (ucast (drop_bit 8 (ucast (v6_FlowLabel ip) :: u16))) (ucast (ucast (v6_FlowLabel ip) :: u16)) AND 0x000FFFFF
           = v6_FlowLabel ip"
proof -
  have f: "\<And>n. 20 \<le> n \<Longrightarrow> \<not> bit (v6_FlowLabel ip) n"
    using assms(2) by (intro not_bit_small [of _ 20]) (auto simp: word_less_nat_alt)
  have v: "\<And>n. 4 \<le> n \<Longrightarrow> \<not> bit (v6_Version ip) n"
    using assms(1) by (intro not_bit_small [of _ 4]) (auto simp: word_less_nat_alt)
  note d = v6_b0_def v6_b1_def mk16_def mk32_def bit_simps f v byte_no_high_bit
  show "drop_bit 4 (v6_b0 ip) = v6_Version ip"
    by (rule bit_word_eqI) (auto simp: d dest!: less8_cases)
  have m: "drop_bit 4 (mk16 (v6_b0 ip) (v6_b1 ip)) AND 0x00FF = ucast (v6_TrafficClass ip)"
    by (rule and_mask_eqI [of _ 8]) (auto simp: d mask_eq_exp_minus_1 dest!: less8_cases)
  show "ucast (drop_bit 4 (mk16 (v6_b0 ip) (v6_b1 ip)) AND 0x00FF) = v6_TrafficClass ip"
    unfolding m by (rule bit_word_eqI) (auto simp: bit_simps)
  show "mk32 (v6_b0 ip) (v6_b1 ip) (ucast (drop_bit 8 (ucast (v6_FlowLabel ip) :: u16))) (ucast (ucast (v6_FlowLabel ip) :: u16)) AND 0x000FFFFF
           = v6_FlowLabel ip"
  proof (rule and_mask_eqI [of _ 20])
    fix n :: nat assume n: "n < 20"
    then consider "n < 8" | "8 \<le> n" "n < 16" | "16 \<le> n" "n < 20" by linarith
    then show "bit (mk32 (v6_b0 ip) (v6_b1 ip) (ucast (drop_bit 8 (ucast (v6_FlowLabel ip) :: u16))) (ucast (ucast (v6_FlowLabel ip) :: u16))) n
        = bit (v6_FlowLabel ip) n"
      by cases (auto simp: d)
  qed (auto simp: mask_eq_exp_minus_1 f)
qed

definition v6_wire :: "IPv6 \<Rightarrow> bytes" where
  "v6_wire ip = [v6_b0 ip, v6_b1 ip] @ be16 (ucast (v6_FlowLabel ip)) @ be16 (v6_Length ip)
     @ [v6_NextHeader ip, v6_HopLimit ip] @ v6_SrcIP ip @ v6_DstIP ip"

text \<open>A header whose fields fit their bit fields, and one without extension headers.\<close>

definition v6_fields_fit :: "IPv6 \<Rightarrow> bool" where
  "v6_fields_fit ip \<longleftrightarrow> v6_Version ip < 16 \<and> v6_FlowLabel ip < 0x100000 \<and> length (v6_SrcIP ip) = 16 \<and> length (v6_DstIP ip) = 16
     \<and> v6_HopByHop ip = None"

definition wf_ip6 :: "IPv6 \<Rightarrow> bool" where
  "wf_ip6 ip \<longleftrightarrow> v6_Version ip < 16 \<and> v6_FlowLabel ip < 0x100000 \<and> length (v6_SrcIP ip) = 16 \<and> length (v6_DstIP ip) = 16
     \<and> v6_HopByHop ip = None \<and> v6_NextHeader ip \<noteq> IPProtocolIPv6HopByHop"

lemma wf_ip6_fit: "wf_ip6 ip \<Longrightarrow> v6_fields_fit ip"
  by (simp add: wf_ip6_def v6_fields_fit_def)

lemma IPv6_SerializeTo_ok:
  assumes "sb_inv b" and "wf_ip6 ip" and "FixLengths opts" and "length (Bytes b) \<le> 65535"
  shows "\<exists>b'. IPv6_SerializeTo ip b opts = Some (ip\<lparr>v6_Length := of_nat (length (Bytes b))\<rparr>, b', None)
     \<and> sb_inv b' \<and> sb_layers b' = sb_layers b
     \<and> Bytes b' = v6_wire (ip\<lparr>v6_Length := of_nat (length (Bytes b))\<rparr>) @ Bytes b"
proof -
  have wf: "length (v6_SrcIP ip) = 16" "length (v6_DstIP ip) = 16" "v6_HopByHop ip = None"
    using assms(2) by (simp_all add: wf_ip6_def)
  obtain b1 where b1: "PrependBytes b (int 40) = Some b1" "length (take 40 (Bytes b1)) = 40"
      "\<And>h. length h = 40 \<Longrightarrow> sb_inv (store_front b1 h)"
      "\<And>h. length h = 40 \<Longrightarrow> Bytes (store_front b1 h) = h @ Bytes b" "sb_layers b1 = sb_layers b"
    using PrependBytes_obtain [OF assms(1), of 40] by metis
  let ?ip = "ip\<lparr>v6_Length := of_nat (length (Bytes b))\<rparr>"
  have "IPv6_write_header ip b opts False = Some (?ip, store_front b1 (v6_wire ?ip), None)"
    using b1 wf assms(3)
    by (simp add: IPv6_write_header_def Let_def AddressTo16_def checkIPv6Address_def v6_wire_def v6_b0_def v6_b1_def)
  moreover have "length (v6_wire ?ip) = 40" using wf by (simp add: v6_wire_def)
  ultimately show ?thesis
    using b1 wf assms(4) by (simp add: IPv6_SerializeTo_def IPv6_check_jumbo_def IPv6_write_hbh_def Let_def)
qed

lemma v6_header_of_wire:
  assumes "v6_fields_fit ip"
  shows "v6_header_of (v6_wire ip @ p) = ip\<lparr>Contents := v6_wire ip, Payload := p\<rparr>"
proof -
  have wf: "v6_Version ip < 16" "v6_FlowLabel ip < 0x100000" "length (v6_SrcIP ip) = 16" "length (v6_DstIP ip) = 16" "v6_HopByHop ip = None"
    using assms by (simp_all add: v6_fields_fit_def)
  show ?thesis
    by (intro IPv6.equality)
      (simp_all add: v6_header_of_def v6_wire_def be16_def mk16_split wf
         v6_unpack [OF wf(1,2), unfolded drop_bit_and] v6_unpack [OF wf(1,2)])
qed

text \<open>C25. IPv6 headers survive a round trip: a header without extension headers, with lengths fixed and a
  payload of 1 to 65535 bytes, is read back as the same header with exactly that payload, whatever the
  receiver held and whatever bytes follow the packet.\<close>

theorem IPv6_roundtrip:
  assumes "sb_inv b" and "wf_ip6 ip" and "FixLengths opts" and "0 < length (Bytes b)" and "length (Bytes b) \<le> 65535"
  shows "\<exists>b' ip' w. IPv6_SerializeTo ip b opts = Some (ip', b', None) \<and> Bytes b' = w @ Bytes b \<and> length w = 40
     \<and> ip' = ip\<lparr>v6_Length := of_nat (length (Bytes b))\<rparr>
     \<and> IPv6_DecodeFromBytes old (Bytes b' @ trailer) df = Some (ip'\<lparr>Contents := w, Payload := Bytes b\<rparr>, df, None)"
proof -
  let ?ip = "ip\<lparr>v6_Length := of_nat (length (Bytes b))\<rparr>"
  have wf: "wf_ip6 ?ip" using assms(2) by (simp add: wf_ip6_def)
  then have len: "length (v6_wire ?ip) = 40" by (simp add: wf_ip6_def v6_wire_def)
  have n: "unat (of_nat (length (Bytes b)) :: u16) = length (Bytes b)" "(of_nat (length (Bytes b)) :: u16) \<noteq> 0"
    using assms(4,5) unat_of_nat_u16 [of "length (Bytes b)"] by auto
  have "IPv6_DecodeFromBytes old (v6_wire ?ip @ (Bytes b @ trailer)) df
      = Some (?ip\<lparr>Contents := v6_wire ?ip, Payload := Bytes b\<rparr>, df, None)"
    using wf len n by (simp add: IPv6_decode_simp v6_header_of_wire wf_ip6_fit IPv6_decode_tail_simp wf_ip6_def)
  with IPv6_SerializeTo_ok [OF assms(1-3,5)] len show ?thesis by auto
qed

definition ex_ip6 :: IPv6 where
  "ex_ip6 = zero_IPv6\<lparr>v6_Version := 6, v6_TrafficClass := 0xB8, v6_FlowLabel := 0x12345, v6_NextHeader := 17, v6_HopLimit := 64,
     v6_SrcIP := replicate 15 0 @ [1], v6_DstIP := replicate 15 0 @ [2]\<rparr>"

definition four_bytes :: serializeBuffer where
  "four_bytes = \<lparr>sb_data = [1, 2, 3, 4], sb_spare = [], sb_start = 0, sb_prepended = 0, sb_appended = 0, sb_layers = []\<rparr>"

lemma four_bytes_ok: "sb_inv four_bytes" "Bytes four_bytes = [1, 2, 3, 4]"
  by (simp_all add: four_bytes_def sb_inv_def Bytes_def)

theorem IPv6_roundtrip_witness:
  "\<exists>b' ip' w. IPv6_SerializeTo ex_ip6 four_bytes \<lparr>FixLengths = True, ComputeChecksums = False\<rparr> = Some (ip', b', None)
     \<and> IPv6_DecodeFromBytes zero_IPv6 (Bytes b' @ [0, 0]) False
         = Some (ip'\<lparr>Contents := w, Payload := [1, 2, 3, 4]\<rparr>, False, None)"
proof -
  have "wf_ip6 ex_ip6" by (simp add: wf_ip6_def ex_ip6_def zero_IPv6_def)
  from IPv6_roundtrip [OF four_bytes_ok(1) this, of "\<lparr>FixLengths = True, ComputeChecksums = False\<rparr>" zero_IPv6 "[0, 0]" False]
  show ?thesis by (auto simp: four_bytes_ok(2))
qed

subsection \<open>Extension headers\<close>

text \<open>The hop-by-hop decoder may be reused, the destination-options decoder may not: decoding into a
  receiver that already holds options appends to them, so a reused \<^verbatim>\<open>IPv6Destination\<close> reports options of
  earlier packets.\<close>

lemma options_reuse:
  assumes "IPv6Destination_DecodeFromBytes zero_IPv6Options data df = Some (r, df', None)"
  shows "IPv6HopByHop_DecodeFromBytes i data df = Some (r, df', None) \<and>
     IPv6Destination_DecodeFromBytes i data df = Some (r\<lparr>ext_Options := ext_Options i @ ext_Options r\<rparr>, df', None)"
proof (cases rule: ext_base_cases [of data df, case_names bad good])
  case bad
  with assms show ?thesis by (simp add: IPv6Destination_DecodeFromBytes_def)
next
  case (good ext)
  with decode_tlvs_append [of "ext_ActualLength ext" data 2 df] assms show ?thesis
    by (auto simp: IPv6Destination_DecodeFromBytes_def IPv6HopByHop_DecodeFromBytes_def set_ext_base_def zero_IPv6Options_def)
qed

definition ex_padn :: bytes where
  "ex_padn = [17, 0, 1, 4, 0, 0, 0, 0]"

lemma options_reuse_witness:
  "\<exists>r. IPv6Destination_DecodeFromBytes zero_IPv6Options ex_padn False = Some (r, False, None) \<and> length (ext_Options r) = 1 \<and>
     IPv6Destination_DecodeFromBytes r ex_padn False = Some (r\<lparr>ext_Options := ext_Options r @ ext_Options r\<rparr>, False, None)"
proof -
  let ?opt = "\<lparr>tlv_OptionType = 1, tlv_OptionLength = 4, tlv_ActualLength = 6, tlv_OptionData = Some [0, 0, 0, 0], tlv_OptionAlignment = (0, 0)\<rparr>"
  let ?r = "\<lparr>Contents = ex_padn, Payload = [], ext_NextHeader = 17, ext_HeaderLength = 0, ext_ActualLength = 8, ext_Options = [?opt]\<rparr>"
  have "IPv6Destination_DecodeFromBytes zero_IPv6Options ex_padn False = Some (?r, False, None)"
    by code_simp
  with options_reuse [OF this, of ?r] show ?thesis by auto
qed

lemma hbh_cut_at:
  assumes "IPv6HopByHop_DecodeFromBytes i data df = Some (h, df1, None)"
  shows "Contents h = take (ext_ActualLength h) data" "Payload h = drop (ext_ActualLength h) data" "ext_ActualLength h \<le> length data"
proof (atomize(full), cases rule: ext_base_cases [of data df, case_names bad good])
  case bad
  with assms show "Contents h = take (ext_ActualLength h) data \<and> Payload h = drop (ext_ActualLength h) data \<and> ext_ActualLength h \<le> length data"
    by (simp add: IPv6HopByHop_DecodeFromBytes_def)
next
  case (good ext)
  with decode_tlvs_append [of "ext_ActualLength ext" data 2 df] assms
  show "Contents h = take (ext_ActualLength h) data \<and> Payload h = drop (ext_ActualLength h) data \<and> ext_ActualLength h \<le> length data"
    by (auto simp: IPv6HopByHop_DecodeFromBytes_def set_ext_base_def)
qed

text \<open>C33. What a complete IPv6 packet with a hop-by-hop header decodes to. Without the jumbogram option the payload behind the header is cut
  to the length field, which counts the header too: up to as many bytes as the header has are taken over from what follows
  the packet, and when fewer follow, the packet is reported as truncated. For a jumbogram the payload is not advanced past the
  hop-by-hop header, although the next layer is the one that follows it.\<close>

theorem hop_by_hop_payload:
  assumes wf: "v6_fields_fit ip" "v6_NextHeader ip = 0"
    and h: "IPv6HopByHop_DecodeFromBytes zero_IPv6Options (x @ pl @ trailer) df = Some (h, df1, None)" "Contents h = x"
  shows "(getIPv6HopByHopJumboLength h = Some (Inr None) \<and> unat (v6_Length ip) = length x + length pl \<longrightarrow>
       (\<exists>ip'. IPv6_DecodeFromBytes old (v6_wire ip @ x @ pl @ trailer) df = Some (ip', df1 \<or> length trailer < length x, None)
          \<and> Payload ip' = pl @ take (length x) trailer \<and> v6_HopByHop ip' = Some h))
     \<and> (\<forall>n. getIPv6HopByHopJumboLength h = Some (Inr (Some n)) \<and> unat n = length x + length pl \<and> v6_Length ip = 0 \<longrightarrow>
       (\<exists>ip'. IPv6_DecodeFromBytes old (v6_wire ip @ x @ pl @ trailer) df = Some (ip', df1, None)
          \<and> Payload ip' = x @ pl \<and> v6_HopByHop ip' = Some h \<and> IPv6_NextLayerType ip' = IPProtocol_LayerType (ext_NextHeader h)))"
proof -
  let ?ip = "ip\<lparr>Contents := v6_wire ip, Payload := x @ pl @ trailer\<rparr>"
  have len: "40 \<le> length (v6_wire ip @ x @ pl @ trailer)" using wf(1) by (simp add: v6_fields_fit_def v6_wire_def)
  note hd = v6_header_of_wire [OF wf(1), of "x @ pl @ trailer"]
  have d: "IPv6_DecodeFromBytes old (v6_wire ip @ x @ pl @ trailer) df = IPv6_decode_hbh ?ip df"
    using IPv6_decode_simp [OF len] wf(2) by (simp add: hd)
  have a: "ext_ActualLength h = length x" using hbh_cut_at [OF h(1)] h(2) by (metis length_take min_absorb2)
  have x: "x \<noteq> []" using hbh_td.payload_shorter [OF h(1)] hbh_cut_at(2) [OF h(1)] a by auto
  show ?thesis
  proof (intro conjI impI allI)
    assume j: "getIPv6HopByHopJumboLength h = Some (Inr None) \<and> unat (v6_Length ip) = length x + length pl"
    then have "v6_Length ip \<noteq> 0" using x by auto
    then show "\<exists>ip'. IPv6_DecodeFromBytes old (v6_wire ip @ x @ pl @ trailer) df = Some (ip', df1 \<or> length trailer < length x, None)
          \<and> Payload ip' = pl @ take (length x) trailer \<and> v6_HopByHop ip' = Some h"
      unfolding d using h(1) j by (simp add: IPv6_decode_hbh_def IPv6_decode_tail_simp a Let_def)
  next
    fix n
    assume "getIPv6HopByHopJumboLength h = Some (Inr (Some n)) \<and> unat n = length x + length pl \<and> v6_Length ip = 0"
    then show "\<exists>ip'. IPv6_DecodeFromBytes old (v6_wire ip @ x @ pl @ trailer) df = Some (ip', df1, None)
          \<and> Payload ip' = x @ pl \<and> v6_HopByHop ip' = Some h \<and> IPv6_NextLayerType ip' = IPProtocol_LayerType (ext_NextHeader h)"
      unfolding d using h(1) by (simp add: IPv6_decode_hbh_def IPv6_cut_simp Let_def IPv6_NextLayerType_def)
  qed
qed

theorem hop_by_hop_payload_witness:
  "\<exists>ip'. IPv6_DecodeFromBytes zero_IPv6 (v6_wire (ex_ip6\<lparr>v6_NextHeader := 0, v6_Length := 10\<rparr>) @ ex_padn @ [7, 7] @ [0, 0, 0]) False = Some (ip', True, None)
     \<and> Payload ip' = [7, 7, 0, 0, 0]"
proof -
  let ?opt = "\<lparr>tlv_OptionType = 1, tlv_OptionLength = 4, tlv_ActualLength = 6, tlv_OptionData = Some [0, 0, 0, 0], tlv_OptionAlignment = (0, 0)\<rparr>"
  let ?h = "\<lparr>Contents = ex_padn, Payload = [7, 7, 0, 0, 0], ext_NextHeader = 17, ext_HeaderLength = 0, ext_ActualLength = 8, ext_Options = [?opt]\<rparr>"
  have h: "IPv6HopByHop_DecodeFromBytes zero_IPv6Options (ex_padn @ [7, 7] @ [0, 0, 0]) False = Some (?h, False, None)" by code_simp
  have j: "getIPv6HopByHopJumboLength ?h = Some (Inr None)" by (simp add: getIPv6HopByHopJumboLength_def)
  have "v6_fields_fit (ex_ip6\<lparr>v6_NextHeader := 0, v6_Length := 10\<rparr>)" by (simp add: v6_fields_fit_def ex_ip6_def zero_IPv6_def)
  from hop_by_hop_payload [OF this _ h, where old = zero_IPv6, THEN conjunct1] j show ?thesis by (auto simp: ex_padn_def)
qed

subsection \<open>Padding of options\<close>

definition tlv_size :: "ipv6HeaderTLVOption list \<Rightarrow> nat" where
  "tlv_size os = sum_list (map (\<lambda>t. length (tlv_data t) + 2) os)"

definition unaligned :: "ipv6HeaderTLVOption \<Rightarrow> bool" where
  "unaligned t \<longleftrightarrow> fst (tlv_OptionAlignment t) = 0 \<and> length (tlv_data t) < 256"

definition tlv_fixed :: "ipv6HeaderTLVOption \<Rightarrow> ipv6HeaderTLVOption" where
  "tlv_fixed t = t\<lparr>tlv_OptionLength := of_nat (length (tlv_data t))\<rparr>"

lemma tlv_fixed_simps [simp]:
  "tlv_data (tlv_fixed t) = tlv_data t" "unaligned (tlv_fixed t) = unaligned t" "tlv_fixed (tlv_fixed t) = tlv_fixed t"
  "tlv_size (map tlv_fixed os) = tlv_size os"
  by (simp_all add: tlv_fixed_def unaligned_def tlv_size_def comp_def)

lemma unaligned_pad: "unaligned t \<Longrightarrow> tlv_alignment_pad t len = 0"
  by (simp add: unaligned_def tlv_alignment_pad_def)

lemma unat_u8_len: "unaligned t \<Longrightarrow> unat (of_nat (length (tlv_data t)) :: u8) = length (tlv_data t)"
  by (simp add: unaligned_def unat_of_nat)

lemma tlv_loop_dry: "\<forall>t \<in> set os. unaligned t \<Longrightarrow> tlv_loop os None True len = Some (map tlv_fixed os, None, len + tlv_size os)"
proof (induction os arbitrary: len)
  case (Cons t os)
  then show ?case by (simp add: unaligned_pad tlv_serializeTo_def Let_def tlv_fixed_def [symmetric] unat_u8_len tlv_size_def ac_simps) (simp add: tlv_fixed_def unat_u8_len)
qed (simp add: tlv_size_def)

lemma tlv_loop_buf:
  "\<lbrakk>\<forall>t \<in> set os. unaligned t; 2 \<le> len; len - 2 + tlv_size os \<le> length d\<rbrakk> \<Longrightarrow>
     \<exists>d'. tlv_loop os (Some d) True len = Some (map tlv_fixed os, Some d', len + tlv_size os) \<and> length d' = length d"
proof (induction os arbitrary: len d)
  case (Cons t os)
  let ?n = "length (tlv_data t)" and ?sub = "drop (len - 2) d"
  have l: "len - 2 + (?n + 2) + tlv_size os \<le> length d" using Cons.prems(3) by (simp add: tlv_size_def)
  have s: "slice d (len - 2) (length d) = Some ?sub" using l by (simp add: slice_def)
  obtain d1 where 1: "write_at ?sub 0 [tlv_OptionType t] = Some d1" using l by (simp add: write_at_in)
  note l1 = write_at_length [OF 1]
  obtain d2 where 2: "write_at d1 1 [of_nat ?n] = Some d2" using l l1 by (simp add: write_at_in)
  note l2 = write_at_length [OF 2]
  obtain d3 where 3: "copy_at d2 2 (tlv_data t) = Some d3" using l l1 l2 by (simp add: copy_at_fits)
  note l3 = copy_at_length [OF 3]
  let ?d = "take (len - 2) d @ d3"
  have o: "tlv_serializeTo t (Some ?sub) True = Some (tlv_fixed t, Some d3, ?n + 2)"
    using 1 2 3 Cons.prems(1) by (simp add: tlv_serializeTo_def Let_def tlv_fixed_def unat_u8_len)
  have "length ?d = length d" using l l1 l2 l3 by simp
  moreover obtain d' where "tlv_loop os (Some ?d) True (len + (?n + 2)) = Some (map tlv_fixed os, Some d', len + (?n + 2) + tlv_size os)" "length d' = length ?d"
  proof -
    have "len + (?n + 2) - 2 + tlv_size os \<le> length ?d" using l Cons.prems(2) calculation by linarith
    then show thesis using Cons.IH [of "len + (?n + 2)" ?d] Cons.prems(1,2) that by auto
  qed
  ultimately show ?case using s o Cons.prems(1) by (simp add: unaligned_pad Let_def) (simp add: tlv_size_def)
qed (simp add: tlv_size_def)

lemma padding_fits:
  assumes "pad \<le> length d" "pad < 8"
  shows "\<exists>d'. serializeTLVOptionPadding d pad = Some d' \<and> length d' = length d"
proof (cases "pad < 2")
  case True
  then show ?thesis using assms write_at_in [of 0 "[0]" d] by (auto simp: serializeTLVOptionPadding_def dest: write_at_length)
next
  case False
  obtain d1 where 1: "write_at d 0 [1] = Some d1" using False assms by (simp add: write_at_in)
  note l1 = write_at_length [OF 1]
  obtain d2 where 2: "write_at d1 1 [(of_nat pad :: u8) - 2] = Some d2" using False assms l1 by (simp add: write_at_in)
  note l2 = write_at_length [OF 2]
  have "2 \<le> length d" using False assms by simp
  then have "length (take 2 d2 @ replicate (length d2 - 2) 0) = length d" using l1 l2 by simp
  then show ?thesis unfolding serializeTLVOptionPadding_def Let_def 1 2 Option.bind.simps using False l1 l2 by auto
qed

text \<open>The two passes over the options: the dry run gives their length, and the second pass fills a slice of that length.\<close>

lemma serialize_tlvs:
  assumes "\<forall>t \<in> set os. unaligned t"
  defines "m \<equiv> tlv_size os + 2" and "l \<equiv> tlv_size os + (tlv_size os + 2) mod 8"
  shows "serializeIPv6HeaderTLVOptions None os True = Some (map tlv_fixed os, None, l)"
    and "length d = l \<Longrightarrow> \<exists>d'. serializeIPv6HeaderTLVOptions (Some d) (map tlv_fixed os) True = Some (map tlv_fixed os, Some d', l) \<and> length d' = l"
proof -
  have u: "\<forall>t \<in> set (map tlv_fixed os). unaligned t" using assms(1) by simp
  show "serializeIPv6HeaderTLVOptions None os True = Some (map tlv_fixed os, None, l)"
    using tlv_loop_dry [OF assms(1), of 2] by (simp add: serializeIPv6HeaderTLVOptions_def at_offset_def l_def Let_def)
  assume d: "length d = l"
  obtain d1 where d1: "tlv_loop (map tlv_fixed os) (Some d) True 2 = Some (map tlv_fixed os, Some d1, m)" "length d1 = l"
    using tlv_loop_buf [OF u, of 2 d] d by (auto simp: l_def m_def comp_def ac_simps)
  have "m mod 8 \<le> length (drop (m - 2) d1)" using d1(2) by (simp add: l_def m_def)
  then obtain d2 where d2: "serializeTLVOptionPadding (drop (m - 2) d1) (m mod 8) = Some d2" "length d2 = length (drop (m - 2) d1)"
    using padding_fits [of "m mod 8" "drop (m - 2) d1"] by auto
  have "slice d1 (m - 2) (length d1) = Some (drop (m - 2) d1)" using d1(2) by (simp add: slice_def l_def m_def)
  then show "\<exists>d'. serializeIPv6HeaderTLVOptions (Some d) (map tlv_fixed os) True = Some (map tlv_fixed os, Some d', l) \<and> length d' = l"
    using d1 d2 by (cases "m mod 8 = 0") (auto simp: serializeIPv6HeaderTLVOptions_def at_offset_def l_def m_def)
qed

text \<open>With lengths fixed, the options of a hop-by-hop or destination header are padded by their length modulo eight instead of up to the
  next multiple of eight. Serializing options without alignment never panics, and it succeeds exactly when the length of the options and
  the two bytes before them is a multiple of four.\<close>

lemma options_padding:
  assumes "sb_inv b" "FixLengths opts" "\<forall>t \<in> set (ext_Options i). unaligned t"
  shows "\<exists>i' b' err. IPv6Options_SerializeTo name i b opts = Some (i', b', err) \<and> (err = None \<longleftrightarrow> 4 dvd tlv_size (ext_Options i) + 2)"
proof -
  define l where "l = tlv_size (ext_Options i) + (tlv_size (ext_Options i) + 2) mod 8"
  note t = serialize_tlvs [OF assms(3), folded l_def]
  obtain b1 where b1: "PrependBytes b (int l) = Some b1" "length (take l (Bytes b1)) = l" "\<And>h. length h = l \<Longrightarrow> sb_inv (store_front b1 h)"
    using PrependBytes_obtain [OF assms(1), of l] by metis
  obtain d where d: "serializeIPv6HeaderTLVOptions (Some (take l (Bytes b1))) (map tlv_fixed (ext_Options i)) True = Some (map tlv_fixed (ext_Options i), Some d, l)"
      "length d = l" using t(2) [OF b1(2)] by blast
  have inv: "sb_inv (store_front b1 d)" using b1(3) d(2) by blast
  obtain b2 where b2: "PrependBytes (store_front b1 d) 2 = Some b2" "length (take 2 (Bytes b2)) = 2"
    using PrependBytes_obtain [OF inv, of 2] by (metis of_nat_numeral)
  obtain x y where xy: "take 2 (Bytes b2) = [x, y]" using b2(2) length_2_conv by metis
  have w: "write_at [x, y] 0 [u] = Some [u, y]" "write_at [u, y] 1 [v] = Some [u, v]" for u v by (simp_all add: write_at_def)
  have dv: "(l + 2) mod 8 = 0 \<longleftrightarrow> 4 dvd tlv_size (ext_Options i) + 2" unfolding l_def by presburger
  show ?thesis
  proof (cases "(l + 2) mod 8 = 0")
    case True
    then show ?thesis unfolding IPv6Options_SerializeTo_def assms(2) using t(1) b1(1) d(1) b2(1) dv
      by (auto simp: xy w assms(2) Let_def simp del: add_2_eq_Suc')
  next
    case False
    then show ?thesis unfolding IPv6Options_SerializeTo_def using t(1) b1(1) d(1) dv assms(2)
      by (auto simp: Let_def simp del: add_2_eq_Suc')
  qed
qed


definition router_alert :: IPv6Options where
  "router_alert = zero_IPv6Options\<lparr>ext_Options := [zero_tlv\<lparr>tlv_OptionType := 5, tlv_OptionData := Some [0, 0]\<rparr>]\<rparr>"

lemma options_padding_witness:
  "\<exists>i' b' e. IPv6HopByHop_SerializeTo router_alert NewSerializeBuffer \<lparr>FixLengths = True, ComputeChecksums = False\<rparr> = Some (i', b', Some e)"
proof -
  have "tlv_size (ext_Options router_alert) + 2 = 6" "\<forall>t \<in> set (ext_Options router_alert). unaligned t"
    by (simp_all add: router_alert_def zero_tlv_def unaligned_def tlv_size_def)
  then show ?thesis
    using options_padding [OF sb_inv_New, of "\<lparr>FixLengths = True, ComputeChecksums = False\<rparr>" router_alert "''IPv6HopByHop''"]
    by (auto simp: IPv6HopByHop_SerializeTo_def)
qed

end
