(* ===== verification/Tcpip.thy ===== *)
theory Tcpip
  imports Layer_IPv4 Layer_IPv6
begin

section \<open>Transport checksums (\<^verbatim>\<open>layers/tcpip.go\<close>)\<close>

text \<open>
  The pseudo header sums of IPv4 and IPv6 and the checksum of a transport segment. The field
  \<^verbatim>\<open>pseudoheader\<close> points to the network layer; \<^verbatim>\<open>AddressTo4\<close> may shorten that layer's addresses, so
  the operations return the updated network layer.
\<close>

datatype pseudoheader = PH4 IPv4 | PH6 IPv6

datatype NetworkLayer = NL_IPv4 IPv4 | NL_IPv6 IPv6 | NL_Other LayerType

definition IPv4_pseudoheaderChecksum :: "IPv4 \<Rightarrow> (IPv4 \<times> (goerr + u32)) option" where
  "IPv4_pseudoheaderChecksum ip0 =
     (case AddressTo4 ip0 of
        (ip, Some e) \<Rightarrow> Some (ip, Inl e)
      | (ip, None) \<Rightarrow> do {
          s0 \<leftarrow> idx (ip_SrcIP ip) 0; s1 \<leftarrow> idx (ip_SrcIP ip) 1; s2 \<leftarrow> idx (ip_SrcIP ip) 2; s3 \<leftarrow> idx (ip_SrcIP ip) 3;
          d0 \<leftarrow> idx (ip_DstIP ip) 0; d1 \<leftarrow> idx (ip_DstIP ip) 1; d2 \<leftarrow> idx (ip_DstIP ip) 2; d3 \<leftarrow> idx (ip_DstIP ip) 3;
          let c1 = push_bit 8 (ucast s0 + ucast s2);
          let c2 = c1 + (ucast s1 + ucast s3);
          let c3 = c2 + push_bit 8 (ucast d0 + ucast d2);
          Some (ip, Inr (c3 + (ucast d1 + ucast d3))) })"

fun pair_sum :: "bytes \<Rightarrow> bytes \<Rightarrow> u32 \<Rightarrow> u32" where
  "pair_sum (s0 # s1 # ss) (d0 # d1 # ds) csum =
     pair_sum ss ds ((((csum + push_bit 8 (ucast s0)) + ucast s1) + push_bit 8 (ucast d0)) + ucast d1)"
| "pair_sum _ _ csum = csum"

definition IPv6_pseudoheaderChecksum :: "IPv6 \<Rightarrow> goerr + u32" where
  "IPv6_pseudoheaderChecksum ip =
     (case AddressTo16 ip of Some e \<Rightarrow> Inl e | None \<Rightarrow> Inr (pair_sum (v6_SrcIP ip) (v6_DstIP ip) 0))"

definition pseudoheaderChecksum :: "pseudoheader \<Rightarrow> (pseudoheader \<times> (goerr + u32)) option" where
  "pseudoheaderChecksum ph =
     (case ph of
        PH4 ip \<Rightarrow> do { (ip1, r) \<leftarrow> IPv4_pseudoheaderChecksum ip; Some (PH4 ip1, r) }
      | PH6 ip \<Rightarrow> Some (PH6 ip, IPv6_pseudoheaderChecksum ip))"

definition computeChecksum ::
  "pseudoheader option \<Rightarrow> bytes \<Rightarrow> u8 \<Rightarrow> (pseudoheader option \<times> (goerr + u16)) option" where
  "computeChecksum c headerAndPayload headerProtocol =
     (case c of
        None \<Rightarrow> Some (None, Inl (Errorf ''TCP/IP layer 4 checksum cannot be computed without network layer... call SetNetworkLayerForChecksum to set which layer to use'' []))
      | Some ph \<Rightarrow> do {
          let len = (of_nat (length headerAndPayload) :: u32);
          (ph1, r) \<leftarrow> pseudoheaderChecksum ph;
          case r of
            Inl e \<Rightarrow> Some (Some ph1, Inl e)
          | Inr csum \<Rightarrow>
              Some (Some ph1, Inr (tcpipChecksum headerAndPayload
                 (((csum + ucast headerProtocol) + (len AND 0xffff)) + drop_bit 16 len))) })"

definition SetNetworkLayerForChecksum :: "pseudoheader option \<Rightarrow> NetworkLayer \<Rightarrow> pseudoheader option \<times> goerr option" where
  "SetNetworkLayerForChecksum i l =
     (case l of
        NL_IPv4 v \<Rightarrow> (Some (PH4 v), None)
      | NL_IPv6 v \<Rightarrow> (Some (PH6 v), None)
      | NL_Other t \<Rightarrow> (i, Some (Errorf ''cannot use layer type %v for tcp checksum network layer'' [t])))"

subsection \<open>The pseudo header sum\<close>

text \<open>What RFC 793 and RFC 2460 ask for: the sum of the words of both addresses.\<close>

definition ph_addresses :: "pseudoheader \<Rightarrow> bytes" where
  "ph_addresses ph = (case ph of PH4 ip \<Rightarrow> ip_SrcIP ip @ ip_DstIP ip | PH6 ip \<Rightarrow> v6_SrcIP ip @ v6_DstIP ip)"

definition wf_ph :: "pseudoheader \<Rightarrow> bool" where
  "wf_ph ph = (case ph of PH4 ip \<Rightarrow> length (ip_SrcIP ip) = 4 \<and> length (ip_DstIP ip) = 4
                        | PH6 ip \<Rightarrow> length (v6_SrcIP ip) = 16 \<and> length (v6_DstIP ip) = 16)"

lemma length_4_conv: "length xs = 4 \<longleftrightarrow> (\<exists>a b c d. xs = [a, b, c, d])"
  by (auto simp: numeral_eq_Suc length_Suc_conv)

lemma unat_pair_sum:
  "unat csum + wsum s + wsum d < 4294967296 \<Longrightarrow> length s = length d \<Longrightarrow> even (length s) \<Longrightarrow>
   unat (pair_sum s d csum) = unat csum + wsum s + wsum d"
proof (induction s d csum rule: pair_sum.induct)
  case (1 s0 s1 ss d0 d1 ds csum)
  let ?c = "(((csum + push_bit 8 (ucast s0)) + ucast s1) + push_bit 8 (ucast d0)) + ucast d1"
  have "unat ?c = unat csum + (256 * unat s0 + unat s1) + (256 * unat d0 + unat d1)"
    using 1(2) by (simp add: unat_word_ariths unat_push_byte)
  with 1 show ?case by simp
qed (auto elim: wsum.elims)

lemma IPv4_pseudo_wf:
  assumes "length (ip_SrcIP ip) = 4" and "length (ip_DstIP ip) = 4"
  shows "\<exists>c. IPv4_pseudoheaderChecksum ip = Some (ip, Inr c) \<and> unat c = wsum (ip_SrcIP ip @ ip_DstIP ip)"
proof -
  have to4: "AddressTo4 ip = (ip, None)"
    using assms by (simp add: AddressTo4_def checkIPv4Address_def To4_def)
  obtain s0 s1 s2 s3 d0 d1 d2 d3 where a: "ip_SrcIP ip = [s0, s1, s2, s3]" "ip_DstIP ip = [d0, d1, d2, d3]"
    using assms by (auto simp: length_4_conv)
  note b = unat_byte_less [of s0] unat_byte_less [of s1] unat_byte_less [of s2] unat_byte_less [of s3]
    unat_byte_less [of d0] unat_byte_less [of d1] unat_byte_less [of d2] unat_byte_less [of d3]
  show ?thesis
    using b by (simp add: IPv4_pseudoheaderChecksum_def to4 a Let_def push_bit_eq_mult unat_word_ariths)
qed

lemma pseudo_wf:
  assumes "wf_ph ph"
  shows "\<exists>c. pseudoheaderChecksum ph = Some (ph, Inr c) \<and> unat c = wsum (ph_addresses ph)
     \<and> wsum (ph_addresses ph) \<le> 65535 * 16"
proof (cases ph)
  case (PH4 ip)
  with assms have l: "length (ip_SrcIP ip) = 4" "length (ip_DstIP ip) = 4" by (simp_all add: wf_ph_def)
  then show ?thesis
    using PH4 IPv4_pseudo_wf [OF l] wsum_bound [of "ip_SrcIP ip @ ip_DstIP ip"]
    by (auto simp: pseudoheaderChecksum_def ph_addresses_def)
next
  case (PH6 ip)
  with assms have l: "length (v6_SrcIP ip) = 16" "length (v6_DstIP ip) = 16" by (simp_all add: wf_ph_def)
  have "wsum (v6_SrcIP ip @ v6_DstIP ip) \<le> 65535 * 16"
    using wsum_bound [of "v6_SrcIP ip @ v6_DstIP ip"] l by simp
  moreover have "AddressTo16 ip = None" using l by (simp add: AddressTo16_def checkIPv6Address_def)
  ultimately show ?thesis
    using PH6 l unat_pair_sum [of 0 "v6_SrcIP ip" "v6_DstIP ip"]
    by (simp add: pseudoheaderChecksum_def IPv6_pseudoheaderChecksum_def ph_addresses_def wsum_append)
qed

text \<open>The initial value of the sum: addresses, protocol and length.\<close>

lemma computeChecksum_wf:
  assumes "wf_ph ph" and "length data < 4294967296"
  shows "\<exists>c. computeChecksum (Some ph) data proto = Some (Some ph, Inr (tcpipChecksum data c))
     \<and> unat c = wsum (ph_addresses ph) + unat proto + length data mod 65536 + length data div 65536
     \<and> wsum (ph_addresses ph) \<le> 65535 * 16"
proof -
  obtain c where c: "pseudoheaderChecksum ph = Some (ph, Inr c)" "unat c = wsum (ph_addresses ph)"
      "wsum (ph_addresses ph) \<le> 65535 * 16"
    using pseudo_wf [OF assms(1)] by blast
  let ?l = "of_nat (length data) :: u32"
  have l: "unat ?l = length data" by (rule unat_of_nat_u32 [OF assms(2)])
  have parts: "unat (?l AND 0xffff) = length data mod 65536" "unat (drop_bit 16 ?l) = length data div 65536"
    using unat_shiftr [of 16 ?l] l by (simp_all add: unat_and_ffff)
  have "length data mod 65536 < 65536" "length data div 65536 < 65536" using assms(2) by simp_all
  then have "unat (((c + ucast proto) + (?l AND 0xffff)) + drop_bit 16 ?l)
      = wsum (ph_addresses ph) + unat proto + length data mod 65536 + length data div 65536"
    using c(2,3) parts unat_byte_less [of proto] by (simp add: unat_word_ariths)
  then show ?thesis
    using c by (intro exI [of _ "((c + ucast proto) + (?l AND 0xffff)) + drop_bit 16 ?l"]) (simp add: computeChecksum_def Let_def)
qed

text \<open>A segment with its computed checksum stored in it passes the receiver's check. The bound on the
  length keeps the 32-bit accumulator from wrapping.\<close>

lemma segment_verifies:
  assumes "wf_ph ph" and "even (length pre)" and "length (pre @ [0, 0] @ post) \<le> 100000"
    and "computeChecksum (Some ph) (pre @ [0, 0] @ post) proto = Some (ph', Inr k)"
  shows "ph' = Some ph \<and> computeChecksum (Some ph) (pre @ be16 k @ post) proto = Some (Some ph, Inr 0)"
proof -
  let ?d = "pre @ [0, 0] @ post" let ?e = "pre @ be16 k @ post"
  have len: "length ?e = length ?d" by simp
  obtain c where c: "computeChecksum (Some ph) ?d proto = Some (Some ph, Inr (tcpipChecksum ?d c))"
      "unat c = wsum (ph_addresses ph) + unat proto + length ?d mod 65536 + length ?d div 65536" "wsum (ph_addresses ph) \<le> 65535 * 16"
    using computeChecksum_wf [OF assms(1), of ?d proto] assms(3) by auto
  obtain c' where c': "computeChecksum (Some ph) ?e proto = Some (Some ph, Inr (tcpipChecksum ?e c'))"
      "unat c' = wsum (ph_addresses ph) + unat proto + length ?e mod 65536 + length ?e div 65536"
    using computeChecksum_wf [OF assms(1), of ?e proto] assms(3) len by auto
  from c(2) c'(2) have "c' = c" by (simp add: word_unat_eq_iff)
  have k: "k = tcpipChecksum ?d c" "ph' = Some ph" using assms(4) c(1) by simp_all
  have "(length ?d + 1) div 2 \<le> 50000" using assms(3) by simp
  then have "65535 * ((length ?d + 1) div 2) \<le> 65535 * 50000" by (rule mult_le_mono2)
  with wsum_bound [of ?d] have "wsum ?d \<le> 65535 * 50000" by (rule order_trans)
  moreover have "unat c \<le> 65535 * 16 + 256 + 65536 + 65536"
    using c(2,3) unat_byte_less [of proto] assms(3) by simp
  ultimately have "unat c + wsum ?d + 65535 < 4294967296" by simp
  from stored_checksum_verifies [OF assms(2) this] show ?thesis
    using c'(1) k \<open>c' = c\<close> by simp
qed

end
