(* ===== verification/Layer_UDP.thy ===== *)
theory Layer_UDP
  imports Tcpip
begin

section \<open>UDP (\<^verbatim>\<open>layers/udp.go\<close>)\<close>

text \<open>
  The UDP header: decoder with jumbogram lengths, serializer with length and checksum, port-based choice
  of the next layer. The port table is an argument where it is read.
\<close>

record UDP = BaseLayer +
  udp_SrcPort :: u16
  udp_DstPort :: u16
  udp_Length :: u16
  udp_Checksum :: u16
  udp_sPort :: bytes
  udp_dPort :: bytes
  udp_pseudoheader :: "pseudoheader option"

definition UDP_DecodeFromBytes :: "UDP \<Rightarrow> bytes \<Rightarrow> bool \<Rightarrow> UDP decoded" where
  "UDP_DecodeFromBytes udp data df =
     (if length data < 8
      then Some (udp, True, Some (Errorf ''Invalid UDP header. Length %d less than 8'' [int (length data)]))
      else do {
        s \<leftarrow> slice data 0 2; sp \<leftarrow> get_be16 s;
        d \<leftarrow> slice data 2 4; dp \<leftarrow> get_be16 d;
        l2 \<leftarrow> slice data 4 6; len \<leftarrow> get_be16 l2;
        c2 \<leftarrow> slice data 6 8; csum \<leftarrow> get_be16 c2;
        c \<leftarrow> slice data 0 8;
        let udp1 = udp\<lparr>udp_SrcPort := sp, udp_sPort := s, udp_DstPort := dp, udp_dPort := d, udp_Length := len,
                       udp_Checksum := csum, Contents := c, Payload := []\<rparr>;
        if len \<ge> 8 then do {
          let hlen = (if unat len > length data then length data else unat len);
          p \<leftarrow> slice data 8 hlen;
          Some (udp1\<lparr>Payload := p\<rparr>, df \<or> unat len > length data, None) }
        else if len = 0 then do {
          p \<leftarrow> slice data 8 (length data);
          Some (udp1\<lparr>Payload := p\<rparr>, df, None) }
        else Some (udp1, df, Some (Errorf ''UDP packet too small: %d bytes'' [uint len])) })"

definition UDP_jumbo :: "UDP \<Rightarrow> nat \<Rightarrow> bool" where
  "UDP_jumbo u n = (case udp_pseudoheader u of Some (PH6 _) \<Rightarrow> n + 8 > 65535 | _ \<Rightarrow> False)"

definition UDP_SerializeTo :: "UDP \<Rightarrow> serializeBuffer \<Rightarrow> SerializeOptions \<Rightarrow> UDP serialized" where
  "UDP_SerializeTo u b opts =
     do { let payload = Bytes b;
          let jumbo = UDP_jumbo u (length payload);
          b1 \<leftarrow> PrependBytes b 8;
          w1 \<leftarrow> write_at (take 8 (Bytes b1)) 0 (be16 (udp_SrcPort u));
          w2 \<leftarrow> write_at w1 2 (be16 (udp_DstPort u));
          let u1 = (if FixLengths opts then u\<lparr>udp_Length := (if jumbo then 0 else of_nat (length payload) + 8)\<rparr> else u);
          w3 \<leftarrow> write_at w2 4 (be16 (udp_Length u1));
          if ComputeChecksums opts then do {
            w4 \<leftarrow> write_at w3 6 [0];
            w5 \<leftarrow> write_at w4 7 [0];
            (ph, r) \<leftarrow> computeChecksum (udp_pseudoheader u1) (Bytes (store_front b1 w5)) 17;
            let u2 = u1\<lparr>udp_pseudoheader := ph\<rparr>;
            case r of
              Inl e \<Rightarrow> Some (u2, store_front b1 w5, Some e)
            | Inr csum \<Rightarrow> do {
                w6 \<leftarrow> write_at w5 6 (be16 csum);
                Some (u2\<lparr>udp_Checksum := csum\<rparr>, store_front b1 w6, None) } }
          else do {
            w4 \<leftarrow> write_at w3 6 (be16 (udp_Checksum u1));
            Some (u1, store_front b1 w4, None) } }"

definition UDP_NextLayerType :: "port_table \<Rightarrow> UDP \<Rightarrow> LayerType" where
  "UDP_NextLayerType tbl u =
     (let lt = UDPPort_LayerType tbl (udp_DstPort u)
      in if lt \<noteq> LayerTypePayload then lt else UDPPort_LayerType tbl (udp_SrcPort u))"

definition UDP_TransportFlow :: "UDP \<Rightarrow> Flow option" where
  "UDP_TransportFlow u = NewFlow EndpointUDPPort (udp_sPort u) (udp_dPort u)"

definition UDP_SetInternalPortsForTesting :: "UDP \<Rightarrow> UDP" where
  "UDP_SetInternalPortsForTesting u = u\<lparr>udp_sPort := be16 (udp_SrcPort u), udp_dPort := be16 (udp_DstPort u)\<rparr>"

definition zero_UDP :: UDP where
  "zero_UDP = \<lparr>Contents = [], Payload = [], udp_SrcPort = 0, udp_DstPort = 0, udp_Length = 0, udp_Checksum = 0,
     udp_sPort = [], udp_dPort = [], udp_pseudoheader = None\<rparr>"

abbreviation udp_layer :: "UDP \<Rightarrow> Layer" where
  "udp_layer u \<equiv> \<lparr>ly_type = LayerTypeUDP, ly_contents = Contents u, ly_payload = Payload u\<rparr>"

definition decodeUDP :: "port_table \<Rightarrow> bytes \<Rightarrow> decode_step" where
  "decodeUDP tbl data =
     (case UDP_DecodeFromBytes zero_UDP data False of
        None \<Rightarrow> ([], Panics)
      | Some (u, t, err) \<Rightarrow>
          (truncation t @ [AddLayer (udp_layer u), SetTransportLayer (udp_layer u)],
           case err of Some e \<Rightarrow> Return (Some e) | None \<Rightarrow> NextDecoder (ByLayerType (UDP_NextLayerType tbl u))))"

subsection \<open>The decoder keeps the contract of decoding layers\<close>

lemma UDP_decode_simp:
  assumes "8 \<le> length data"
  shows "UDP_DecodeFromBytes udp data df =
    (let len = mk16 (data ! 4) (data ! 5);
         udp1 = udp\<lparr>udp_SrcPort := mk16 (data ! 0) (data ! 1), udp_sPort := take 2 data,
                    udp_DstPort := mk16 (data ! 2) (data ! 3), udp_dPort := take 2 (drop 2 data), udp_Length := len,
                    udp_Checksum := mk16 (data ! 6) (data ! 7), Contents := take 8 data, Payload := []\<rparr>
     in if len \<ge> 8 then Some (udp1\<lparr>Payload := drop 8 (take (unat len) data)\<rparr>, df \<or> unat len > length data, None)
        else if len = 0 then Some (udp1\<lparr>Payload := drop 8 data\<rparr>, df, None)
        else Some (udp1, df, Some (Errorf ''UDP packet too small: %d bytes'' [uint len])))"
proof -
  let ?len = "mk16 (data ! 4) (data ! 5)"
  have "?len \<ge> 8 \<Longrightarrow> 8 \<le> unat ?len" by (simp add: word_le_nat_alt)
  then show ?thesis
    using assms by (cases "unat ?len > length data")
      (auto simp: UDP_DecodeFromBytes_def get_be16_def Let_def drop_take)
qed

lemma UDP_short: "length data < 8 \<Longrightarrow> UDP_DecodeFromBytes udp data df
    = Some (udp, True, Some (Errorf ''Invalid UDP header. Length %d less than 8'' [int (length data)]))"
  by (simp add: UDP_DecodeFromBytes_def)

abbreviation udp_view :: "UDP \<Rightarrow> UDP" where
  "udp_view u \<equiv> u\<lparr>udp_pseudoheader := None\<rparr>"

interpretation udp_dl: decoding_layer UDP_DecodeFromBytes Contents Payload 8 udp_view
proof
  fix l l' m :: UDP and data df df'
  show "UDP_DecodeFromBytes l data df \<noteq> None"
    by (cases "8 \<le> length data") (simp_all add: UDP_decode_simp UDP_short Let_def)
  assume ok: "UDP_DecodeFromBytes l data df = Some (l', df', None)"
  then have len: "8 \<le> length data" by (cases "8 \<le> length data") (simp_all add: UDP_short)
  show "\<exists>m'. UDP_DecodeFromBytes m data df = Some (m', df', None) \<and> udp_view m' = udp_view l'"
    using ok len by (auto simp: UDP_decode_simp Let_def split: if_splits)
  show "8 \<le> length (Contents l') \<and> (\<exists>rest. data = Contents l' @ Payload l' @ rest)"
    using ok len by (auto simp: UDP_decode_simp Let_def drop_take split: if_splits)
next
  show "0 < (8 :: nat)" by simp
qed

subsection \<open>What the serializer writes\<close>

definition udp_wire :: "UDP \<Rightarrow> u16 \<Rightarrow> bytes" where
  "udp_wire u csum = be16 (udp_SrcPort u) @ be16 (udp_DstPort u) @ be16 (udp_Length u) @ be16 csum"

lemma length_udp_wire [simp]: "length (udp_wire u c) = 8"
  by (simp add: udp_wire_def)

definition udp_fixed :: "UDP \<Rightarrow> nat \<Rightarrow> UDP" where
  "udp_fixed u n = u\<lparr>udp_Length := of_nat (n + 8)\<rparr>"

lemma UDP_SerializeTo_ok:
  assumes "sb_inv b" and "FixLengths opts" and "length (Bytes b) + 8 < 65536"
    and "ComputeChecksums opts \<Longrightarrow> udp_pseudoheader u = Some ph \<and> wf_ph ph"
  shows "\<exists>b' csum. UDP_SerializeTo u b opts = Some ((udp_fixed u (length (Bytes b)))\<lparr>udp_Checksum := csum\<rparr>, b', None)
     \<and> sb_inv b' \<and> sb_layers b' = sb_layers b
     \<and> Bytes b' = udp_wire (udp_fixed u (length (Bytes b))) csum @ Bytes b
     \<and> (if ComputeChecksums opts
        then computeChecksum (Some ph) (udp_wire (udp_fixed u (length (Bytes b))) 0 @ Bytes b) 17 = Some (Some ph, Inr csum)
        else csum = udp_Checksum u)"
proof -
  let ?u = "udp_fixed u (length (Bytes b))"
  obtain b1 where b1: "PrependBytes b (int 8) = Some b1" "length (take 8 (Bytes b1)) = 8"
      "\<And>h. length h = 8 \<Longrightarrow> sb_inv (store_front b1 h)"
      "\<And>h. length h = 8 \<Longrightarrow> Bytes (store_front b1 h) = h @ Bytes b" "sb_layers b1 = sb_layers b"
    using PrependBytes_obtain [OF assms(1), of 8] by metis
  have nj: "\<not> UDP_jumbo u (length (Bytes b))"
    using assms(3) by (auto simp: UDP_jumbo_def split: option.splits pseudoheader.splits)
  note serialize = UDP_SerializeTo_def Let_def nj assms(2) udp_fixed_def udp_wire_def
  show ?thesis
  proof (cases "ComputeChecksums opts")
    case True
    with assms(4) have ph: "udp_pseudoheader u = Some ph" "wf_ph ph" by simp_all
    have "length (udp_wire ?u 0 @ Bytes b) < 4294967296" using assms(3) by simp
    from computeChecksum_wf [OF ph(2) this] obtain c where
      c: "computeChecksum (Some ph) (udp_wire ?u 0 @ Bytes b) 17 = Some (Some ph, Inr c)" by blast
    moreover have "u\<lparr>udp_Length := l, udp_pseudoheader := Some ph, udp_Checksum := k\<rparr> = u\<lparr>udp_Length := l, udp_Checksum := k\<rparr>" for l k
      using ph(1) by simp
    ultimately show ?thesis using b1 True ph(1) by (simp add: serialize)
  next
    case False
    moreover have "u\<lparr>udp_Length := l, udp_Checksum := udp_Checksum u\<rparr> = u\<lparr>udp_Length := l\<rparr>" for l by simp
    ultimately show ?thesis using b1 by (simp add: serialize)
  qed
qed

subsection \<open>Round trip and checksum\<close>

lemma UDP_decode_wire:
  assumes "n = length p" and "n + 8 < 65536"
  shows "UDP_DecodeFromBytes old (udp_wire (udp_fixed u n) c @ p @ trailer) df =
     Some ((udp_fixed u n)\<lparr>udp_Checksum := c, Contents := udp_wire (udp_fixed u n) c, Payload := p,
             udp_sPort := be16 (udp_SrcPort u), udp_dPort := be16 (udp_DstPort u), udp_pseudoheader := udp_pseudoheader old\<rparr>, df, None)"
proof -
  let ?l = "of_nat (n + 8) :: u16"
  have l: "unat ?l = n + 8" by (rule unat_of_nat_u16 [OF assms(2)])
  then have ge: "?l \<ge> 8" by (simp only: word_le_nat_alt) simp
  have "take (unat ?l) (udp_wire (udp_fixed u n) c @ p @ trailer) = udp_wire (udp_fixed u n) c @ p"
    unfolding l using assms(1) by simp
  moreover have "mk16 ((udp_wire (udp_fixed u n) c @ p @ trailer) ! 4) ((udp_wire (udp_fixed u n) c @ p @ trailer) ! 5) = ?l"
    by (simp add: udp_wire_def be16_def mk16_split udp_fixed_def)
  ultimately have "UDP_DecodeFromBytes old (udp_wire (udp_fixed u n) c @ p @ trailer) df =
     Some (old\<lparr>udp_SrcPort := udp_SrcPort u, udp_sPort := be16 (udp_SrcPort u), udp_DstPort := udp_DstPort u,
        udp_dPort := be16 (udp_DstPort u), udp_Length := ?l, udp_Checksum := c, Contents := udp_wire (udp_fixed u n) c, Payload := p\<rparr>, df, None)"
    using l ge assms(1) by (simp add: UDP_decode_simp Let_def del: of_nat_add) (simp add: udp_wire_def be16_def mk16_split udp_fixed_def)
  then show ?thesis by (cases old; cases u) (simp add: udp_fixed_def)
qed

lemma udp_wire_verifies:
  assumes "wf_ph ph" and "computeChecksum (Some ph) (udp_wire u 0 @ p) 17 = Some (Some ph, Inr k)" and "length p + 8 < 65536"
  shows "computeChecksum (Some ph) (udp_wire u k @ p) 17 = Some (Some ph, Inr 0)"
  using segment_verifies [OF assms(1), of "be16 (udp_SrcPort u) @ be16 (udp_DstPort u) @ be16 (udp_Length u)" p 17 "Some ph" k] assms(2,3)
  by (simp add: udp_wire_def)

text \<open>C24. UDP datagrams survive a round trip: with lengths fixed, a datagram that fits 16 bits of length is
  decoded to the same ports and payload, whatever the receiver held and whatever follows the datagram;
  and with checksums computed over a valid IPv4 or IPv6 pseudo header, the receiver's checksum over the
  datagram is zero.\<close>

theorem UDP_roundtrip:
  assumes "sb_inv b" and "FixLengths opts" and "length (Bytes b) + 8 < 65536"
    and "ComputeChecksums opts \<Longrightarrow> udp_pseudoheader u = Some ph \<and> wf_ph ph"
  shows "\<exists>b' u' w. UDP_SerializeTo u b opts = Some (u', b', None) \<and> Bytes b' = w @ Bytes b \<and> length w = 8
     \<and> UDP_DecodeFromBytes old (Bytes b' @ trailer) df = Some (u'\<lparr>Contents := w, Payload := Bytes b, udp_sPort := be16 (udp_SrcPort u),
           udp_dPort := be16 (udp_DstPort u), udp_pseudoheader := udp_pseudoheader old\<rparr>, df, None)
     \<and> udp_SrcPort u' = udp_SrcPort u \<and> udp_DstPort u' = udp_DstPort u \<and> unat (udp_Length u') = length (Bytes b')
     \<and> (ComputeChecksums opts \<longrightarrow> computeChecksum (Some ph) (Bytes b') 17 = Some (Some ph, Inr 0))"
proof -
  let ?u = "udp_fixed u (length (Bytes b))"
  obtain b' csum where b': "UDP_SerializeTo u b opts = Some (?u\<lparr>udp_Checksum := csum\<rparr>, b', None)"
      "Bytes b' = udp_wire ?u csum @ Bytes b"
      "if ComputeChecksums opts then computeChecksum (Some ph) (udp_wire ?u 0 @ Bytes b) 17 = Some (Some ph, Inr csum)
       else csum = udp_Checksum u"
    using UDP_SerializeTo_ok [OF assms] by blast
  have "unat (udp_Length ?u) = length (Bytes b) + 8"
    using unat_of_nat_u16 [OF assms(3)] by (simp add: udp_fixed_def)
  moreover have "ComputeChecksums opts \<Longrightarrow> computeChecksum (Some ph) (Bytes b') 17 = Some (Some ph, Inr 0)"
    using b'(2,3) assms(3,4) by (simp add: udp_wire_verifies)
  moreover have "UDP_DecodeFromBytes old (Bytes b' @ trailer) df = Some (?u\<lparr>udp_Checksum := csum, Contents := udp_wire ?u csum, Payload := Bytes b,
      udp_sPort := be16 (udp_SrcPort u), udp_dPort := be16 (udp_DstPort u), udp_pseudoheader := udp_pseudoheader old\<rparr>, df, None)"
    using UDP_decode_wire [OF refl assms(3), of old u csum trailer df] b'(2) by simp
  ultimately show ?thesis
    using b'(1,2) by (intro exI [of _ b'] exI [of _ "?u\<lparr>udp_Checksum := csum\<rparr>"] exI [of _ "udp_wire ?u csum"])
      (simp add: udp_fixed_def)
qed

definition ex_udp :: UDP where
  "ex_udp = zero_UDP\<lparr>udp_SrcPort := 5353, udp_DstPort := 53, udp_pseudoheader := Some (PH4 ex_ip)\<rparr>"

theorem UDP_roundtrip_witness:
  "\<exists>b' u' w. UDP_SerializeTo ex_udp four_bytes \<lparr>FixLengths = True, ComputeChecksums = True\<rparr> = Some (u', b', None)
     \<and> UDP_DecodeFromBytes zero_UDP (Bytes b' @ [0]) False = Some (u'\<lparr>Contents := w, Payload := [1, 2, 3, 4],
           udp_sPort := be16 5353, udp_dPort := be16 53, udp_pseudoheader := None\<rparr>, False, None)
     \<and> computeChecksum (Some (PH4 ex_ip)) (Bytes b') 17 = Some (Some (PH4 ex_ip), Inr 0)"
proof -
  have ph: "udp_pseudoheader ex_udp = Some (PH4 ex_ip) \<and> wf_ph (PH4 ex_ip)"
    by (simp add: ex_udp_def wf_ph_def ex_ip_def)
  have "length (Bytes four_bytes) + 8 < 65536" by (simp add: four_bytes_ok(2))
  from UDP_roundtrip [OF four_bytes_ok(1) _ this ph, of "\<lparr>FixLengths = True, ComputeChecksums = True\<rparr>" zero_UDP "[0]" False]
  show ?thesis by (auto simp: four_bytes_ok(2) ex_udp_def zero_UDP_def)
qed

text \<open>The serializer stores a computed checksum of zero as it is. RFC 768 reserves zero for datagrams
  without a checksum and asks for the all-ones value instead.\<close>

lemma UDP_zero_checksum:
  "\<exists>b' u'. UDP_SerializeTo (ex_udp\<lparr>udp_SrcPort := 0xebdb, udp_DstPort := 0, udp_pseudoheader := Some (PH4 ex_ip)\<rparr>)
       NewSerializeBuffer \<lparr>FixLengths = True, ComputeChecksums = True\<rparr> = Some (u', b', None)
     \<and> udp_Checksum u' = 0 \<and> drop 6 (Bytes b') = [0, 0]"
proof -
  have "map_option (\<lambda>(u, b, e). (udp_Checksum u, drop 6 (Bytes b), e))
     (UDP_SerializeTo (ex_udp\<lparr>udp_SrcPort := 0xebdb, udp_DstPort := 0, udp_pseudoheader := Some (PH4 ex_ip)\<rparr>)
       NewSerializeBuffer \<lparr>FixLengths = True, ComputeChecksums = True\<rparr>) = Some (0, [0, 0], None)"
    by code_simp
  then show ?thesis by auto
qed

end
