(* ===== verification/Layer_TCP.thy ===== *)
theory Layer_TCP
  imports Tcpip
begin

section \<open>TCP (\<^verbatim>\<open>layers/tcp.go\<close>)\<close>

text \<open>
  The TCP header with flags and options: decoder, serializer, checksum. \<^verbatim>\<open>opts\<close>, the private storage
  for the first options, is not modelled: \<^verbatim>\<open>Options\<close> always starts from an empty slice of it.
\<close>

record TCPOption =
  topt_OptionType :: u8
  topt_OptionLength :: u8
  topt_OptionData :: bytes

record TCP = BaseLayer +
  tcp_SrcPort :: u16
  tcp_DstPort :: u16
  tcp_Seq :: u32
  tcp_Ack :: u32
  tcp_DataOffset :: u8
  tcp_FIN :: bool
  tcp_SYN :: bool
  tcp_RST :: bool
  tcp_PSH :: bool
  tcp_ACK :: bool
  tcp_URG :: bool
  tcp_ECE :: bool
  tcp_CWR :: bool
  tcp_NS :: bool
  tcp_Window :: u16
  tcp_Checksum :: u16
  tcp_Urgent :: u16
  tcp_sPort :: bytes
  tcp_dPort :: bytes
  tcp_Options :: "TCPOption list"
  tcp_Padding :: bytes
  tcp_pseudoheader :: "pseudoheader option"

definition zero_TCP :: TCP where
  "zero_TCP = \<lparr>Contents = [], Payload = [], tcp_SrcPort = 0, tcp_DstPort = 0, tcp_Seq = 0, tcp_Ack = 0, tcp_DataOffset = 0,
     tcp_FIN = False, tcp_SYN = False, tcp_RST = False, tcp_PSH = False, tcp_ACK = False, tcp_URG = False, tcp_ECE = False,
     tcp_CWR = False, tcp_NS = False, tcp_Window = 0, tcp_Checksum = 0, tcp_Urgent = 0, tcp_sPort = [], tcp_dPort = [],
     tcp_Options = [], tcp_Padding = [], tcp_pseudoheader = None\<rparr>"

subsection \<open>Serializer\<close>

definition set_flag :: "bool \<Rightarrow> u16 \<Rightarrow> u16 \<Rightarrow> u16" where
  "set_flag b x f = (if b then f OR x else f)"

definition flagsAndOffset :: "TCP \<Rightarrow> u16" where
  "flagsAndOffset t =
     (let f = push_bit 12 (ucast (tcp_DataOffset t));
          f = set_flag (tcp_FIN t) 0x0001 f;
          f = set_flag (tcp_SYN t) 0x0002 f;
          f = set_flag (tcp_RST t) 0x0004 f;
          f = set_flag (tcp_PSH t) 0x0008 f;
          f = set_flag (tcp_ACK t) 0x0010 f;
          f = set_flag (tcp_URG t) 0x0020 f;
          f = set_flag (tcp_ECE t) 0x0040 f;
          f = set_flag (tcp_CWR t) 0x0080 f;
          f = set_flag (tcp_NS t) 0x0100 f
      in f)"

fun tcp_option_length :: "TCPOption list \<Rightarrow> nat" where
  "tcp_option_length [] = 0"
| "tcp_option_length (opt # opts) =
     (if topt_OptionType opt = 0 \<or> topt_OptionType opt = 1 then 1 else 2 + length (topt_OptionData opt)) + tcp_option_length opts"

text \<open>The loop that writes the options; it returns where it stopped. The corrected option length is
  written but not stored in the option.\<close>

fun tcp_write_options :: "TCPOption list \<Rightarrow> bool \<Rightarrow> bytes \<Rightarrow> nat \<Rightarrow> (bytes \<times> nat) option" where
  "tcp_write_options [] fixl w start = Some (w, start)"
| "tcp_write_options (opt # opts) fixl w start =
     do { w1 \<leftarrow> write_at w start [topt_OptionType opt];
          if topt_OptionType opt = 0 \<or> topt_OptionType opt = 1 then tcp_write_options opts fixl w1 (start + 1)
          else do {
            w2 \<leftarrow> write_at w1 (start + 1) [if fixl then of_nat (length (topt_OptionData opt) + 2) else topt_OptionLength opt];
            w3 \<leftarrow> write_at w2 (start + 2) (topt_OptionData opt);
            tcp_write_options opts fixl w3 (start + (length (topt_OptionData opt) + 2)) } }"

definition tcp_fix_lengths :: "TCP \<Rightarrow> TCP" where
  "tcp_fix_lengths t =
     (let optionLength = tcp_option_length (tcp_Options t); rem = optionLength mod 4;
          t1 = (if rem \<noteq> 0 then t\<lparr>tcp_Padding := replicate (4 - rem) 0\<rparr> else t)
      in t1\<lparr>tcp_DataOffset := of_nat ((length (tcp_Padding t1) + optionLength + 20) div 4)\<rparr>)"

text \<open>The fixed part but for the checksum, bytes 0 to 15 and 18 to 19.\<close>

definition tcp_write_fixed :: "TCP \<Rightarrow> bytes \<Rightarrow> bytes option" where
  "tcp_write_fixed t w0 =
     do { w1 \<leftarrow> write_at w0 0 (be16 (tcp_SrcPort t));
          w2 \<leftarrow> write_at w1 2 (be16 (tcp_DstPort t));
          w3 \<leftarrow> write_at w2 4 (be32 (tcp_Seq t));
          w4 \<leftarrow> write_at w3 8 (be32 (tcp_Ack t));
          w5 \<leftarrow> write_at w4 12 (be16 (flagsAndOffset t));
          w6 \<leftarrow> write_at w5 14 (be16 (tcp_Window t));
          write_at w6 18 (be16 (tcp_Urgent t)) }"

text \<open>The end of \<^verbatim>\<open>SerializeTo\<close>: the checksum over everything in the buffer.\<close>

definition TCP_store_checksum :: "TCP \<Rightarrow> serializeBuffer \<Rightarrow> bytes \<Rightarrow> SerializeOptions \<Rightarrow> TCP serialized" where
  "TCP_store_checksum t b1 w opts =
     (if ComputeChecksums opts then do {
        w1 \<leftarrow> write_at w 16 [0];
        w2 \<leftarrow> write_at w1 17 [0];
        (ph, r) \<leftarrow> computeChecksum (tcp_pseudoheader t) (Bytes (store_front b1 w2)) 6;
        let t1 = t\<lparr>tcp_pseudoheader := ph\<rparr>;
        case r of
          Inl e \<Rightarrow> Some (t1, store_front b1 w2, Some e)
        | Inr csum \<Rightarrow> do {
            w3 \<leftarrow> write_at w2 16 (be16 csum);
            Some (t1\<lparr>tcp_Checksum := csum\<rparr>, store_front b1 w3, None) } }
      else do {
        w1 \<leftarrow> write_at w 16 (be16 (tcp_Checksum t));
        Some (t, store_front b1 w1, None) })"

definition TCP_SerializeTo :: "TCP \<Rightarrow> serializeBuffer \<Rightarrow> SerializeOptions \<Rightarrow> TCP serialized" where
  "TCP_SerializeTo t0 b opts =
     do { let t = (if FixLengths opts then tcp_fix_lengths t0 else t0);
          let n = 20 + tcp_option_length (tcp_Options t) + length (tcp_Padding t);
          b1 \<leftarrow> PrependBytes b (int n);
          w1 \<leftarrow> tcp_write_fixed t (take n (Bytes b1));
          (w2, start) \<leftarrow> tcp_write_options (tcp_Options t) (FixLengths opts) w1 20;
          w3 \<leftarrow> copy_at w2 start (tcp_Padding t);
          TCP_store_checksum t b1 w3 opts }"

definition TCP_ComputeChecksum :: "TCP \<Rightarrow> (pseudoheader option \<times> (goerr + u16)) option" where
  "TCP_ComputeChecksum t = computeChecksum (tcp_pseudoheader t) (Contents t @ Payload t) 6"

subsection \<open>Decoder\<close>

abbreviation add_topt :: "TCP \<Rightarrow> u8 \<Rightarrow> u8 \<Rightarrow> bytes \<Rightarrow> TCP" where
  "add_topt t k l d \<equiv> t\<lparr>tcp_Options := tcp_Options t @ [\<lparr>topt_OptionType = k, topt_OptionLength = l, topt_OptionData = d\<rparr>]\<rparr>"

text \<open>The loop over the options. An option is appended before its length is checked.\<close>

function tcp_decode_options :: "TCP \<Rightarrow> bytes \<Rightarrow> bool \<Rightarrow> TCP decoded" where
  "tcp_decode_options t data df =
     (if data = [] then Some (t, df, None)
      else do {
        k \<leftarrow> idx data 0;
        if k = 0 then do { pad \<leftarrow> slice data 1 (length data); Some (add_topt t 0 1 []\<lparr>tcp_Padding := pad\<rparr>, df, None) }
        else if k = 1 then tcp_decode_options (add_topt t 1 1 []) (drop 1 data) df
        else if length data < 2
        then Some (add_topt t k 0 [], True, Some (Errorf ''Invalid TCP option length. Length %d less than 2'' [int (length data)]))
        else do {
          l \<leftarrow> idx data 1;
          if l < 2 then Some (add_topt t k l [], df, Some (Errorf ''Invalid TCP option length %d < 2'' [uint l]))
          else if unat l > length data
          then Some (add_topt t k l [], True,
                 Some (Errorf ''Invalid TCP option length %d exceeds remaining %d bytes'' [uint l, int (length data)]))
          else do {
            d \<leftarrow> slice data 2 (unat l);
            tcp_decode_options (add_topt t k l d) (drop (unat l) data) df } } })"
  by pat_completeness auto
termination
  by (relation "measure (\<lambda>(t, data, df). length data)") (auto simp: word_less_nat_alt)

declare tcp_decode_options.simps [simp del]

definition TCP_DecodeFromBytes :: "TCP \<Rightarrow> bytes \<Rightarrow> bool \<Rightarrow> TCP decoded" where
  "TCP_DecodeFromBytes t data df =
     (if length data < 20
      then Some (t, True, Some (Errorf ''Invalid TCP header. Length %d less than 20'' [int (length data)]))
      else do {
        s \<leftarrow> slice data 0 2; sp \<leftarrow> get_be16 s;
        d \<leftarrow> slice data 2 4; dp \<leftarrow> get_be16 d;
        s4 \<leftarrow> slice data 4 8; seq \<leftarrow> get_be32 s4;
        s8 \<leftarrow> slice data 8 12; ack \<leftarrow> get_be32 s8;
        b12 \<leftarrow> idx data 12;
        b13 \<leftarrow> idx data 13;
        s14 \<leftarrow> slice data 14 16; win \<leftarrow> get_be16 s14;
        s16 \<leftarrow> slice data 16 18; csum \<leftarrow> get_be16 s16;
        s18 \<leftarrow> slice data 18 20; urg \<leftarrow> get_be16 s18;
        let t1 = t\<lparr>tcp_SrcPort := sp, tcp_sPort := s, tcp_DstPort := dp, tcp_dPort := d, tcp_Seq := seq, tcp_Ack := ack,
                   tcp_DataOffset := drop_bit 4 b12,
                   tcp_FIN := (b13 AND 0x01 \<noteq> 0), tcp_SYN := (b13 AND 0x02 \<noteq> 0), tcp_RST := (b13 AND 0x04 \<noteq> 0),
                   tcp_PSH := (b13 AND 0x08 \<noteq> 0), tcp_ACK := (b13 AND 0x10 \<noteq> 0), tcp_URG := (b13 AND 0x20 \<noteq> 0),
                   tcp_ECE := (b13 AND 0x40 \<noteq> 0), tcp_CWR := (b13 AND 0x80 \<noteq> 0), tcp_NS := (b12 AND 0x01 \<noteq> 0),
                   tcp_Window := win, tcp_Checksum := csum, tcp_Urgent := urg, tcp_Options := [], tcp_Padding := []\<rparr>;
        if tcp_DataOffset t1 < 5
        then Some (t1, df, Some (Errorf ''Invalid TCP data offset %d < 5'' [uint (tcp_DataOffset t1)]))
        else do {
          let dataStart = unat (tcp_DataOffset t1) * 4;
          if dataStart > length data
          then Some (t1\<lparr>Payload := [], Contents := data\<rparr>, True, Some (Errorf ''TCP data offset greater than packet length'' []))
          else do {
            c \<leftarrow> slice data 0 dataStart;
            p \<leftarrow> slice data dataStart (length data);
            o1 \<leftarrow> slice data 20 dataStart;
            tcp_decode_options (t1\<lparr>Contents := c, Payload := p\<rparr>) o1 df } } })"

definition TCP_NextLayerType :: "port_table \<Rightarrow> TCP \<Rightarrow> LayerType" where
  "TCP_NextLayerType tbl t =
     (let lt = TCPPort_LayerType tbl (tcp_DstPort t)
      in if lt = LayerTypePayload then TCPPort_LayerType tbl (tcp_SrcPort t) else lt)"

definition TCP_TransportFlow :: "TCP \<Rightarrow> Flow option" where
  "TCP_TransportFlow t = NewFlow EndpointTCPPort (tcp_sPort t) (tcp_dPort t)"

definition TCP_SetInternalPortsForTesting :: "TCP \<Rightarrow> TCP" where
  "TCP_SetInternalPortsForTesting t = t\<lparr>tcp_sPort := be16 (tcp_SrcPort t), tcp_dPort := be16 (tcp_DstPort t)\<rparr>"

abbreviation tcp_layer :: "TCP \<Rightarrow> Layer" where
  "tcp_layer t \<equiv> \<lparr>ly_type = LayerTypeTCP, ly_contents = Contents t, ly_payload = Payload t\<rparr>"

definition decodeTCP :: "port_table \<Rightarrow> bool \<Rightarrow> bytes \<Rightarrow> decode_step" where
  "decodeTCP tbl decodeStreamsAsDatagrams data =
     (case TCP_DecodeFromBytes zero_TCP data False of
        None \<Rightarrow> ([], Panics)
      | Some (t, tr, err) \<Rightarrow>
          (truncation tr @ [AddLayer (tcp_layer t), SetTransportLayer (tcp_layer t)],
           case err of
             Some e \<Rightarrow> Return (Some e)
           | None \<Rightarrow> NextDecoder (ByLayerType (if decodeStreamsAsDatagrams then TCP_NextLayerType tbl t else LayerTypePayload))))"

subsection \<open>The option loop\<close>

lemma tcp_opts_Nil: "tcp_decode_options t [] df = Some (t, df, None)"
  by (simp add: tcp_decode_options.simps)

lemma tcp_opts_End: "tcp_decode_options t (0 # pad) df = Some (add_topt t 0 1 []\<lparr>tcp_Padding := pad\<rparr>, df, None)"
  by (simp add: tcp_decode_options.simps [of t "0 # pad"])

lemma tcp_opts_Nop: "tcp_decode_options t (1 # rest) df = tcp_decode_options (add_topt t 1 1 []) rest df"
  by (simp add: tcp_decode_options.simps [of t "1 # rest"])

lemma tcp_opts_short: "k \<noteq> 0 \<Longrightarrow> k \<noteq> 1 \<Longrightarrow> tcp_decode_options t [k] df =
    Some (add_topt t k 0 [], True, Some (Errorf ''Invalid TCP option length. Length %d less than 2'' [1]))"
  by (simp add: tcp_decode_options.simps [of t "[k]"])

lemma tcp_opts_long:
  assumes "k \<noteq> 0" and "k \<noteq> 1"
  shows "tcp_decode_options t (k # l # rest) df =
    (if l < 2 then Some (add_topt t k l [], df, Some (Errorf ''Invalid TCP option length %d < 2'' [uint l]))
     else if unat l > 2 + length rest
     then Some (add_topt t k l [], True,
            Some (Errorf ''Invalid TCP option length %d exceeds remaining %d bytes'' [uint l, int (2 + length rest)]))
     else tcp_decode_options (add_topt t k l (take (unat l - 2) rest)) (drop (unat l - 2) rest) df)"
proof (cases "l < 2")
  case True
  then show ?thesis using assms by (simp add: tcp_decode_options.simps [of t "k # l # rest"])
next
  case False
  then have "2 \<le> unat l" by (simp add: word_less_nat_alt)
  with False show ?thesis
    using assms by (simp add: tcp_decode_options.simps [of t "k # l # rest"] slice_def drop_Cons' numeral_2_eq_2)
qed

lemmas tcp_opts_eqs = tcp_opts_Nil tcp_opts_End tcp_opts_Nop tcp_opts_short tcp_opts_long

abbreviation sans_topts :: "TCP \<Rightarrow> TCP" where
  "sans_topts t \<equiv> t\<lparr>tcp_Options := [], tcp_Padding := [], tcp_pseudoheader := None\<rparr>"

text \<open>Only options and padding change, and what they become depends only on the options before.\<close>

lemma tcp_decode_options_result:
  "\<exists>os pad df' err. \<forall>t. tcp_Padding t = [] \<longrightarrow>
     tcp_decode_options t data df = Some (t\<lparr>tcp_Options := tcp_Options t @ os, tcp_Padding := pad\<rparr>, df', err)"
proof (induction "length data" arbitrary: data rule: less_induct)
  case less
  have rec: "\<exists>os pad df' err. \<forall>t. tcp_Padding t = [] \<longrightarrow>
      tcp_decode_options (add_topt t k l d) data' df = Some (t\<lparr>tcp_Options := tcp_Options t @ os, tcp_Padding := pad\<rparr>, df', err)"
    if "length data' < length data" for k l d data'
  proof -
    from less [OF that] obtain os pad df' err where "\<forall>t. tcp_Padding t = [] \<longrightarrow>
      tcp_decode_options t data' df = Some (t\<lparr>tcp_Options := tcp_Options t @ os, tcp_Padding := pad\<rparr>, df', err)" by blast
    then show ?thesis
      by (intro exI [of _ "\<lparr>topt_OptionType = k, topt_OptionLength = l, topt_OptionData = d\<rparr> # os"] exI [of _ pad] exI [of _ df'] exI [of _ err])
        simp
  qed
  have one: "\<exists>os pad df' err. \<forall>t. tcp_Padding t = [] \<longrightarrow>
      Some (add_topt t k l d, x, e) = Some (t\<lparr>tcp_Options := tcp_Options t @ os, tcp_Padding := pad\<rparr>, df', err)" for k l d x e
    by (intro exI [of _ "[\<lparr>topt_OptionType = k, topt_OptionLength = l, topt_OptionData = d\<rparr>]"] exI [of _ "[]"] exI [of _ x] exI [of _ e]) simp
  consider "data = []" | pad where "data = 0 # pad" | rest where "data = 1 # rest"
    | k where "data = [k]" "k \<noteq> 0" "k \<noteq> 1" | k l rest where "data = k # l # rest" "k \<noteq> 0" "k \<noteq> 1"
    by (metis list.exhaust)
  then show ?case
  proof cases
    case 1
    then show ?thesis by (intro exI [of _ "[]"] exI [of _ df] exI [of _ None]) (simp add: tcp_opts_eqs)
  next
    case (2 pad)
    then show ?thesis
      by (intro exI [of _ "[\<lparr>topt_OptionType = 0, topt_OptionLength = 1, topt_OptionData = []\<rparr>]"] exI [of _ pad] exI [of _ df] exI [of _ None])
        (simp add: tcp_opts_eqs)
  next
    case (3 rest)
    then show ?thesis using rec [of rest] by (simp add: tcp_opts_eqs)
  next
    case (4 k)
    show ?thesis unfolding 4(1) tcp_opts_short [OF 4(2,3)] by (rule one)
  next
    case (5 k l rest)
    have "length (drop (unat l - 2) rest) < length data" using 5(1) by simp
    from rec [OF this] show ?thesis
      unfolding 5(1) tcp_opts_long [OF 5(2,3)]
      by (cases "l < 2"; cases "unat l > 2 + length rest") (simp_all only: one if_True if_False simp_thms)
  qed
qed

subsection \<open>The decoder keeps the contract of decoding layers\<close>

definition tcp_header :: "TCP \<Rightarrow> bytes \<Rightarrow> TCP" where
  "tcp_header t data = t\<lparr>tcp_SrcPort := mk16 (data ! 0) (data ! 1), tcp_sPort := take 2 data,
     tcp_DstPort := mk16 (data ! 2) (data ! 3), tcp_dPort := take 2 (drop 2 data),
     tcp_Seq := mk32 (data ! 4) (data ! 5) (data ! 6) (data ! 7), tcp_Ack := mk32 (data ! 8) (data ! 9) (data ! 10) (data ! 11),
     tcp_DataOffset := drop_bit 4 (data ! 12),
     tcp_FIN := bit (data ! 13) 0, tcp_SYN := bit (data ! 13) 1, tcp_RST := bit (data ! 13) 2, tcp_PSH := bit (data ! 13) 3,
     tcp_ACK := bit (data ! 13) 4, tcp_URG := bit (data ! 13) 5, tcp_ECE := bit (data ! 13) 6, tcp_CWR := bit (data ! 13) 7,
     tcp_NS := bit (data ! 12) 0, tcp_Window := mk16 (data ! 14) (data ! 15), tcp_Checksum := mk16 (data ! 16) (data ! 17),
     tcp_Urgent := mk16 (data ! 18) (data ! 19), tcp_Options := [], tcp_Padding := []\<rparr>"

lemma flag_bits: "((b :: byte) AND 0x01 \<noteq> 0) = bit b 0" "(b AND 0x02 \<noteq> 0) = bit b 1" "(b AND 0x04 \<noteq> 0) = bit b 2"
    "(b AND 0x08 \<noteq> 0) = bit b 3" "(b AND 0x10 \<noteq> 0) = bit b 4" "(b AND 0x20 \<noteq> 0) = bit b 5" "(b AND 0x40 \<noteq> 0) = bit b 6"
    "(b AND 0x80 \<noteq> 0) = bit b 7"
  using word_nonzero_bit [of b 0] word_nonzero_bit [of b 1] word_nonzero_bit [of b 2] word_nonzero_bit [of b 3]
    word_nonzero_bit [of b 4] word_nonzero_bit [of b 5] word_nonzero_bit [of b 6] word_nonzero_bit [of b 7]
  by simp_all

lemma TCP_decode_simp:
  assumes "20 \<le> length data"
  shows "TCP_DecodeFromBytes t data df =
    (let t1 = tcp_header t data; h = 4 * unat (drop_bit 4 (data ! 12)) in
     if drop_bit 4 (data ! 12) < 5 then Some (t1, df, Some (Errorf ''Invalid TCP data offset %d < 5'' [uint (drop_bit 4 (data ! 12))]))
     else if h > length data
     then Some (t1\<lparr>Payload := [], Contents := data\<rparr>, True, Some (Errorf ''TCP data offset greater than packet length'' []))
     else tcp_decode_options (t1\<lparr>Contents := take h data, Payload := drop h data\<rparr>) (drop 20 (take h data)) df)"
proof -
  have "\<not> drop_bit 4 (data ! 12) < 5 \<Longrightarrow> 20 \<le> unat (drop_bit 4 (data ! 12)) * 4" by (simp add: word_less_nat_alt)
  then show ?thesis
    using assms
    by (simp add: TCP_DecodeFromBytes_def get_be16_def get_be32_def Let_def flag_bits tcp_header_def mult.commute [of 4] drop_take)
qed

lemma TCP_short: "length data < 20 \<Longrightarrow> TCP_DecodeFromBytes t data df
    = Some (t, True, Some (Errorf ''Invalid TCP header. Length %d less than 20'' [int (length data)]))"
  by (simp add: TCP_DecodeFromBytes_def)

abbreviation tcp_view :: "TCP \<Rightarrow> TCP" where
  "tcp_view t \<equiv> t\<lparr>tcp_pseudoheader := None\<rparr>"

lemma TCP_decode_cases:
  obtains (bad) "\<And>t. \<exists>t' df' e. TCP_DecodeFromBytes t data df = Some (t', df', Some e)"
  | (good) h os pad df' err where "20 \<le> h" "h \<le> length data"
      "\<And>t. TCP_DecodeFromBytes t data df = Some ((tcp_header t data)\<lparr>Contents := take h data, Payload := drop h data,
              tcp_Options := os, tcp_Padding := pad\<rparr>, df', err)"
proof (cases "20 \<le> length data")
  case False
  then show thesis by (intro bad) (auto simp: TCP_short)
next
  case True
  let ?off = "drop_bit 4 (data ! 12)" let ?h = "4 * unat ?off"
  show thesis
  proof (cases "?off < 5 \<or> ?h > length data")
    case True
    with \<open>20 \<le> length data\<close> show thesis by (intro bad) (auto simp: TCP_decode_simp Let_def)
  next
    case False
    obtain os pad df' err where o: "\<forall>t. tcp_Padding t = [] \<longrightarrow> tcp_decode_options t (drop 20 (take ?h data)) df
        = Some (t\<lparr>tcp_Options := tcp_Options t @ os, tcp_Padding := pad\<rparr>, df', err)"
      using tcp_decode_options_result by blast
    show thesis
    proof (rule good [of ?h])
      show "20 \<le> ?h" "?h \<le> length data" using False by (auto simp: word_less_nat_alt)
      show "TCP_DecodeFromBytes t data df = Some ((tcp_header t data)\<lparr>Contents := take ?h data, Payload := drop ?h data,
              tcp_Options := os, tcp_Padding := pad\<rparr>, df', err)" for t
        using True False o by (simp add: TCP_decode_simp Let_def tcp_header_def)
    qed
  qed
qed

interpretation tcp_dl: decoding_layer TCP_DecodeFromBytes Contents Payload 20 tcp_view
proof
  fix l l' m :: TCP and data df df'
  show "TCP_DecodeFromBytes l data df \<noteq> None"
  proof (cases rule: TCP_decode_cases [of data df, case_names bad good])
    case bad
    then show ?thesis by (metis option.distinct(1))
  qed simp
  assume ok: "TCP_DecodeFromBytes l data df = Some (l', df', None)"
  have "(\<exists>m'. TCP_DecodeFromBytes m data df = Some (m', df', None) \<and> tcp_view m' = tcp_view l')
      \<and> 20 \<le> length (Contents l') \<and> (\<exists>rest. data = Contents l' @ Payload l' @ rest)"
  proof (cases rule: TCP_decode_cases [of data df, case_names bad good])
    case bad
    with ok show ?thesis by (metis option.distinct(1) option.inject prod.inject)
  next
    case (good h os pad df1 err)
    with ok have "err = None" "df1 = df'" by simp_all
    with ok good show ?thesis by (auto simp: tcp_header_def)
  qed
  then show "\<exists>m'. TCP_DecodeFromBytes m data df = Some (m', df', None) \<and> tcp_view m' = tcp_view l'"
    "20 \<le> length (Contents l') \<and> (\<exists>rest. data = Contents l' @ Payload l' @ rest)" by simp_all
next
  show "0 < (20 :: nat)" by simp
qed

subsection \<open>Options on the wire\<close>

definition topt_wire :: "TCPOption \<Rightarrow> bytes" where
  "topt_wire opt = (if topt_OptionType opt = 1 then [1] else topt_OptionType opt # topt_OptionLength opt # topt_OptionData opt)"

definition topts_wire :: "TCPOption list \<Rightarrow> bytes" where
  "topts_wire os = concat (map topt_wire os)"

lemma topts_wire_simps [simp]:
  "topts_wire [] = []" "topts_wire (opt # os) = topt_wire opt @ topts_wire os"
  by (simp_all add: topts_wire_def)

text \<open>Options as the decoder produces them, end-of-list excluded.\<close>

definition wf_topt :: "TCPOption \<Rightarrow> bool" where
  "wf_topt opt \<longleftrightarrow> topt_OptionType opt \<noteq> 0 \<and>
     (if topt_OptionType opt = 1 then topt_OptionLength opt = 1 \<and> topt_OptionData opt = []
      else unat (topt_OptionLength opt) = 2 + length (topt_OptionData opt))"

lemma tcp_option_length_wf: "list_all wf_topt os \<Longrightarrow> tcp_option_length os = length (topts_wire os)"
  by (induction os) (auto simp: wf_topt_def topt_wire_def)

lemma tcp_write_options_wf:
  "list_all wf_topt os \<Longrightarrow> length (topts_wire os) \<le> length junk \<Longrightarrow> start = length pre \<Longrightarrow>
   tcp_write_options os True (pre @ junk) start
     = Some (pre @ topts_wire os @ drop (length (topts_wire os)) junk, start + length (topts_wire os))"
proof (induction os arbitrary: pre junk start)
  case (Cons opt os)
  let ?w = "topt_wire opt"
  have wf: "wf_topt opt" and len: "length ?w + length (topts_wire os) \<le> length junk" using Cons.prems by simp_all
  have IH: "tcp_write_options os True ((pre @ ?w) @ drop (length ?w) junk) (start + length ?w)
      = Some ((pre @ ?w) @ topts_wire os @ drop (length (topts_wire os)) (drop (length ?w) junk), start + length ?w + length (topts_wire os))"
    by (rule Cons.IH) (use Cons.prems len in simp_all)
  show ?case
  proof (cases "topt_OptionType opt = 1")
    case True
    with wf IH Cons.prems len show ?thesis by (simp add: topt_wire_def)
  next
    case False
    then have l: "unat (topt_OptionLength opt) = 2 + length (topt_OptionData opt)" "topt_OptionType opt \<noteq> 0"
      using wf by (simp_all add: wf_topt_def)
    then have "of_nat (length (topt_OptionData opt) + 2) = (of_nat (unat (topt_OptionLength opt)) :: u8)" by simp
    also have "\<dots> = topt_OptionLength opt" by simp
    finally have "of_nat (length (topt_OptionData opt) + 2) = topt_OptionLength opt" .
    with IH Cons.prems len False l show ?thesis
      by (simp add: topt_wire_def add.commute)
  qed
qed simp

lemma tcp_decode_options_wf:
  "list_all wf_topt os \<Longrightarrow> tcp_decode_options t (topts_wire os @ rest) df
     = tcp_decode_options (t\<lparr>tcp_Options := tcp_Options t @ os\<rparr>) rest df"
proof (induction os arbitrary: t)
  case (Cons opt os)
  have wf: "wf_topt opt" using Cons.prems by simp
  show ?case
  proof (cases "topt_OptionType opt = 1")
    case True
    then have "opt = \<lparr>topt_OptionType = 1, topt_OptionLength = 1, topt_OptionData = []\<rparr>"
      using wf by (cases opt) (simp add: wf_topt_def)
    then show ?thesis using Cons by (simp add: topt_wire_def tcp_opts_eqs)
  next
    case False
    let ?l = "topt_OptionLength opt"
    have t: "topt_OptionType opt \<noteq> 0" "unat ?l = 2 + length (topt_OptionData opt)"
      using wf False by (simp_all add: wf_topt_def)
    then have "\<not> ?l < 2" by (simp add: word_less_nat_alt)
    moreover obtain k l d where "opt = \<lparr>topt_OptionType = k, topt_OptionLength = l, topt_OptionData = d\<rparr>" by (cases opt)
    ultimately show ?thesis using Cons t False by (simp add: topt_wire_def tcp_opts_long)
  qed
qed simp

subsection \<open>What the serializer writes\<close>

definition tcp_pre :: "TCP \<Rightarrow> bytes" where
  "tcp_pre t = be16 (tcp_SrcPort t) @ be16 (tcp_DstPort t) @ be32 (tcp_Seq t) @ be32 (tcp_Ack t)
     @ be16 (flagsAndOffset t) @ be16 (tcp_Window t)"

definition tcp_post :: "TCP \<Rightarrow> bytes" where
  "tcp_post t = be16 (tcp_Urgent t) @ topts_wire (tcp_Options t) @ tcp_Padding t"

definition tcp_wire :: "TCP \<Rightarrow> u16 \<Rightarrow> bytes" where
  "tcp_wire t csum = tcp_pre t @ be16 csum @ tcp_post t"

lemma length_tcp_pre [simp]: "length (tcp_pre t) = 16"
  by (simp add: tcp_pre_def)

lemma length_tcp_wire: "length (tcp_wire t c) = 20 + length (topts_wire (tcp_Options t)) + length (tcp_Padding t)"
  by (simp add: tcp_wire_def tcp_post_def)

lemma tcp_write_fixed_eq:
  "20 \<le> length w \<Longrightarrow> tcp_write_fixed t w = Some (tcp_pre t @ take 2 (drop 16 w) @ be16 (tcp_Urgent t) @ drop 20 w)"
  by (simp add: tcp_write_fixed_def tcp_pre_def)

definition tcp_csum_ok :: "TCP \<Rightarrow> pseudoheader \<Rightarrow> SerializeOptions \<Rightarrow> bytes \<Rightarrow> u16 \<Rightarrow> bool" where
  "tcp_csum_ok t ph opts payload csum =
     (if ComputeChecksums opts
      then computeChecksum (Some ph) (tcp_wire t 0 @ payload) 6 = Some (Some ph, Inr csum)
      else csum = tcp_Checksum t)"

lemma TCP_store_checksum_ok:
  assumes "length junk = 2" and "\<And>h. length h = length (tcp_wire t 0) \<Longrightarrow> Bytes (store_front b1 h) = h @ payload"
    and "length (tcp_wire t 0) + length payload < 4294967296"
    and "ComputeChecksums opts \<Longrightarrow> tcp_pseudoheader t = Some ph \<and> wf_ph ph"
  shows "\<exists>csum. TCP_store_checksum t b1 (tcp_pre t @ junk @ tcp_post t) opts
           = Some (t\<lparr>tcp_Checksum := csum\<rparr>, store_front b1 (tcp_wire t csum), None) \<and> tcp_csum_ok t ph opts payload csum"
proof (cases "ComputeChecksums opts")
  case True
  with assms(4) have ph: "tcp_pseudoheader t = Some ph" "wf_ph ph" by simp_all
  have "length (tcp_wire t 0 @ payload) < 4294967296" using assms(3) by simp
  from computeChecksum_wf [OF ph(2) this] obtain c where
    c: "computeChecksum (Some ph) (tcp_wire t 0 @ payload) 6 = Some (Some ph, Inr c)" by blast
  have "Bytes (store_front b1 (tcp_wire t 0)) = tcp_wire t 0 @ payload" by (rule assms(2)) simp
  then have "computeChecksum (tcp_pseudoheader t) (Bytes (store_front b1 (tcp_pre t @ 0 # 0 # tcp_post t))) 6 = Some (Some ph, Inr c)"
    using c ph(1) by (simp add: tcp_wire_def)
  moreover have "t\<lparr>tcp_pseudoheader := Some ph, tcp_Checksum := k\<rparr> = t\<lparr>tcp_Checksum := k\<rparr>" for k using ph(1) by simp
  ultimately show ?thesis
    using True c assms(1) by (simp add: TCP_store_checksum_def tcp_wire_def tcp_csum_ok_def)
next
  case False
  then show ?thesis using assms(1) by (simp add: TCP_store_checksum_def tcp_wire_def tcp_csum_ok_def)
qed

lemma TCP_SerializeTo_ok:
  assumes "sb_inv b" and "FixLengths opts" and "list_all wf_topt (tcp_Options t0)" and "t = tcp_fix_lengths t0"
    and "length (tcp_wire t 0) + length (Bytes b) < 4294967296"
    and "ComputeChecksums opts \<Longrightarrow> tcp_pseudoheader t = Some ph \<and> wf_ph ph"
  shows "\<exists>b' csum. TCP_SerializeTo t0 b opts = Some (t\<lparr>tcp_Checksum := csum\<rparr>, b', None) \<and> sb_inv b' \<and> sb_layers b' = sb_layers b
     \<and> Bytes b' = tcp_wire t csum @ Bytes b \<and> tcp_csum_ok t ph opts (Bytes b) csum"
proof -
  let ?o = "topts_wire (tcp_Options t)" let ?n = "20 + length ?o + length (tcp_Padding t)"
  have os: "tcp_Options t = tcp_Options t0" by (simp add: assms(4) tcp_fix_lengths_def Let_def)
  have wf: "list_all wf_topt (tcp_Options t)" "tcp_option_length (tcp_Options t) = length ?o"
    using assms(3) by (simp_all add: os tcp_option_length_wf)
  obtain b1 where b1: "PrependBytes b (int ?n) = Some b1" "length (take ?n (Bytes b1)) = ?n"
      "\<And>h. length h = ?n \<Longrightarrow> sb_inv (store_front b1 h)"
      "\<And>h. length h = ?n \<Longrightarrow> Bytes (store_front b1 h) = h @ Bytes b" "sb_layers b1 = sb_layers b"
    using PrependBytes_obtain [OF assms(1), of ?n] by metis
  define junk where "junk = take ?n (Bytes b1)"
  have junk: "length junk = ?n" unfolding junk_def by (rule b1(2))
  let ?hd = "tcp_pre t @ take 2 (drop 16 junk) @ be16 (tcp_Urgent t)"
  have w1: "tcp_write_fixed t junk = Some (?hd @ drop 20 junk)" using junk by (simp add: tcp_write_fixed_eq)
  have w2: "tcp_write_options (tcp_Options t) True (?hd @ drop 20 junk) 20
      = Some (?hd @ ?o @ drop (length ?o) (drop 20 junk), 20 + length ?o)"
    by (rule tcp_write_options_wf) (use wf junk in simp_all)
  have w3: "copy_at (?hd @ ?o @ drop (length ?o) (drop 20 junk)) (20 + length ?o) (tcp_Padding t)
      = Some (tcp_pre t @ take 2 (drop 16 junk) @ tcp_post t)"
    using junk by (simp add: tcp_post_def)
  have run: "TCP_SerializeTo t0 b opts = TCP_store_checksum t b1 (tcp_pre t @ take 2 (drop 16 junk) @ tcp_post t) opts"
    unfolding TCP_SerializeTo_def Let_def if_P [OF assms(2)] assms(4) [symmetric] wf(2) b1(1) bind.bind_lunit junk_def [symmetric]
    by (simp only: w1 w2 w3 bind.bind_lunit prod.case assms(2) eqTrueI [OF assms(2)])
  have n: "length (tcp_wire t c) = ?n" for c by (rule length_tcp_wire)
  obtain csum where "TCP_store_checksum t b1 (tcp_pre t @ take 2 (drop 16 junk) @ tcp_post t) opts
      = Some (t\<lparr>tcp_Checksum := csum\<rparr>, store_front b1 (tcp_wire t csum), None)" "tcp_csum_ok t ph opts (Bytes b) csum"
    using TCP_store_checksum_ok [of "take 2 (drop 16 junk)" t b1 "Bytes b" opts ph] b1(4) assms(5,6) junk n by auto
  with run b1(3-5) n show ?thesis by auto
qed

subsection \<open>Round trip and checksum\<close>

lemma bit_set_flag: "bit (set_flag b x f) n \<longleftrightarrow> bit f n \<or> b \<and> bit x n"
  by (simp add: set_flag_def bit_or_iff)

lemma bit_flags16:
  "bit (0x0001 :: u16) n \<longleftrightarrow> n = 0" "bit (0x0002 :: u16) n \<longleftrightarrow> n = 1" "bit (0x0004 :: u16) n \<longleftrightarrow> n = 2"
  "bit (0x0008 :: u16) n \<longleftrightarrow> n = 3" "bit (0x0010 :: u16) n \<longleftrightarrow> n = 4" "bit (0x0020 :: u16) n \<longleftrightarrow> n = 5"
  "bit (0x0040 :: u16) n \<longleftrightarrow> n = 6" "bit (0x0080 :: u16) n \<longleftrightarrow> n = 7" "bit (0x0100 :: u16) n \<longleftrightarrow> n = 8"
  using bit_pow2 [of 0 n, where 'a = 16] bit_pow2 [of 1 n, where 'a = 16] bit_pow2 [of 2 n, where 'a = 16]
    bit_pow2 [of 3 n, where 'a = 16] bit_pow2 [of 4 n, where 'a = 16] bit_pow2 [of 5 n, where 'a = 16]
    bit_pow2 [of 6 n, where 'a = 16] bit_pow2 [of 7 n, where 'a = 16] bit_pow2 [of 8 n, where 'a = 16]
  by simp_all

lemma bit_flagsAndOffset:
  "bit (flagsAndOffset t) n \<longleftrightarrow>
     (((((((((12 \<le> n \<and> n < 16 \<and> bit (tcp_DataOffset t) (n - 12)) \<or> tcp_FIN t \<and> n = 0) \<or> tcp_SYN t \<and> n = 1) \<or> tcp_RST t \<and> n = 2)
      \<or> tcp_PSH t \<and> n = 3) \<or> tcp_ACK t \<and> n = 4) \<or> tcp_URG t \<and> n = 5) \<or> tcp_ECE t \<and> n = 6) \<or> tcp_CWR t \<and> n = 7) \<or> tcp_NS t \<and> n = 8"
proof -
  have "bit (push_bit 12 (ucast (tcp_DataOffset t) :: u16)) n \<longleftrightarrow> 12 \<le> n \<and> n < 16 \<and> bit (tcp_DataOffset t) (n - 12)"
    by (auto simp: bit_simps)
  then show ?thesis
    by (simp only: flagsAndOffset_def Let_def bit_set_flag bit_flags16)
qed

lemma flags_unpack:
  assumes "tcp_DataOffset t < 16"
  shows "drop_bit 4 (ucast (drop_bit 8 (flagsAndOffset t)) :: byte) = tcp_DataOffset t"
    and "bit (ucast (drop_bit 8 (flagsAndOffset t)) :: byte) 0 = tcp_NS t"
    and "bit (ucast (flagsAndOffset t) :: byte) 0 = tcp_FIN t" "bit (ucast (flagsAndOffset t) :: byte) 1 = tcp_SYN t"
      "bit (ucast (flagsAndOffset t) :: byte) 2 = tcp_RST t" "bit (ucast (flagsAndOffset t) :: byte) 3 = tcp_PSH t"
      "bit (ucast (flagsAndOffset t) :: byte) 4 = tcp_ACK t" "bit (ucast (flagsAndOffset t) :: byte) 5 = tcp_URG t"
      "bit (ucast (flagsAndOffset t) :: byte) 6 = tcp_ECE t" "bit (ucast (flagsAndOffset t) :: byte) 7 = tcp_CWR t"
proof -
  have o: "\<And>n. 4 \<le> n \<Longrightarrow> \<not> bit (tcp_DataOffset t) n"
    using assms by (intro not_bit_small [of _ 4]) (auto simp: word_less_nat_alt)
  show "drop_bit 4 (ucast (drop_bit 8 (flagsAndOffset t)) :: byte) = tcp_DataOffset t"
    by (rule bit_word_eqI) (auto simp: bit_drop_bit_eq bit_ucast_iff bit_flagsAndOffset o dest!: less8_cases)
qed (simp_all add: bit_drop_bit_eq bit_ucast_iff bit_flagsAndOffset)

lemma tcp_header_wire:
  assumes "tcp_DataOffset t < 16"
  shows "tcp_header old (tcp_wire t c @ p) = t\<lparr>Contents := Contents old, Payload := Payload old, tcp_Checksum := c,
     tcp_sPort := be16 (tcp_SrcPort t), tcp_dPort := be16 (tcp_DstPort t), tcp_Options := [], tcp_Padding := [],
     tcp_pseudoheader := tcp_pseudoheader old\<rparr>"
    and "drop_bit 4 ((tcp_wire t c @ p) ! 12) = tcp_DataOffset t"
proof -
  let ?w = "tcp_wire t c @ p"
  have w: "?w = tcp_pre t @ be16 c @ be16 (tcp_Urgent t) @ topts_wire (tcp_Options t) @ tcp_Padding t @ p"
    by (simp add: tcp_wire_def tcp_post_def)
  have b: "?w ! 12 = ucast (drop_bit 8 (flagsAndOffset t))" "?w ! 13 = ucast (flagsAndOffset t)"
    unfolding w by (simp_all add: tcp_pre_def be16_def be32_def nth_append)
  from b flags_unpack(1) [OF assms] show "drop_bit 4 (?w ! 12) = tcp_DataOffset t" by simp
  show "tcp_header old ?w = t\<lparr>Contents := Contents old, Payload := Payload old, tcp_Checksum := c,
     tcp_sPort := be16 (tcp_SrcPort t), tcp_dPort := be16 (tcp_DstPort t), tcp_Options := [], tcp_Padding := [],
     tcp_pseudoheader := tcp_pseudoheader old\<rparr>"
    unfolding tcp_header_def b flags_unpack [OF assms]
    by (intro TCP.equality) (simp_all add: w tcp_pre_def be16_def be32_def nth_append mk16_split mk32_split)
qed

lemma tcp_fix_keeps [simp]:
  "tcp_SrcPort (tcp_fix_lengths t) = tcp_SrcPort t" "tcp_DstPort (tcp_fix_lengths t) = tcp_DstPort t"
  "tcp_pseudoheader (tcp_fix_lengths t) = tcp_pseudoheader t" "tcp_Options (tcp_fix_lengths t) = tcp_Options t"
  by (simp_all add: tcp_fix_lengths_def Let_def)

text \<open>What the options become: padding is read back as an end-of-list option and the rest of the padding.\<close>

definition decoded_options :: "TCPOption list \<Rightarrow> TCPOption list" where
  "decoded_options os =
     (if length (topts_wire os) mod 4 = 0 then os
      else os @ [\<lparr>topt_OptionType = 0, topt_OptionLength = 1, topt_OptionData = []\<rparr>])"

definition decoded_padding :: "TCPOption list \<Rightarrow> bytes" where
  "decoded_padding os =
     (let rem = length (topts_wire os) mod 4 in if rem = 0 then [] else replicate (3 - rem) 0)"

lemma tcp_fixed:
  assumes "list_all wf_topt (tcp_Options t0)" and "length (topts_wire (tcp_Options t0)) \<le> 40" and "tcp_Padding t0 = []"
  shows "4 * unat (tcp_DataOffset (tcp_fix_lengths t0)) = length (tcp_wire (tcp_fix_lengths t0) c)"
    and "tcp_DataOffset (tcp_fix_lengths t0) < 16" and "\<not> tcp_DataOffset (tcp_fix_lengths t0) < 5"
    and "tcp_decode_options t (topts_wire (tcp_Options t0) @ tcp_Padding (tcp_fix_lengths t0)) df
       = Some (t\<lparr>tcp_Options := tcp_Options t @ decoded_options (tcp_Options t0),
                 tcp_Padding := (if length (topts_wire (tcp_Options t0)) mod 4 = 0 then tcp_Padding t
                                 else decoded_padding (tcp_Options t0))\<rparr>, df, None)"
proof -
  let ?n = "length (topts_wire (tcp_Options t0))"
  define pad where "pad = length (tcp_Padding (tcp_fix_lengths t0))"
  have n: "tcp_option_length (tcp_Options t0) = ?n" by (rule tcp_option_length_wf [OF assms(1)])
  have pad: "pad = (if ?n mod 4 = 0 then 0 else 4 - ?n mod 4)"
    using assms(3) by (simp add: pad_def tcp_fix_lengths_def Let_def n)
  then have div: "4 dvd pad + ?n + 20" and small: "pad + ?n \<le> 40" using assms(2) by presburger+
  have off: "tcp_DataOffset (tcp_fix_lengths t0) = of_nat ((pad + ?n + 20) div 4)"
    by (simp add: pad_def tcp_fix_lengths_def Let_def n)
  have un: "unat (tcp_DataOffset (tcp_fix_lengths t0)) = (pad + ?n + 20) div 4"
    unfolding off by (rule unat_of_nat_byte) (use small in simp)
  have os: "tcp_Options (tcp_fix_lengths t0) = tcp_Options t0" by (simp add: tcp_fix_lengths_def Let_def)
  show "4 * unat (tcp_DataOffset (tcp_fix_lengths t0)) = length (tcp_wire (tcp_fix_lengths t0) c)"
    unfolding un length_tcp_wire os pad_def [symmetric] using div by simp
  show "tcp_DataOffset (tcp_fix_lengths t0) < 16" "\<not> tcp_DataOffset (tcp_fix_lengths t0) < 5"
    using un small by (simp_all add: word_less_nat_alt)
  show "tcp_decode_options t (topts_wire (tcp_Options t0) @ tcp_Padding (tcp_fix_lengths t0)) df
       = Some (t\<lparr>tcp_Options := tcp_Options t @ decoded_options (tcp_Options t0),
                 tcp_Padding := (if ?n mod 4 = 0 then tcp_Padding t else decoded_padding (tcp_Options t0))\<rparr>, df, None)"
  proof (cases "?n mod 4 = 0")
    case True
    then have "tcp_Padding (tcp_fix_lengths t0) = []" using assms(3) by (simp add: tcp_fix_lengths_def Let_def n)
    then show ?thesis
      using True tcp_decode_options_wf [OF assms(1), of t "[]" df] by (simp add: tcp_opts_Nil decoded_options_def)
  next
    case False
    then have "4 - ?n mod 4 = Suc (3 - ?n mod 4)" by (simp add: mod_less_divisor less_Suc_eq_le [symmetric] Suc_diff_le)
    then have "tcp_Padding (tcp_fix_lengths t0) = 0 # replicate (3 - ?n mod 4) 0"
      using False by (simp add: tcp_fix_lengths_def Let_def n)
    then show ?thesis
      using False assms(1) by (simp add: tcp_decode_options_wf tcp_opts_End decoded_options_def decoded_padding_def Let_def)
  qed
qed

lemma TCP_decode_wire:
  assumes "list_all wf_topt (tcp_Options t0)" and "length (topts_wire (tcp_Options t0)) \<le> 40" and "tcp_Padding t0 = []"
    and "t = tcp_fix_lengths t0"
  shows "TCP_DecodeFromBytes old (tcp_wire t c @ p) df =
     Some (t\<lparr>tcp_Checksum := c, Contents := tcp_wire t c, Payload := p, tcp_sPort := be16 (tcp_SrcPort t), tcp_dPort := be16 (tcp_DstPort t),
         tcp_Options := decoded_options (tcp_Options t0), tcp_Padding := decoded_padding (tcp_Options t0),
         tcp_pseudoheader := tcp_pseudoheader old\<rparr>, df, None)"
proof -
  note f = tcp_fixed [OF assms(1-3), folded assms(4)]
  note h = tcp_header_wire [OF f(2)]
  have os: "tcp_Options t = tcp_Options t0" by (simp add: assms(4) tcp_fix_lengths_def Let_def)
  have "drop 20 (tcp_wire t c) = topts_wire (tcp_Options t0) @ tcp_Padding t"
    by (simp add: tcp_wire_def tcp_post_def os)
  moreover have "20 \<le> length (tcp_wire t c @ p)" by (simp add: length_tcp_wire)
  ultimately show ?thesis
    using f(1) [of c] f(3) by (simp add: TCP_decode_simp h Let_def f(4) decoded_padding_def)
qed

text \<open>C23. TCP segments survive a round trip. With lengths fixed, a header whose options fit the 40 bytes is
  decoded to the same ports, numbers, flags and payload. Options that fill whole words come back as they
  were, others are followed by the end-of-list option that the zero padding spells. With checksums computed
  over a valid pseudo header the receiver's checksum is zero.\<close>

theorem TCP_roundtrip:
  assumes "sb_inv b" and "FixLengths opts" and "list_all wf_topt (tcp_Options t)" and "length (topts_wire (tcp_Options t)) \<le> 40"
    and "tcp_Padding t = []" and "length (Bytes b) \<le> 65535"
    and "ComputeChecksums opts \<Longrightarrow> tcp_pseudoheader t = Some ph \<and> wf_ph ph"
  shows "\<exists>b' t' w. TCP_SerializeTo t b opts = Some (t', b', None) \<and> Bytes b' = w @ Bytes b
     \<and> TCP_DecodeFromBytes old (Bytes b') df =
         Some (t'\<lparr>Contents := w, Payload := Bytes b, tcp_sPort := be16 (tcp_SrcPort t), tcp_dPort := be16 (tcp_DstPort t),
             tcp_Options := decoded_options (tcp_Options t), tcp_Padding := decoded_padding (tcp_Options t),
             tcp_pseudoheader := tcp_pseudoheader old\<rparr>, df, None)
     \<and> t' = (tcp_fix_lengths t)\<lparr>tcp_Checksum := tcp_Checksum t'\<rparr> \<and> 4 * unat (tcp_DataOffset t') = length w
     \<and> (ComputeChecksums opts \<longrightarrow> computeChecksum (Some ph) (Bytes b') 6 = Some (Some ph, Inr 0))"
proof -
  let ?t = "tcp_fix_lengths t"
  have wire: "length (tcp_wire ?t c) \<le> 60" for c
  proof -
    have "unat (tcp_DataOffset ?t) < 16" using tcp_fixed(2) [OF assms(3-5)] by (simp add: word_less_nat_alt)
    then show ?thesis using tcp_fixed(1) [OF assms(3-5), of c] by linarith
  qed
  have ph: "ComputeChecksums opts \<Longrightarrow> tcp_pseudoheader ?t = Some ph \<and> wf_ph ph"
    using assms(7) by simp
  have "length (tcp_wire ?t 0) + length (Bytes b) < 4294967296" using wire [of 0] assms(6) by linarith
  from TCP_SerializeTo_ok [OF assms(1-3) refl this ph] obtain b' csum where
    b': "TCP_SerializeTo t b opts = Some (?t\<lparr>tcp_Checksum := csum\<rparr>, b', None)" "Bytes b' = tcp_wire ?t csum @ Bytes b"
      "tcp_csum_ok ?t ph opts (Bytes b) csum" by blast
  have "computeChecksum (Some ph) (Bytes b') 6 = Some (Some ph, Inr 0)" if "ComputeChecksums opts"
  proof -
    have "length (tcp_pre ?t @ [0, 0] @ tcp_post ?t @ Bytes b) \<le> 100000"
      using wire [of 0] assms(6) by (simp add: tcp_wire_def)
    with segment_verifies [of ph "tcp_pre ?t" "tcp_post ?t @ Bytes b" 6 "Some ph" csum] that ph b'(2,3) show ?thesis
      by (simp add: tcp_csum_ok_def tcp_wire_def)
  qed
  with b' TCP_decode_wire [OF assms(3-5) refl, of old csum "Bytes b" df] tcp_fixed(1) [OF assms(3-5), of csum] show ?thesis
    by (intro exI [of _ b'] exI [of _ "?t\<lparr>tcp_Checksum := csum\<rparr>"] exI [of _ "tcp_wire ?t csum"]) simp
qed

definition ex_tcp :: TCP where
  "ex_tcp = zero_TCP\<lparr>tcp_SrcPort := 40000, tcp_DstPort := 80, tcp_Seq := 7, tcp_SYN := True, tcp_NS := True, tcp_Window := 512,
     tcp_Options := [\<lparr>topt_OptionType = 2, topt_OptionLength = 4, topt_OptionData = [5, 0xb4]\<rparr>,
                     \<lparr>topt_OptionType = 3, topt_OptionLength = 3, topt_OptionData = [7]\<rparr>],
     tcp_pseudoheader := Some (PH6 ex_ip6)\<rparr>"

theorem TCP_roundtrip_witness:
  "\<exists>b' t' w. TCP_SerializeTo ex_tcp four_bytes \<lparr>FixLengths = True, ComputeChecksums = True\<rparr> = Some (t', b', None)
     \<and> TCP_DecodeFromBytes zero_TCP (Bytes b') False =
         Some (t'\<lparr>Contents := w, Payload := [1, 2, 3, 4], tcp_sPort := be16 40000, tcp_dPort := be16 80,
             tcp_Options := tcp_Options ex_tcp @ [\<lparr>topt_OptionType = 0, topt_OptionLength = 1, topt_OptionData = []\<rparr>],
             tcp_Padding := [], tcp_pseudoheader := None\<rparr>, False, None)
     \<and> computeChecksum (Some (PH6 ex_ip6)) (Bytes b') 6 = Some (Some (PH6 ex_ip6), Inr 0)"
proof -
  have o: "list_all wf_topt (tcp_Options ex_tcp)" "topts_wire (tcp_Options ex_tcp) = [2, 4, 5, 0xb4, 3, 3, 7]" by code_simp+
  have d: "decoded_options (tcp_Options ex_tcp) = tcp_Options ex_tcp @ [\<lparr>topt_OptionType = 0, topt_OptionLength = 1, topt_OptionData = []\<rparr>]"
    "decoded_padding (tcp_Options ex_tcp) = []"
    by (simp_all add: decoded_options_def decoded_padding_def o(2))
  have f: "tcp_SrcPort ex_tcp = 40000" "tcp_DstPort ex_tcp = 80" "tcp_Padding ex_tcp = []" "tcp_pseudoheader zero_TCP = None"
    "tcp_pseudoheader ex_tcp = Some (PH6 ex_ip6) \<and> wf_ph (PH6 ex_ip6)"
    by (simp_all add: ex_tcp_def zero_TCP_def wf_ph_def ex_ip6_def)
  from TCP_roundtrip [OF four_bytes_ok(1) _ o(1) _ f(3) _ f(5), of "\<lparr>FixLengths = True, ComputeChecksums = True\<rparr>" zero_TCP False]
  show ?thesis by (auto simp: four_bytes_ok(2) o(2) d f)
qed

end
