(* ===== verification/Layer_DNS.thy ===== *)
theory Layer_DNS
  imports Layer_Base
begin

section \<open>DNS (\<^verbatim>\<open>layers/dns.go\<close>)\<close>

text \<open>
  DNS messages: names with compression pointers, questions, resource records and their data, decoder and serializer.
  The buffer in which names are collected is the list of the bytes a call of \<^verbatim>\<open>decodeName\<close> appends to it. Offsets are never
  negative, so they are natural numbers and \<^verbatim>\<open>errDNSNameOffsetNegative\<close> does not occur. In a result of type
  \<open>(goerr + 'a) option\<close> the value \<open>None\<close> is a panic. String forms are left out.
\<close>

subsection \<open>Data\<close>

record DNSQuestion =
  q_Name :: bytes
  q_Type :: u16
  q_Class :: u16

record DNSSOA =
  soa_MName :: bytes
  soa_RName :: bytes
  soa_Serial :: u32
  soa_Refresh :: u32
  soa_Retry :: u32
  soa_Expire :: u32
  soa_Minimum :: u32

record DNSSRV =
  srv_Priority :: u16
  srv_Weight :: u16
  srv_Port :: u16
  srv_Name :: bytes

record DNSMX =
  mx_Preference :: u16
  mx_Name :: bytes

record DNSURI =
  uri_Priority :: u16
  uri_Weight :: u16
  uri_Target :: bytes

record DNSOPT =
  dopt_Code :: u16
  dopt_Data :: bytes

record DNSResourceRecord =
  rr_Name :: bytes
  rr_Type :: u16
  rr_Class :: u16
  rr_TTL :: u32
  rr_DataLength :: u16
  rr_Data :: bytes
  rr_IP :: bytes
  rr_NS :: bytes
  rr_CNAME :: bytes
  rr_PTR :: bytes
  rr_TXTs :: "bytes list"
  rr_SOA :: DNSSOA
  rr_SRV :: DNSSRV
  rr_MX :: DNSMX
  rr_OPT :: "DNSOPT list"
  rr_URI :: DNSURI
  rr_TXT :: bytes

definition zero_RR :: DNSResourceRecord where
  "zero_RR = \<lparr>rr_Name = [], rr_Type = 0, rr_Class = 0, rr_TTL = 0, rr_DataLength = 0, rr_Data = [], rr_IP = [], rr_NS = [], rr_CNAME = [],
     rr_PTR = [], rr_TXTs = [],
     rr_SOA = \<lparr>soa_MName = [], soa_RName = [], soa_Serial = 0, soa_Refresh = 0, soa_Retry = 0, soa_Expire = 0, soa_Minimum = 0\<rparr>,
     rr_SRV = \<lparr>srv_Priority = 0, srv_Weight = 0, srv_Port = 0, srv_Name = []\<rparr>, rr_MX = \<lparr>mx_Preference = 0, mx_Name = []\<rparr>,
     rr_OPT = [], rr_URI = \<lparr>uri_Priority = 0, uri_Weight = 0, uri_Target = []\<rparr>, rr_TXT = []\<rparr>"

record DNS = BaseLayer +
  dns_ID :: u16
  dns_QR :: bool
  dns_OpCode :: u8
  dns_AA :: bool
  dns_TC :: bool
  dns_RD :: bool
  dns_RA :: bool
  dns_Z :: u8
  dns_ResponseCode :: u8
  dns_QDCount :: u16
  dns_ANCount :: u16
  dns_NSCount :: u16
  dns_ARCount :: u16
  dns_Questions :: "DNSQuestion list"
  dns_Answers :: "DNSResourceRecord list"
  dns_Authorities :: "DNSResourceRecord list"
  dns_Additionals :: "DNSResourceRecord list"

definition zero_DNS :: DNS where
  "zero_DNS = \<lparr>Contents = [], Payload = [], dns_ID = 0, dns_QR = False, dns_OpCode = 0, dns_AA = False, dns_TC = False, dns_RD = False, dns_RA = False,
     dns_Z = 0, dns_ResponseCode = 0, dns_QDCount = 0, dns_ANCount = 0, dns_NSCount = 0, dns_ARCount = 0, dns_Questions = [], dns_Answers = [],
     dns_Authorities = [], dns_Additionals = []\<rparr>"

text \<open>The types of records with data of their own.\<close>

abbreviation (input) DNSTypeA :: u16 where "DNSTypeA \<equiv> 1"
abbreviation (input) DNSTypeNS :: u16 where "DNSTypeNS \<equiv> 2"
abbreviation (input) DNSTypeCNAME :: u16 where "DNSTypeCNAME \<equiv> 5"
abbreviation (input) DNSTypeSOA :: u16 where "DNSTypeSOA \<equiv> 6"
abbreviation (input) DNSTypePTR :: u16 where "DNSTypePTR \<equiv> 12"
abbreviation (input) DNSTypeHINFO :: u16 where "DNSTypeHINFO \<equiv> 13"
abbreviation (input) DNSTypeMX :: u16 where "DNSTypeMX \<equiv> 15"
abbreviation (input) DNSTypeTXT :: u16 where "DNSTypeTXT \<equiv> 16"
abbreviation (input) DNSTypeAAAA :: u16 where "DNSTypeAAAA \<equiv> 28"
abbreviation (input) DNSTypeSRV :: u16 where "DNSTypeSRV \<equiv> 33"
abbreviation (input) DNSTypeOPT :: u16 where "DNSTypeOPT \<equiv> 41"
abbreviation (input) DNSTypeURI :: u16 where "DNSTypeURI \<equiv> 256"

text \<open>Go on with the value of a call that may return an error.\<close>

definition on_ok :: "(goerr + 'a) option \<Rightarrow> ('a \<Rightarrow> (goerr + 'b) option) \<Rightarrow> (goerr + 'b) option" where
  "on_ok r k = (case r of None \<Rightarrow> None | Some (Inl e) \<Rightarrow> Some (Inl e) | Some (Inr x) \<Rightarrow> k x)"

subsection \<open>Names\<close>

definition maxRecursionLevel :: nat where "maxRecursionLevel = 255"

text \<open>The checks at the start of \<^verbatim>\<open>decodeName\<close>.\<close>

definition name_error :: "bytes \<Rightarrow> nat \<Rightarrow> nat \<Rightarrow> goerr option" where
  "name_error data offset level =
     (if level > maxRecursionLevel then Some (Errorf ''max DNS recursion level hit'' [])
      else if offset \<ge> length data then Some (Errorf ''dns name offset too high'' [])
      else None)"

text \<open>The loop of \<^verbatim>\<open>decodeName\<close> from an index on, for the name at an offset: the bytes it appends to the buffer, a dot before each
  label, and the index behind the name. A pointer is a call of \<^verbatim>\<open>decodeName\<close> at the next level.\<close>

function name_loop :: "bytes \<Rightarrow> nat \<Rightarrow> nat \<Rightarrow> nat \<Rightarrow> (goerr + bytes \<times> nat) option" where
  "name_loop data offset index level =
     (if length data \<le> index then None
      else if data ! index = 0 then Some (Inr ([], index + 1))
      else if data ! index AND 0xc0 = 0xc0
      then if index + 2 > length data then Some (Inl (Errorf ''dns offset pointer too high'' []))
           else let offsetp = unat (mk16 (data ! index) (data ! (index + 1)) AND 0x3fff)
                in if offsetp > length data then Some (Inl (Errorf ''dns offset pointer too high'' []))
                   else (case name_error data offsetp (level + 1) of
                           Some e \<Rightarrow> Some (Inl e)
                         | None \<Rightarrow> (case name_loop data offsetp offsetp (level + 1) of
                               None \<Rightarrow> None
                             | Some (Inl e) \<Rightarrow> Some (Inl e)
                             | Some (Inr (bs, _)) \<Rightarrow> Some (Inr (bs, index + 2))))
      else if data ! index AND 0xc0 = 0x40
      then Some (Inl (Errorf ''qname '0x40' - RFC 2673 unsupported yet (data=%x index=%d)'' [uint (data ! index), int index]))
      else if data ! index AND 0xc0 = 0x80
      then Some (Inl (Errorf ''qname '0x80' unsupported yet (data=%x index=%d)'' [uint (data ! index), int index]))
      else let index2 = index + unat (data ! index) + 1
           in if index2 - offset > 255 then Some (Inl (Errorf ''dns name is too long'' []))
              else if index2 > length data then Some (Inl (Errorf ''dns name uncomputable: invalid index'' []))
              else if index2 \<ge> length data then Some (Inl (Errorf ''dns index walked out of range'' []))
              else (case name_loop data offset index2 level of
                      None \<Rightarrow> None
                    | Some (Inl e) \<Rightarrow> Some (Inl e)
                    | Some (Inr (bs, end)) \<Rightarrow> Some (Inr (46 # take (unat (data ! index)) (drop (index + 1) data) @ bs, end))))"
  by pat_completeness auto
termination
  by (relation "measures [\<lambda>(data, offset, index, level). maxRecursionLevel + 1 - level, \<lambda>(data, offset, index, level). length data - index]")
    (auto simp: name_error_def split: if_splits)

declare name_loop.simps [simp del]

definition decodeName :: "bytes \<Rightarrow> nat \<Rightarrow> nat \<Rightarrow> (goerr + bytes \<times> nat) option" where
  "decodeName data offset level =
     (case name_error data offset level of
        Some e \<Rightarrow> Some (Inl e)
      | None \<Rightarrow> on_ok (name_loop data offset offset level) (\<lambda>(bs, end). Some (Inr (drop 1 bs, end))))"

fun encode_loop :: "bytes \<Rightarrow> nat \<Rightarrow> nat \<Rightarrow> bytes \<Rightarrow> nat \<Rightarrow> (bytes \<times> nat) option" where
  "encode_loop [] i l data offset = Some (data, l)"
| "encode_loop (c # cs) i l data offset =
     (if c = 46
      then do { d1 \<leftarrow> write_at data (offset + i - l) [of_nat l]; encode_loop cs (i + 1) 0 d1 offset }
      else do { d1 \<leftarrow> write_at data (offset + i + 1) [c]; encode_loop cs (i + 1) (l + 1) d1 offset })"

text \<open>The slice after the call and the offset behind the name.\<close>

definition encodeName :: "bytes \<Rightarrow> bytes \<Rightarrow> nat \<Rightarrow> (bytes \<times> nat) option" where
  "encodeName name data offset = do {
     (d1, l) \<leftarrow> encode_loop name 0 0 data offset;
     if name = [] then do { d2 \<leftarrow> write_at d1 offset [0]; Some (d2, offset + 1) }
     else do { d2 \<leftarrow> write_at d1 (offset + length name - l) [of_nat l];
               d3 \<leftarrow> write_at d2 (offset + length name + 1) [0];
               Some (d3, offset + length name + 2) } }"

subsection \<open>Decoding\<close>

definition q_decode :: "bytes \<Rightarrow> nat \<Rightarrow> (goerr + DNSQuestion \<times> nat) option" where
  "q_decode data offset = on_ok (decodeName data offset 1) (\<lambda>(name, endq).
     if length data < endq + 4 then Some (Inl (Errorf ''DNS question too small'' []))
     else do {
       t \<leftarrow> u16_at data endq; c \<leftarrow> u16_at data (endq + 2);
       Some (Inr (\<lparr>q_Name = name, q_Type = t, q_Class = c\<rparr>, endq + 4)) })"

function char_strings :: "bytes \<Rightarrow> nat \<Rightarrow> (goerr + bytes list) option" where
  "char_strings data index =
     (if index = length data then Some (Inr [])
      else if index > length data then None
      else let index2 = index + 1 + unat (data ! index)
           in if index2 > length data then Some (Inl (Errorf ''Insufficient data for a <character-string>'' []))
              else (case char_strings data index2 of
                      None \<Rightarrow> None
                    | Some (Inl e) \<Rightarrow> Some (Inl e)
                    | Some (Inr ss) \<Rightarrow> Some (Inr (take (unat (data ! index)) (drop (index + 1) data) # ss))))"
  by pat_completeness auto
termination
  by (relation "measure (\<lambda>(data, index). length data - index)") auto

declare char_strings.simps [simp del]

definition decodeCharacterStrings :: "bytes \<Rightarrow> (goerr + bytes list) option" where
  "decodeCharacterStrings data = char_strings data 0"

function opts_loop :: "bytes \<Rightarrow> nat \<Rightarrow> (goerr + DNSOPT list) option" where
  "opts_loop data i =
     (if i \<ge> length data then Some (Inr [])
      else if length data < i + 4 then Some (Inl (Errorf ''Malformed DNSOPT record.  Length %d < %d'' [int (length data), int (i + 4)]))
      else let code = mk16 (data ! i) (data ! (i + 1)); l = mk16 (data ! (i + 2)) (data ! (i + 3))
           in if i + 4 + unat l > length data
              then Some (Inl (Errorf ''Malformed DNSOPT record. The length (%d) field implies a packet larger than the one received'' [uint l]))
              else (case opts_loop data (i + (unat l + 4)) of
                      None \<Rightarrow> None
                    | Some (Inl e) \<Rightarrow> Some (Inl e)
                    | Some (Inr os) \<Rightarrow> Some (Inr (\<lparr>dopt_Code = code, dopt_Data = take (unat l) (drop (i + 4) data)\<rparr> # os))))"
  by pat_completeness auto
termination
  by (relation "measure (\<lambda>(data, i). length data - i)") auto

declare opts_loop.simps [simp del]

definition decodeOPTs :: "bytes \<Rightarrow> nat \<Rightarrow> (goerr + DNSOPT list) option" where
  "decodeOPTs data offset =
     (if offset = length data then Some (Inr [])
      else if offset + 4 > length data
      then Some (Inl (Errorf ''DNSOPT record is of length %d, it should be at least length 4'' [int (length data) - int offset]))
      else opts_loop data offset)"

definition decode_SOA :: "bytes \<Rightarrow> nat \<Rightarrow> (goerr + DNSSOA) option" where
  "decode_SOA data offset = on_ok (decodeName data offset 1) (\<lambda>(mname, endq).
     on_ok (decodeName data endq 1) (\<lambda>(rname, endq).
       if length data < endq + 20 then Some (Inl (Errorf ''SOA too small'' []))
       else do {
         s \<leftarrow> u32_at data endq; f \<leftarrow> u32_at data (endq + 4); r \<leftarrow> u32_at data (endq + 8);
         e \<leftarrow> u32_at data (endq + 12); m \<leftarrow> u32_at data (endq + 16);
         Some (Inr \<lparr>soa_MName = mname, soa_RName = rname, soa_Serial = s, soa_Refresh = f, soa_Retry = r, soa_Expire = e, soa_Minimum = m\<rparr>) }))"

definition decodeRData :: "DNSResourceRecord \<Rightarrow> bytes \<Rightarrow> nat \<Rightarrow> (goerr + DNSResourceRecord) option" where
  "decodeRData rr data offset =
     (if rr_Type rr = DNSTypeA \<or> rr_Type rr = DNSTypeAAAA then Some (Inr (rr\<lparr>rr_IP := rr_Data rr\<rparr>))
      else if rr_Type rr = DNSTypeTXT \<or> rr_Type rr = DNSTypeHINFO
      then on_ok (decodeCharacterStrings (rr_Data rr)) (\<lambda>txts. Some (Inr (rr\<lparr>rr_TXT := rr_Data rr, rr_TXTs := txts\<rparr>)))
      else if rr_Type rr = DNSTypeNS then on_ok (decodeName data offset 1) (\<lambda>(name, _). Some (Inr (rr\<lparr>rr_NS := name\<rparr>)))
      else if rr_Type rr = DNSTypeCNAME then on_ok (decodeName data offset 1) (\<lambda>(name, _). Some (Inr (rr\<lparr>rr_CNAME := name\<rparr>)))
      else if rr_Type rr = DNSTypePTR then on_ok (decodeName data offset 1) (\<lambda>(name, _). Some (Inr (rr\<lparr>rr_PTR := name\<rparr>)))
      else if rr_Type rr = DNSTypeSOA then on_ok (decode_SOA data offset) (\<lambda>soa. Some (Inr (rr\<lparr>rr_SOA := soa\<rparr>)))
      else if rr_Type rr = DNSTypeMX
      then if length data < offset + 2 then Some (Inl (Errorf ''MX too small'' []))
           else do { p \<leftarrow> u16_at data offset;
                     on_ok (decodeName data (offset + 2) 1) (\<lambda>(name, _). Some (Inr (rr\<lparr>rr_MX := \<lparr>mx_Preference = p, mx_Name = name\<rparr>\<rparr>))) }
      else if rr_Type rr = DNSTypeURI
      then if length (rr_Data rr) < 4 then Some (Inl (Errorf ''URI too small'' []))
           else do { p \<leftarrow> u16_at data offset; w \<leftarrow> u16_at data (offset + 2); t \<leftarrow> slice (rr_Data rr) 4 (length (rr_Data rr));
                     Some (Inr (rr\<lparr>rr_URI := \<lparr>uri_Priority = p, uri_Weight = w, uri_Target = t\<rparr>\<rparr>)) }
      else if rr_Type rr = DNSTypeSRV
      then if length data < offset + 6 then Some (Inl (Errorf ''SRV too small'' []))
           else do { p \<leftarrow> u16_at data offset; w \<leftarrow> u16_at data (offset + 2); q \<leftarrow> u16_at data (offset + 4);
                     on_ok (decodeName data (offset + 6) 1)
                       (\<lambda>(name, _). Some (Inr (rr\<lparr>rr_SRV := \<lparr>srv_Priority = p, srv_Weight = w, srv_Port = q, srv_Name = name\<rparr>\<rparr>))) }
      else if rr_Type rr = DNSTypeOPT then on_ok (decodeOPTs data offset) (\<lambda>os. Some (Inr (rr\<lparr>rr_OPT := os\<rparr>)))
      else Some (Inr rr))"

definition rr_decode :: "bytes \<Rightarrow> nat \<Rightarrow> (goerr + DNSResourceRecord \<times> nat) option" where
  "rr_decode data offset = on_ok (decodeName data offset 1) (\<lambda>(name, endq).
     if length data < endq + 10 then Some (Inl (Errorf ''DNS record too small'' []))
     else do {
       t \<leftarrow> u16_at data endq; c \<leftarrow> u16_at data (endq + 2); ttl \<leftarrow> u32_at data (endq + 4); l \<leftarrow> u16_at data (endq + 8);
       let end' = endq + 10 + unat l;
       if end' > length data then Some (Inl (Errorf ''resource record length exceeds data'' []))
       else do {
         rdata \<leftarrow> slice data (endq + 10) end';
         let rr = zero_RR\<lparr>rr_Name := name, rr_Type := t, rr_Class := c, rr_TTL := ttl, rr_DataLength := l, rr_Data := rdata\<rparr>;
         on_ok (if l > 0 then do { d \<leftarrow> slice data 0 end'; decodeRData rr d (endq + 10) } else Some (Inr rr))
           (\<lambda>rr1. Some (Inr (rr1, end'))) } })"

text \<open>The loops of \<^verbatim>\<open>DecodeFromBytes\<close>: the elements decoded, the offset behind them and the error that ended the loop.\<close>

fun decode_items :: "(bytes \<Rightarrow> nat \<Rightarrow> (goerr + 'a \<times> nat) option) \<Rightarrow> nat \<Rightarrow> bytes \<Rightarrow> nat \<Rightarrow> ('a list \<times> nat \<times> goerr option) option" where
  "decode_items f 0 data offset = Some ([], offset, None)"
| "decode_items f (Suc n) data offset = (case f data offset of
       None \<Rightarrow> None
     | Some (Inl e) \<Rightarrow> Some ([], 0, Some e)
     | Some (Inr (x, offset1)) \<Rightarrow> (case decode_items f n data offset1 of
           None \<Rightarrow> None
         | Some (xs, offset2, err) \<Rightarrow> Some (x # xs, offset2, err)))"

definition extended_rcode :: "u8 \<Rightarrow> DNSResourceRecord \<Rightarrow> u8" where
  "extended_rcode rc rr = (if rr_Type rr = DNSTypeOPT then rc OR ucast (drop_bit 20 (rr_TTL rr) AND 0xF0) else rc)"

definition count_error :: "DNS \<Rightarrow> goerr option" where
  "count_error d =
     (if of_nat (length (dns_Questions d)) \<noteq> dns_QDCount d then Some (Errorf ''Invalid query decoding, not the right number of questions'' [])
      else if of_nat (length (dns_Answers d)) \<noteq> dns_ANCount d then Some (Errorf ''Invalid query decoding, not the right number of answers'' [])
      else if of_nat (length (dns_Authorities d)) \<noteq> dns_NSCount d then Some (Errorf ''Invalid query decoding, not the right number of authorities'' [])
      else if of_nat (length (dns_Additionals d)) \<noteq> dns_ARCount d
      then Some (Errorf ''Invalid query decoding, not the right number of additionals info'' []) else None)"

definition DNS_header :: "DNS \<Rightarrow> bytes \<Rightarrow> DNS option" where
  "DNS_header d data = do {
     i \<leftarrow> u16_at data 0; b2 \<leftarrow> idx data 2; b3 \<leftarrow> idx data 3;
     qd \<leftarrow> u16_at data 4; an \<leftarrow> u16_at data 6; ns \<leftarrow> u16_at data 8; ar \<leftarrow> u16_at data 10;
     Some (d\<lparr>Contents := data, Payload := [], dns_ID := i, dns_QR := (b2 AND 0x80 \<noteq> 0), dns_OpCode := drop_bit 3 b2 AND 0x0F,
             dns_AA := (b2 AND 0x04 \<noteq> 0), dns_TC := (b2 AND 0x02 \<noteq> 0), dns_RD := (b2 AND 0x01 \<noteq> 0),
             dns_RA := (b3 AND 0x80 \<noteq> 0), dns_Z := drop_bit 4 b3 AND 0x7, dns_ResponseCode := b3 AND 0xF,
             dns_QDCount := qd, dns_ANCount := an, dns_NSCount := ns, dns_ARCount := ar,
             dns_Questions := [], dns_Answers := [], dns_Authorities := [], dns_Additionals := []\<rparr>) }"

definition DNS_DecodeFromBytes :: "DNS \<Rightarrow> bytes \<Rightarrow> bool \<Rightarrow> DNS decoded" where
  "DNS_DecodeFromBytes d data df =
     (if length data < 12 then Some (d, True, Some (Errorf ''DNS packet too short'' []))
      else do {
        d1 \<leftarrow> DNS_header d data;
        (qs, o1, e1) \<leftarrow> decode_items q_decode (unat (dns_QDCount d1)) data 12;
        let d2 = d1\<lparr>dns_Questions := qs\<rparr>;
        if e1 \<noteq> None then Some (d2, df, e1)
        else do {
          (as, o2, e2) \<leftarrow> decode_items rr_decode (unat (dns_ANCount d1)) data o1;
          let d3 = d2\<lparr>dns_Answers := as\<rparr>;
          if e2 \<noteq> None then Some (d3, df, e2)
          else do {
            (ns, o3, e3) \<leftarrow> decode_items rr_decode (unat (dns_NSCount d1)) data o2;
            let d4 = d3\<lparr>dns_Authorities := ns\<rparr>;
            if e3 \<noteq> None then Some (d4, df, e3)
            else do {
              (ars, o4, e4) \<leftarrow> decode_items rr_decode (unat (dns_ARCount d1)) data o3;
              let d5 = d4\<lparr>dns_Additionals := ars, dns_ResponseCode := foldl extended_rcode (dns_ResponseCode d4) ars\<rparr>;
              Some (d5, df, if e4 \<noteq> None then e4 else count_error d5) } } } })"

subsection \<open>Serializing\<close>

definition recSize :: "DNSResourceRecord \<Rightarrow> nat" where
  "recSize rr =
     (if rr_Type rr = DNSTypeA then 4
      else if rr_Type rr = DNSTypeAAAA then 16
      else if rr_Type rr = DNSTypeNS then length (rr_NS rr) + 2
      else if rr_Type rr = DNSTypeCNAME then length (rr_CNAME rr) + 2
      else if rr_Type rr = DNSTypePTR then length (rr_PTR rr) + 2
      else if rr_Type rr = DNSTypeSOA then length (soa_MName (rr_SOA rr)) + 2 + length (soa_RName (rr_SOA rr)) + 2 + 20
      else if rr_Type rr = DNSTypeMX then 2 + length (mx_Name (rr_MX rr)) + 2
      else if rr_Type rr = DNSTypeTXT then length (rr_TXTs rr) + sum_list (map length (rr_TXTs rr))
      else if rr_Type rr = DNSTypeSRV then 6 + length (srv_Name (rr_SRV rr)) + 2
      else if rr_Type rr = DNSTypeURI then 4 + length (uri_Target (rr_URI rr))
      else if rr_Type rr = DNSTypeOPT then length (rr_OPT rr) * 4 + sum_list (map (length \<circ> dopt_Data) (rr_OPT rr))
      else 0)"

definition computeSize :: "DNSResourceRecord list \<Rightarrow> nat" where
  "computeSize recs = sum_list (map (\<lambda>rr. length (rr_Name rr) + (if rr_Name rr = [] then 11 else 12) + recSize rr) recs)"

definition q_encode :: "DNSQuestion \<Rightarrow> bytes \<Rightarrow> nat \<Rightarrow> (bytes \<times> nat) option" where
  "q_encode q data offset = do {
     (d1, noff) \<leftarrow> encodeName (q_Name q) data offset;
     d2 \<leftarrow> write_at d1 noff (be16 (q_Type q));
     d3 \<leftarrow> write_at d2 (noff + 2) (be16 (q_Class q));
     Some (d3, noff - offset + 4) }"

fun encode_txts :: "bytes list \<Rightarrow> bytes \<Rightarrow> nat \<Rightarrow> bytes option" where
  "encode_txts [] data noff2 = Some data"
| "encode_txts (txt # txts) data noff2 = do {
     d1 \<leftarrow> write_at data noff2 [of_nat (length txt)];
     d2 \<leftarrow> copy_at d1 (noff2 + 1) txt;
     encode_txts txts d2 (noff2 + 1 + length txt) }"

fun encode_opts :: "DNSOPT list \<Rightarrow> bytes \<Rightarrow> nat \<Rightarrow> bytes option" where
  "encode_opts [] data noff2 = Some data"
| "encode_opts (opt # opts) data noff2 = do {
     d1 \<leftarrow> write_at data noff2 (be16 (dopt_Code opt));
     d2 \<leftarrow> write_at d1 (noff2 + 2) (be16 (of_nat (length (dopt_Data opt))));
     d3 \<leftarrow> copy_at d2 (noff2 + 4) (dopt_Data opt);
     encode_opts opts d3 (noff2 + 4 + length (dopt_Data opt)) }"

definition encode_SOA :: "DNSSOA \<Rightarrow> bytes \<Rightarrow> nat \<Rightarrow> bytes option" where
  "encode_SOA s data off = do {
     (d1, o1) \<leftarrow> encodeName (soa_MName s) data off;
     (d2, o2) \<leftarrow> encodeName (soa_RName s) d1 o1;
     d3 \<leftarrow> write_at d2 o2 (be32 (soa_Serial s));
     d4 \<leftarrow> write_at d3 (o2 + 4) (be32 (soa_Refresh s));
     d5 \<leftarrow> write_at d4 (o2 + 8) (be32 (soa_Retry s));
     d6 \<leftarrow> write_at d5 (o2 + 12) (be32 (soa_Expire s));
     write_at d6 (o2 + 16) (be32 (soa_Minimum s)) }"

text \<open>The \<^verbatim>\<open>switch\<close> of \<^verbatim>\<open>encode\<close>: the data of the record, from an offset on.\<close>

definition encodeRData :: "DNSResourceRecord \<Rightarrow> bytes \<Rightarrow> nat \<Rightarrow> (goerr + bytes) option" where
  "encodeRData rr data off =
     (if rr_Type rr = DNSTypeA then do { d \<leftarrow> copy_at data off (case To4 (rr_IP rr) of Some ip \<Rightarrow> ip | None \<Rightarrow> []); Some (Inr d) }
      else if rr_Type rr = DNSTypeAAAA then do { d \<leftarrow> copy_at data off (rr_IP rr); Some (Inr d) }
      else if rr_Type rr = DNSTypeNS then do { (d, _) \<leftarrow> encodeName (rr_NS rr) data off; Some (Inr d) }
      else if rr_Type rr = DNSTypeCNAME then do { (d, _) \<leftarrow> encodeName (rr_CNAME rr) data off; Some (Inr d) }
      else if rr_Type rr = DNSTypePTR then do { (d, _) \<leftarrow> encodeName (rr_PTR rr) data off; Some (Inr d) }
      else if rr_Type rr = DNSTypeSOA
      then do { d \<leftarrow> encode_SOA (rr_SOA rr) data off; Some (Inr d) }
      else if rr_Type rr = DNSTypeMX
      then do { d1 \<leftarrow> write_at data off (be16 (mx_Preference (rr_MX rr)));
                (d2, _) \<leftarrow> encodeName (mx_Name (rr_MX rr)) d1 (off + 2); Some (Inr d2) }
      else if rr_Type rr = DNSTypeTXT then do { d \<leftarrow> encode_txts (rr_TXTs rr) data off; Some (Inr d) }
      else if rr_Type rr = DNSTypeSRV
      then do { d1 \<leftarrow> write_at data off (be16 (srv_Priority (rr_SRV rr)));
                d2 \<leftarrow> write_at d1 (off + 2) (be16 (srv_Weight (rr_SRV rr)));
                d3 \<leftarrow> write_at d2 (off + 4) (be16 (srv_Port (rr_SRV rr)));
                (d4, _) \<leftarrow> encodeName (srv_Name (rr_SRV rr)) d3 (off + 6); Some (Inr d4) }
      else if rr_Type rr = DNSTypeURI
      then do { d1 \<leftarrow> write_at data off (be16 (uri_Priority (rr_URI rr)));
                d2 \<leftarrow> write_at d1 (off + 2) (be16 (uri_Weight (rr_URI rr)));
                d3 \<leftarrow> copy_at d2 (off + 4) (uri_Target (rr_URI rr)); Some (Inr d3) }
      else if rr_Type rr = DNSTypeOPT then do { d \<leftarrow> encode_opts (rr_OPT rr) data off; Some (Inr d) }
      else Some (Inl (Errorf ''serializing resource record of type %v not supported'' [uint (rr_Type rr)])))"

text \<open>The slice after the call, and the error or the length of the record with the record itself.\<close>

definition rr_encode ::
  "SerializeOptions \<Rightarrow> DNSResourceRecord \<Rightarrow> bytes \<Rightarrow> nat \<Rightarrow> (bytes \<times> (goerr + nat \<times> DNSResourceRecord)) option" where
  "rr_encode opts rr data offset = do {
     (d1, noff) \<leftarrow> encodeName (rr_Name rr) data offset;
     d2 \<leftarrow> write_at d1 noff (be16 (rr_Type rr));
     d3 \<leftarrow> write_at d2 (noff + 2) (be16 (rr_Class rr));
     d4 \<leftarrow> write_at d3 (noff + 4) (be32 (rr_TTL rr));
     r \<leftarrow> encodeRData rr d4 (noff + 10);
     case r of
       Inl e \<Rightarrow> Some (d4, Inl e)
     | Inr d5 \<Rightarrow> do {
         d6 \<leftarrow> write_at d5 (noff + 8) (be16 (of_nat (recSize rr)));
         Some (d6, Inr (noff - offset + 10 + recSize rr, if FixLengths opts then rr\<lparr>rr_DataLength := of_nat (recSize rr)\<rparr> else rr)) } }"

fun encode_questions :: "DNSQuestion list \<Rightarrow> bytes \<Rightarrow> nat \<Rightarrow> (bytes \<times> nat) option" where
  "encode_questions [] data off = Some (data, off)"
| "encode_questions (q # qs) data off = do { (d1, n) \<leftarrow> q_encode q data off; encode_questions qs d1 (off + n) }"

text \<open>The records after the loop, those behind an error unchanged.\<close>

fun encode_rrs :: "SerializeOptions \<Rightarrow> DNSResourceRecord list \<Rightarrow> bytes \<Rightarrow> nat \<Rightarrow> (bytes \<times> DNSResourceRecord list \<times> (goerr + nat)) option" where
  "encode_rrs opts [] data off = Some (data, [], Inr off)"
| "encode_rrs opts (rr # rrs) data off = do {
     (d1, r) \<leftarrow> rr_encode opts rr data off;
     case r of
       Inl e \<Rightarrow> Some (d1, rr # rrs, Inl e)
     | Inr (n, rr1) \<Rightarrow> do { (d2, rrs1, r2) \<leftarrow> encode_rrs opts rrs d1 (off + n); Some (d2, rr1 # rrs1, r2) } }"

definition b2i :: "bool \<Rightarrow> int" where "b2i b = (if b then 1 else 0)"

definition DNS_flags :: "DNS \<Rightarrow> bytes" where
  "DNS_flags d =
     [of_int (push_bit 7 (b2i (dns_QR d)) OR push_bit 3 (uint (dns_OpCode d)) OR push_bit 2 (b2i (dns_AA d)) OR push_bit 1 (b2i (dns_TC d)) OR b2i (dns_RD d)),
      of_int (push_bit 7 (b2i (dns_RA d)) OR push_bit 4 (uint (dns_Z d)) OR uint (dns_ResponseCode d))]"

text \<open>The fixed part; the counts are those of the message after they were fixed.\<close>

definition DNS_write_header :: "DNS \<Rightarrow> DNS \<Rightarrow> bytes \<Rightarrow> bytes option" where
  "DNS_write_header d d1 w = do {
     w1 \<leftarrow> write_at w 0 (be16 (dns_ID d));
     w2 \<leftarrow> write_at w1 2 (DNS_flags d);
     w3 \<leftarrow> write_at w2 4 (be16 (dns_QDCount d1)); w4 \<leftarrow> write_at w3 6 (be16 (dns_ANCount d1));
     w5 \<leftarrow> write_at w4 8 (be16 (dns_NSCount d1)); write_at w5 10 (be16 (dns_ARCount d1)) }"

definition DNS_write :: "SerializeOptions \<Rightarrow> DNS \<Rightarrow> bytes \<Rightarrow> (bytes \<times> DNS \<times> goerr option) option" where
  "DNS_write opts d w = do {
     let d1 = (if FixLengths opts
               then d\<lparr>dns_QDCount := of_nat (length (dns_Questions d)), dns_ANCount := of_nat (length (dns_Answers d)),
                      dns_NSCount := of_nat (length (dns_Authorities d)), dns_ARCount := of_nat (length (dns_Additionals d))\<rparr>
               else d);
     w6 \<leftarrow> DNS_write_header d d1 w;
     (w7, o1) \<leftarrow> encode_questions (dns_Questions d1) w6 12;
     (w8, an, r2) \<leftarrow> encode_rrs opts (dns_Answers d1) w7 o1;
     let d2 = d1\<lparr>dns_Answers := an\<rparr>;
     case r2 of
       Inl e \<Rightarrow> Some (w8, d2, Some e)
     | Inr o2 \<Rightarrow> do {
         (w9, ns, r3) \<leftarrow> encode_rrs opts (dns_Authorities d1) w8 o2;
         let d3 = d2\<lparr>dns_Authorities := ns\<rparr>;
         case r3 of
           Inl e \<Rightarrow> Some (w9, d3, Some e)
         | Inr o3 \<Rightarrow> do {
             (w10, ar, r4) \<leftarrow> encode_rrs opts (dns_Additionals d1) w9 o3;
             Some (w10, d3\<lparr>dns_Additionals := ar\<rparr>, case r4 of Inl e \<Rightarrow> Some e | Inr _ \<Rightarrow> None) } } }"

definition DNS_size :: "DNS \<Rightarrow> nat" where
  "DNS_size d = sum_list (map (\<lambda>q. length (q_Name q) + 6) (dns_Questions d)) + computeSize (dns_Answers d) + computeSize (dns_Authorities d) + computeSize (dns_Additionals d)"

definition DNS_SerializeTo :: "DNS \<Rightarrow> serializeBuffer \<Rightarrow> SerializeOptions \<Rightarrow> DNS serialized" where
  "DNS_SerializeTo d b opts = do {
     b1 \<leftarrow> PrependBytes b (int (12 + DNS_size d));
     (w, d1, err) \<leftarrow> DNS_write opts d (take (12 + DNS_size d) (Bytes b1));
     Some (d1, store_front b1 w, err) }"

abbreviation (input) LayerTypeDNS :: LayerType where "LayerTypeDNS \<equiv> 107"

abbreviation dns_layer :: "DNS \<Rightarrow> Layer" where
  "dns_layer d \<equiv> \<lparr>ly_type = LayerTypeDNS, ly_contents = Contents d, ly_payload = []\<rparr>"

definition decodeDNS :: "bytes \<Rightarrow> decode_step" where
  "decodeDNS data =
     (case DNS_DecodeFromBytes zero_DNS data False of
        None \<Rightarrow> ([], Panics)
      | Some (d, t, Some e) \<Rightarrow> (truncation t, Return (Some e))
      | Some (d, t, None) \<Rightarrow> (truncation t @ [AddLayer (dns_layer d), SetApplicationLayer (dns_layer d)], Return None))"

subsection \<open>The decoder returns on every input\<close>

lemma on_ok_returns: "\<lbrakk>r \<noteq> None; \<And>x. r = Some (Inr x) \<Longrightarrow> k x \<noteq> None\<rbrakk> \<Longrightarrow> on_ok r k \<noteq> None"
  by (auto simp: on_ok_def split: option.splits sum.splits)

text \<open>A name that was decoded is behind its offset and inside the data, and not longer than 256 levels of 255 bytes.\<close>

definition name_ok :: "bytes \<Rightarrow> nat \<Rightarrow> (goerr + bytes \<times> nat) option \<Rightarrow> bool" where
  "name_ok data index r \<longleftrightarrow> (case r of None \<Rightarrow> False | Some (Inl _) \<Rightarrow> True | Some (Inr (bs, e)) \<Rightarrow> index < e \<and> e \<le> length data)"

lemma name_loop_ok: "index < length data \<Longrightarrow> name_ok data index (name_loop data offset index level)"
proof (induction data offset index level rule: name_loop.induct)
  case (1 data offset index level)
  let ?b = "data ! index" and ?p = "unat (mk16 (data ! index) (data ! (index + 1)) AND 0x3fff)" and ?i2 = "index + unat (data ! index) + 1"
  consider (stop) "?b = 0 \<or> ?b AND 0xc0 = 0x40 \<or> ?b AND 0xc0 = 0x80" | (ptr) "?b \<noteq> 0" "?b AND 0xc0 = 0xc0"
    | (label) "?b \<noteq> 0" "?b AND 0xc0 \<noteq> 0xc0" "?b AND 0xc0 \<noteq> 0x40" "?b AND 0xc0 \<noteq> 0x80" by blast
  then show ?case
  proof cases
    case stop
    then show ?thesis using 1(3) by (subst name_loop.simps) (auto simp: name_ok_def)
  next
    case ptr
    show ?thesis
    proof (cases "index + 2 \<le> length data \<and> ?p \<le> length data \<and> name_error data ?p (level + 1) = None")
      case True
      then have "?p < length data" by (auto simp: name_error_def split: if_splits)
      with 1(1) [OF _ ptr(1,2) _ refl] True 1(3) have "name_ok data ?p (name_loop data ?p ?p (level + 1))" by auto
      then show ?thesis using ptr True 1(3) by (subst name_loop.simps) (auto simp: Let_def name_ok_def split: option.splits sum.splits)
    next
      case False
      then show ?thesis using ptr 1(3) by (subst name_loop.simps) (auto simp: Let_def name_ok_def split: option.splits)
    qed
  next
    case label
    show ?thesis
    proof (cases "?i2 - offset \<le> 255 \<and> ?i2 < length data")
      case True
      with 1(2) [OF _ label refl] 1(3) have "name_ok data ?i2 (name_loop data offset ?i2 level)" by auto
      then show ?thesis using label True 1(3) by (subst name_loop.simps) (auto simp: Let_def name_ok_def split: option.splits sum.splits)
    next
      case False
      then show ?thesis using label 1(3) by (subst name_loop.simps) (auto simp: Let_def name_ok_def)
    qed
  qed
qed

lemma decodeName_ok: "name_ok data offset (decodeName data offset level)"
proof (cases "name_error data offset level")
  case None
  then have "offset < length data" by (auto simp: name_error_def split: if_splits)
  from name_loop_ok [OF this, of offset level] None show ?thesis
    by (auto simp: decodeName_def on_ok_def name_ok_def split: option.splits sum.splits)
qed (simp add: decodeName_def name_ok_def)


lemma decodeName_cases:
  obtains (error) e where "decodeName data offset level = Some (Inl e)"
  | (name) bs e where "decodeName data offset level = Some (Inr (bs, e))" "offset < e" "e \<le> length data"
  using decodeName_ok [of data offset level] by (auto simp: name_ok_def split: option.splits sum.splits)

lemma on_name_returns:
  assumes "\<And>bs e. \<lbrakk>offset < e; e \<le> length data\<rbrakk> \<Longrightarrow> k (bs, e) \<noteq> None"
  shows "on_ok (decodeName data offset level) k \<noteq> None"
  by (cases rule: decodeName_cases [of data offset level]) (auto simp: on_ok_def assms)

lemma char_strings_returns: "index \<le> length data \<Longrightarrow> char_strings data index \<noteq> None"
proof (induction data index rule: char_strings.induct)
  case (1 data index)
  then show ?case by (subst char_strings.simps) (auto simp: Let_def split: option.splits sum.splits, meson not_le)
qed

lemma opts_loop_returns: "opts_loop data i \<noteq> None"
proof (induction data i rule: opts_loop.induct)
  case (1 data i)
  then show ?case by (subst opts_loop.simps) (auto simp: Let_def split: option.splits sum.splits, meson not_le)
qed

lemma decode_SOA_returns: "decode_SOA data offset \<noteq> None"
  unfolding decode_SOA_def by (rule on_name_returns, unfold split_conv, rule on_name_returns) simp

lemma decodeRData_returns:
  assumes "offset + length (rr_Data rr) \<le> length data"
  shows "decodeRData rr data offset \<noteq> None"
proof -
  have "on_ok (decodeCharacterStrings (rr_Data rr)) (\<lambda>txts. Some (Inr (rr\<lparr>rr_TXT := rr_Data rr, rr_TXTs := txts\<rparr>))) \<noteq> None"
    unfolding decodeCharacterStrings_def by (rule on_ok_returns) (simp_all add: char_strings_returns)
  moreover have "on_ok (decodeOPTs data offset) (\<lambda>os. Some (Inr (rr\<lparr>rr_OPT := os\<rparr>))) \<noteq> None"
    by (rule on_ok_returns) (simp_all add: decodeOPTs_def opts_loop_returns del: not_None_eq)
  moreover have "on_ok (decode_SOA data offset) (\<lambda>soa. Some (Inr (rr\<lparr>rr_SOA := soa\<rparr>))) \<noteq> None"
    by (rule on_ok_returns) (simp_all add: decode_SOA_returns del: not_None_eq)
  moreover have "on_ok (decodeName data i l) (\<lambda>(name, _). Some (Inr (f name))) \<noteq> None" for i l and f :: "bytes \<Rightarrow> DNSResourceRecord"
    by (rule on_name_returns) simp
  ultimately show ?thesis using assms unfolding decodeRData_def by (simp del: not_None_eq)
qed

lemma on_ok_map_returns: "r \<noteq> None \<Longrightarrow> on_ok r (\<lambda>x. Some (Inr (g x))) \<noteq> None"
  by (auto simp: on_ok_def split: option.splits sum.splits)

lemma rr_decode_returns: "rr_decode data offset \<noteq> None"
  unfolding rr_decode_def
proof (rule on_name_returns, unfold split_conv)
  fix bs endq assume e: "endq \<le> length data"
  let ?l = "mk16 (data ! (endq + 8)) (data ! (9 + endq))"
  show "(if length data < endq + 10 then Some (Inl (Errorf ''DNS record too small'' []))
     else do {
       t \<leftarrow> u16_at data endq; c \<leftarrow> u16_at data (endq + 2); ttl \<leftarrow> u32_at data (endq + 4); l \<leftarrow> u16_at data (endq + 8);
       let end' = endq + 10 + unat l;
       if end' > length data then Some (Inl (Errorf ''resource record length exceeds data'' []))
       else do {
         rdata \<leftarrow> slice data (endq + 10) end';
         let rr = zero_RR\<lparr>rr_Name := bs, rr_Type := t, rr_Class := c, rr_TTL := ttl, rr_DataLength := l, rr_Data := rdata\<rparr>;
         on_ok (if l > 0 then do { d \<leftarrow> slice data 0 end'; decodeRData rr d (endq + 10) } else Some (Inr rr))
           (\<lambda>rr1. Some (Inr (rr1, end'))) } }) \<noteq> None"
  proof (cases "length data < endq + 10 \<or> length data < endq + 10 + unat ?l")
    case True
    then show ?thesis by (auto simp: Let_def)
  next
    case False
    then have d: "decodeRData rr (take (endq + 10 + unat ?l) data) (endq + 10) \<noteq> None" if "rr_Data rr = take (unat ?l) (drop (endq + 10) data)" for rr
      using that by (intro decodeRData_returns) simp
    show ?thesis using False by (simp add: Let_def del: not_None_eq) (intro conjI impI on_ok_map_returns d, simp_all add: on_ok_def)
  qed
qed

lemma q_decode_returns: "q_decode data offset \<noteq> None"
  unfolding q_decode_def by (rule on_name_returns) auto

lemma decode_items_returns:
  assumes "\<And>data offset. f data offset \<noteq> None"
  shows "\<exists>xs o' err. decode_items f n data offset = Some (xs, o', err) \<and> length xs \<le> n \<and> (err = None \<longrightarrow> length xs = n)"
proof (induction n arbitrary: offset)
  case (Suc n)
  show ?case
  proof (cases "f data offset")
    case (Some r)
    then show ?thesis
    proof (cases r)
      case (Inr p)
      obtain x o1 where p: "p = (x, o1)" by fastforce
      from Suc.IH [of o1] show ?thesis using Some Inr p by auto
    qed (use Some in auto)
  qed (use assms in auto)
qed simp

text \<open>C31. The DNS decoder returns on every input, whatever names, pointers and lengths it contains: compression pointers cannot make it
  loop and no index is out of range. When it returns no error it decoded as many questions and records as the header
  announces.\<close>

theorem DNS_decoder_total:
  "\<exists>d' df' err. DNS_DecodeFromBytes d data df = Some (d', df', err) \<and>
     (err = None \<longrightarrow> length (dns_Questions d') = unat (dns_QDCount d') \<and> length (dns_Answers d') = unat (dns_ANCount d')
        \<and> length (dns_Authorities d') = unat (dns_NSCount d') \<and> length (dns_Additionals d') = unat (dns_ARCount d') \<and> Contents d' = data)"
proof (cases "length data < 12")
  case False
  then obtain d1 where d1: "DNS_header d data = Some d1" "Contents d1 = data" by (simp add: DNS_header_def)
  obtain qs o1 e1 where q: "decode_items q_decode (unat (dns_QDCount d1)) data 12 = Some (qs, o1, e1)" "e1 = None \<longrightarrow> length qs = unat (dns_QDCount d1)"
    using decode_items_returns [of q_decode, OF q_decode_returns] by metis
  obtain as o2 e2 where a: "decode_items rr_decode (unat (dns_ANCount d1)) data o1 = Some (as, o2, e2)" "e2 = None \<longrightarrow> length as = unat (dns_ANCount d1)"
    using decode_items_returns [of rr_decode, OF rr_decode_returns] by metis
  obtain ns o3 e3 where n: "decode_items rr_decode (unat (dns_NSCount d1)) data o2 = Some (ns, o3, e3)" "e3 = None \<longrightarrow> length ns = unat (dns_NSCount d1)"
    using decode_items_returns [of rr_decode, OF rr_decode_returns] by metis
  obtain ars o4 e4 where r: "decode_items rr_decode (unat (dns_ARCount d1)) data o3 = Some (ars, o4, e4)" "e4 = None \<longrightarrow> length ars = unat (dns_ARCount d1)"
    using decode_items_returns [of rr_decode, OF rr_decode_returns] by metis
  show ?thesis using False d1 q a n r by (cases e1; cases e2; cases e3; cases e4) (simp_all add: DNS_DecodeFromBytes_def Let_def count_error_def)
qed (auto simp: DNS_DecodeFromBytes_def)

text \<open>The theorem at a response whose answer points back to the name of the question.\<close>

theorem DNS_decoder_total_witness:
  "\<exists>d' df'. DNS_DecodeFromBytes zero_DNS [0, 7, 0x81, 0x80, 0, 1, 0, 1, 0, 0, 0, 0, 1, 97, 0, 0, 1, 0, 1, 0xc0, 12, 0, 1, 0, 1, 0, 0, 0, 60, 0, 4, 10, 0, 0, 1] False
       = Some (d', df', None)
     \<and> length (dns_Questions d') = unat (dns_QDCount d') \<and> length (dns_Answers d') = unat (dns_ANCount d') \<and> dns_ANCount d' = 1"
proof -
  let ?m = "[0, 7, 0x81, 0x80, 0, 1, 0, 1, 0, 0, 0, 0, 1, 97, 0, 0, 1, 0, 1, 0xc0, 12, 0, 1, 0, 1, 0, 0, 0, 60, 0, 4, 10, 0, 0, 1] :: bytes"
  have "map_option (\<lambda>(d, _, err). (err, dns_ANCount d)) (DNS_DecodeFromBytes zero_DNS ?m False) = Some (None, 1)" by code_simp
  then show ?thesis using DNS_decoder_total [of zero_DNS ?m False] by auto
qed

subsection \<open>What a decoded record holds\<close>

text \<open>The data of a record is as long as its length field says, and only the fields of its type are set.\<close>

definition rr_typed :: "DNSResourceRecord \<Rightarrow> bool" where
  "rr_typed rr \<longleftrightarrow> length (rr_Data rr) = unat (rr_DataLength rr)
     \<and> rr_IP rr = (if rr_Type rr = DNSTypeA \<or> rr_Type rr = DNSTypeAAAA then rr_Data rr else [])
     \<and> rr_TXT rr = (if rr_Type rr = DNSTypeTXT \<or> rr_Type rr = DNSTypeHINFO then rr_Data rr else [])
     \<and> (rr_Type rr \<noteq> DNSTypeTXT \<and> rr_Type rr \<noteq> DNSTypeHINFO \<longrightarrow> rr_TXTs rr = [])
     \<and> (rr_Type rr \<noteq> DNSTypeNS \<longrightarrow> rr_NS rr = []) \<and> (rr_Type rr \<noteq> DNSTypeCNAME \<longrightarrow> rr_CNAME rr = [])
     \<and> (rr_Type rr \<noteq> DNSTypePTR \<longrightarrow> rr_PTR rr = []) \<and> (rr_Type rr \<noteq> DNSTypeSOA \<longrightarrow> rr_SOA rr = rr_SOA zero_RR)
     \<and> (rr_Type rr \<noteq> DNSTypeMX \<longrightarrow> rr_MX rr = rr_MX zero_RR) \<and> (rr_Type rr \<noteq> DNSTypeSRV \<longrightarrow> rr_SRV rr = rr_SRV zero_RR)
     \<and> (rr_Type rr \<noteq> DNSTypeURI \<longrightarrow> rr_URI rr = rr_URI zero_RR) \<and> (rr_Type rr \<noteq> DNSTypeOPT \<longrightarrow> rr_OPT rr = [])"

text \<open>Every value a call may return has a property. The rules follow the structure of the code.\<close>

definition ok_all :: "('a \<Rightarrow> bool) \<Rightarrow> (goerr + 'a) option \<Rightarrow> bool" where
  "ok_all P r \<longleftrightarrow> (\<forall>x. r = Some (Inr x) \<longrightarrow> P x)"

lemma ok_all_intros:
  "ok_all P (Some (Inl e))"
  "P x \<Longrightarrow> ok_all P (Some (Inr x))"
  "\<lbrakk>c \<Longrightarrow> ok_all P r; \<not> c \<Longrightarrow> ok_all P s\<rbrakk> \<Longrightarrow> ok_all P (if c then r else s)"
  "(\<And>y. m = Some y \<Longrightarrow> ok_all P (f y)) \<Longrightarrow> ok_all P (m \<bind> f)"
  "(\<And>a b. p = (a, b) \<Longrightarrow> ok_all P (g a b)) \<Longrightarrow> ok_all P (case p of (a, b) \<Rightarrow> g a b)"
  by (auto simp: ok_all_def on_ok_def bind_eq_Some_conv split: option.splits sum.splits prod.splits)

lemma ok_all_on_ok: "(\<And>y. s = Some (Inr y) \<Longrightarrow> ok_all P (k y)) \<Longrightarrow> ok_all P (on_ok s k)"
  by (auto simp: ok_all_def on_ok_def split: option.splits sum.splits)

lemma decodeRData_typed:
  assumes "rr = zero_RR\<lparr>rr_Name := n, rr_Type := t, rr_Class := c, rr_TTL := ttl, rr_DataLength := l, rr_Data := d\<rparr>" and "length d = unat l"
  shows "ok_all rr_typed (decodeRData rr data offset)"
  unfolding decodeRData_def
  by (intro ok_all_intros ok_all_on_ok; use assms in \<open>simp add: rr_typed_def zero_RR_def; fail | fastforce simp: rr_typed_def zero_RR_def\<close>)

lemma rr_decode_typed: "ok_all (\<lambda>(rr, _). rr_typed rr) (rr_decode data offset)"
proof -
  have len: "slice data i (i + unat l) = Some d \<Longrightarrow> length d = unat l" for i l d by (auto simp: slice_def split: if_splits)
  have z: "length d = unat l \<Longrightarrow> ok_all rr_typed (Some (Inr (zero_RR\<lparr>rr_Name := n, rr_Type := t, rr_Class := c, rr_TTL := ttl, rr_DataLength := l, rr_Data := d\<rparr>)))"
    if "\<not> 0 < l" for n t c ttl l d using that by (simp add: word_gt_0) (simp add: ok_all_def rr_typed_def zero_RR_def)
  have map: "ok_all P s \<Longrightarrow> ok_all (\<lambda>(x, _). P x) (on_ok s (\<lambda>x. Some (Inr (x, e))))" for P :: "DNSResourceRecord \<Rightarrow> bool" and s and e :: nat
    by (auto simp: ok_all_def on_ok_def split: option.splits sum.splits)
  show ?thesis unfolding rr_decode_def Let_def
    by (rule ok_all_on_ok, intro ok_all_intros(1,3-5) map; (intro z decodeRData_typed [OF refl])?)
      (auto intro: len)
qed

lemma decode_items_all:
  assumes "\<And>offset. ok_all (\<lambda>(x, _). P x) (f data offset)"
  shows "decode_items f n data offset = Some (xs, o', err) \<Longrightarrow> \<forall>x \<in> set xs. P x"
proof (induction n arbitrary: offset xs)
  case (Suc n)
  have P: "P x" if "f data offset = Some (Inr (x, p))" for x p using assms [of offset] that by (auto simp: ok_all_def)
  show ?case
  proof (cases "xs = []")
    case False
    then obtain x p ys where "f data offset = Some (Inr (x, p))" "decode_items f n data p = Some (ys, o', err)" "xs = x # ys"
      using Suc.prems by (auto split: option.splits sum.splits)
    then show ?thesis using P Suc.IH by auto
  qed simp
qed simp

lemma masked_below: "drop_bit 3 w AND 0x0F < (16 :: byte)" "drop_bit 4 w AND 0x7 < (8 :: byte)"
proof -
  have "v AND 0x0F < (16 :: byte)" "v AND 0x7 < (8 :: byte)" for v
    using word_and_le1 [of v "0x0F"] word_and_le1 [of v 7] by (auto intro: le_less_trans)
  then show "drop_bit 3 w AND 0x0F < (16 :: byte)" "drop_bit 4 w AND 0x7 < (8 :: byte)" by blast+
qed

text \<open>C32. What the decoder stores has the types of the protocol, with or without an error: the op code and the Z field fit their bits, and
  every record holds as much data as its length field says, its address and text are its data, and no field of another type of
  record is set.\<close>

theorem DNS_decoded_typed:
  assumes "DNS_DecodeFromBytes d data df = Some (d', df', err)" and "12 \<le> length data"
  shows "dns_OpCode d' < 16 \<and> dns_Z d' < 8 \<and> (\<forall>rr \<in> set (dns_Answers d' @ dns_Authorities d' @ dns_Additionals d'). rr_typed rr)"
proof -
  obtain d1 where d1: "DNS_header d data = Some d1" "dns_OpCode d1 < 16" "dns_Z d1 < 8" "dns_Answers d1 = []" "dns_Authorities d1 = []" "dns_Additionals d1 = []"
    using assms(2) by (simp add: DNS_header_def masked_below)
  have items: "\<exists>xs p err. decode_items rr_decode n data offset = Some (xs, p, err) \<and> (\<forall>x \<in> set xs. rr_typed x)" for n offset
  proof -
    obtain xs p err where "decode_items rr_decode n data offset = Some (xs, p, err)" using decode_items_returns [of rr_decode, OF rr_decode_returns] by metis
    with decode_items_all [OF rr_decode_typed this] show ?thesis by blast
  qed
  obtain qs o1 e1 where q: "decode_items q_decode (unat (dns_QDCount d1)) data 12 = Some (qs, o1, e1)"
    using decode_items_returns [of q_decode, OF q_decode_returns] by metis
  obtain as o2 e2 where a: "decode_items rr_decode (unat (dns_ANCount d1)) data o1 = Some (as, o2, e2)" "\<forall>x \<in> set as. rr_typed x" using items by blast
  obtain ns o3 e3 where n: "decode_items rr_decode (unat (dns_NSCount d1)) data o2 = Some (ns, o3, e3)" "\<forall>x \<in> set ns. rr_typed x" using items by blast
  obtain ars o4 e4 where r: "decode_items rr_decode (unat (dns_ARCount d1)) data o3 = Some (ars, o4, e4)" "\<forall>x \<in> set ars. rr_typed x" using items by blast
  let ?ok = "\<lambda>d. dns_OpCode d < 16 \<and> dns_Z d < 8 \<and> (\<forall>rr \<in> set (dns_Answers d @ dns_Authorities d @ dns_Additionals d). rr_typed rr)"
  have "\<exists>x y z. DNS_DecodeFromBytes d data df = Some (x, y, z) \<and> ?ok x"
    using assms(2) d1 q a n r by (cases e1; cases e2; cases e3; cases e4) (simp_all add: DNS_DecodeFromBytes_def Let_def ball_Un)
  then show ?thesis unfolding assms(1) by (elim exE conjE) (simp only: option.inject prod.inject)
qed

text \<open>The theorem at a response with the address of a host.\<close>

theorem DNS_decoded_typed_witness:
  "\<exists>d'. DNS_DecodeFromBytes zero_DNS [0, 7, 0x81, 0x80, 0, 1, 0, 1, 0, 0, 0, 0, 1, 97, 0, 0, 1, 0, 1, 0xc0, 12, 0, 1, 0, 1, 0, 0, 0, 60, 0, 4, 10, 0, 0, 1] False
       = Some (d', False, None)
     \<and> length (dns_Answers d') = 1 \<and> rr_IP (hd (dns_Answers d')) = [10, 0, 0, 1] \<and> rr_typed (hd (dns_Answers d'))"
proof -
  let ?m = "[0, 7, 0x81, 0x80, 0, 1, 0, 1, 0, 0, 0, 0, 1, 97, 0, 0, 1, 0, 1, 0xc0, 12, 0, 1, 0, 1, 0, 0, 0, 60, 0, 4, 10, 0, 0, 1] :: bytes"
  have "map_option (\<lambda>(d, df, err). (df, err, map rr_IP (dns_Answers d))) (DNS_DecodeFromBytes zero_DNS ?m False) = Some (False, None, [[10, 0, 0, 1]])" by code_simp
  then obtain d' where d': "DNS_DecodeFromBytes zero_DNS ?m False = Some (d', False, None)" "map rr_IP (dns_Answers d') = [[10, 0, 0, 1]]" by auto
  then show ?thesis using DNS_decoded_typed [OF d'(1)] by (cases "dns_Answers d'") auto
qed

end
