(* ===== verification/Layer_DNS_Wire.thy ===== *)
theory Layer_DNS_Wire
  imports Layer_DNS
begin

section \<open>DNS messages on the wire\<close>

text \<open>
  What the bytes of a DNS message are: the form of names, records and messages, that the serializer of \<^verbatim>\<open>layers/dns.go\<close> writes them
  and that the decoder reads them back.
\<close>

subsection \<open>Names survive\<close>

fun split_dots :: "bytes \<Rightarrow> bytes list" where
  "split_dots [] = [[]]"
| "split_dots (c # cs) = (if c = 46 then [] # split_dots cs else (c # hd (split_dots cs)) # tl (split_dots cs))"

definition labels :: "bytes \<Rightarrow> bytes list" where
  "labels name = (if name = [] then [] else split_dots name)"

definition labels_wire :: "bytes list \<Rightarrow> bytes" where
  "labels_wire ls = concat (map (\<lambda>l. of_nat (length l) # l) ls)"

definition name_wire :: "bytes \<Rightarrow> bytes" where
  "name_wire name = labels_wire (labels name) @ [0]"

text \<open>Names of labels of 1 to 63 bytes, without a dot at the end, that are not too long.\<close>

definition wf_name :: "bytes \<Rightarrow> bool" where
  "wf_name name \<longleftrightarrow> (\<forall>l \<in> set (labels name). l \<noteq> [] \<and> length l \<le> 63) \<and> length name \<le> 253"

lemma split_dots_Cons: "\<exists>l ls. split_dots cs = l # ls"
  by (cases cs) auto

lemma labels_wire_simps [simp]: "labels_wire [] = []" "labels_wire (l # ls) = of_nat (length l) # l @ labels_wire ls"
  by (simp_all add: labels_wire_def)

lemma length_split_dots: "length (labels_wire (split_dots cs)) = length cs + 1"
proof (induction cs)
  case (Cons c cs)
  obtain l ls where "split_dots cs = l # ls" using split_dots_Cons by blast
  then show ?case using Cons by auto
qed simp

lemma length_name_wire: "length (name_wire name) = (if name = [] then 1 else length name + 2)"
  by (simp add: name_wire_def labels_def length_split_dots)

lemma dotted_split: "concat (map (Cons 46) (split_dots cs)) = 46 # cs"
proof (induction cs)
  case (Cons c cs)
  obtain l ls where "split_dots cs = l # ls" using split_dots_Cons by blast
  then show ?case using Cons by auto
qed simp

lemma dotted_labels: "drop 1 (concat (map (Cons 46) (labels name))) = name"
  by (simp add: labels_def dotted_split)

lemma encode_loop_wire:
  assumes "offset + i = length A + l" "length p = l" "length junk = length cs + 1"
  shows "(do { (d1, l') \<leftarrow> encode_loop cs i l (A @ x # p @ junk @ rest) offset;
             d2 \<leftarrow> write_at d1 (offset + (i + length cs) - l') [of_nat l'];
             write_at d2 (offset + (i + length cs) + 1) [0] })
    = Some (A @ labels_wire ((p @ hd (split_dots cs)) # tl (split_dots cs)) @ [0] @ rest)"
  using assms
proof (induction cs arbitrary: i l A x p junk)
  case Nil
  then obtain j where j: "junk = [j]" by (cases junk) auto
  have "offset + i - l = length A" "offset + i + 1 = length A + l + 1" using Nil by auto
  then show ?case using Nil(2) j by (simp add: write_at_def)
next
  case (Cons c cs)
  then obtain j junk' where j: "junk = j # junk'" "length junk' = length cs + 1" by (cases junk) auto
  obtain l1 ls where sp: "split_dots cs = l1 # ls" using split_dots_Cons by blast
  show ?case
  proof (cases "c = 46")
    case True
    have "write_at (A @ x # p @ junk @ rest) (offset + i - l) [of_nat l] = Some ((A @ of_nat l # p) @ j # [] @ junk' @ rest)"
      using Cons.prems(1) j by (simp add: write_at_def)
    moreover have "offset + (i + 1) = length (A @ of_nat l # p) + 0" using Cons.prems by simp
    ultimately show ?thesis using Cons.IH [of "i + 1" "A @ of_nat l # p" 0 "[]" junk' j] True j Cons.prems(2) sp by (simp add: add.assoc)
  next
    case False
    have "write_at (A @ x # p @ junk @ rest) (offset + i + 1) [c] = Some (A @ x # (p @ [c]) @ junk' @ rest)"
      using Cons.prems(1,2) j by (simp add: write_at_def)
    then show ?thesis using Cons.IH [of "i + 1" A "l + 1" "p @ [c]" junk' x] False j Cons.prems sp by (simp add: add.assoc)
  qed
qed

lemma encodeName_wire:
  assumes "length junk = length (name_wire name)"
  shows "encodeName name (pre @ junk @ rest) (length pre) = Some (pre @ name_wire name @ rest, length pre + length (name_wire name))"
proof (cases "name = []")
  case True
  then obtain j where "junk = [j]" using assms by (cases junk) (auto simp: name_wire_def labels_def)
  then show ?thesis using True by (simp add: encodeName_def name_wire_def labels_def write_at_def)
next
  case False
  have "length junk = length name + 2" using assms False length_name_wire by simp
  then obtain x junk' where j: "junk = x # junk'" "length junk' = length name + 1" by (cases junk) auto
  obtain l1 ls where sp: "split_dots name = l1 # ls" using split_dots_Cons by blast
  have "length name = length l1 + length (labels_wire ls)" using length_split_dots [of name] sp by simp
  with encode_loop_wire [of "length pre" 0 pre 0 "[]" junk' name x rest] j sp False show ?thesis
    by (auto simp: encodeName_def name_wire_def labels_def length_split_dots split: bind_splits)
qed

lemma small_label:
  assumes "n \<le> 63"
  shows "(of_nat n :: byte) AND 0xc0 = 0" "unat (of_nat n :: byte) = n"
proof -
  show u: "unat (of_nat n :: byte) = n" using assms by (simp add: unat_of_nat_byte)
  have high: "\<not> bit (of_nat n :: byte) k" if "6 \<le> k" for k using assms u that by (intro not_bit_small [of _ 6]) auto
  have low: "\<not> bit (0xc0 :: byte) k" if "k < 6" for k
  proof -
    have "k = 0 \<or> k = 1 \<or> k = 2 \<or> k = 3 \<or> k = 4 \<or> k = 5" using that by arith
    then show ?thesis by auto
  qed
  show "(of_nat n :: byte) AND 0xc0 = 0"
  proof (rule bit_word_eqI)
    fix k assume "k < LENGTH(8)"
    show "bit ((of_nat n :: byte) AND 0xc0) k = bit (0 :: byte) k" using high low by (cases "k < 6") (auto simp: bit_and_iff)
  qed
qed

lemma name_loop_wire:
  assumes "\<forall>l \<in> set ls. l \<noteq> [] \<and> length l \<le> 63" "offset \<le> length pre" "length pre + length (labels_wire ls) - offset \<le> 255"
  shows "name_loop (pre @ labels_wire ls @ 0 # rest) offset (length pre) level =
    Some (Inr (concat (map (Cons 46) ls), length pre + length (labels_wire ls) + 1))"
  using assms
proof (induction ls arbitrary: pre)
  case Nil
  then show ?case by (subst name_loop.simps) simp
next
  case (Cons l ls)
  have l: "l \<noteq> []" "length l \<le> 63" using Cons.prems(1) by auto
  note b = small_label [OF l(2)]
  have nz: "(of_nat (length l) :: byte) \<noteq> 0" using b(2) l(1) by (metis length_0_conv unat_0)
  have "name_loop ((pre @ of_nat (length l) # l) @ labels_wire ls @ 0 # rest) offset (length (pre @ of_nat (length l) # l)) level =
    Some (Inr (concat (map (Cons 46) ls), length (pre @ of_nat (length l) # l) + length (labels_wire ls) + 1))"
    using Cons.prems by (intro Cons.IH) auto
  then show ?case using Cons.prems(2,3) b nz by (subst name_loop.simps) (auto simp: nth_append Let_def add.assoc)
qed

lemma decodeName_wire:
  assumes "wf_name name"
  shows "decodeName (pre @ name_wire name @ rest) (length pre) 1 = Some (Inr (name, length pre + length (name_wire name)))"
proof -
  have "length (labels_wire (labels name)) \<le> 255" using assms length_name_wire [of name] by (auto simp: wf_name_def name_wire_def split: if_splits)
  then have "name_loop (pre @ name_wire name @ rest) (length pre) (length pre) 1 =
      Some (Inr (concat (map (Cons 46) (labels name)), length pre + length (name_wire name)))"
    using name_loop_wire [of "labels name" "length pre" pre rest 1] assms by (simp add: wf_name_def name_wire_def)
  moreover have "length pre < length (pre @ name_wire name @ rest)" by (simp add: name_wire_def)
  ultimately show ?thesis using dotted_labels [of name] by (simp add: decodeName_def name_error_def on_ok_def maxRecursionLevel_def)
qed


subsection \<open>Records survive\<close>

definition txts_wire :: "bytes list \<Rightarrow> bytes" where
  "txts_wire ts = concat (map (\<lambda>t. of_nat (length t) # t) ts)"

definition dns_opts_wire :: "DNSOPT list \<Rightarrow> bytes" where
  "dns_opts_wire os = concat (map (\<lambda>p. be16 (dopt_Code p) @ be16 (of_nat (length (dopt_Data p))) @ dopt_Data p) os)"

definition soa_wire :: "DNSSOA \<Rightarrow> bytes" where
  "soa_wire s = name_wire (soa_MName s) @ name_wire (soa_RName s) @ be32 (soa_Serial s) @ be32 (soa_Refresh s) @ be32 (soa_Retry s)
     @ be32 (soa_Expire s) @ be32 (soa_Minimum s)"

definition rdata_wire :: "DNSResourceRecord \<Rightarrow> bytes" where
  "rdata_wire rr =
     (if rr_Type rr = DNSTypeA \<or> rr_Type rr = DNSTypeAAAA then rr_IP rr
      else if rr_Type rr = DNSTypeNS then name_wire (rr_NS rr)
      else if rr_Type rr = DNSTypeCNAME then name_wire (rr_CNAME rr)
      else if rr_Type rr = DNSTypePTR then name_wire (rr_PTR rr)
      else if rr_Type rr = DNSTypeSOA then soa_wire (rr_SOA rr)
      else if rr_Type rr = DNSTypeMX then be16 (mx_Preference (rr_MX rr)) @ name_wire (mx_Name (rr_MX rr))
      else if rr_Type rr = DNSTypeTXT then txts_wire (rr_TXTs rr)
      else if rr_Type rr = DNSTypeSRV
      then be16 (srv_Priority (rr_SRV rr)) @ be16 (srv_Weight (rr_SRV rr)) @ be16 (srv_Port (rr_SRV rr)) @ name_wire (srv_Name (rr_SRV rr))
      else if rr_Type rr = DNSTypeURI then be16 (uri_Priority (rr_URI rr)) @ be16 (uri_Weight (rr_URI rr)) @ uri_Target (rr_URI rr)
      else if rr_Type rr = DNSTypeOPT then dns_opts_wire (rr_OPT rr)
      else [])"

definition rr_wire :: "DNSResourceRecord \<Rightarrow> bytes" where
  "rr_wire rr = name_wire (rr_Name rr) @ be16 (rr_Type rr) @ be16 (rr_Class rr) @ be32 (rr_TTL rr)
     @ be16 (of_nat (length (rdata_wire rr))) @ rdata_wire rr"

text \<open>The names inside a record must not be the root: its one byte is counted as two.\<close>

definition wf_rdata :: "DNSResourceRecord \<Rightarrow> bool" where
  "wf_rdata rr \<longleftrightarrow>
     (if rr_Type rr = DNSTypeA then length (rr_IP rr) = 4
      else if rr_Type rr = DNSTypeAAAA then length (rr_IP rr) = 16
      else if rr_Type rr = DNSTypeNS then rr_NS rr \<noteq> [] \<and> wf_name (rr_NS rr)
      else if rr_Type rr = DNSTypeCNAME then rr_CNAME rr \<noteq> [] \<and> wf_name (rr_CNAME rr)
      else if rr_Type rr = DNSTypePTR then rr_PTR rr \<noteq> [] \<and> wf_name (rr_PTR rr)
      else if rr_Type rr = DNSTypeSOA
      then soa_MName (rr_SOA rr) \<noteq> [] \<and> wf_name (soa_MName (rr_SOA rr)) \<and> soa_RName (rr_SOA rr) \<noteq> [] \<and> wf_name (soa_RName (rr_SOA rr))
      else if rr_Type rr = DNSTypeMX then mx_Name (rr_MX rr) \<noteq> [] \<and> wf_name (mx_Name (rr_MX rr))
      else if rr_Type rr = DNSTypeTXT then \<forall>t \<in> set (rr_TXTs rr). length t \<le> 255
      else if rr_Type rr = DNSTypeSRV then srv_Name (rr_SRV rr) \<noteq> [] \<and> wf_name (srv_Name (rr_SRV rr))
      else if rr_Type rr = DNSTypeURI then True
      else if rr_Type rr = DNSTypeOPT then \<forall>p \<in> set (rr_OPT rr). length (dopt_Data p) \<le> 65535
      else False)"

lemma txts_wire_simps [simp]: "txts_wire [] = []" "txts_wire (t # ts) = of_nat (length t) # t @ txts_wire ts"
  by (simp_all add: txts_wire_def)

lemma dns_opts_wire_simps [simp]:
  "dns_opts_wire [] = []" "dns_opts_wire (p # ps) = be16 (dopt_Code p) @ be16 (of_nat (length (dopt_Data p))) @ dopt_Data p @ dns_opts_wire ps"
  by (simp_all add: dns_opts_wire_def)

lemma recSize_wire: "wf_rdata rr \<Longrightarrow> recSize rr = length (rdata_wire rr)"
proof -
  have t: "length (txts_wire ts) = length ts + sum_list (map length ts)" for ts by (induction ts) auto
  have o: "length (dns_opts_wire os) = length os * 4 + sum_list (map (length \<circ> dopt_Data) os)" for os by (induction os) auto
  assume "wf_rdata rr"
  then show ?thesis by (auto simp: wf_rdata_def recSize_def rdata_wire_def soa_wire_def length_name_wire t o split: if_splits)
qed

lemma encode_txts_wire:
  "length junk = length (txts_wire ts) \<Longrightarrow> encode_txts ts (pre @ junk @ rest) (length pre) = Some (pre @ txts_wire ts @ rest)"
proof (induction ts arbitrary: pre junk)
  case (Cons t ts)
  then obtain j1 j2 j3 where j: "junk = [j1] @ j2 @ j3" "length j2 = length t" "length j3 = length (txts_wire ts)"
    using cut_junk [of "tl junk" "length t"] by (cases junk) auto
  have "write_at (pre @ junk @ rest) (length pre) [of_nat (length t)] = Some ((pre @ [of_nat (length t)]) @ j2 @ j3 @ rest)"
    using j by (simp add: write_at_def)
  moreover have "copy_at ((pre @ [of_nat (length t)]) @ j2 @ j3 @ rest) (length pre + 1) t = Some ((pre @ [of_nat (length t)] @ t) @ j3 @ rest)"
    using copy_mid [OF j(2), of _ "pre @ [of_nat (length t)]" "j3 @ rest"] by simp
  ultimately show ?case using Cons.IH [OF j(3), of "pre @ [of_nat (length t)] @ t"] by (simp add: add.assoc)
qed simp

lemma encode_opts_wire:
  "length junk = length (dns_opts_wire os) \<Longrightarrow> encode_opts os (pre @ junk @ rest) (length pre) = Some (pre @ dns_opts_wire os @ rest)"
proof (induction os arbitrary: pre junk)
  case (Cons p ps)
  let ?l = "be16 (of_nat (length (dopt_Data p)))" and ?c = "be16 (dopt_Code p)"
  obtain j1 j' where j1: "junk = j1 @ j'" "length j1 = 2" "length j' = 2 + (length (dopt_Data p) + length (dns_opts_wire ps))"
    using cut_junk [of junk 2] Cons.prems by auto
  obtain j2 j'' where j2: "j' = j2 @ j''" "length j2 = 2" "length j'' = length (dopt_Data p) + length (dns_opts_wire ps)" using cut_junk [OF j1(3)] by auto
  obtain j3 j4 where j3: "j'' = j3 @ j4" "length j3 = length (dopt_Data p)" "length j4 = length (dns_opts_wire ps)" using cut_junk [OF j2(3)] by auto
  have "write_at (pre @ junk @ rest) (length pre) ?c = Some ((pre @ ?c) @ j2 @ j3 @ j4 @ rest)"
    using write_mid [of j1 ?c _ pre "j2 @ j3 @ j4 @ rest"] j1 j2 j3 by simp
  moreover have "write_at ((pre @ ?c) @ j2 @ j3 @ j4 @ rest) (length pre + 2) ?l = Some ((pre @ ?c @ ?l) @ j3 @ j4 @ rest)"
    using write_mid [of j2 ?l _ "pre @ ?c" "j3 @ j4 @ rest"] j2 by simp
  moreover have "copy_at ((pre @ ?c @ ?l) @ j3 @ j4 @ rest) (length pre + 4) (dopt_Data p) = Some ((pre @ ?c @ ?l @ dopt_Data p) @ j4 @ rest)"
    using copy_mid [OF j3(2), of _ "pre @ ?c @ ?l" "j4 @ rest"] by simp
  ultimately show ?case using Cons.IH [OF j3(3), of "pre @ ?c @ ?l @ dopt_Data p"] by (simp add: add.assoc numeral_eq_Suc)
qed simp



lemma name_next:
  assumes "length junk = length (name_wire name) + m" "n = length pre"
  shows "\<exists>junk'. encodeName name (pre @ junk @ rest) n = Some ((pre @ name_wire name) @ junk' @ rest, length (pre @ name_wire name)) \<and> length junk' = m"
proof -
  obtain j1 j2 where "junk = j1 @ j2" "length j1 = length (name_wire name)" "length j2 = m" using cut_junk [OF assms(1)] by blast
  then show ?thesis using encodeName_wire [of j1 name pre "j2 @ rest"] assms(2) by auto
qed

lemma encode_SOA_wire:
  assumes "length junk = length (soa_wire s)"
  shows "encode_SOA s (pre @ junk @ rest) (length pre) = Some (pre @ soa_wire s @ rest)"
proof -
  let ?m = "name_wire (soa_MName s)" and ?r = "name_wire (soa_RName s)"
  let ?a = "pre @ ?m" let ?b = "?a @ ?r" let ?c = "?b @ be32 (soa_Serial s)" let ?d = "?c @ be32 (soa_Refresh s)"
  let ?e = "?d @ be32 (soa_Retry s)" let ?f = "?e @ be32 (soa_Expire s)"
  obtain j1 where 1: "encodeName (soa_MName s) (pre @ junk @ rest) (length pre) = Some (?a @ j1 @ rest, length ?a)" "length j1 = length ?r + 20"
    using name_next [of junk "soa_MName s" "length ?r + 20" "length pre" pre rest] assms by (auto simp: soa_wire_def)
  obtain j2 where 2: "encodeName (soa_RName s) (?a @ j1 @ rest) (length ?a) = Some (?b @ j2 @ rest, length ?b)" "length j2 = 20"
    using name_next [OF 1(2) refl, of ?a rest] by auto
  obtain j3 where 3: "write_at (?b @ j2 @ rest) (length ?b) (be32 (soa_Serial s)) = Some (?c @ j3 @ rest)" "length j3 = 16"
    using write_next [of j2 "be32 (soa_Serial s)" 16 "length ?b" ?b rest] 2(2) by auto
  obtain j4 where 4: "write_at (?c @ j3 @ rest) (length ?b + 4) (be32 (soa_Refresh s)) = Some (?d @ j4 @ rest)" "length j4 = 12"
    using write_next [of j3 "be32 (soa_Refresh s)" 12 "length ?b + 4" ?c rest] 3(2) by auto
  obtain j5 where 5: "write_at (?d @ j4 @ rest) (length ?b + 8) (be32 (soa_Retry s)) = Some (?e @ j5 @ rest)" "length j5 = 8"
    using write_next [of j4 "be32 (soa_Retry s)" 8 "length ?b + 8" ?d rest] 4(2) by auto
  obtain j6 where 6: "write_at (?e @ j5 @ rest) (length ?b + 12) (be32 (soa_Expire s)) = Some (?f @ j6 @ rest)" "length j6 = 4"
    using write_next [of j5 "be32 (soa_Expire s)" 4 "length ?b + 12" ?e rest] 5(2) by auto
  have 7: "write_at (?f @ j6 @ rest) (length ?b + 16) (be32 (soa_Minimum s)) = Some (?f @ be32 (soa_Minimum s) @ rest)"
    using 6(2) by (intro write_mid) auto
  show ?thesis unfolding encode_SOA_def 1(1) Option.bind.simps split_conv 2(1) 3(1) 4(1) 5(1) 6(1) 7 by (simp add: soa_wire_def)
qed


lemma encode_MX_wire:
  assumes "length junk = 2 + length (name_wire name)"
  shows "(do { d1 \<leftarrow> write_at (pre @ junk @ rest) (length pre) (be16 p); (d2, _) \<leftarrow> encodeName name d1 (length pre + 2); Some (Inr d2) })
    = Some (Inr (pre @ (be16 p @ name_wire name) @ rest))"
proof -
  obtain j1 where 1: "write_at (pre @ junk @ rest) (length pre) (be16 p) = Some ((pre @ be16 p) @ j1 @ rest)" "length j1 = length (name_wire name)"
    using write_next [of junk "be16 p" "length (name_wire name)" "length pre" pre rest] assms by auto
  have "encodeName name ((pre @ be16 p) @ j1 @ rest) (length pre + 2) = Some ((pre @ be16 p) @ name_wire name @ rest, length pre + 2 + length (name_wire name))"
    using encodeName_wire [OF 1(2), of "pre @ be16 p" rest] by simp
  then show ?thesis unfolding 1(1) by simp
qed

lemma encode_SRV_wire:
  assumes "length junk = 6 + length (name_wire name)"
  shows "(do { d1 \<leftarrow> write_at (pre @ junk @ rest) (length pre) (be16 p); d2 \<leftarrow> write_at d1 (length pre + 2) (be16 w);
               d3 \<leftarrow> write_at d2 (length pre + 4) (be16 q); (d4, _) \<leftarrow> encodeName name d3 (length pre + 6); Some (Inr d4) })
    = Some (Inr (pre @ (be16 p @ be16 w @ be16 q @ name_wire name) @ rest))"
proof -
  obtain j1 where 1: "write_at (pre @ junk @ rest) (length pre) (be16 p) = Some ((pre @ be16 p) @ j1 @ rest)" "length j1 = 4 + length (name_wire name)"
    using write_next [of junk "be16 p" "4 + length (name_wire name)" "length pre" pre rest] assms by auto
  obtain j2 where 2: "write_at ((pre @ be16 p) @ j1 @ rest) (length pre + 2) (be16 w) = Some (((pre @ be16 p) @ be16 w) @ j2 @ rest)" "length j2 = 2 + length (name_wire name)"
    using write_next [of j1 "be16 w" "2 + length (name_wire name)" "length pre + 2" "pre @ be16 p" rest] 1(2) by auto
  have 3: "(do { d3 \<leftarrow> write_at (((pre @ be16 p) @ be16 w) @ j2 @ rest) (length pre + 4) (be16 q); (d4, _) \<leftarrow> encodeName name d3 (length pre + 6); Some (Inr d4) })
      = Some (Inr (((pre @ be16 p) @ be16 w) @ (be16 q @ name_wire name) @ rest))"
    using encode_MX_wire [OF 2(2), of "(pre @ be16 p) @ be16 w" rest q] by (simp add: numeral_eq_Suc)
  show ?thesis unfolding 1(1) Option.bind.simps 2(1) 3 by simp
qed

lemma encode_URI_wire:
  assumes "length junk = 4 + length t"
  shows "(do { d1 \<leftarrow> write_at (pre @ junk @ rest) (length pre) (be16 p); d2 \<leftarrow> write_at d1 (length pre + 2) (be16 w);
               d3 \<leftarrow> copy_at d2 (length pre + 4) t; Some (Inr d3) }) = Some (Inr (pre @ (be16 p @ be16 w @ t) @ rest))"
proof -
  obtain j1 where 1: "write_at (pre @ junk @ rest) (length pre) (be16 p) = Some ((pre @ be16 p) @ j1 @ rest)" "length j1 = 2 + length t"
    using write_next [of junk "be16 p" "2 + length t" "length pre" pre rest] assms by auto
  obtain j2 where 2: "write_at ((pre @ be16 p) @ j1 @ rest) (length pre + 2) (be16 w) = Some (((pre @ be16 p) @ be16 w) @ j2 @ rest)" "length j2 = length t"
    using write_next [of j1 "be16 w" "length t" "length pre + 2" "pre @ be16 p" rest] 1(2) by auto
  have 3: "copy_at (((pre @ be16 p) @ be16 w) @ j2 @ rest) (length pre + 4) t = Some (((pre @ be16 p) @ be16 w) @ t @ rest)"
    using 2(2) by (intro copy_mid) auto
  show ?thesis unfolding 1(1) Option.bind.simps 2(1) 3 by simp
qed

lemma encodeRData_wire:
  assumes "wf_rdata rr" "length junk = length (rdata_wire rr)"
  shows "encodeRData rr (pre @ junk @ rest) (length pre) = Some (Inr (pre @ rdata_wire rr @ rest))"
proof -
  note wires = encodeName_wire encode_SOA_wire encode_txts_wire encode_opts_wire
  consider "rr_Type rr = DNSTypeA" | "rr_Type rr = DNSTypeAAAA" | "rr_Type rr = DNSTypeNS" | "rr_Type rr = DNSTypeCNAME" | "rr_Type rr = DNSTypePTR"
    | "rr_Type rr = DNSTypeSOA" | (mx) "rr_Type rr = DNSTypeMX" | "rr_Type rr = DNSTypeTXT" | (srv) "rr_Type rr = DNSTypeSRV"
    | (uri) "rr_Type rr = DNSTypeURI" | "rr_Type rr = DNSTypeOPT" using assms(1) by (auto simp: wf_rdata_def split: if_splits)
  then show ?thesis
  proof cases
    case mx
    then show ?thesis using assms(2) encode_MX_wire [of junk "mx_Name (rr_MX rr)" pre rest] by (simp add: encodeRData_def rdata_wire_def)
  next
    case srv
    then show ?thesis using assms(2) encode_SRV_wire [of junk "srv_Name (rr_SRV rr)" pre rest] by (simp add: encodeRData_def rdata_wire_def)
  next
    case uri
    then show ?thesis using assms(2) encode_URI_wire [of junk "uri_Target (rr_URI rr)" pre rest] by (simp add: encodeRData_def rdata_wire_def)
  qed (use assms in \<open>simp_all add: encodeRData_def rdata_wire_def wires wf_rdata_def To4_def copy_mid\<close>)
qed


lemma length_rr_wire: "length (rr_wire rr) = length (name_wire (rr_Name rr)) + 10 + length (rdata_wire rr)"
  by (simp add: rr_wire_def)

definition fix_length :: "SerializeOptions \<Rightarrow> DNSResourceRecord \<Rightarrow> DNSResourceRecord" where
  "fix_length opts rr = (if FixLengths opts then rr\<lparr>rr_DataLength := of_nat (recSize rr)\<rparr> else rr)"

lemma rr_encode_wire:
  assumes "wf_rdata rr" "length junk = length (rr_wire rr)"
  shows "rr_encode opts rr (pre @ junk @ rest) (length pre) = Some (pre @ rr_wire rr @ rest, Inr (length (rr_wire rr), fix_length opts rr))"
proof -
  let ?n = "name_wire (rr_Name rr)" and ?r = "rdata_wire rr"
  let ?a = "pre @ ?n" let ?b = "?a @ be16 (rr_Type rr)" let ?c = "?b @ be16 (rr_Class rr)" let ?d = "?c @ be32 (rr_TTL rr)"
  obtain j1 where 1: "encodeName (rr_Name rr) (pre @ junk @ rest) (length pre) = Some (?a @ j1 @ rest, length ?a)" "length j1 = 10 + length ?r"
    using name_next [of junk "rr_Name rr" "10 + length ?r" "length pre" pre rest] assms(2) by (auto simp: length_rr_wire)
  obtain j2 where 2: "write_at (?a @ j1 @ rest) (length ?a) (be16 (rr_Type rr)) = Some (?b @ j2 @ rest)" "length j2 = 8 + length ?r"
    using write_next [of j1 "be16 (rr_Type rr)" "8 + length ?r" "length ?a" ?a rest] 1(2) by auto
  obtain j3 where 3: "write_at (?b @ j2 @ rest) (length ?a + 2) (be16 (rr_Class rr)) = Some (?c @ j3 @ rest)" "length j3 = 6 + length ?r"
    using write_next [of j2 "be16 (rr_Class rr)" "6 + length ?r" "length ?a + 2" ?b rest] 2(2) by auto
  obtain j4 where 4: "write_at (?c @ j3 @ rest) (length ?a + 4) (be32 (rr_TTL rr)) = Some (?d @ j4 @ rest)" "length j4 = 2 + length ?r"
    using write_next [of j3 "be32 (rr_TTL rr)" "2 + length ?r" "length ?a + 4" ?c rest] 3(2) by auto
  obtain g j5 where g: "j4 = g @ j5" "length g = 2" "length j5 = length ?r" using cut_junk [OF 4(2)] by blast
  have 5: "encodeRData rr (?d @ j4 @ rest) (length ?a + 10) = Some (Inr (?d @ g @ ?r @ rest))"
    using encodeRData_wire [OF assms(1) g(3), of "?d @ g" rest] g(1,2) by (simp add: numeral_eq_Suc)
  have 6: "write_at (?d @ g @ ?r @ rest) (length ?a + 8) (be16 (of_nat (recSize rr))) = Some (?d @ be16 (of_nat (recSize rr)) @ ?r @ rest)"
    using g(2) by (intro write_mid) auto
  show ?thesis unfolding rr_encode_def 1(1) Option.bind.simps split_conv 2(1) 3(1) 4(1) 5 sum.case 6
    by (simp add: rr_wire_def recSize_wire [OF assms(1)] fix_length_def)
qed

lemma encode_rrs_wire:
  "\<lbrakk>\<forall>rr \<in> set rrs. wf_rdata rr; length junk = length (concat (map rr_wire rrs))\<rbrakk> \<Longrightarrow>
   encode_rrs opts rrs (pre @ junk @ rest) (length pre) =
     Some (pre @ concat (map rr_wire rrs) @ rest, map (fix_length opts) rrs, Inr (length pre + length (concat (map rr_wire rrs))))"
proof (induction rrs arbitrary: pre junk)
  case (Cons rr rrs)
  obtain j1 j2 where j: "junk = j1 @ j2" "length j1 = length (rr_wire rr)" "length j2 = length (concat (map rr_wire rrs))"
    using cut_junk [of junk "length (rr_wire rr)" "length (concat (map rr_wire rrs))"] Cons.prems(2) by auto
  have "rr_encode opts rr (pre @ j1 @ j2 @ rest) (length pre) = Some (pre @ rr_wire rr @ j2 @ rest, Inr (length (rr_wire rr), fix_length opts rr))"
    using Cons.prems(1) j(2) by (intro rr_encode_wire) auto
  moreover have "encode_rrs opts rrs ((pre @ rr_wire rr) @ j2 @ rest) (length (pre @ rr_wire rr)) =
     Some ((pre @ rr_wire rr) @ concat (map rr_wire rrs) @ rest, map (fix_length opts) rrs, Inr (length (pre @ rr_wire rr) + length (concat (map rr_wire rrs))))"
    using Cons.prems(1) j(3) by (intro Cons.IH) auto
  ultimately show ?case using j(1) by (simp add: add.assoc)
qed simp

definition q_wire :: "DNSQuestion \<Rightarrow> bytes" where
  "q_wire q = name_wire (q_Name q) @ be16 (q_Type q) @ be16 (q_Class q)"

lemma q_encode_wire:
  assumes "length junk = length (q_wire q)"
  shows "q_encode q (pre @ junk @ rest) (length pre) = Some (pre @ q_wire q @ rest, length (q_wire q))"
proof -
  let ?n = "name_wire (q_Name q)"
  let ?a = "pre @ ?n" let ?b = "?a @ be16 (q_Type q)"
  obtain j1 where 1: "encodeName (q_Name q) (pre @ junk @ rest) (length pre) = Some (?a @ j1 @ rest, length ?a)" "length j1 = 4"
    using name_next [of junk "q_Name q" 4 "length pre" pre rest] assms by (auto simp: q_wire_def)
  obtain j2 where 2: "write_at (?a @ j1 @ rest) (length ?a) (be16 (q_Type q)) = Some (?b @ j2 @ rest)" "length j2 = 2"
    using write_next [of j1 "be16 (q_Type q)" 2 "length ?a" ?a rest] 1(2) by auto
  have 3: "write_at (?b @ j2 @ rest) (length ?a + 2) (be16 (q_Class q)) = Some (?b @ be16 (q_Class q) @ rest)"
    using 2(2) by (intro write_mid) auto
  show ?thesis unfolding q_encode_def 1(1) Option.bind.simps split_conv 2(1) 3 by (simp add: q_wire_def)
qed

lemma encode_questions_wire:
  "length junk = length (concat (map q_wire qs)) \<Longrightarrow>
   encode_questions qs (pre @ junk @ rest) (length pre) = Some (pre @ concat (map q_wire qs) @ rest, length pre + length (concat (map q_wire qs)))"
proof (induction qs arbitrary: pre junk)
  case (Cons q qs)
  obtain j1 j2 where j: "junk = j1 @ j2" "length j1 = length (q_wire q)" "length j2 = length (concat (map q_wire qs))"
    using cut_junk [of junk "length (q_wire q)" "length (concat (map q_wire qs))"] Cons.prems by auto
  from q_encode_wire [OF j(2), of pre "j2 @ rest"] Cons.IH [OF j(3), of "pre @ q_wire q"] j(1) show ?case by (simp add: add.assoc)
qed simp


text \<open>Items that are written one after the other: a decoder that reads back one item, wherever it stands, reads back the sequence.\<close>

locale wire_items =
  fixes decode :: "bytes \<Rightarrow> nat \<Rightarrow> (goerr + 'a \<times> nat) option" and wire :: "'a \<Rightarrow> bytes" and ok :: "'a \<Rightarrow> bool"
  assumes decode_wire: "ok x \<Longrightarrow> decode (pre @ wire x @ rest) (length pre) = Some (Inr (x, length pre + length (wire x)))"
begin

lemma items_wire:
  "\<forall>x \<in> set xs. ok x \<Longrightarrow> decode_items decode (length xs) (pre @ concat (map wire xs) @ rest) (length pre) =
     Some (xs, length pre + length (concat (map wire xs)), None)"
proof (induction xs arbitrary: pre)
  case (Cons x xs)
  have "decode (pre @ wire x @ concat (map wire xs) @ rest) (length pre) = Some (Inr (x, length (pre @ wire x)))"
    using Cons.prems by (simp add: decode_wire)
  moreover have "decode_items decode (length xs) ((pre @ wire x) @ concat (map wire xs) @ rest) (length (pre @ wire x)) =
     Some (xs, length (pre @ wire x) + length (concat (map wire xs)), None)" using Cons.prems by (intro Cons.IH) auto
  ultimately show ?case by (simp add: add.assoc)
qed simp

end

lemma q_decode_wire:
  assumes "wf_name (q_Name q)"
  shows "q_decode (pre @ q_wire q @ rest) (length pre) = Some (Inr (q, length pre + length (q_wire q)))"
proof -
  let ?a = "pre @ name_wire (q_Name q)"
  have n: "decodeName (pre @ q_wire q @ rest) (length pre) 1 = Some (Inr (q_Name q, length ?a))"
    using decodeName_wire [OF assms, of pre "be16 (q_Type q) @ be16 (q_Class q) @ rest"] by (simp add: q_wire_def)
  have t: "u16_at (pre @ q_wire q @ rest) (length ?a) = Some (q_Type q)"
    using u16_at_mid [of "length ?a" ?a "q_Type q" "be16 (q_Class q) @ rest"] by (simp add: q_wire_def)
  have c: "u16_at (pre @ q_wire q @ rest) (length ?a + 2) = Some (q_Class q)"
    using u16_at_mid [of "length ?a + 2" "?a @ be16 (q_Type q)" "q_Class q" rest] by (simp add: q_wire_def)
  show ?thesis unfolding q_decode_def n on_ok_def option.case sum.case split_conv t c Option.bind.simps by (simp add: q_wire_def)
qed

interpretation questions: wire_items q_decode q_wire "\<lambda>q. wf_name (q_Name q)"
  by unfold_locales (rule q_decode_wire)

lemma char_strings_wire:
  "\<forall>t \<in> set ts. length t \<le> 255 \<Longrightarrow> char_strings (pre @ txts_wire ts) (length pre) = Some (Inr ts)"
proof (induction ts arbitrary: pre)
  case Nil
  then show ?case by (subst char_strings.simps) simp
next
  case (Cons t ts)
  have b: "unat (of_nat (length t) :: byte) = length t" using Cons.prems by (intro unat_of_nat_byte) auto
  have "char_strings ((pre @ of_nat (length t) # t) @ txts_wire ts) (length (pre @ of_nat (length t) # t)) = Some (Inr ts)"
    using Cons.prems by (intro Cons.IH) auto
  then show ?case using b by (subst char_strings.simps) (simp add: nth_append Let_def add.commute)
qed

lemma opts_loop_wire:
  "\<forall>p \<in> set os. length (dopt_Data p) \<le> 65535 \<Longrightarrow> opts_loop (pre @ dns_opts_wire os) (length pre) = Some (Inr os)"
proof (induction os arbitrary: pre)
  case Nil
  then show ?case by (subst opts_loop.simps) simp
next
  case (Cons p ps)
  let ?w = "be16 (dopt_Code p) @ be16 (of_nat (length (dopt_Data p))) @ dopt_Data p"
  have b: "unat (of_nat (length (dopt_Data p)) :: u16) = length (dopt_Data p)" using Cons.prems by (intro unat_of_nat_u16) auto
  let ?D = "pre @ dns_opts_wire (p # ps)"
  have IH: "opts_loop ((pre @ ?w) @ dns_opts_wire ps) (length (pre @ ?w)) = Some (Inr ps)" using Cons.prems by (intro Cons.IH) auto
  then have IH: "opts_loop ?D (length pre + (length (dopt_Data p) + 4)) = Some (Inr ps)" by (simp add: numeral_eq_Suc)
  have f: "mk16 (?D ! length pre) (?D ! (length pre + 1)) = dopt_Code p" "mk16 (?D ! (length pre + 2)) (?D ! (length pre + 3)) = of_nat (length (dopt_Data p))"
    "take (length (dopt_Data p)) (drop (length pre + 4) ?D) = dopt_Data p" "length ?D \<ge> length pre + 4 + length (dopt_Data p)"
    "dns_opts_wire (p # ps) \<noteq> []"
    by (simp_all add: nth_append be16_def mk16_split)
  show ?case
    using IH f b by (subst opts_loop.simps) (simp add: Let_def del: dns_opts_wire_simps)
qed


subsection \<open>Records read back\<close>

text \<open>A record as the decoder builds it: the header, the data and the fields of its type, all other fields empty.\<close>

definition rr_base :: "DNSResourceRecord \<Rightarrow> DNSResourceRecord" where
  "rr_base rr = zero_RR\<lparr>rr_Name := rr_Name rr, rr_Type := rr_Type rr, rr_Class := rr_Class rr, rr_TTL := rr_TTL rr,
     rr_DataLength := of_nat (length (rdata_wire rr)), rr_Data := rdata_wire rr\<rparr>"

definition rr_canonical :: "DNSResourceRecord \<Rightarrow> DNSResourceRecord" where
  "rr_canonical rr =
     (if rr_Type rr = DNSTypeA \<or> rr_Type rr = DNSTypeAAAA then (rr_base rr)\<lparr>rr_IP := rr_IP rr\<rparr>
      else if rr_Type rr = DNSTypeTXT then (rr_base rr)\<lparr>rr_TXT := rdata_wire rr, rr_TXTs := rr_TXTs rr\<rparr>
      else if rr_Type rr = DNSTypeNS then (rr_base rr)\<lparr>rr_NS := rr_NS rr\<rparr>
      else if rr_Type rr = DNSTypeCNAME then (rr_base rr)\<lparr>rr_CNAME := rr_CNAME rr\<rparr>
      else if rr_Type rr = DNSTypePTR then (rr_base rr)\<lparr>rr_PTR := rr_PTR rr\<rparr>
      else if rr_Type rr = DNSTypeSOA then (rr_base rr)\<lparr>rr_SOA := rr_SOA rr\<rparr>
      else if rr_Type rr = DNSTypeMX then (rr_base rr)\<lparr>rr_MX := rr_MX rr\<rparr>
      else if rr_Type rr = DNSTypeURI then (rr_base rr)\<lparr>rr_URI := rr_URI rr\<rparr>
      else if rr_Type rr = DNSTypeSRV then (rr_base rr)\<lparr>rr_SRV := rr_SRV rr\<rparr>
      else if rr_Type rr = DNSTypeOPT then (rr_base rr)\<lparr>rr_OPT := rr_OPT rr\<rparr>
      else rr_base rr)"

definition wf_rr :: "DNSResourceRecord \<Rightarrow> bool" where
  "wf_rr rr \<longleftrightarrow> wf_name (rr_Name rr) \<and> wf_rdata rr \<and> length (rdata_wire rr) \<le> 65535 \<and> rr = rr_canonical rr"

lemma decodeName_end: "wf_name name \<Longrightarrow> decodeName (pre @ name_wire name) (length pre) 1 = Some (Inr (name, length pre + length (name_wire name)))"
  using decodeName_wire [of name pre "[]"] by simp

lemma decode_SOA_wire:
  assumes "wf_name (soa_MName s)" "wf_name (soa_RName s)"
  shows "decode_SOA (pre @ soa_wire s) (length pre) = Some (Inr s)"
proof -
  let ?a = "pre @ name_wire (soa_MName s)" let ?b = "?a @ name_wire (soa_RName s)"
  let ?t = "be32 (soa_Serial s) @ be32 (soa_Refresh s) @ be32 (soa_Retry s) @ be32 (soa_Expire s) @ be32 (soa_Minimum s)"
  have 1: "decodeName (pre @ soa_wire s) (length pre) 1 = Some (Inr (soa_MName s, length ?a))"
    using decodeName_wire [OF assms(1), of pre "name_wire (soa_RName s) @ ?t"] by (simp add: soa_wire_def)
  have 2: "decodeName (pre @ soa_wire s) (length ?a) 1 = Some (Inr (soa_RName s, length ?b))"
    using decodeName_wire [OF assms(2), of ?a ?t] by (simp add: soa_wire_def)
  have e: "pre @ soa_wire s = ?b @ ?t" by (simp add: soa_wire_def)
  have 3: "u32_at (?b @ ?t) (length ?b) = Some (soa_Serial s)" by (rule u32_at_mid) simp
  have 4: "u32_at (?b @ ?t) (length ?b + 4) = Some (soa_Refresh s)"
    using u32_at_mid [of "length ?b + 4" "?b @ be32 (soa_Serial s)"] by simp
  have 5: "u32_at (?b @ ?t) (length ?b + 8) = Some (soa_Retry s)"
    using u32_at_mid [of "length ?b + 8" "?b @ be32 (soa_Serial s) @ be32 (soa_Refresh s)"] by simp
  have 6: "u32_at (?b @ ?t) (length ?b + 12) = Some (soa_Expire s)"
    using u32_at_mid [of "length ?b + 12" "?b @ be32 (soa_Serial s) @ be32 (soa_Refresh s) @ be32 (soa_Retry s)"] by simp
  have 7: "u32_at (?b @ ?t) (length ?b + 16) = Some (soa_Minimum s)"
    using u32_at_mid [of "length ?b + 16" "?b @ be32 (soa_Serial s) @ be32 (soa_Refresh s) @ be32 (soa_Retry s) @ be32 (soa_Expire s)" "soa_Minimum s" "[]"] by simp
  have l: "\<not> length (?b @ ?t) < length ?b + 20" by simp
  show ?thesis unfolding decode_SOA_def 1 on_ok_def option.case sum.case split_conv 2 using l
    unfolding e 3 4 5 6 7 Option.bind.simps by simp
qed


lemma decode_MX_wire:
  assumes "wf_name name"
  shows "u16_at (pre @ be16 p @ name_wire name) (length pre) = Some p"
    "decodeName (pre @ be16 p @ name_wire name) (length pre + 2) 1 = Some (Inr (name, length pre + 2 + length (name_wire name)))"
  using u16_at_mid [of "length pre" pre p "name_wire name"] decodeName_end [OF assms, of "pre @ be16 p"] by simp_all

lemma decode_SRV_wire:
  assumes "wf_name name"
  shows "u16_at (pre @ be16 p @ be16 w @ be16 q @ name_wire name) (length pre) = Some p"
    "u16_at (pre @ be16 p @ be16 w @ be16 q @ name_wire name) (length pre + 2) = Some w"
    "u16_at (pre @ be16 p @ be16 w @ be16 q @ name_wire name) (length pre + 4) = Some q"
    "decodeName (pre @ be16 p @ be16 w @ be16 q @ name_wire name) (length pre + 6) 1 = Some (Inr (name, length pre + 6 + length (name_wire name)))"
  using u16_at_mid [of "length pre" pre p "be16 w @ be16 q @ name_wire name"] u16_at_mid [of "length pre + 2" "pre @ be16 p" w "be16 q @ name_wire name"]
    u16_at_mid [of "length pre + 4" "pre @ be16 p @ be16 w" q "name_wire name"] decodeName_end [OF assms, of "pre @ be16 p @ be16 w @ be16 q"]
  by (simp_all add: numeral_eq_Suc)

lemma decode_URI_wire:
  "u16_at (pre @ be16 p @ be16 w @ t) (length pre) = Some p" "u16_at (pre @ be16 p @ be16 w @ t) (length pre + 2) = Some w"
  using u16_at_mid [of "length pre" pre p "be16 w @ t"] u16_at_mid [of "length pre + 2" "pre @ be16 p" w t] by simp_all

lemma rr_base_fields [simp]:
  "rr_Type (rr_base rr) = rr_Type rr" "rr_Data (rr_base rr) = rdata_wire rr" "rdata_wire rr = [] \<Longrightarrow> rr_IP (rr_base rr) = []"
  "rr_TXTs (rr_base rr) = []" "rr_OPT (rr_base rr) = []" "rr_TXT (rr_base rr) = []"
  by (simp_all add: rr_base_def zero_RR_def)

lemma decodeRData_wire:
  assumes "wf_rdata rr"
  shows "decodeRData (rr_base rr) (pre @ rdata_wire rr) (length pre) = Some (Inr (rr_canonical rr))"
proof -
  consider (ip) "rr_Type rr = DNSTypeA \<or> rr_Type rr = DNSTypeAAAA" | (ns) "rr_Type rr = DNSTypeNS" | (cname) "rr_Type rr = DNSTypeCNAME" | (ptr) "rr_Type rr = DNSTypePTR"
    | (soa) "rr_Type rr = DNSTypeSOA" | (mx) "rr_Type rr = DNSTypeMX" | (tx) "rr_Type rr = DNSTypeTXT" | (srv) "rr_Type rr = DNSTypeSRV"
    | (uri) "rr_Type rr = DNSTypeURI" | (opt) "rr_Type rr = DNSTypeOPT" using assms by (auto simp: wf_rdata_def split: if_splits)
  then show ?thesis
  proof cases
    case ip
    then show ?thesis by (auto simp: decodeRData_def rr_canonical_def rdata_wire_def)
  next
    case ns
    then show ?thesis using assms by (simp add: decodeRData_def rr_canonical_def rdata_wire_def wf_rdata_def decodeName_end [simplified] on_ok_def)
  next
    case cname
    then show ?thesis using assms by (simp add: decodeRData_def rr_canonical_def rdata_wire_def wf_rdata_def decodeName_end [simplified] on_ok_def)
  next
    case ptr
    then show ?thesis using assms by (simp add: decodeRData_def rr_canonical_def rdata_wire_def wf_rdata_def decodeName_end [simplified] on_ok_def)
  next
    case soa
    then show ?thesis using assms by (simp add: decodeRData_def rr_canonical_def rdata_wire_def wf_rdata_def decode_SOA_wire on_ok_def)
  next
    case mx
    then have "wf_name (mx_Name (rr_MX rr))" using assms by (simp add: wf_rdata_def)
    from mx decode_MX_wire [OF this, of pre "mx_Preference (rr_MX rr)"] show ?thesis
      by (simp add: decodeRData_def rr_canonical_def rdata_wire_def on_ok_def)
  next
    case tx
    then show ?thesis using assms char_strings_wire [of "rr_TXTs rr" "[]"]
      by (simp add: decodeRData_def rr_canonical_def rdata_wire_def wf_rdata_def decodeCharacterStrings_def on_ok_def)
  next
    case srv
    then have "wf_name (srv_Name (rr_SRV rr))" using assms by (simp add: wf_rdata_def)
    from srv decode_SRV_wire [OF this, of pre "srv_Priority (rr_SRV rr)" "srv_Weight (rr_SRV rr)" "srv_Port (rr_SRV rr)"] show ?thesis
      by (simp add: decodeRData_def rr_canonical_def rdata_wire_def on_ok_def)
  next
    case uri
    then show ?thesis using decode_URI_wire [of pre "uri_Priority (rr_URI rr)" "uri_Weight (rr_URI rr)" "uri_Target (rr_URI rr)"]
      by (simp add: decodeRData_def rr_canonical_def rdata_wire_def)
  next
    case opt
    have "decodeOPTs (pre @ dns_opts_wire (rr_OPT rr)) (length pre) = Some (Inr (rr_OPT rr))"
    proof (cases "rr_OPT rr")
      case Nil
      then show ?thesis by (simp add: decodeOPTs_def)
    next
      case (Cons p ps)
      then have "length pre \<noteq> length (pre @ dns_opts_wire (rr_OPT rr))" "\<not> length pre + 4 > length (pre @ dns_opts_wire (rr_OPT rr))" by (simp_all add: be16_def)
      then show ?thesis using assms opt opts_loop_wire [of "rr_OPT rr" pre] unfolding decodeOPTs_def by (simp add: wf_rdata_def)
    qed
    then show ?thesis using opt by (simp add: decodeRData_def rr_canonical_def rdata_wire_def on_ok_def)
  qed
qed


lemma rr_canonical_empty:
  assumes "wf_rdata rr" "rdata_wire rr = []"
  shows "rr_canonical rr = rr_base rr"
proof -
  have "rr_Type rr = DNSTypeTXT \<and> rr_TXTs rr = [] \<or> rr_Type rr = DNSTypeOPT \<and> rr_OPT rr = []"
  proof -
    have "txts_wire ts = [] \<Longrightarrow> ts = []" "dns_opts_wire os = [] \<Longrightarrow> os = []" for ts os by (cases ts; cases os; simp add: be16_def)+
    moreover have "name_wire n \<noteq> []" for n by (simp add: name_wire_def)
    ultimately show ?thesis using assms by (auto simp: wf_rdata_def rdata_wire_def soa_wire_def be16_def split: if_splits)
  qed
  then show ?thesis using assms(2) by (auto simp: rr_canonical_def rr_base_def zero_RR_def)
qed

lemma rr_decode_wire:
  assumes "wf_rr rr"
  shows "rr_decode (pre @ rr_wire rr @ rest) (length pre) = Some (Inr (rr, length pre + length (rr_wire rr)))"
proof -
  have wf: "wf_name (rr_Name rr)" "wf_rdata rr" "length (rdata_wire rr) \<le> 65535" "rr_canonical rr = rr" using assms by (simp_all add: wf_rr_def)
  let ?r = "rdata_wire rr" let ?l = "of_nat (length ?r) :: u16"
  let ?a = "pre @ name_wire (rr_Name rr)" let ?b = "?a @ be16 (rr_Type rr)" let ?c = "?b @ be16 (rr_Class rr)" let ?d = "?c @ be32 (rr_TTL rr)"
  let ?D = "pre @ rr_wire rr @ rest"
  have l: "unat ?l = length ?r" using wf(3) by (intro unat_of_nat_u16) auto
  have n: "decodeName ?D (length pre) 1 = Some (Inr (rr_Name rr, length ?a))"
    using decodeName_wire [OF wf(1), of pre] by (simp add: rr_wire_def)
  have f: "u16_at ?D (length ?a) = Some (rr_Type rr)" "u16_at ?D (length ?a + 2) = Some (rr_Class rr)" "u32_at ?D (length ?a + 4) = Some (rr_TTL rr)"
    "u16_at ?D (length ?a + 8) = Some ?l"
    using u16_at_mid [of "length ?a" ?a "rr_Type rr"] u16_at_mid [of "length ?a + 2" ?b "rr_Class rr"] u32_at_mid [of "length ?a + 4" ?c "rr_TTL rr"]
      u16_at_mid [of "length ?a + 8" ?d ?l] by (simp_all add: rr_wire_def)
  have len: "\<not> length ?D < length ?a + 10" "\<not> length ?D < length ?a + 10 + length ?r" by (simp_all add: rr_wire_def)
  have sl: "slice ?D (length ?a + 10) (length ?a + 10 + length ?r) = Some ?r" by (simp add: rr_wire_def)
  have pre': "slice ?D 0 (length ?a + 10 + length ?r) = Some ((?d @ be16 ?l) @ ?r)" by (simp add: rr_wire_def)
  have b: "zero_RR\<lparr>rr_Name := rr_Name rr, rr_Type := rr_Type rr, rr_Class := rr_Class rr, rr_TTL := rr_TTL rr, rr_DataLength := ?l, rr_Data := ?r\<rparr> = rr_base rr"
    by (simp add: rr_base_def)
  have rd: "decodeRData (rr_base rr) ((?d @ be16 ?l) @ ?r) (length ?a + 10) = Some (Inr rr)"
    using decodeRData_wire [OF wf(2), of "?d @ be16 ?l"] wf(4) by (simp add: numeral_eq_Suc)
  have "(if ?l > 0 then do { d \<leftarrow> slice ?D 0 (length ?a + 10 + length ?r); decodeRData (rr_base rr) d (length ?a + 10) } else Some (Inr (rr_base rr))) = Some (Inr rr)"
  proof (cases "?r = []")
    case True
    then show ?thesis using rr_canonical_empty [OF wf(2)] wf(4) by simp
  next
    case False
    then have "?l > 0" using l by (metis length_0_conv unat_0 word_gt_0)
    then show ?thesis using pre' rd by simp
  qed
  then show ?thesis unfolding rr_decode_def n on_ok_def option.case sum.case split_conv f Option.bind.simps Let_def l sl b using len
    by (simp add: length_rr_wire)
qed

interpretation records: wire_items rr_decode rr_wire wf_rr
  by unfold_locales (rule rr_decode_wire)

subsection \<open>Messages\<close>

definition dns_wire :: "DNS \<Rightarrow> bytes" where
  "dns_wire d = be16 (dns_ID d) @ DNS_flags d @ be16 (of_nat (length (dns_Questions d))) @ be16 (of_nat (length (dns_Answers d)))
     @ be16 (of_nat (length (dns_Authorities d))) @ be16 (of_nat (length (dns_Additionals d)))
     @ concat (map q_wire (dns_Questions d)) @ concat (map rr_wire (dns_Answers d)) @ concat (map rr_wire (dns_Authorities d))
     @ concat (map rr_wire (dns_Additionals d))"

text \<open>Messages as the decoder builds them: flags of their widths, no extended response code, records in decoded form, and
  questions that do not ask for the root, whose name is counted with one byte too many.\<close>

definition wf_dns :: "DNS \<Rightarrow> bool" where
  "wf_dns d \<longleftrightarrow> dns_OpCode d < 16 \<and> dns_Z d < 8 \<and> dns_ResponseCode d < 16
     \<and> foldl extended_rcode (dns_ResponseCode d) (dns_Additionals d) = dns_ResponseCode d
     \<and> length (dns_Questions d) < 65536 \<and> length (dns_Answers d) < 65536 \<and> length (dns_Authorities d) < 65536 \<and> length (dns_Additionals d) < 65536
     \<and> (\<forall>q \<in> set (dns_Questions d). q_Name q \<noteq> [] \<and> wf_name (q_Name q))
     \<and> (\<forall>rr \<in> set (dns_Answers d @ dns_Authorities d @ dns_Additionals d). wf_rr rr)"

definition fixed_counts :: "DNS \<Rightarrow> DNS" where
  "fixed_counts d = d\<lparr>dns_QDCount := of_nat (length (dns_Questions d)), dns_ANCount := of_nat (length (dns_Answers d)),
     dns_NSCount := of_nat (length (dns_Authorities d)), dns_ARCount := of_nat (length (dns_Additionals d))\<rparr>"

lemma computeSize_wire: "\<forall>rr \<in> set rrs. wf_rr rr \<Longrightarrow> computeSize rrs = length (concat (map rr_wire rrs))"
  by (induction rrs) (auto simp: computeSize_def length_rr_wire length_name_wire recSize_wire wf_rr_def)

lemma questions_size: "\<forall>q \<in> set qs. q_Name q \<noteq> [] \<Longrightarrow> sum_list (map (\<lambda>q. length (q_Name q) + 6) qs) = length (concat (map q_wire qs))"
  by (induction qs) (auto simp: q_wire_def length_name_wire)

lemma length_DNS_flags [simp]: "length (DNS_flags d) = 2"
  by (simp add: DNS_flags_def)

lemma fix_length_wf: "wf_rr rr \<Longrightarrow> fix_length opts rr = rr"
proof -
  assume "wf_rr rr"
  then have "rr_DataLength rr = rr_DataLength (rr_canonical rr)" "wf_rdata rr" by (simp_all add: wf_rr_def)
  then have "rr_DataLength rr = of_nat (recSize rr)" by (simp add: rr_canonical_def rr_base_def recSize_wire)
  then show ?thesis by (simp add: fix_length_def)
qed


lemma DNS_write_header_wire:
  assumes "length w = 12 + m"
  shows "\<exists>junk. DNS_write_header d e w = Some ((be16 (dns_ID d) @ DNS_flags d @ be16 (dns_QDCount e) @ be16 (dns_ANCount e) @ be16 (dns_NSCount e)
    @ be16 (dns_ARCount e)) @ junk) \<and> length junk = m"
proof -
  let ?w1 = "be16 (dns_ID d)" let ?w2 = "?w1 @ DNS_flags d" let ?w3 = "?w2 @ be16 (dns_QDCount e)" let ?w4 = "?w3 @ be16 (dns_ANCount e)"
  let ?w5 = "?w4 @ be16 (dns_NSCount e)" let ?w6 = "?w5 @ be16 (dns_ARCount e)"
  have "length w = length (be16 (dns_ID d)) + (10 + m)" "0 = length ([] :: bytes)" using assms by simp_all
  from write_next [OF this, of "[]"] obtain j1 where 1: "write_at w 0 (be16 (dns_ID d)) = Some (?w1 @ j1)" "length j1 = 10 + m"
    unfolding append_Nil2 append_Nil by blast
  have "length j1 = length (DNS_flags d) + (8 + m)" "2 = length (?w1)" using 1(2) by simp_all
  from write_next [OF this, of "[]"] obtain j2 where 2: "write_at (?w1 @ j1) 2 (DNS_flags d) = Some (?w2 @ j2)" "length j2 = 8 + m"
    unfolding append_Nil2  by blast
  have "length j2 = length (be16 (dns_QDCount e)) + (6 + m)" "4 = length (?w2)" using 2(2) by simp_all
  from write_next [OF this, of "[]"] obtain j3 where 3: "write_at (?w2 @ j2) 4 (be16 (dns_QDCount e)) = Some (?w3 @ j3)" "length j3 = 6 + m"
    unfolding append_Nil2  by blast
  have "length j3 = length (be16 (dns_ANCount e)) + (4 + m)" "6 = length (?w3)" using 3(2) by simp_all
  from write_next [OF this, of "[]"] obtain j4 where 4: "write_at (?w3 @ j3) 6 (be16 (dns_ANCount e)) = Some (?w4 @ j4)" "length j4 = 4 + m"
    unfolding append_Nil2  by blast
  have "length j4 = length (be16 (dns_NSCount e)) + (2 + m)" "8 = length (?w4)" using 4(2) by simp_all
  from write_next [OF this, of "[]"] obtain j5 where 5: "write_at (?w4 @ j4) 8 (be16 (dns_NSCount e)) = Some (?w5 @ j5)" "length j5 = 2 + m"
    unfolding append_Nil2  by blast
  have "length j5 = length (be16 (dns_ARCount e)) + (m)" "10 = length (?w5)" using 5(2) by simp_all
  from write_next [OF this, of "[]"] obtain j6 where 6: "write_at (?w5 @ j5) 10 (be16 (dns_ARCount e)) = Some (?w6 @ j6)" "length j6 = m"
    unfolding append_Nil2 by blast
  show ?thesis using 6(2) unfolding DNS_write_header_def 1(1) Option.bind.simps 2(1) 3(1) 4(1) 5(1) 6(1) by simp
qed

lemma DNS_write_wire:
  assumes wf: "wf_dns d" and opts: "FixLengths opts" and len: "length w = 12 + DNS_size d"
  shows "DNS_write opts d w = Some (dns_wire d, fixed_counts d, None)"
proof -
  let ?q = "concat (map q_wire (dns_Questions d))" and ?a = "concat (map rr_wire (dns_Answers d))" and ?n = "concat (map rr_wire (dns_Authorities d))"
  let ?r = "concat (map rr_wire (dns_Additionals d))" and ?d = "fixed_counts d"
  have size: "DNS_size d = length ?q + (length ?a + (length ?n + length ?r))"
    using wf by (simp add: DNS_size_def wf_dns_def questions_size computeSize_wire)
  let ?w6 = "be16 (dns_ID d) @ DNS_flags d @ be16 (dns_QDCount ?d) @ be16 (dns_ANCount ?d) @ be16 (dns_NSCount ?d) @ be16 (dns_ARCount ?d)"
  obtain j6 where 6: "DNS_write_header d ?d w = Some (?w6 @ j6)" "length j6 = length ?q + (length ?a + (length ?n + length ?r))"
    using DNS_write_header_wire [OF len [unfolded size], of d ?d] by blast
  obtain k1 j7 where 7: "j6 = k1 @ j7" "length k1 = length ?q" "length j7 = length ?a + (length ?n + length ?r)" using cut_junk [OF 6(2)] by blast
  obtain k2 j8 where 8: "j7 = k2 @ j8" "length k2 = length ?a" "length j8 = length ?n + length ?r" using cut_junk [OF 7(3)] by blast
  obtain k3 k4 where 9: "j8 = k3 @ k4" "length k3 = length ?n" "length k4 = length ?r" using cut_junk [OF 8(3)] by blast
  have fixed: "map (fix_length opts) rrs = rrs" if "\<forall>rr \<in> set rrs. wf_rr rr" for rrs using that by (intro map_idI) (simp add: fix_length_wf)
  have rd: "\<forall>rr \<in> set rrs. wf_rr rr \<Longrightarrow> \<forall>rr \<in> set rrs. wf_rdata rr" for rrs by (auto simp: wf_rr_def)
  have w: "\<forall>rr \<in> set (dns_Answers d). wf_rr rr" "\<forall>rr \<in> set (dns_Authorities d). wf_rr rr" "\<forall>rr \<in> set (dns_Additionals d). wf_rr rr"
    using wf by (auto simp: wf_dns_def)
  have Q: "encode_questions (dns_Questions d) (?w6 @ j6) 12 = Some ((?w6 @ ?q) @ k2 @ k3 @ k4, length (?w6 @ ?q))"
    using encode_questions_wire [OF 7(2), of ?w6 "k2 @ k3 @ k4"] 7(1) 8(1) 9(1) by simp
  have A: "encode_rrs opts (dns_Answers d) ((?w6 @ ?q) @ k2 @ k3 @ k4) (length (?w6 @ ?q)) = Some ((?w6 @ ?q @ ?a) @ k3 @ k4, dns_Answers d, Inr (length (?w6 @ ?q @ ?a)))"
    using encode_rrs_wire [OF rd [OF w(1)] 8(2), of opts "?w6 @ ?q" "k3 @ k4"] fixed [OF w(1)] by simp
  have N: "encode_rrs opts (dns_Authorities d) ((?w6 @ ?q @ ?a) @ k3 @ k4) (length (?w6 @ ?q @ ?a)) =
      Some ((?w6 @ ?q @ ?a @ ?n) @ k4, dns_Authorities d, Inr (length (?w6 @ ?q @ ?a @ ?n)))"
    using encode_rrs_wire [OF rd [OF w(2)] 9(2), of opts "?w6 @ ?q @ ?a" k4] fixed [OF w(2)] by simp
  have R: "encode_rrs opts (dns_Additionals d) ((?w6 @ ?q @ ?a @ ?n) @ k4) (length (?w6 @ ?q @ ?a @ ?n)) =
      Some (?w6 @ ?q @ ?a @ ?n @ ?r, dns_Additionals d, Inr (length (?w6 @ ?q @ ?a @ ?n @ ?r)))"
    using encode_rrs_wire [OF rd [OF w(3)] 9(3), of opts "?w6 @ ?q @ ?a @ ?n" "[]"] fixed [OF w(3)] by simp
  have e: "(if FixLengths opts then d\<lparr>dns_QDCount := of_nat (length (dns_Questions d)), dns_ANCount := of_nat (length (dns_Answers d)),
                      dns_NSCount := of_nat (length (dns_Authorities d)), dns_ARCount := of_nat (length (dns_Additionals d))\<rparr> else d) = ?d"
    using opts by (simp add: fixed_counts_def)
  have s: "dns_Questions ?d = dns_Questions d" "dns_Answers ?d = dns_Answers d" "dns_Authorities ?d = dns_Authorities d" "dns_Additionals ?d = dns_Additionals d"
    by (simp_all add: fixed_counts_def)
  have upd: "?d\<lparr>dns_Answers := dns_Answers d, dns_Authorities := dns_Authorities d, dns_Additionals := dns_Additionals d\<rparr> = ?d"
    by (simp add: fixed_counts_def)
  show ?thesis
    unfolding DNS_write_def e Let_def 6(1) Option.bind.simps s Q split_conv A sum.case N R upd
    by (simp add: dns_wire_def fixed_counts_def)
qed


lemma b2i_bits: "bit (of_int (b2i b) :: byte) n = (b \<and> n = 0)"
  by (auto simp: b2i_def bit_1_iff)

lemma flag_byte2:
  assumes "op < (16 :: byte)"
    and "w = (of_int (push_bit 7 (b2i q) OR push_bit 3 (uint op) OR push_bit 2 (b2i a) OR push_bit 1 (b2i t) OR b2i r) :: byte)"
  shows "(w AND 0x80 \<noteq> 0) = q" "drop_bit 3 w AND 0x0F = op" "(w AND 0x04 \<noteq> 0) = a" "(w AND 0x02 \<noteq> 0) = t" "(w AND 0x01 \<noteq> 0) = r"
proof -
  have small: "\<not> bit op n" if "4 \<le> n" for n using assms(1) that by (intro not_bit_small [of _ 4]) (simp_all add: word_less_nat_alt)
  have "w = push_bit 7 (of_int (b2i q)) OR push_bit 3 op OR push_bit 2 (of_int (b2i a)) OR push_bit 1 (of_int (b2i t)) OR of_int (b2i r)"
    unfolding assms(2) by (simp only: of_int_or_eq of_int_push_bit of_int_uint ucast_id)
  then have b: "bit w n = ((7 \<le> n \<and> n < 8 \<and> q \<and> n - 7 = 0) \<or> (3 \<le> n \<and> n < 8 \<and> bit op (n - 3)) \<or> (2 \<le> n \<and> n < 8 \<and> a \<and> n - 2 = 0) \<or> (1 \<le> n \<and> n < 8 \<and> t \<and> n - 1 = 0) \<or> (r \<and> n = 0))" for n
    by (simp only: bit_or_iff bit_push_bit_iff possible_bit_word b2i_bits) (simp add: conj_ac disj_assoc)
  show "(w AND 0x80 \<noteq> 0) = q" using word_nonzero_bit [of w 7] b [of 7] small [of 4] by simp
  show "(w AND 0x04 \<noteq> 0) = a" using word_nonzero_bit [of w 2] b [of 2] by simp
  show "(w AND 0x02 \<noteq> 0) = t" using word_nonzero_bit [of w 1] b [of 1] by simp
  show "(w AND 0x01 \<noteq> 0) = r" using word_nonzero_bit [of w 0] b [of 0] by simp
  show "drop_bit 3 w AND 0x0F = op"
    by (rule and_mask_eqI [of _ 4]) (auto simp: mask_eq_exp_minus_1 bit_drop_bit_eq b small)
qed
lemma flag_byte3:
  assumes "z < (8 :: byte)" "rc < (16 :: byte)" and "w = (of_int (push_bit 7 (b2i r) OR push_bit 4 (uint z) OR uint rc) :: byte)"
  shows "(w AND 0x80 \<noteq> 0) = r" "drop_bit 4 w AND 0x7 = z" "w AND 0xF = rc"
proof -
  have small: "\<not> bit z n" if "3 \<le> n" for n using assms(1) that by (intro not_bit_small [of _ 3]) (simp_all add: word_less_nat_alt)
  have small': "\<not> bit rc n" if "4 \<le> n" for n using assms(2) that by (intro not_bit_small [of _ 4]) (simp_all add: word_less_nat_alt)
  have "w = push_bit 7 (of_int (b2i r)) OR push_bit 4 z OR rc"
    unfolding assms(3) by (simp only: of_int_or_eq of_int_push_bit of_int_uint ucast_id)
  then have b: "bit w n = ((7 \<le> n \<and> n < 8 \<and> r \<and> n - 7 = 0) \<or> (4 \<le> n \<and> n < 8 \<and> bit z (n - 4)) \<or> bit rc n)" for n
    by (simp only: bit_or_iff bit_push_bit_iff possible_bit_word b2i_bits) (simp add: conj_ac disj_assoc)
  show "(w AND 0x80 \<noteq> 0) = r" using word_nonzero_bit [of w 7] b [of 7] small [of 3] small' [of 7] by simp
  show "drop_bit 4 w AND 0x7 = z"
    by (rule and_mask_eqI [of _ 3]) (auto simp: mask_eq_exp_minus_1 bit_drop_bit_eq b small small')
  show "w AND 0xF = rc"
    by (rule and_mask_eqI [of _ 4]) (auto simp: mask_eq_exp_minus_1 b small small')
qed

lemma DNS_header_wire:
  assumes "wf_dns d"
  shows "DNS_header d0 (dns_wire d) = Some ((fixed_counts d)\<lparr>Contents := dns_wire d, Payload := [],
    dns_Questions := [], dns_Answers := [], dns_Authorities := [], dns_Additionals := []\<rparr>)"
proof -
  obtain f2 f3 where f: "DNS_flags d = [f2, f3]" by (simp add: DNS_flags_def)
  have w: "dns_OpCode d < 16" "dns_Z d < 8" "dns_ResponseCode d < 16" using assms by (simp_all add: wf_dns_def)
  have "f2 = of_int (push_bit 7 (b2i (dns_QR d)) OR push_bit 3 (uint (dns_OpCode d)) OR push_bit 2 (b2i (dns_AA d)) OR push_bit 1 (b2i (dns_TC d)) OR b2i (dns_RD d))"
    "f3 = of_int (push_bit 7 (b2i (dns_RA d)) OR push_bit 4 (uint (dns_Z d)) OR uint (dns_ResponseCode d))" using f by (simp_all only: DNS_flags_def list.inject)
  note b = flag_byte2 [OF w(1) this(1)] flag_byte3 [OF w(2,3) this(2)]
  let ?D = "dns_wire d" let ?h = "be16 (dns_ID d) @ DNS_flags d"
  let ?q = "be16 (of_nat (length (dns_Questions d)))" and ?a = "be16 (of_nat (length (dns_Answers d)))" and ?n = "be16 (of_nat (length (dns_Authorities d)))"
  have u: "u16_at ?D 0 = Some (dns_ID d)" "u16_at ?D 4 = Some (of_nat (length (dns_Questions d)))" "u16_at ?D 6 = Some (of_nat (length (dns_Answers d)))"
    "u16_at ?D 8 = Some (of_nat (length (dns_Authorities d)))" "u16_at ?D 10 = Some (of_nat (length (dns_Additionals d)))"
    using u16_at_mid [of 0 "[]" "dns_ID d"] u16_at_mid [of 4 ?h "of_nat (length (dns_Questions d))"]
      u16_at_mid [of 6 "?h @ ?q" "of_nat (length (dns_Answers d))"] u16_at_mid [of 8 "?h @ ?q @ ?a" "of_nat (length (dns_Authorities d))"]
      u16_at_mid [of 10 "?h @ ?q @ ?a @ ?n" "of_nat (length (dns_Additionals d))"] by (simp_all add: dns_wire_def)
  have i: "idx ?D 2 = Some f2" "idx ?D 3 = Some f3" by (simp_all add: dns_wire_def f be16_def idx_def)
  show ?thesis unfolding DNS_header_def u i Option.bind.simps b by (rule arg_cong [where f = Some], rule DNS.equality) (simp_all add: fixed_counts_def)
qed

lemma DNS_decode_wire:
  assumes "wf_dns d"
  shows "DNS_DecodeFromBytes d0 (dns_wire d) df = Some ((fixed_counts d)\<lparr>Contents := dns_wire d, Payload := []\<rparr>, df, None)"
proof -
  let ?D = "dns_wire d" and ?Q = "dns_Questions d" and ?A = "dns_Answers d" and ?N = "dns_Authorities d" and ?R = "dns_Additionals d"
  let ?q = "concat (map q_wire ?Q)" and ?a = "concat (map rr_wire ?A)" and ?n = "concat (map rr_wire ?N)" and ?r = "concat (map rr_wire ?R)"
  let ?h = "be16 (dns_ID d) @ DNS_flags d @ be16 (of_nat (length ?Q)) @ be16 (of_nat (length ?A)) @ be16 (of_nat (length ?N)) @ be16 (of_nat (length ?R))"
  have w: "\<forall>q \<in> set ?Q. wf_name (q_Name q)" "\<forall>rr \<in> set ?A. wf_rr rr" "\<forall>rr \<in> set ?N. wf_rr rr" "\<forall>rr \<in> set ?R. wf_rr rr"
    and rc: "foldl extended_rcode (dns_ResponseCode d) ?R = dns_ResponseCode d" using assms by (auto simp: wf_dns_def)
  have u: "unat (of_nat (length ?Q) :: u16) = length ?Q" "unat (of_nat (length ?A) :: u16) = length ?A"
    "unat (of_nat (length ?N) :: u16) = length ?N" "unat (of_nat (length ?R) :: u16) = length ?R"
    using assms by (simp_all add: wf_dns_def unat_of_nat_u16)
  have h: "length ?h = 12" "\<not> length ?D < 12" by (simp_all add: dns_wire_def)
  have Q: "decode_items q_decode (length ?Q) ?D 12 = Some (?Q, length (?h @ ?q), None)"
    using questions.items_wire [OF w(1), of ?h "?a @ ?n @ ?r"] h(1) by (simp add: dns_wire_def)
  have A: "decode_items rr_decode (length ?A) ?D (length (?h @ ?q)) = Some (?A, length (?h @ ?q @ ?a), None)"
    using records.items_wire [OF w(2), of "?h @ ?q" "?n @ ?r"] by (simp add: dns_wire_def add.assoc)
  have N: "decode_items rr_decode (length ?N) ?D (length (?h @ ?q @ ?a)) = Some (?N, length (?h @ ?q @ ?a @ ?n), None)"
    using records.items_wire [OF w(3), of "?h @ ?q @ ?a" "?r"] by (simp add: dns_wire_def add.assoc)
  have R: "decode_items rr_decode (length ?R) ?D (length (?h @ ?q @ ?a @ ?n)) = Some (?R, length (?h @ ?q @ ?a @ ?n @ ?r), None)"
    using records.items_wire [OF w(4), of "?h @ ?q @ ?a @ ?n" "[]"] by (simp add: dns_wire_def add.assoc)
  let ?d1 = "(fixed_counts d)\<lparr>Contents := ?D, Payload := [], dns_Questions := [], dns_Answers := [], dns_Authorities := [], dns_Additionals := []\<rparr>"
  have c: "unat (dns_QDCount ?d1) = length ?Q" "unat (dns_ANCount ?d1) = length ?A" "unat (dns_NSCount ?d1) = length ?N" "unat (dns_ARCount ?d1) = length ?R"
    using u by (simp_all add: fixed_counts_def)
  have eq: "?d1\<lparr>dns_Questions := ?Q, dns_Answers := ?A, dns_Authorities := ?N, dns_Additionals := ?R,
      dns_ResponseCode := foldl extended_rcode (dns_ResponseCode (?d1\<lparr>dns_Questions := ?Q, dns_Answers := ?A, dns_Authorities := ?N\<rparr>)) ?R\<rparr> =
      (fixed_counts d)\<lparr>Contents := ?D, Payload := []\<rparr>"
    by (rule DNS.equality) (simp_all add: fixed_counts_def rc)
  have ce: "count_error ((fixed_counts d)\<lparr>Contents := ?D, Payload := []\<rparr>) = None" by (simp add: count_error_def fixed_counts_def)
  show ?thesis
    unfolding DNS_DecodeFromBytes_def DNS_header_wire [OF assms] Option.bind.simps Let_def c Q A N R split_conv eq ce using h(2) by simp
qed

text \<open>C30. A DNS message of any number of questions and records of the types A, AAAA, NS, CNAME, PTR, SOA, MX, TXT, SRV, URI and OPT
  survives the wire: the serializer succeeds, puts the message in front of the bytes of the buffer and sets the counts, and
  the decoder reads from these bytes the same header, questions and records.\<close>

theorem DNS_roundtrip:
  assumes "wf_dns d" and "sb_inv b" and "FixLengths opts"
  shows "\<exists>b'. DNS_SerializeTo d b opts = Some (fixed_counts d, b', None) \<and> sb_inv b' \<and> Bytes b' = dns_wire d @ Bytes b
    \<and> DNS_DecodeFromBytes d0 (dns_wire d) df = Some ((fixed_counts d)\<lparr>Contents := dns_wire d, Payload := []\<rparr>, df, None)"
proof -
  let ?n = "12 + DNS_size d"
  have len: "length (dns_wire d) = ?n" using assms(1) by (simp add: dns_wire_def DNS_size_def wf_dns_def questions_size computeSize_wire)
  obtain b1 where b1: "PrependBytes b (int ?n) = Some b1" "length (take ?n (Bytes b1)) = ?n"
    "sb_inv (store_front b1 (dns_wire d))" "Bytes (store_front b1 (dns_wire d)) = dns_wire d @ Bytes b"
    using PrependBytes_obtain [OF assms(2), of ?n] len by metis
  show ?thesis
    using b1(3,4) DNS_decode_wire [OF assms(1), of d0 df]
    unfolding DNS_SerializeTo_def b1(1) Option.bind.simps DNS_write_wire [OF assms(1,3) b1(2)] split_conv by blast
qed

definition example_mx :: DNSResourceRecord where
  "example_mx = rr_canonical (zero_RR\<lparr>rr_Name := [97, 46, 98, 99], rr_Type := DNSTypeMX, rr_Class := 1, rr_TTL := 60,
     rr_MX := \<lparr>mx_Preference = 10, mx_Name = [109, 46, 98, 99]\<rparr>\<rparr>)"

definition example_a :: DNSResourceRecord where
  "example_a = rr_canonical (zero_RR\<lparr>rr_Name := [109, 46, 98, 99], rr_Type := DNSTypeA, rr_Class := 1, rr_IP := [10, 0, 0, 1]\<rparr>)"

definition example_dns :: DNS where
  "example_dns = zero_DNS\<lparr>dns_ID := 7, dns_QR := True, dns_RD := True, dns_OpCode := 2, dns_Z := 5, dns_ResponseCode := 3,
     dns_Questions := [\<lparr>q_Name = [97, 46, 98, 99], q_Type = DNSTypeMX, q_Class = 1\<rparr>],
     dns_Answers := [example_mx], dns_Additionals := [example_a]\<rparr>"

lemma example_names [simp]: "wf_name [97, 46, 98, 99]" "wf_name [109, 46, 98, 99]"
  by code_simp+

lemma wf_example_records [simp]: "wf_rr example_mx" "wf_rr example_a"
proof -
  have "wf_rdata example_mx" "wf_rdata example_a" "length (rdata_wire example_mx) \<le> 65535" "length (rdata_wire example_a) \<le> 65535"
    by (simp_all add: example_mx_def example_a_def rr_canonical_def rr_base_def wf_rdata_def rdata_wire_def length_name_wire)
  moreover have "rr_canonical example_mx = example_mx" "rr_canonical example_a = example_a"
    by (simp_all add: example_mx_def example_a_def rr_canonical_def rr_base_def rdata_wire_def)
  moreover have "rr_Name example_mx = [97, 46, 98, 99]" "rr_Name example_a = [109, 46, 98, 99]"
    by (simp_all add: example_mx_def example_a_def rr_canonical_def rr_base_def)
  ultimately show "wf_rr example_mx" "wf_rr example_a" by (simp_all add: wf_rr_def)
qed

lemma wf_example_dns: "wf_dns example_dns"
proof -
  have "rr_Type example_a = 1" by (simp add: example_a_def rr_canonical_def rr_base_def)
  then show ?thesis by (simp add: wf_dns_def example_dns_def zero_DNS_def extended_rcode_def)
qed

theorem DNS_roundtrip_witness:
  "wf_dns example_dns \<and> (\<exists>b'. DNS_SerializeTo example_dns NewSerializeBuffer \<lparr>FixLengths = True, ComputeChecksums = False\<rparr>
       = Some (fixed_counts example_dns, b', None) \<and> Bytes b' = dns_wire example_dns
     \<and> DNS_DecodeFromBytes zero_DNS (dns_wire example_dns) False =
         Some ((fixed_counts example_dns)\<lparr>Contents := dns_wire example_dns, Payload := []\<rparr>, False, None))"
proof -
  from wf_example_dns DNS_roundtrip [of example_dns NewSerializeBuffer "\<lparr>FixLengths = True, ComputeChecksums = False\<rparr>" zero_DNS False] show ?thesis by auto
qed

text \<open>A question for the root is counted as six bytes but written as five: the message ends with a byte of the buffer that was never
  written, here 9, and the same bytes with any other last byte decode alike.\<close>

lemma root_question_stale_byte:
  "map_option (\<lambda>(w, _, err). (w, err)) (DNS_write \<lparr>FixLengths = True, ComputeChecksums = False\<rparr>
       (zero_DNS\<lparr>dns_Questions := [\<lparr>q_Name = [], q_Type = DNSTypeNS, q_Class = 1\<rparr>]\<rparr>) (replicate (12 + 6) 9)) =
     Some ([0, 0, 0, 0, 0, 1, 0, 0, 0, 0, 0, 0, 0, 0, 2, 0, 1, 9], None)"
  "DNS_size (zero_DNS\<lparr>dns_Questions := [\<lparr>q_Name = [], q_Type = DNSTypeNS, q_Class = 1\<rparr>]\<rparr>) = 6"
  by code_simp+

end
