(* ===== verification/Layer_Link.thy ===== *)
theory Layer_Link
  imports Layer_Base
begin

section \<open>Link layers and ARP\<close>

text \<open>
  PPP (\<^verbatim>\<open>layers/ppp.go\<close>), PPPoE (\<^verbatim>\<open>pppoe.go\<close>), LLC and SNAP (\<^verbatim>\<open>llc.go\<close>), BSD loopback (\<^verbatim>\<open>loopback.go\<close>), Linux cooked
  captures (\<^verbatim>\<open>linux_sll.go\<close>), FDDI (\<^verbatim>\<open>fddi.go\<close>) and ARP (\<^verbatim>\<open>arp.go\<close>). The locale \<open>header_codec\<close> is the contract of a layer
  with serializer and decoder; the layers with both interpret it. Three decoders compute the end of a slice from a
  length field without a check, so the bytes behind the slice in its array are an argument of these.
\<close>

abbreviation (input) LayerTypeLLC :: LayerType where "LayerTypeLLC \<equiv> 22"
abbreviation (input) LayerTypeSNAP :: LayerType where "LayerTypeSNAP \<equiv> 23"
abbreviation (input) LayerTypePPP :: LayerType where "LayerTypePPP \<equiv> 25"
abbreviation (input) LayerTypePPPoE :: LayerType where "LayerTypePPPoE \<equiv> 26"
abbreviation (input) LayerTypeFDDI :: LayerType where "LayerTypeFDDI \<equiv> 53"
abbreviation (input) LayerTypeLoopback :: LayerType where "LayerTypeLoopback \<equiv> 54"
abbreviation (input) LayerTypeLinuxSLL :: LayerType where "LayerTypeLinuxSLL \<equiv> 113"
abbreviation (input) LayerTypeSTP :: LayerType where "LayerTypeSTP \<equiv> 121"
abbreviation (input) EndpointPPP :: EndpointType where "EndpointPPP \<equiv> 9"

abbreviation base_layer :: "LayerType \<Rightarrow> 'x BaseLayer_scheme \<Rightarrow> Layer" where
  "base_layer t l \<equiv> \<lparr>ly_type = t, ly_contents = Contents l, ly_payload = Payload l\<rparr>"

abbreviation with_base :: "'x BaseLayer_scheme \<Rightarrow> bytes \<Rightarrow> bytes \<Rightarrow> 'x BaseLayer_scheme" where
  "with_base l c p \<equiv> l\<lparr>Contents := c, Payload := p\<rparr>"

subsection \<open>PPP\<close>

record PPP = BaseLayer +
  ppp_PPPType :: u16
  ppp_HasPPTPHeader :: bool

definition PPP_LinkFlow :: "PPP \<Rightarrow> Flow option" where
  "PPP_LinkFlow p = NewFlow EndpointPPP [] []"

text \<open>The struct \<^verbatim>\<open>decodePPP\<close> builds, or its error.\<close>

definition ppp_of :: "bytes \<Rightarrow> (goerr + PPP) option" where
  "ppp_of data = do {
     d0 \<leftarrow> idx data 0;
     pptp \<leftarrow> (if d0 = 0xff then do { d1 \<leftarrow> idx data 1; Some (d1 = 0x03) } else Some False);
     let offset = (if pptp then 2 else 0);
     b \<leftarrow> idx data offset;
     if b AND 0x1 = 0
     then do {
       b1 \<leftarrow> idx data (offset + 1);
       if b1 AND 0x1 = 0 then Some (Inl (Errorf ''PPP has invalid type'' []))
       else do {
         t \<leftarrow> u16_at data offset; c \<leftarrow> slice data offset (offset + 2); p \<leftarrow> slice data (offset + 2) (length data);
         Some (Inr \<lparr>Contents = c, Payload = p, ppp_PPPType = t, ppp_HasPPTPHeader = pptp\<rparr>) } }
     else do {
       c \<leftarrow> slice data offset (offset + 1); p \<leftarrow> slice data (offset + 1) (length data);
       Some (Inr \<lparr>Contents = c, Payload = p, ppp_PPPType = ucast b, ppp_HasPPTPHeader = pptp\<rparr>) } }"

definition decodePPP :: "bytes \<Rightarrow> decode_step" where
  "decodePPP data = steps_or_panic (do {
     r \<leftarrow> ppp_of data;
     Some (case r of
         Inl e \<Rightarrow> ([], Return (Some e))
       | Inr ppp \<Rightarrow> ([AddLayer (base_layer LayerTypePPP ppp), SetLinkLayer (base_layer LayerTypePPP ppp)], NextDecoder (ByPPPType (ppp_PPPType ppp)))) })"

definition PPP_SerializeTo :: "PPP \<Rightarrow> serializeBuffer \<Rightarrow> SerializeOptions \<Rightarrow> PPP serialized" where
  "PPP_SerializeTo p b opts = do {
     b1 \<leftarrow> (if ppp_PPPType p AND 0x100 = 0
             then do { b1 \<leftarrow> PrependBytes b 2; w \<leftarrow> write_at (take 2 (Bytes b1)) 0 (be16 (ppp_PPPType p)); Some (store_front b1 w) }
             else do { b1 \<leftarrow> PrependBytes b 1; w \<leftarrow> write_at (take 1 (Bytes b1)) 0 [ucast (ppp_PPPType p)]; Some (store_front b1 w) });
     if ppp_HasPPTPHeader p
     then do { b2 \<leftarrow> PrependBytes b1 2; w \<leftarrow> write_at (take 2 (Bytes b2)) 0 [0xff, 0x03]; Some (p, store_front b2 w, None) }
     else Some (p, b1, None) }"

subsection \<open>PPPoE\<close>

record PPPoE = BaseLayer +
  poe_Version :: u8
  poe_Type :: u8
  poe_Code :: u8
  poe_SessionId :: u16
  poe_Length :: u16

definition pppoe_of :: "bytes \<Rightarrow> bytes \<Rightarrow> PPPoE option" where
  "pppoe_of spare data = do {
     b0 \<leftarrow> idx data 0; b1 \<leftarrow> idx data 1;
     s2 \<leftarrow> slice_cap data spare 2 4; sid \<leftarrow> get_be16 s2;
     s4 \<leftarrow> slice_cap data spare 4 6; len \<leftarrow> get_be16 s4;
     c \<leftarrow> slice_cap data spare 0 6;
     p \<leftarrow> slice_cap data spare 6 (unat (6 + len));
     Some \<lparr>Contents = c, Payload = p, poe_Version = drop_bit 4 b0, poe_Type = b0 AND 0x0F, poe_Code = b1, poe_SessionId = sid, poe_Length = len\<rparr> }"

definition decodePPPoE :: "bytes \<Rightarrow> bytes \<Rightarrow> decode_step" where
  "decodePPPoE spare data = steps_or_panic (do {
     pppoe \<leftarrow> pppoe_of spare data;
     Some ([AddLayer (base_layer LayerTypePPPoE pppoe)], NextDecoder (ByPPPoECode (poe_Code pppoe))) })"

definition PPPoE_SerializeTo :: "PPPoE \<Rightarrow> serializeBuffer \<Rightarrow> SerializeOptions \<Rightarrow> PPPoE serialized" where
  "PPPoE_SerializeTo p b opts = do {
     b1 \<leftarrow> PrependBytes b 6;
     w1 \<leftarrow> write_at (take 6 (Bytes b1)) 0 [push_bit 4 (poe_Version p) OR poe_Type p];
     w2 \<leftarrow> write_at w1 1 [poe_Code p];
     w3 \<leftarrow> write_at w2 2 (be16 (poe_SessionId p));
     let p1 = (if FixLengths opts then p\<lparr>poe_Length := of_nat (length (Bytes b))\<rparr> else p);
     w4 \<leftarrow> write_at w3 4 (be16 (poe_Length p1));
     Some (p1, store_front b1 w4, None) }"

subsection \<open>LLC and SNAP\<close>

record LLC = BaseLayer +
  llc_DSAP :: u8
  llc_IG :: bool
  llc_SSAP :: u8
  llc_CR :: bool
  llc_Control :: u16

definition zero_LLC :: LLC where
  "zero_LLC = \<lparr>Contents = [], Payload = [], llc_DSAP = 0, llc_IG = False, llc_SSAP = 0, llc_CR = False, llc_Control = 0\<rparr>"

definition LLC_DecodeFromBytes :: "LLC \<Rightarrow> bytes \<Rightarrow> bool \<Rightarrow> LLC decoded" where
  "LLC_DecodeFromBytes l data df =
     (if length data < 3 then Some (l, df, Some (Errorf ''LLC header too small'' []))
      else do {
        b0 \<leftarrow> idx data 0; b1 \<leftarrow> idx data 1; b2 \<leftarrow> idx data 2;
        let l1 = l\<lparr>llc_DSAP := b0 AND 0xFE, llc_IG := (b0 AND 0x1 \<noteq> 0), llc_SSAP := b1 AND 0xFE, llc_CR := (b1 AND 0x1 \<noteq> 0), llc_Control := ucast b2\<rparr>;
        if llc_Control l1 AND 0x1 = 0 \<or> llc_Control l1 AND 0x3 = 0x1
        then if length data < 4 then Some (l1, df, Some (Errorf ''LLC header too small'' []))
             else do {
               b3 \<leftarrow> idx data 3; c \<leftarrow> slice data 0 4; p \<leftarrow> slice data 4 (length data);
               Some (l1\<lparr>llc_Control := push_bit 8 (llc_Control l1) OR ucast b3, Contents := c, Payload := p\<rparr>, df, None) }
        else do {
          c \<leftarrow> slice data 0 3; p \<leftarrow> slice data 3 (length data);
          Some (l1\<lparr>Contents := c, Payload := p\<rparr>, df, None) } })"

definition LLC_NextLayerType :: "LLC \<Rightarrow> LayerType" where
  "LLC_NextLayerType l =
     (if llc_DSAP l = 0xAA \<and> llc_SSAP l = 0xAA then LayerTypeSNAP
      else if llc_DSAP l = 0x42 \<and> llc_SSAP l = 0x42 then LayerTypeSTP
      else LayerTypeZero)"

definition decodeLLC :: "bytes \<Rightarrow> decode_step" where
  "decodeLLC data =
     (case LLC_DecodeFromBytes zero_LLC data False of
        None \<Rightarrow> ([], Panics)
      | Some (l, t, Some e) \<Rightarrow> (truncation t, Return (Some e))
      | Some (l, t, None) \<Rightarrow> (truncation t @ [AddLayer (base_layer LayerTypeLLC l)], NextDecoder (ByLayerType (LLC_NextLayerType l))))"

definition LLC_SerializeTo :: "LLC \<Rightarrow> serializeBuffer \<Rightarrow> SerializeOptions \<Rightarrow> LLC serialized" where
  "LLC_SerializeTo l b opts =
     (let len = (if llc_Control l AND 0xFF00 \<noteq> 0 then 4 else 3) in
      if llc_DSAP l AND 0x1 \<noteq> 0 then Some (l, b, Some (Errorf ''DSAP value invalid, should not include IG flag bit'' []))
      else if llc_SSAP l AND 0x1 \<noteq> 0 then Some (l, b, Some (Errorf ''SSAP value invalid, should not include CR flag bit'' []))
      else do {
        b1 \<leftarrow> PrependBytes b (int len);
        let igFlag = (if llc_IG l then 0x1 else 0);
        let crFlag = (if llc_CR l then 0x1 else 0);
        w1 \<leftarrow> write_at (take len (Bytes b1)) 0 [llc_DSAP l + igFlag];
        w2 \<leftarrow> write_at w1 1 [llc_SSAP l + crFlag];
        w3 \<leftarrow> (if len = 4 then do { w3 \<leftarrow> write_at w2 2 [ucast (drop_bit 8 (llc_Control l))]; write_at w3 3 [ucast (llc_Control l)] }
               else write_at w2 2 [ucast (llc_Control l)]);
        Some (l, store_front b1 w3, None) })"

record SNAP = BaseLayer +
  snap_OrganizationalCode :: bytes
  snap_Type :: u16

definition zero_SNAP :: SNAP where
  "zero_SNAP = \<lparr>Contents = [], Payload = [], snap_OrganizationalCode = [], snap_Type = 0\<rparr>"

definition SNAP_DecodeFromBytes :: "SNAP \<Rightarrow> bytes \<Rightarrow> bool \<Rightarrow> SNAP decoded" where
  "SNAP_DecodeFromBytes s data df =
     (if length data < 5 then Some (s, df, Some (Errorf ''SNAP header too small'' []))
      else do {
        oc \<leftarrow> slice data 0 3; t \<leftarrow> u16_at data 3; c \<leftarrow> slice data 0 5; p \<leftarrow> slice data 5 (length data);
        Some (s\<lparr>snap_OrganizationalCode := oc, snap_Type := t, Contents := c, Payload := p\<rparr>, df, None) })"

definition SNAP_NextLayerType :: "SNAP \<Rightarrow> LayerType" where
  "SNAP_NextLayerType s = EthernetType_LayerType (snap_Type s)"

definition decodeSNAP :: "bytes \<Rightarrow> decode_step" where
  "decodeSNAP data =
     (case SNAP_DecodeFromBytes zero_SNAP data False of
        None \<Rightarrow> ([], Panics)
      | Some (s, t, Some e) \<Rightarrow> (truncation t, Return (Some e))
      | Some (s, t, None) \<Rightarrow> (truncation t @ [AddLayer (base_layer LayerTypeSNAP s)], NextDecoder (ByEthernetType (snap_Type s))))"

definition SNAP_SerializeTo :: "SNAP \<Rightarrow> serializeBuffer \<Rightarrow> SerializeOptions \<Rightarrow> SNAP serialized" where
  "SNAP_SerializeTo s b opts = do {
     b1 \<leftarrow> PrependBytes b 5;
     o0 \<leftarrow> idx (snap_OrganizationalCode s) 0; w1 \<leftarrow> write_at (take 5 (Bytes b1)) 0 [o0];
     o1 \<leftarrow> idx (snap_OrganizationalCode s) 1; w2 \<leftarrow> write_at w1 1 [o1];
     o2 \<leftarrow> idx (snap_OrganizationalCode s) 2; w3 \<leftarrow> write_at w2 2 [o2];
     w4 \<leftarrow> write_at w3 3 (be16 (snap_Type s));
     Some (s, store_front b1 w4, None) }"

subsection \<open>BSD loopback\<close>

record Loopback = BaseLayer +
  lb_Family :: u8

definition Loopback_DecodeFromBytes :: "Loopback \<Rightarrow> bytes \<Rightarrow> bool \<Rightarrow> Loopback decoded" where
  "Loopback_DecodeFromBytes l data df =
     (if length data < 4 then Some (l, df, Some (Errorf ''Loopback packet too small'' []))
      else do {
        b0 \<leftarrow> idx data 0; b1 \<leftarrow> idx data 1; f \<leftarrow> slice data 0 4;
        prot \<leftarrow> (if b0 = 0 \<and> b1 = 0 then get_be32 f else get_le32 f);
        if prot > 0xFF then Some (l, df, Some (Errorf ''Invalid loopback protocol %q'' (map uint f)))
        else do {
          p \<leftarrow> slice data 4 (length data);
          Some (l\<lparr>lb_Family := ucast prot, Contents := f, Payload := p\<rparr>, df, None) } })"

definition Loopback_NextLayerType :: "Loopback \<Rightarrow> LayerType" where
  "Loopback_NextLayerType l = ProtocolFamily_LayerType (lb_Family l)"

definition Loopback_SerializeTo :: "Loopback \<Rightarrow> serializeBuffer \<Rightarrow> SerializeOptions \<Rightarrow> Loopback serialized" where
  "Loopback_SerializeTo l b opts = do {
     b1 \<leftarrow> PrependBytes b 4;
     w \<leftarrow> write_at (take 4 (Bytes b1)) 0 (le32 (ucast (lb_Family l)));
     Some (l, store_front b1 w, None) }"

text \<open>The decoder gets a feedback that ignores \<^verbatim>\<open>SetTruncated\<close>.\<close>

definition decodeLoopback :: "bytes \<Rightarrow> decode_step" where
  "decodeLoopback data =
     (case Loopback_DecodeFromBytes \<lparr>Contents = [], Payload = [], lb_Family = 0\<rparr> data False of
        None \<Rightarrow> ([], Panics)
      | Some (l, _, Some e) \<Rightarrow> ([], Return (Some e))
      | Some (l, _, None) \<Rightarrow> ([AddLayer (base_layer LayerTypeLoopback l)], NextDecoder (ByProtocolFamily (lb_Family l))))"

subsection \<open>Linux cooked captures\<close>

record LinuxSLL = BaseLayer +
  sll_PacketType :: u16
  sll_AddrLen :: u16
  sll_Addr :: bytes
  sll_EthernetType :: u16
  sll_AddrType :: u16

definition LinuxSLL_LinkFlow :: "LinuxSLL \<Rightarrow> Flow option" where
  "LinuxSLL_LinkFlow sll = NewFlow EndpointMAC (sll_Addr sll) []"

definition LinuxSLL_NextLayerType :: "LinuxSLL \<Rightarrow> LayerType" where
  "LinuxSLL_NextLayerType sll = EthernetType_LayerType (sll_EthernetType sll)"

definition LinuxSLL_DecodeFromBytes :: "bytes \<Rightarrow> LinuxSLL \<Rightarrow> bytes \<Rightarrow> bool \<Rightarrow> LinuxSLL decoded" where
  "LinuxSLL_DecodeFromBytes spare sll data df =
     (if length data < 16 then Some (sll, df, Some (Errorf ''Linux SLL packet too small'' []))
      else do {
        pt \<leftarrow> u16_at data 0; at \<leftarrow> u16_at data 2; al \<leftarrow> u16_at data 4;
        a \<leftarrow> slice_cap data spare 6 (unat (al + 6));
        et \<leftarrow> u16_at data 14; c \<leftarrow> slice data 0 16; p \<leftarrow> slice data 16 (length data);
        Some (sll\<lparr>sll_PacketType := pt, sll_AddrType := at, sll_AddrLen := al, sll_Addr := a, sll_EthernetType := et,
                  Contents := c, Payload := p\<rparr>, df, None) })"

definition decodeLinuxSLL :: "bytes \<Rightarrow> bytes \<Rightarrow> decode_step" where
  "decodeLinuxSLL spare data =
     (case LinuxSLL_DecodeFromBytes spare \<lparr>Contents = [], Payload = [], sll_PacketType = 0, sll_AddrLen = 0, sll_Addr = [], sll_EthernetType = 0,
            sll_AddrType = 0\<rparr> data False of
        None \<Rightarrow> ([], Panics)
      | Some (l, t, Some e) \<Rightarrow> (truncation t, Return (Some e))
      | Some (l, t, None) \<Rightarrow>
          (truncation t @ [AddLayer (base_layer LayerTypeLinuxSLL l), SetLinkLayer (base_layer LayerTypeLinuxSLL l)],
           NextDecoder (ByEthernetType (sll_EthernetType l))))"

subsection \<open>FDDI\<close>

record FDDI = BaseLayer +
  fddi_FrameControl :: u8
  fddi_Priority :: u8
  fddi_SrcMAC :: bytes
  fddi_DstMAC :: bytes

definition FDDI_LinkFlow :: "FDDI \<Rightarrow> Flow option" where
  "FDDI_LinkFlow f = NewFlow EndpointMAC (fddi_SrcMAC f) (fddi_DstMAC f)"

definition fddi_of :: "bytes \<Rightarrow> FDDI option" where
  "fddi_of data = do {
     b0 \<leftarrow> idx data 0; s \<leftarrow> slice data 1 7; d \<leftarrow> slice data 7 13; c \<leftarrow> slice data 0 13; p \<leftarrow> slice data 13 (length data);
     Some \<lparr>Contents = c, Payload = p, fddi_FrameControl = b0 AND 0xF8, fddi_Priority = b0 AND 0x07, fddi_SrcMAC = s, fddi_DstMAC = d\<rparr> }"

definition decodeFDDI :: "bytes \<Rightarrow> decode_step" where
  "decodeFDDI data = steps_or_panic (do {
     f \<leftarrow> fddi_of data;
     Some ([SetLinkLayer (base_layer LayerTypeFDDI f), AddLayer (base_layer LayerTypeFDDI f)], NextDecoder (ByFDDIFrameControl (fddi_FrameControl f))) })"

subsection \<open>ARP\<close>

record ARP = BaseLayer +
  arp_AddrType :: u8
  arp_Protocol :: u16
  arp_HwAddressSize :: u8
  arp_ProtAddressSize :: u8
  arp_Operation :: u16
  arp_SourceHwAddress :: bytes
  arp_SourceProtAddress :: bytes
  arp_DstHwAddress :: bytes
  arp_DstProtAddress :: bytes

definition zero_ARP :: ARP where
  "zero_ARP = \<lparr>Contents = [], Payload = [], arp_AddrType = 0, arp_Protocol = 0, arp_HwAddressSize = 0, arp_ProtAddressSize = 0, arp_Operation = 0,
     arp_SourceHwAddress = [], arp_SourceProtAddress = [], arp_DstHwAddress = [], arp_DstProtAddress = []\<rparr>"

text \<open>The lengths are computed in eight bits.\<close>

definition ARP_DecodeFromBytes :: "bytes \<Rightarrow> ARP \<Rightarrow> bytes \<Rightarrow> bool \<Rightarrow> ARP decoded" where
  "ARP_DecodeFromBytes spare arp data df =
     (if length data < 8 then Some (arp, True, Some (Errorf ''ARP length %d too short'' [int (length data)]))
      else do {
        t \<leftarrow> u16_at data 0; pr \<leftarrow> u16_at data 2; h \<leftarrow> idx data 4; p \<leftarrow> idx data 5; op \<leftarrow> u16_at data 6;
        let arp1 = arp\<lparr>arp_AddrType := ucast t, arp_Protocol := pr, arp_HwAddressSize := h, arp_ProtAddressSize := p, arp_Operation := op\<rparr>;
        let arpLength = 8 + 2 * h + 2 * p;
        if length data < unat arpLength
        then Some (arp1, True, Some (Errorf ''ARP length %d too short, %d expected'' [int (length data), uint arpLength]))
        else do {
          sh \<leftarrow> slice_cap data spare 8 (unat (8 + h));
          sp \<leftarrow> slice_cap data spare (unat (8 + h)) (unat (8 + h + p));
          dh \<leftarrow> slice_cap data spare (unat (8 + h + p)) (unat (8 + 2 * h + p));
          dp \<leftarrow> slice_cap data spare (unat (8 + 2 * h + p)) (unat (8 + 2 * h + 2 * p));
          c \<leftarrow> slice data 0 (unat arpLength);
          pl \<leftarrow> slice data (unat arpLength) (length data);
          Some (arp1\<lparr>arp_SourceHwAddress := sh, arp_SourceProtAddress := sp, arp_DstHwAddress := dh, arp_DstProtAddress := dp,
                     Contents := c, Payload := pl\<rparr>, df, None) } })"

definition ARP_NextLayerType :: "ARP \<Rightarrow> LayerType" where
  "ARP_NextLayerType arp = LayerTypePayload"

definition decodeARP :: "bytes \<Rightarrow> bytes \<Rightarrow> decode_step" where
  "decodeARP spare data = decodingLayerDecoder (ARP_DecodeFromBytes spare zero_ARP data False) (base_layer LayerTypeARP) ARP_NextLayerType"

fun copy_addrs :: "bytes list \<Rightarrow> bytes \<Rightarrow> nat \<Rightarrow> bytes option" where
  "copy_addrs [] w start = Some w"
| "copy_addrs (addr # addrs) w start = do { w1 \<leftarrow> copy_at w start addr; copy_addrs addrs w1 (start + length addr) }"

text \<open>With \<^verbatim>\<open>FixLengths\<close> the sizes are set one after the other; an error leaves those already set.\<close>

definition ARP_fix :: "ARP \<Rightarrow> ARP \<times> goerr option" where
  "ARP_fix arp =
     (if length (arp_SourceHwAddress arp) \<noteq> length (arp_DstHwAddress arp) then (arp, Some (Errorf ''mismatched hardware address sizes'' []))
      else let arp1 = arp\<lparr>arp_HwAddressSize := of_nat (length (arp_SourceHwAddress arp))\<rparr>
           in if length (arp_SourceProtAddress arp) \<noteq> length (arp_DstProtAddress arp) then (arp1, Some (Errorf ''mismatched prot address sizes'' []))
              else (arp1\<lparr>arp_ProtAddressSize := of_nat (length (arp_SourceProtAddress arp))\<rparr>, None))"

definition ARP_SerializeTo :: "ARP \<Rightarrow> serializeBuffer \<Rightarrow> SerializeOptions \<Rightarrow> ARP serialized" where
  "ARP_SerializeTo arp b opts =
     (let size = 8 + length (arp_SourceHwAddress arp) + length (arp_SourceProtAddress arp) + length (arp_DstHwAddress arp) + length (arp_DstProtAddress arp)
      in do {
        b1 \<leftarrow> PrependBytes b (int size);
        case (if FixLengths opts then ARP_fix arp else (arp, None)) of
          (arp1, Some e) \<Rightarrow> Some (arp1, b1, Some e)
        | (arp1, None) \<Rightarrow> do {
            w1 \<leftarrow> write_at (take size (Bytes b1)) 0 (be16 (ucast (arp_AddrType arp1)));
            w2 \<leftarrow> write_at w1 2 (be16 (arp_Protocol arp1));
            w3 \<leftarrow> write_at w2 4 [arp_HwAddressSize arp1];
            w4 \<leftarrow> write_at w3 5 [arp_ProtAddressSize arp1];
            w5 \<leftarrow> write_at w4 6 (be16 (arp_Operation arp1));
            w6 \<leftarrow> copy_addrs [arp_SourceHwAddress arp1, arp_SourceProtAddress arp1, arp_DstHwAddress arp1, arp_DstProtAddress arp1] w5 8;
            Some (arp1, store_front b1 w6, None) } })"

subsection \<open>The contract of a layer with serializer and decoder\<close>

text \<open>
  The serializer may first complete the header (\<open>fixed\<close>: lengths, checksum), then prepends the bytes \<open>hdr\<close> of it; the decoder reads
  these bytes back. Then a header survives the buffer.
\<close>

locale header_codec =
  fixes ser :: "('x BaseLayer_scheme) \<Rightarrow> serializeBuffer \<Rightarrow> SerializeOptions \<Rightarrow> ('x BaseLayer_scheme) serialized"
    and dec :: "('x BaseLayer_scheme) \<Rightarrow> bytes \<Rightarrow> bool \<Rightarrow> ('x BaseLayer_scheme) decoded"
    and ok :: "SerializeOptions \<Rightarrow> ('x BaseLayer_scheme) \<Rightarrow> bytes \<Rightarrow> bool"
    and fixed :: "SerializeOptions \<Rightarrow> ('x BaseLayer_scheme) \<Rightarrow> bytes \<Rightarrow> ('x BaseLayer_scheme)"
    and hdr :: "('x BaseLayer_scheme) \<Rightarrow> bytes"
  assumes ser_hdr: "\<lbrakk>sb_inv b; ok opts l (Bytes b)\<rbrakk> \<Longrightarrow> \<exists>b'. ser l b opts = Some (fixed opts l (Bytes b), b', None) \<and> sb_inv b'
      \<and> sb_layers b' = sb_layers b \<and> Bytes b' = hdr (fixed opts l (Bytes b)) @ Bytes b"
    and dec_hdr: "ok opts l p \<Longrightarrow> dec old (hdr (fixed opts l p) @ p) df = Some (with_base (fixed opts l p) (hdr (fixed opts l p)) p, df, None)"
begin

lemma survives:
  assumes "sb_inv b" and "ok opts l (Bytes b)"
  shows "\<exists>b'. ser l b opts = Some (fixed opts l (Bytes b), b', None) \<and> sb_inv b' \<and> Bytes b' = hdr (fixed opts l (Bytes b)) @ Bytes b
     \<and> dec old (Bytes b') df = Some (with_base (fixed opts l (Bytes b)) (hdr (fixed opts l (Bytes b))) (Bytes b), df, None)"
proof -
  from ser_hdr [OF assms] obtain b' where b': "ser l b opts = Some (fixed opts l (Bytes b), b', None)" "sb_inv b'"
    "Bytes b' = hdr (fixed opts l (Bytes b)) @ Bytes b" by blast
  then show ?thesis using dec_hdr [OF assms(2), of old df] by simp
qed

end

lemma prepended:
  assumes "sb_inv b"
  obtains b1 w where "PrependBytes b (int n) = Some b1" "take n (Bytes b1) = w" "length w = n" "drop n (Bytes b1) = Bytes b" "sb_layers b1 = sb_layers b"
    "\<And>h. length h = n \<Longrightarrow> sb_inv (store_front b1 h) \<and> Bytes (store_front b1 h) = h @ Bytes b"
  using PrependBytes_obtain [OF assms, of n] by metis

text \<open>Prepended bytes one by one, so that writes into them evaluate.\<close>

lemma length_cells:
  "length w = 3 \<Longrightarrow> \<exists>a b c. w = [a, b, c]"
  "length w = 4 \<Longrightarrow> \<exists>a b c d. w = [a, b, c, d]"
  "length w = 5 \<Longrightarrow> \<exists>a b c d e. w = [a, b, c, d, e]"
  "length w = 6 \<Longrightarrow> \<exists>a b c d e f. w = [a, b, c, d, e, f]"
  "length w = 8 \<Longrightarrow> \<exists>a b c d e f g h. w = [a, b, c, d, e, f, g, h]"
  by (auto simp: length_Suc_conv numeral_eq_Suc)

subsubsection \<open>Loopback and SNAP\<close>

interpretation loopback: header_codec Loopback_SerializeTo Loopback_DecodeFromBytes "\<lambda>opts l p. True" "\<lambda>opts l p. l" "\<lambda>l. le32 (ucast (lb_Family l))"
proof
  fix b opts and l :: Loopback assume "sb_inv b"
  then obtain b1 w where "PrependBytes b (int 4) = Some b1" "take 4 (Bytes b1) = w" "length w = 4" "sb_layers b1 = sb_layers b"
    "\<And>h. length h = 4 \<Longrightarrow> sb_inv (store_front b1 h) \<and> Bytes (store_front b1 h) = h @ Bytes b" using prepended [of b 4] by metis
  then show "\<exists>b'. Loopback_SerializeTo l b opts = Some (l, b', None) \<and> sb_inv b' \<and> sb_layers b' = sb_layers b \<and> Bytes b' = le32 (ucast (lb_Family l)) @ Bytes b"
    by (auto simp: Loopback_SerializeTo_def)
next
  fix p old df and l :: Loopback
  have f: "(ucast (lb_Family l) :: u32) \<le> 0xFF" using unat_byte_less [of "lb_Family l"] by (simp add: word_le_nat_alt unat_ucast_up)
  have le: "le32 (ucast (lb_Family l)) = [lb_Family l, 0, 0, 0]" by (simp add: le32_def) (intro conjI; rule bit_word_eqI; auto simp: bit_simps byte_no_high_bit)
  have g: "get_le32 (le32 (ucast (lb_Family l) :: u32)) = Some (ucast (lb_Family l))" using get_le32_le32 [of "ucast (lb_Family l)" "[]"] by simp
  have "lb_Family l = 0 \<Longrightarrow> get_be32 [0, 0, 0, 0] = Some 0" by (simp add: get_be32_def mk32_def)
  moreover have "with_base (old\<lparr>lb_Family := lb_Family l\<rparr>) c p = with_base l c p" for c by (rule Loopback.equality) simp_all
  moreover have "ucast (ucast (lb_Family l) :: u32) = lb_Family l" by (rule bit_word_eqI) (auto simp: bit_simps)
  ultimately show "Loopback_DecodeFromBytes old (le32 (ucast (lb_Family l)) @ p) df = Some (with_base l (le32 (ucast (lb_Family l))) p, df, None)"
    using f g unfolding le by (cases "lb_Family l = 0") (simp_all add: Loopback_DecodeFromBytes_def idx_def not_less)
qed

interpretation snap: header_codec SNAP_SerializeTo SNAP_DecodeFromBytes "\<lambda>opts s p. length (snap_OrganizationalCode s) = 3" "\<lambda>opts s p. s"
  "\<lambda>s. snap_OrganizationalCode s @ be16 (snap_Type s)"
proof
  fix b opts and s :: SNAP assume b: "sb_inv b" and "length (snap_OrganizationalCode s) = 3"
  then obtain x y z where o: "snap_OrganizationalCode s = [x, y, z]" by (auto simp: length_Suc_conv numeral_eq_Suc)
  show "\<exists>b'. SNAP_SerializeTo s b opts = Some (s, b', None) \<and> sb_inv b' \<and> sb_layers b' = sb_layers b
      \<and> Bytes b' = (snap_OrganizationalCode s @ be16 (snap_Type s)) @ Bytes b"
  proof -
    obtain b1 w where b1: "PrependBytes b (int 5) = Some b1" "take 5 (Bytes b1) = w" "length w = 5" and l: "sb_layers b1 = sb_layers b" and
      st: "\<And>h. length h = 5 \<Longrightarrow> sb_inv (store_front b1 h) \<and> Bytes (store_front b1 h) = h @ Bytes b" using prepended [OF b, of 5] by metis
    obtain c1 c2 c3 c4 c5 where c: "w = [c1, c2, c3, c4, c5]" using length_cells(3) [OF b1(3)] by blast
    have "SNAP_SerializeTo s b opts = Some (s, store_front b1 ([x, y, z] @ be16 (snap_Type s)), None)"
      using b1(1) o by (simp add: SNAP_SerializeTo_def b1(2) c be16_def)
    then show ?thesis using st o l by simp
  qed
next
  fix opts p old df and s :: SNAP assume "length (snap_OrganizationalCode s) = 3"
  then show "SNAP_DecodeFromBytes old ((snap_OrganizationalCode s @ be16 (snap_Type s)) @ p) df =
      Some (with_base s (snap_OrganizationalCode s @ be16 (snap_Type s)) p, df, None)"
    using u16_at_mid [of 3 "snap_OrganizationalCode s" "snap_Type s" p] by (simp add: SNAP_DecodeFromBytes_def)
qed

subsubsection \<open>LLC\<close>

definition llc_hdr :: "LLC \<Rightarrow> bytes" where
  "llc_hdr l = [llc_DSAP l + (if llc_IG l then 1 else 0), llc_SSAP l + (if llc_CR l then 1 else 0)]
     @ (if llc_Control l AND 0xFF00 \<noteq> 0 then be16 (llc_Control l) else [ucast (llc_Control l)])"

text \<open>Addresses without the flag bit, and a control field whose first byte tells its length. A control field of two bytes
  whose first byte is zero, an information frame with sequence number 0, is left out: it is written as one byte.\<close>

definition two_byte_control :: "u16 \<Rightarrow> bool" where
  "two_byte_control c \<longleftrightarrow> c AND 0x1 = 0 \<or> c AND 0x3 = 0x1"

definition wf_llc :: "LLC \<Rightarrow> bool" where
  "wf_llc l \<longleftrightarrow> llc_DSAP l AND 1 = 0 \<and> llc_SSAP l AND 1 = 0 \<and>
     (if llc_Control l AND 0xFF00 \<noteq> 0 then two_byte_control (drop_bit 8 (llc_Control l)) else \<not> two_byte_control (llc_Control l))"

lemma flag_bit:
  fixes d :: byte
  assumes "d AND 1 = 0"
  shows "(d + (if f then 1 else 0)) AND 0xFE = d" "((d + (if f then 1 else 0)) AND 1 \<noteq> 0) = f"
proof -
  have e: "d + (if f then 1 else 0) = d OR (if f then 1 else 0)" using assms by (intro disjunctive_add_eq_or) simp
  have z: "\<not> bit d 0" using word_nonzero_bit [of d 0] assms by simp
  show "(d + (if f then 1 else 0)) AND 0xFE = d"
  proof (rule bit_word_eqI)
    fix n assume "n < LENGTH(8)"
    then have "n < 8" by simp
    from less8_cases [OF this] show "bit ((d + (if f then 1 else 0)) AND 0xFE) n = bit d n"
      unfolding e by (elim disjE) (simp_all add: bit_simps z)
  qed
  show "((d + (if f then 1 else 0)) AND 1 \<noteq> 0) = f" using word_nonzero_bit [of "d OR (if f then 1 else 0)" 0] z unfolding e by (simp add: bit_simps)
qed

lemma control_bytes:
  fixes c :: u16
  shows "(ucast (ucast (drop_bit 8 c) :: byte) :: u16) = drop_bit 8 c"
    and "push_bit 8 (ucast (ucast (drop_bit 8 c) :: byte)) OR ucast (ucast c :: byte) = c"
    and "c AND 0xFF00 = 0 \<Longrightarrow> ucast (ucast c :: byte) = c"
proof -
  show 1: "(ucast (ucast (drop_bit 8 c) :: byte) :: u16) = drop_bit 8 c" by (rule bit_word_eqI) (auto simp: bit_simps dest: bit_imp_le_length)
  show 2: "push_bit 8 (ucast (ucast (drop_bit 8 c) :: byte)) OR ucast (ucast c :: byte) = c" by (rule bit_word_eqI) (auto simp: bit_simps)
  assume "c AND 0xFF00 = 0"
  then have "\<not> bit c n" if "8 \<le> n" "n < 16" for n
  proof -
    have "bit (0xFF00 :: u16) n" using less16_cases [OF that(2)] that(1) by (elim disjE) simp_all
    then show ?thesis using bit_and_iff [of c "0xFF00" n] \<open>c AND 0xFF00 = 0\<close> by simp
  qed
  then show "ucast (ucast c :: byte) = c" by (intro bit_word_eqI) (auto simp: bit_simps not_less intro: ccontr)
qed

interpretation llc: header_codec LLC_SerializeTo LLC_DecodeFromBytes "\<lambda>opts l p. wf_llc l" "\<lambda>opts l p. l" llc_hdr
proof
  fix b opts and l :: LLC assume b: "sb_inv b" and wf: "wf_llc l"
  let ?n = "if llc_Control l AND 0xFF00 \<noteq> 0 then 4 else 3 :: nat"
  obtain b1 w where b1: "PrependBytes b (int ?n) = Some b1" "take ?n (Bytes b1) = w" "length w = ?n" and lay: "sb_layers b1 = sb_layers b" and
    st: "\<And>h. length h = ?n \<Longrightarrow> sb_inv (store_front b1 h) \<and> Bytes (store_front b1 h) = h @ Bytes b" using prepended [OF b, of ?n] by metis
  have "LLC_SerializeTo l b opts = Some (l, store_front b1 (llc_hdr l), None)"
  proof (cases "llc_Control l AND 0xFF00 = 0")
    case True
    then obtain c1 c2 c3 where "w = [c1, c2, c3]" using length_cells(1) [of w] b1(3) by auto
    then show ?thesis using True wf b1(1,2) by (simp add: LLC_SerializeTo_def Let_def wf_llc_def llc_hdr_def)
  next
    case False
    then obtain c1 c2 c3 c4 where "w = [c1, c2, c3, c4]" using length_cells(2) [of w] b1(3) by auto
    then show ?thesis using False wf b1(1,2) by (simp add: LLC_SerializeTo_def Let_def wf_llc_def llc_hdr_def be16_def)
  qed
  moreover have "length (llc_hdr l) = ?n" by (simp add: llc_hdr_def)
  ultimately show "\<exists>b'. LLC_SerializeTo l b opts = Some (l, b', None) \<and> sb_inv b' \<and> sb_layers b' = sb_layers b \<and> Bytes b' = llc_hdr l @ Bytes b"
    using st [of "llc_hdr l"] lay by simp
next
  fix opts p old df and l :: LLC assume wf: "wf_llc l"
  note f = flag_bit [of "llc_DSAP l" "llc_IG l"] flag_bit [of "llc_SSAP l" "llc_CR l"] and cb = control_bytes [of "llc_Control l"]
  show "LLC_DecodeFromBytes old (llc_hdr l @ p) df = Some (with_base l (llc_hdr l) p, df, None)"
  proof (cases "llc_Control l AND 0xFF00 = 0")
    case True
    then show ?thesis using wf f cb by (simp add: LLC_DecodeFromBytes_def llc_hdr_def wf_llc_def two_byte_control_def idx_def)
  next
    case False
    then show ?thesis using wf f cb by (simp add: LLC_DecodeFromBytes_def llc_hdr_def wf_llc_def two_byte_control_def idx_def be16_def)
  qed
qed

subsubsection \<open>PPP and PPPoE\<close>

text \<open>The types the decoder produces: the last bit of the second byte is set, and the last bit of the first is not.\<close>

definition wf_ppp :: "PPP \<Rightarrow> bool" where
  "wf_ppp p \<longleftrightarrow> ppp_PPPType p AND 0x1 \<noteq> 0 \<and> ppp_PPPType p AND 0x100 = 0"

lemma ppp_type_bytes:
  fixes t :: u16
  assumes "t AND 0x1 \<noteq> 0" "t AND 0x100 = 0"
  shows "(ucast t :: byte) AND 1 \<noteq> 0" "(ucast (drop_bit 8 t) :: byte) AND 1 = 0" "(ucast (drop_bit 8 t) :: byte) \<noteq> 0xff"
proof -
  have b: "bit t 0" "\<not> bit t 8" using word_nonzero_bit [of t 0] word_nonzero_bit [of t 8] assms by simp_all
  show "(ucast t :: byte) AND 1 \<noteq> 0" using word_nonzero_bit [of "ucast t :: byte" 0] b by (simp add: bit_simps)
  show "(ucast (drop_bit 8 t) :: byte) AND 1 = 0" using word_nonzero_bit [of "ucast (drop_bit 8 t) :: byte" 0] b by (simp add: bit_simps)
  then show "(ucast (drop_bit 8 t) :: byte) \<noteq> 0xff" by auto
qed

lemma ppp_of_wire:
  assumes "wf_ppp p"
  shows "ppp_of ((if ppp_HasPPTPHeader p then [0xff, 0x03] else []) @ be16 (ppp_PPPType p) @ pl) = Some (Inr (with_base p (be16 (ppp_PPPType p)) pl))"
  using ppp_type_bytes [of "ppp_PPPType p"] assms u16_at_mid [of 0 "[]" "ppp_PPPType p" pl] u16_at_mid [of 2 "[0xff, 0x03]" "ppp_PPPType p" pl]
  by (cases "ppp_HasPPTPHeader p") (simp_all add: wf_ppp_def ppp_of_def idx_def be16_def Let_def nth_Cons numeral_eq_Suc)

lemma PPP_survives:
  assumes "sb_inv b" and "wf_ppp p"
  shows "\<exists>b'. PPP_SerializeTo p b opts = Some (p, b', None) \<and> sb_inv b' \<and> ppp_of (Bytes b') = Some (Inr (with_base p (be16 (ppp_PPPType p)) (Bytes b)))"
proof -
  obtain b1 w where b1: "PrependBytes b (int 2) = Some b1" "take 2 (Bytes b1) = w" "length w = 2"
    and s1: "\<And>h. length h = 2 \<Longrightarrow> sb_inv (store_front b1 h) \<and> Bytes (store_front b1 h) = h @ Bytes b" using prepended [OF assms(1), of 2] by metis
  let ?b = "store_front b1 (be16 (ppp_PPPType p))"
  have i: "sb_inv ?b" "Bytes ?b = be16 (ppp_PPPType p) @ Bytes b" using s1 by simp_all
  obtain b2 v where b2: "PrependBytes ?b (int 2) = Some b2" "take 2 (Bytes b2) = v" "length v = 2"
    and s2: "\<And>h. length h = 2 \<Longrightarrow> sb_inv (store_front b2 h) \<and> Bytes (store_front b2 h) = h @ Bytes ?b" using prepended [OF i(1), of 2] by metis
  show ?thesis
  proof (cases "ppp_HasPPTPHeader p")
    case True
    then have "PPP_SerializeTo p b opts = Some (p, store_front b2 [0xff, 0x03], None)"
      using assms(2) b1 b2 by (simp add: PPP_SerializeTo_def wf_ppp_def)
    then show ?thesis using s2 [of "[0xff, 0x03]"] i ppp_of_wire [OF assms(2), of "Bytes b"] True by simp
  next
    case False
    then have "PPP_SerializeTo p b opts = Some (p, ?b, None)" using assms(2) b1 by (simp add: PPP_SerializeTo_def wf_ppp_def)
    then show ?thesis using i ppp_of_wire [OF assms(2), of "Bytes b"] False by simp
  qed
qed

definition pppoe_hdr :: "PPPoE \<Rightarrow> bytes" where
  "pppoe_hdr p = [push_bit 4 (poe_Version p) OR poe_Type p, poe_Code p] @ be16 (poe_SessionId p) @ be16 (poe_Length p)"

definition wf_pppoe :: "PPPoE \<Rightarrow> bytes \<Rightarrow> bool" where
  "wf_pppoe p pl \<longleftrightarrow> poe_Version p < 16 \<and> poe_Type p < 16 \<and> length pl < 65530"

interpretation pppoe: header_codec PPPoE_SerializeTo "\<lambda>old data df. map_option (\<lambda>p. (p, df, None)) (pppoe_of spare data)"
  "\<lambda>opts p pl. wf_pppoe p pl \<and> FixLengths opts" "\<lambda>opts p pl. p\<lparr>poe_Length := of_nat (length pl)\<rparr>" pppoe_hdr
proof
  fix b and opts :: SerializeOptions and p :: PPPoE assume b: "sb_inv b" and wf: "wf_pppoe p (Bytes b) \<and> FixLengths opts"
  obtain b1 w where b1: "PrependBytes b (int 6) = Some b1" "take 6 (Bytes b1) = w" "length w = 6" and lay: "sb_layers b1 = sb_layers b" and
    st: "\<And>h. length h = 6 \<Longrightarrow> sb_inv (store_front b1 h) \<and> Bytes (store_front b1 h) = h @ Bytes b" using prepended [OF b, of 6] by metis
  let ?p = "p\<lparr>poe_Length := of_nat (length (Bytes b))\<rparr>"
  obtain c1 c2 c3 c4 c5 c6 where "w = [c1, c2, c3, c4, c5, c6]" using length_cells(4) [OF b1(3)] by blast
  then have "PPPoE_SerializeTo p b opts = Some (?p, store_front b1 (pppoe_hdr ?p), None)"
    using wf b1(1,2) by (simp add: PPPoE_SerializeTo_def Let_def pppoe_hdr_def be16_def)
  moreover have "length (pppoe_hdr ?p) = 6" by (simp add: pppoe_hdr_def)
  ultimately show "\<exists>b'. PPPoE_SerializeTo p b opts = Some (?p, b', None) \<and> sb_inv b' \<and> sb_layers b' = sb_layers b \<and> Bytes b' = pppoe_hdr ?p @ Bytes b"
    using st [of "pppoe_hdr ?p"] lay by simp
next
  fix opts :: SerializeOptions and pl old df and p :: PPPoE assume wf: "wf_pppoe p pl \<and> FixLengths opts"
  let ?p = "p\<lparr>poe_Length := of_nat (length pl)\<rparr>"
  have "unat (of_nat (6 + length pl) :: u16) = 6 + length pl" using wf by (intro unat_of_nat_u16) (simp add: wf_pppoe_def)
  then have "unat (6 + of_nat (length pl) :: u16) = 6 + length pl" by simp
  then have "pppoe_of spare (pppoe_hdr ?p @ pl) = Some (with_base ?p (pppoe_hdr ?p) pl)"
    using wf nibbles [of "poe_Version p" "poe_Type p"]
    by (simp add: pppoe_of_def pppoe_hdr_def slice_cap_def idx_def be16_def get_be16_def mk16_split wf_pppoe_def)
  then show "map_option (\<lambda>p. (p, df, None)) (pppoe_of spare (pppoe_hdr ?p @ pl)) = Some (with_base ?p (pppoe_hdr ?p) pl, df, None)" by simp
qed

subsubsection \<open>ARP\<close>

definition arp_hdr :: "ARP \<Rightarrow> bytes" where
  "arp_hdr a = be16 (ucast (arp_AddrType a)) @ be16 (arp_Protocol a) @ [arp_HwAddressSize a, arp_ProtAddressSize a] @ be16 (arp_Operation a)
     @ concat [arp_SourceHwAddress a, arp_SourceProtAddress a, arp_DstHwAddress a, arp_DstProtAddress a]"

text \<open>Addresses of the same sizes whose lengths, with the fixed part, fit the eight bits the decoder computes with.\<close>

definition wf_arp :: "ARP \<Rightarrow> bool" where
  "wf_arp a \<longleftrightarrow> length (arp_DstHwAddress a) = length (arp_SourceHwAddress a) \<and> length (arp_DstProtAddress a) = length (arp_SourceProtAddress a)
     \<and> 8 + 2 * length (arp_SourceHwAddress a) + 2 * length (arp_SourceProtAddress a) < 256"

definition ARP_sized :: "ARP \<Rightarrow> ARP" where
  "ARP_sized a = a\<lparr>arp_HwAddressSize := of_nat (length (arp_SourceHwAddress a)), arp_ProtAddressSize := of_nat (length (arp_SourceProtAddress a))\<rparr>"

lemma copy_addrs_wire: "\<lbrakk>length junk = length (concat addrs); n = length pre\<rbrakk> \<Longrightarrow> copy_addrs addrs (pre @ junk) n = Some (pre @ concat addrs)"
proof (induction addrs arbitrary: pre junk n)
  case (Cons a addrs)
  obtain j1 j2 where j: "junk = j1 @ j2" "length j1 = length a" "length j2 = length (concat addrs)"
    using cut_junk [of junk "length a" "length (concat addrs)"] Cons.prems(1) by auto
  then show ?case using Cons.IH [of j2 "length (pre @ a)" "pre @ a"] Cons.prems(2) copy_mid [OF j(2) Cons.prems(2), of j2] by simp
qed simp

lemma arp_sizes:
  assumes "8 + 2 * h + 2 * p < 256"
  shows "unat (8 + of_nat h :: byte) = 8 + h" "unat (8 + of_nat h + of_nat p :: byte) = 8 + h + p"
    "unat (8 + 2 * of_nat h + of_nat p :: byte) = 8 + 2 * h + p" "unat (8 + 2 * of_nat h + 2 * of_nat p :: byte) = 8 + 2 * h + 2 * p"
  using assms unat_of_nat_byte [of "8 + h"] unat_of_nat_byte [of "8 + h + p"] unat_of_nat_byte [of "8 + 2 * h + p"] unat_of_nat_byte [of "8 + 2 * h + 2 * p"]
  by simp_all

interpretation arp: header_codec ARP_SerializeTo "ARP_DecodeFromBytes spare" "\<lambda>opts a pl. wf_arp a \<and> FixLengths opts" "\<lambda>opts a pl. ARP_sized a" arp_hdr
proof
  fix b and opts :: SerializeOptions and a :: ARP assume b: "sb_inv b" and wf: "wf_arp a \<and> FixLengths opts"
  let ?A = "[arp_SourceHwAddress a, arp_SourceProtAddress a, arp_DstHwAddress a, arp_DstProtAddress a]"
  let ?n = "8 + length (concat ?A)"
  obtain b1 w where b1: "PrependBytes b (int ?n) = Some b1" "take ?n (Bytes b1) = w" "length w = ?n" and lay: "sb_layers b1 = sb_layers b" and
    st: "\<And>h. length h = ?n \<Longrightarrow> sb_inv (store_front b1 h) \<and> Bytes (store_front b1 h) = h @ Bytes b" using prepended [OF b, of ?n] by metis
  obtain u junk where u: "w = u @ junk" "length u = 8" "length junk = length (concat ?A)" using cut_junk [OF b1(3)] by blast
  obtain c1 c2 c3 c4 c5 c6 c7 c8 where c: "u = [c1, c2, c3, c4, c5, c6, c7, c8]" using length_cells(5) [OF u(2)] by blast
  let ?h = "be16 (ucast (arp_AddrType a)) @ be16 (arp_Protocol a) @ [of_nat (length (arp_SourceHwAddress a)), of_nat (length (arp_SourceProtAddress a))] @ be16 (arp_Operation a)"
  have cp: "copy_addrs ?A (?h @ junk) 8 = Some (?h @ concat ?A)" using u(3) by (intro copy_addrs_wire) simp_all
  have size: "8 + length (arp_SourceHwAddress a) + length (arp_SourceProtAddress a) + length (arp_DstHwAddress a) + length (arp_DstProtAddress a) = ?n" by simp
  have fx: "ARP_fix a = (ARP_sized a, None)" using wf by (simp add: ARP_fix_def wf_arp_def ARP_sized_def)
  have "ARP_SerializeTo a b opts = Some (ARP_sized a, store_front b1 (arp_hdr (ARP_sized a)), None)"
    unfolding ARP_SerializeTo_def size Let_def b1(1) Option.bind.simps b1(2) u(1) c
    using wf fx cp by (simp add: ARP_sized_def arp_hdr_def be16_def del: copy_addrs.simps)
  moreover have "length (arp_hdr (ARP_sized a)) = ?n" by (simp add: arp_hdr_def ARP_sized_def)
  ultimately show "\<exists>b'. ARP_SerializeTo a b opts = Some (ARP_sized a, b', None) \<and> sb_inv b' \<and> sb_layers b' = sb_layers b \<and> Bytes b' = arp_hdr (ARP_sized a) @ Bytes b"
    using st [of "arp_hdr (ARP_sized a)"] lay by simp
next
  fix opts :: SerializeOptions and pl old df and a :: ARP assume wf: "wf_arp a \<and> FixLengths opts"
  let ?h = "length (arp_SourceHwAddress a)" and ?p = "length (arp_SourceProtAddress a)" and ?D = "arp_hdr (ARP_sized a) @ pl"
  let ?f = "be16 (ucast (arp_AddrType a)) @ be16 (arp_Protocol a) @ [of_nat ?h, of_nat ?p] @ be16 (arp_Operation a)"
  let ?s = "arp_SourceHwAddress a" and ?t = "arp_SourceProtAddress a" and ?u = "arp_DstHwAddress a" and ?v = "arp_DstProtAddress a"
  have l: "8 + 2 * ?h + 2 * ?p < 256" "length (arp_DstHwAddress a) = ?h" "length (arp_DstProtAddress a) = ?p" using wf by (simp_all add: wf_arp_def)
  note sz = arp_sizes [OF l(1)]
  have u: "u16_at ?D 0 = Some (ucast (arp_AddrType a))" "u16_at ?D 2 = Some (arp_Protocol a)" "idx ?D 4 = Some (of_nat ?h)" "idx ?D 5 = Some (of_nat ?p)"
    "u16_at ?D 6 = Some (arp_Operation a)"
    by (simp_all add: arp_hdr_def ARP_sized_def be16_def mk16_split idx_def nth_append)
  have t: "ucast (ucast (arp_AddrType a) :: u16) = arp_AddrType a" by (rule bit_word_eqI) (auto simp: bit_simps)
  have sl: "slice_cap ?D spare 8 (8 + ?h) = Some (arp_SourceHwAddress a)" "slice_cap ?D spare (8 + ?h) (8 + ?h + ?p) = Some (arp_SourceProtAddress a)"
    "slice_cap ?D spare (8 + ?h + ?p) (8 + 2 * ?h + ?p) = Some (arp_DstHwAddress a)"
    "slice_cap ?D spare (8 + 2 * ?h + ?p) (8 + 2 * ?h + 2 * ?p) = Some (arp_DstProtAddress a)"
    using l slice_mid [of 8 ?f "8 + ?h" ?s "?t @ ?u @ ?v @ pl @ spare"] slice_mid [of "8 + ?h" "?f @ ?s" "8 + ?h + ?p" ?t "?u @ ?v @ pl @ spare"]
      slice_mid [of "8 + ?h + ?p" "?f @ ?s @ ?t" "8 + 2 * ?h + ?p" ?u "?v @ pl @ spare"]
      slice_mid [of "8 + 2 * ?h + ?p" "?f @ ?s @ ?t @ ?u" "8 + 2 * ?h + 2 * ?p" ?v "pl @ spare"]
    by (simp_all add: slice_cap_def arp_hdr_def ARP_sized_def)
  have len: "length (arp_hdr (ARP_sized a)) = 8 + 2 * ?h + 2 * ?p" using l by (simp add: arp_hdr_def ARP_sized_def)
  then have c: "\<not> length ?D < 8 + 2 * ?h + 2 * ?p" "\<not> length ?D < 8" "slice ?D 0 (8 + 2 * ?h + 2 * ?p) = Some (arp_hdr (ARP_sized a))"
    "slice ?D (8 + 2 * ?h + 2 * ?p) (length ?D) = Some pl" by (simp_all add: slice_def)
  show "ARP_DecodeFromBytes spare old ?D df = Some (with_base (ARP_sized a) (arp_hdr (ARP_sized a)) pl, df, None)"
    unfolding ARP_DecodeFromBytes_def if_not_P [OF c(2)] u Option.bind.simps Let_def sz if_not_P [OF c(1)] sl c(3,4) t
    by (simp add: ARP_sized_def)
qed

text \<open>For sizes that do not fit, the length wraps around: a packet of 16 bytes that announces hardware addresses of 124 bytes is
  not too short for the decoder, and the decoder panics.\<close>

lemma ARP_length_wraps:
  "ARP_DecodeFromBytes [] zero_ARP ([0, 1, 8, 0, 124, 0, 0, 1] @ replicate 8 0) False = None"
  by code_simp

subsection \<open>Decoders that keep the contract of decoding layers\<close>

interpretation loopback_dl: decoding_layer Loopback_DecodeFromBytes Contents Payload 4 id
proof
  fix l l' m :: Loopback and data df df'
  show "Loopback_DecodeFromBytes l data df \<noteq> None" by (auto simp: Loopback_DecodeFromBytes_def get_be32_def get_le32_def)
  assume ok: "Loopback_DecodeFromBytes l data df = Some (l', df', None)"
  then have len: "\<not> length data < 4" by (auto simp: Loopback_DecodeFromBytes_def)
  then have "\<exists>v. (if data ! 0 = 0 \<and> data ! 1 = 0 then get_be32 (take 4 data) else get_le32 (take 4 data)) = Some v"
    by (simp add: get_be32_def get_le32_def)
  then obtain v where v: "(if data ! 0 = 0 \<and> data ! 1 = 0 then get_be32 (take 4 data) else get_le32 (take 4 data)) = Some v" by blast
  have eq: "Loopback_DecodeFromBytes k data df = (if v > 0xFF then Some (k, df, Some (Errorf ''Invalid loopback protocol %q'' (map uint (take 4 data))))
      else Some (k\<lparr>lb_Family := ucast v, Contents := take 4 data, Payload := drop 4 data\<rparr>, df, None))" for k
    using len v unfolding Loopback_DecodeFromBytes_def by simp
  show "4 \<le> length (Contents l') \<and> (\<exists>rest. data = Contents l' @ Payload l' @ rest)"
    using ok len unfolding eq by (auto split: if_splits)
  show "\<exists>m'. Loopback_DecodeFromBytes m data df = Some (m', df', None) \<and> id m' = id l'"
    using ok unfolding eq by (intro reuse_idI) (auto split: if_splits)
qed simp

interpretation snap_dl: decoding_layer SNAP_DecodeFromBytes Contents Payload 5 id
proof
  fix l l' m :: SNAP and data df df'
  show "SNAP_DecodeFromBytes l data df \<noteq> None" by (auto simp: SNAP_DecodeFromBytes_def)
  assume ok: "SNAP_DecodeFromBytes l data df = Some (l', df', None)"
  then have len: "\<not> length data < 5" by (auto simp: SNAP_DecodeFromBytes_def)
  then show "5 \<le> length (Contents l') \<and> (\<exists>rest. data = Contents l' @ Payload l' @ rest)" using ok by (auto simp: SNAP_DecodeFromBytes_def)
  show "\<exists>m'. SNAP_DecodeFromBytes m data df = Some (m', df', None) \<and> id m' = id l'"
    using ok len by (intro reuse_idI) (auto simp: SNAP_DecodeFromBytes_def)
qed simp

interpretation llc_dl: decoding_layer LLC_DecodeFromBytes Contents Payload 3 id
proof
  fix l l' m :: LLC and data df df'
  show "LLC_DecodeFromBytes l data df \<noteq> None" by (auto simp: LLC_DecodeFromBytes_def Let_def)
  assume ok: "LLC_DecodeFromBytes l data df = Some (l', df', None)"
  then have len: "\<not> length data < 3" by (auto simp: LLC_DecodeFromBytes_def)
  then show "3 \<le> length (Contents l') \<and> (\<exists>rest. data = Contents l' @ Payload l' @ rest)"
    using ok by (auto simp: LLC_DecodeFromBytes_def Let_def split: if_splits)
  show "\<exists>m'. LLC_DecodeFromBytes m data df = Some (m', df', None) \<and> id m' = id l'"
    using ok len by (intro reuse_idI) (auto simp: LLC_DecodeFromBytes_def Let_def split: if_splits)
qed simp

lemma link_payload_shorter:
  "ppp_of data = Some (Inr ppp) \<Longrightarrow> length (Payload ppp) < length data"
  "pppoe_of [] data = Some poe \<Longrightarrow> length (Payload poe) < length data"
  "fddi_of data = Some f \<Longrightarrow> length (Payload f) < length data"
  by (auto simp: ppp_of_def pppoe_of_def fddi_of_def slice_cap_def Let_def slice_eq_Some idx_def bind_eq_Some_conv
      simp del: u16_at_in slice_in split: if_splits)

subsection \<open>Round trips\<close>

text \<open>C28. The link headers survive a round trip: ARP packets, PPP, PPPoE, LLC, SNAP and loopback headers whose fields fit, serialized in
  front of any payload with lengths fixed, are decoded to the same fields and exactly that payload, whatever the receiver held
  and whatever lies behind the data in memory.\<close>

theorem link_headers_roundtrip:
  assumes "sb_inv b" and "FixLengths opts"
  shows "(wf_arp a \<longrightarrow> (\<exists>b'. ARP_SerializeTo a b opts = Some (ARP_sized a, b', None) \<and>
            ARP_DecodeFromBytes spare old_a (Bytes b') df = Some (with_base (ARP_sized a) (arp_hdr (ARP_sized a)) (Bytes b), df, None)))
       \<and> (wf_ppp p \<longrightarrow> (\<exists>b'. PPP_SerializeTo p b opts = Some (p, b', None) \<and>
            ppp_of (Bytes b') = Some (Inr (with_base p (be16 (ppp_PPPType p)) (Bytes b)))))
       \<and> (wf_pppoe e (Bytes b) \<longrightarrow> (\<exists>b' e'. e' = e\<lparr>poe_Length := of_nat (length (Bytes b))\<rparr> \<and> PPPoE_SerializeTo e b opts = Some (e', b', None) \<and>
            pppoe_of spare (Bytes b') = Some (with_base e' (pppoe_hdr e') (Bytes b))))
       \<and> (wf_llc l \<longrightarrow> (\<exists>b'. LLC_SerializeTo l b opts = Some (l, b', None) \<and>
            LLC_DecodeFromBytes old_l (Bytes b') df = Some (with_base l (llc_hdr l) (Bytes b), df, None)))
       \<and> (length (snap_OrganizationalCode s) = 3 \<longrightarrow> (\<exists>b'. SNAP_SerializeTo s b opts = Some (s, b', None) \<and>
            SNAP_DecodeFromBytes old_s (Bytes b') df = Some (with_base s (snap_OrganizationalCode s @ be16 (snap_Type s)) (Bytes b), df, None)))
       \<and> (\<exists>b'. Loopback_SerializeTo k b opts = Some (k, b', None) \<and>
            Loopback_DecodeFromBytes old_k (Bytes b') df = Some (with_base k (le32 (ucast (lb_Family k))) (Bytes b), df, None))"
proof (intro conjI impI)
  assume "wf_arp a"
  with arp.survives [OF assms(1)] assms(2) show "\<exists>b'. ARP_SerializeTo a b opts = Some (ARP_sized a, b', None) \<and>
      ARP_DecodeFromBytes spare old_a (Bytes b') df = Some (with_base (ARP_sized a) (arp_hdr (ARP_sized a)) (Bytes b), df, None)" by blast
next
  assume "wf_ppp p"
  with PPP_survives [OF assms(1)] show "\<exists>b'. PPP_SerializeTo p b opts = Some (p, b', None) \<and>
      ppp_of (Bytes b') = Some (Inr (with_base p (be16 (ppp_PPPType p)) (Bytes b)))" by blast
next
  assume "wf_pppoe e (Bytes b)"
  with pppoe.survives [where spare = spare and df = df and l = e and opts = opts, OF assms(1)] assms(2)
  show "\<exists>b' e'. e' = e\<lparr>poe_Length := of_nat (length (Bytes b))\<rparr> \<and> PPPoE_SerializeTo e b opts = Some (e', b', None) \<and>
      pppoe_of spare (Bytes b') = Some (with_base e' (pppoe_hdr e') (Bytes b))" by auto
next
  assume "wf_llc l"
  with llc.survives [OF assms(1)] show "\<exists>b'. LLC_SerializeTo l b opts = Some (l, b', None) \<and>
      LLC_DecodeFromBytes old_l (Bytes b') df = Some (with_base l (llc_hdr l) (Bytes b), df, None)" by blast
next
  assume "length (snap_OrganizationalCode s) = 3"
  with snap.survives [OF assms(1)] show "\<exists>b'. SNAP_SerializeTo s b opts = Some (s, b', None) \<and>
      SNAP_DecodeFromBytes old_s (Bytes b') df = Some (with_base s (snap_OrganizationalCode s @ be16 (snap_Type s)) (Bytes b), df, None)" by blast
next
  show "\<exists>b'. Loopback_SerializeTo k b opts = Some (k, b', None) \<and>
      Loopback_DecodeFromBytes old_k (Bytes b') df = Some (with_base k (le32 (ucast (lb_Family k))) (Bytes b), df, None)"
    using loopback.survives [OF assms(1)] by blast
qed

definition ex_arp :: ARP where
  "ex_arp = zero_ARP\<lparr>arp_AddrType := 1, arp_Protocol := 0x0800, arp_Operation := 1, arp_SourceHwAddress := [2, 0, 0, 0, 0, 1],
     arp_SourceProtAddress := [10, 0, 0, 1], arp_DstHwAddress := [0, 0, 0, 0, 0, 0], arp_DstProtAddress := [10, 0, 0, 2]\<rparr>"

theorem link_headers_roundtrip_witness:
  "\<exists>b'. ARP_SerializeTo ex_arp NewSerializeBuffer \<lparr>FixLengths = True, ComputeChecksums = False\<rparr> = Some (ARP_sized ex_arp, b', None) \<and>
     ARP_DecodeFromBytes [9, 9] zero_ARP (Bytes b') False = Some (with_base (ARP_sized ex_arp) (arp_hdr (ARP_sized ex_arp)) [], False, None)"
proof -
  have "wf_arp ex_arp" by (simp add: wf_arp_def ex_arp_def zero_ARP_def)
  then show ?thesis using link_headers_roundtrip [OF sb_inv_New, of "\<lparr>FixLengths = True, ComputeChecksums = False\<rparr>" ex_arp "[9, 9]" zero_ARP False] by auto
qed

end
