(* ===== verification/Layer_GRE.thy ===== *)
theory Layer_GRE
  imports Layer_Link Checksum
begin

section \<open>ICMPv4, GRE and UDP-Lite\<close>

text \<open>
  ICMP messages for IPv4 (\<^verbatim>\<open>layers/icmp4.go\<close>), generic routing encapsulation (\<^verbatim>\<open>gre.go\<close>) and UDP-Lite (\<^verbatim>\<open>udplite.go\<close>). The checksums of
  the first two cover the header and everything behind it in the buffer. The linked list of source route entries of a GRE
  header is a list.
\<close>

subsection \<open>ICMPv4\<close>

record ICMPv4 = BaseLayer +
  icmp_TypeCode :: u16
  icmp_Checksum :: u16
  icmp_Id :: u16
  icmp_Seq :: u16

abbreviation (input) LayerTypeICMPv4 :: LayerType where "LayerTypeICMPv4 \<equiv> 19"

definition zero_ICMPv4 :: ICMPv4 where
  "zero_ICMPv4 = \<lparr>Contents = [], Payload = [], icmp_TypeCode = 0, icmp_Checksum = 0, icmp_Id = 0, icmp_Seq = 0\<rparr>"

definition ICMPv4TypeCode_Type :: "u16 \<Rightarrow> u8" where
  "ICMPv4TypeCode_Type a = ucast (drop_bit 8 a)"

definition ICMPv4TypeCode_Code :: "u16 \<Rightarrow> u8" where
  "ICMPv4TypeCode_Code a = ucast a"

definition CreateICMPv4TypeCode :: "u8 \<Rightarrow> u8 \<Rightarrow> u16" where
  "CreateICMPv4TypeCode typ code = mk16 typ code"

definition ICMPv4_DecodeFromBytes :: "ICMPv4 \<Rightarrow> bytes \<Rightarrow> bool \<Rightarrow> ICMPv4 decoded" where
  "ICMPv4_DecodeFromBytes i data df =
     (if length data < 8 then Some (i, True, Some (Errorf ''ICMP layer less then 8 bytes for ICMPv4 packet'' []))
      else do {
        t \<leftarrow> idx data 0; c \<leftarrow> idx data 1;
        ck \<leftarrow> u16_at data 2; ident \<leftarrow> u16_at data 4; sq \<leftarrow> u16_at data 6;
        h \<leftarrow> slice data 0 8; p \<leftarrow> slice data 8 (length data);
        Some (i\<lparr>icmp_TypeCode := CreateICMPv4TypeCode t c, icmp_Checksum := ck, icmp_Id := ident, icmp_Seq := sq, Contents := h, Payload := p\<rparr>, df, None) })"

definition ICMPv4_SerializeTo :: "ICMPv4 \<Rightarrow> serializeBuffer \<Rightarrow> SerializeOptions \<Rightarrow> ICMPv4 serialized" where
  "ICMPv4_SerializeTo i b opts = do {
     b1 \<leftarrow> PrependBytes b 8;
     w1 \<leftarrow> write_at (take 8 (Bytes b1)) 0 (be16 (icmp_TypeCode i));
     w2 \<leftarrow> write_at w1 4 (be16 (icmp_Id i));
     w3 \<leftarrow> write_at w2 6 (be16 (icmp_Seq i));
     (w4, i1) \<leftarrow> (if ComputeChecksums opts
                  then do { w4 \<leftarrow> write_at w3 2 [0, 0]; Some (w4, i\<lparr>icmp_Checksum := tcpipChecksum (Bytes (store_front b1 w4)) 0\<rparr>) }
                  else Some (w3, i));
     w5 \<leftarrow> write_at w4 2 (be16 (icmp_Checksum i1));
     Some (i1, store_front b1 w5, None) }"

definition ICMPv4_NextLayerType :: "ICMPv4 \<Rightarrow> LayerType" where
  "ICMPv4_NextLayerType i = LayerTypePayload"

definition decodeICMPv4 :: "bytes \<Rightarrow> decode_step" where
  "decodeICMPv4 data = decodingLayerDecoder (ICMPv4_DecodeFromBytes zero_ICMPv4 data False) (base_layer LayerTypeICMPv4) ICMPv4_NextLayerType"

subsection \<open>GRE\<close>

record GRERouting =
  sre_AddressFamily :: u16
  sre_SREOffset :: u8
  sre_SRELength :: u8
  sre_RoutingInformation :: bytes

record GRE = BaseLayer +
  gre_ChecksumPresent :: bool
  gre_RoutingPresent :: bool
  gre_KeyPresent :: bool
  gre_SeqPresent :: bool
  gre_StrictSourceRoute :: bool
  gre_AckPresent :: bool
  gre_RecursionControl :: u8
  gre_Flags :: u8
  gre_Version :: u8
  gre_Protocol :: u16
  gre_Checksum :: u16
  gre_Offset :: u16
  gre_Key :: u32
  gre_Seq :: u32
  gre_Ack :: u32
  gre_Routing :: "GRERouting list"

abbreviation (input) LayerTypeGRE :: LayerType where "LayerTypeGRE \<equiv> 18"

definition zero_GRE :: GRE where
  "zero_GRE = \<lparr>Contents = [], Payload = [], gre_ChecksumPresent = False, gre_RoutingPresent = False, gre_KeyPresent = False, gre_SeqPresent = False,
     gre_StrictSourceRoute = False, gre_AckPresent = False, gre_RecursionControl = 0, gre_Flags = 0, gre_Version = 0, gre_Protocol = 0,
     gre_Checksum = 0, gre_Offset = 0, gre_Key = 0, gre_Seq = 0, gre_Ack = 0, gre_Routing = []\<rparr>"

text \<open>The loop over the source route entries: the entries before the empty one and the offset behind it.\<close>

function sre_loop :: "bytes \<Rightarrow> nat \<Rightarrow> (GRERouting list \<times> nat) option" where
  "sre_loop data offset =
     (if length data < offset + 4 then None
      else let af = mk16 (data ! offset) (data ! (offset + 1)); so = data ! (offset + 2); sl = data ! (offset + 3)
           in if length data < offset + 4 + unat sl then None
              else if af = 0 \<and> sl = 0 then Some ([], offset + 4)
              else (case sre_loop data (offset + (4 + unat sl)) of
                      None \<Rightarrow> None
                    | Some (rs, o1) \<Rightarrow>
                        Some (\<lparr>sre_AddressFamily = af, sre_SREOffset = so, sre_SRELength = sl,
                               sre_RoutingInformation = take (unat sl) (drop (offset + 4) data)\<rparr> # rs, o1)))"
  by pat_completeness auto
termination
  by (relation "measure (\<lambda>(data, offset). length data - offset)") auto

declare sre_loop.simps [simp del]

text \<open>The optional fields: each is read at the offset reached so far. A header without entries keeps the entries the
  receiver held.\<close>

definition gre_read_checksum :: "bytes \<Rightarrow> GRE \<times> nat \<Rightarrow> (GRE \<times> nat) option" where
  "gre_read_checksum data = (\<lambda>(g, offset).
     if gre_ChecksumPresent g \<or> gre_RoutingPresent g
     then do { c \<leftarrow> u16_at data offset; off \<leftarrow> u16_at data (offset + 2); Some (g\<lparr>gre_Checksum := c, gre_Offset := off\<rparr>, offset + 4) }
     else Some (g, offset))"

definition gre_read_key :: "bytes \<Rightarrow> GRE \<times> nat \<Rightarrow> (GRE \<times> nat) option" where
  "gre_read_key data = (\<lambda>(g, offset).
     if gre_KeyPresent g then do { k \<leftarrow> u32_at data offset; Some (g\<lparr>gre_Key := k\<rparr>, offset + 4) } else Some (g, offset))"

definition gre_read_seq :: "bytes \<Rightarrow> GRE \<times> nat \<Rightarrow> (GRE \<times> nat) option" where
  "gre_read_seq data = (\<lambda>(g, offset).
     if gre_SeqPresent g then do { s \<leftarrow> u32_at data offset; Some (g\<lparr>gre_Seq := s\<rparr>, offset + 4) } else Some (g, offset))"

definition gre_read_routing :: "bytes \<Rightarrow> GRE \<times> nat \<Rightarrow> (GRE \<times> nat) option" where
  "gre_read_routing data = (\<lambda>(g, offset).
     if gre_RoutingPresent g
     then do { (rs, o1) \<leftarrow> sre_loop data offset; Some (if rs = [] then g else g\<lparr>gre_Routing := rs\<rparr>, o1) }
     else Some (g, offset))"

definition gre_read_ack :: "bytes \<Rightarrow> GRE \<times> nat \<Rightarrow> (GRE \<times> nat) option" where
  "gre_read_ack data = (\<lambda>(g, offset).
     if gre_AckPresent g then do { a \<leftarrow> u32_at data offset; Some (g\<lparr>gre_Ack := a\<rparr>, offset + 4) } else Some (g, offset))"

definition gre_read_fields :: "bytes \<Rightarrow> GRE \<times> nat \<Rightarrow> (GRE \<times> nat) option" where
  "gre_read_fields data s = do {
     s1 \<leftarrow> gre_read_checksum data s;
     s2 \<leftarrow> gre_read_key data s1;
     s3 \<leftarrow> gre_read_seq data s2;
     s4 \<leftarrow> gre_read_routing data s3;
     gre_read_ack data s4 }"

definition GRE_DecodeFromBytes :: "GRE \<Rightarrow> bytes \<Rightarrow> bool \<Rightarrow> GRE decoded" where
  "GRE_DecodeFromBytes g data df = do {
     b0 \<leftarrow> idx data 0; b1 \<leftarrow> idx data 1; pr \<leftarrow> u16_at data 2;
     let g1 = g\<lparr>gre_ChecksumPresent := (b0 AND 0x80 \<noteq> 0), gre_RoutingPresent := (b0 AND 0x40 \<noteq> 0), gre_KeyPresent := (b0 AND 0x20 \<noteq> 0),
                gre_SeqPresent := (b0 AND 0x10 \<noteq> 0), gre_StrictSourceRoute := (b0 AND 0x08 \<noteq> 0), gre_AckPresent := (b1 AND 0x80 \<noteq> 0),
                gre_RecursionControl := b0 AND 0x7, gre_Flags := drop_bit 3 b1, gre_Version := b1 AND 0x7, gre_Protocol := pr\<rparr>;
     (g5, offset) \<leftarrow> gre_read_fields data (g1, 4);
     c \<leftarrow> slice data 0 offset; p \<leftarrow> slice data offset (length data);
     Some (g5\<lparr>Contents := c, Payload := p\<rparr>, df, None) }"

definition GRE_NextLayerType :: "GRE \<Rightarrow> LayerType" where
  "GRE_NextLayerType g = EthernetType_LayerType (gre_Protocol g)"

definition decodeGRE :: "bytes \<Rightarrow> decode_step" where
  "decodeGRE data = decodingLayerDecoder (GRE_DecodeFromBytes zero_GRE data False) (base_layer LayerTypeGRE) GRE_NextLayerType"

definition GRE_size :: "GRE \<Rightarrow> nat" where
  "GRE_size g = 4 + (if gre_ChecksumPresent g \<or> gre_RoutingPresent g then 4 else 0) + (if gre_KeyPresent g then 4 else 0)
     + (if gre_SeqPresent g then 4 else 0)
     + (if gre_RoutingPresent g then sum_list (map (\<lambda>r. 4 + unat (sre_SRELength r)) (gre_Routing g)) + 4 else 0)
     + (if gre_AckPresent g then 4 else 0)"

definition GRE_flag_bytes :: "GRE \<Rightarrow> bytes" where
  "GRE_flag_bytes g =
     [(((((0 OR (if gre_ChecksumPresent g then 0x80 else 0)) OR (if gre_RoutingPresent g then 0x40 else 0)) OR (if gre_KeyPresent g then 0x20 else 0))
        OR (if gre_SeqPresent g then 0x10 else 0)) OR (if gre_StrictSourceRoute g then 0x08 else 0)) OR gre_RecursionControl g,
      ((if gre_AckPresent g then 0x80 else 0) OR push_bit 3 (gre_Flags g)) OR gre_Version g]"

text \<open>The loop that writes the entries; each copies its information into the bytes its length says.\<close>

fun write_sres :: "GRERouting list \<Rightarrow> bytes \<Rightarrow> nat \<Rightarrow> (bytes \<times> nat) option" where
  "write_sres [] w offset = Some (w, offset)"
| "write_sres (r # rs) w offset = do {
     w1 \<leftarrow> write_at w offset (be16 (sre_AddressFamily r));
     w2 \<leftarrow> write_at w1 (offset + 2) [sre_SREOffset r];
     w3 \<leftarrow> write_at w2 (offset + 3) [sre_SRELength r];
     _ \<leftarrow> slice w3 (offset + 4) (offset + 4 + unat (sre_SRELength r));
     w4 \<leftarrow> write_at w3 (offset + 4) (take (unat (sre_SRELength r)) (sre_RoutingInformation r));
     write_sres rs w4 (offset + (4 + unat (sre_SRELength r))) }"

text \<open>The optional fields of the header; the last empty entry is written without moving the offset.\<close>

definition GRE_write_fields :: "GRE \<Rightarrow> bytes \<Rightarrow> bytes option" where
  "GRE_write_fields g w = do {
     w1 \<leftarrow> write_at w 0 (GRE_flag_bytes g);
     w2 \<leftarrow> write_at w1 2 (be16 (gre_Protocol g));
     (w3, o3) \<leftarrow> (if gre_ChecksumPresent g \<or> gre_RoutingPresent g
                  then do { w3 \<leftarrow> write_at w2 4 ([0, 0] @ be16 (gre_Offset g)); Some (w3, 8) } else Some (w2, 4));
     (w4, o4) \<leftarrow> (if gre_KeyPresent g then do { w4 \<leftarrow> write_at w3 o3 (be32 (gre_Key g)); Some (w4, o3 + 4) } else Some (w3, o3));
     (w5, o5) \<leftarrow> (if gre_SeqPresent g then do { w5 \<leftarrow> write_at w4 o4 (be32 (gre_Seq g)); Some (w5, o4 + 4) } else Some (w4, o4));
     (w6, o6) \<leftarrow> (if gre_RoutingPresent g
                  then do { (w6, o6) \<leftarrow> write_sres (gre_Routing g) w5 o5; w7 \<leftarrow> write_at w6 o6 (be32 0); Some (w7, o6) } else Some (w5, o5));
     if gre_AckPresent g then write_at w6 o6 (be32 (gre_Ack g)) else Some w6 }"

definition GRE_SerializeTo :: "GRE \<Rightarrow> serializeBuffer \<Rightarrow> SerializeOptions \<Rightarrow> GRE serialized" where
  "GRE_SerializeTo g b opts = do {
     b1 \<leftarrow> PrependBytes b (int (GRE_size g));
     w \<leftarrow> GRE_write_fields g (take (GRE_size g) (Bytes b1));
     if gre_ChecksumPresent g
     then do {
       let g1 = (if ComputeChecksums opts then g\<lparr>gre_Checksum := tcpipChecksum (Bytes (store_front b1 w)) 0\<rparr> else g);
       w1 \<leftarrow> write_at w 4 (be16 (gre_Checksum g1));
       Some (g1, store_front b1 w1, None) }
     else Some (g, store_front b1 w, None) }"

subsection \<open>UDP-Lite\<close>

record UDPLite = BaseLayer +
  ul_SrcPort :: u16
  ul_DstPort :: u16
  ul_ChecksumCoverage :: u16
  ul_Checksum :: u16
  ul_sPort :: bytes
  ul_dPort :: bytes

abbreviation (input) LayerTypeUDPLite :: LayerType where "LayerTypeUDPLite \<equiv> 52"
abbreviation (input) EndpointUDPLitePort :: EndpointType where "EndpointUDPLitePort \<equiv> 8"

definition udplite_of :: "bytes \<Rightarrow> UDPLite option" where
  "udplite_of data = do {
     s \<leftarrow> slice data 0 2; sp \<leftarrow> get_be16 s; d \<leftarrow> slice data 2 4; dp \<leftarrow> get_be16 d; cov \<leftarrow> u16_at data 4; ck \<leftarrow> u16_at data 6;
     c \<leftarrow> slice data 0 8; p \<leftarrow> slice data 8 (length data);
     Some \<lparr>Contents = c, Payload = p, ul_SrcPort = sp, ul_DstPort = dp, ul_ChecksumCoverage = cov, ul_Checksum = ck, ul_sPort = s, ul_dPort = d\<rparr> }"

definition decodeUDPLite :: "bytes \<Rightarrow> decode_step" where
  "decodeUDPLite data = steps_or_panic (do {
     u \<leftarrow> udplite_of data;
     Some ([AddLayer (base_layer LayerTypeUDPLite u), SetTransportLayer (base_layer LayerTypeUDPLite u)], NextDecoder (ByLayerType LayerTypePayload)) })"

definition UDPLite_TransportFlow :: "UDPLite \<Rightarrow> Flow option" where
  "UDPLite_TransportFlow u = NewFlow EndpointUDPLitePort (ul_sPort u) (ul_dPort u)"

subsection \<open>ICMPv4 survives\<close>

definition icmp_hdr :: "ICMPv4 \<Rightarrow> bytes" where
  "icmp_hdr i = be16 (icmp_TypeCode i) @ be16 (icmp_Checksum i) @ be16 (icmp_Id i) @ be16 (icmp_Seq i)"

definition icmp_fixed :: "SerializeOptions \<Rightarrow> ICMPv4 \<Rightarrow> bytes \<Rightarrow> ICMPv4" where
  "icmp_fixed opts i pl = (if ComputeChecksums opts
     then i\<lparr>icmp_Checksum := tcpipChecksum (be16 (icmp_TypeCode i) @ [0, 0] @ be16 (icmp_Id i) @ be16 (icmp_Seq i) @ pl) 0\<rparr> else i)"

interpretation icmp: header_codec ICMPv4_SerializeTo ICMPv4_DecodeFromBytes "\<lambda>opts i p. True" icmp_fixed icmp_hdr
proof
  fix b opts and i :: ICMPv4 assume b: "sb_inv b"
  obtain b1 w where b1: "PrependBytes b (int 8) = Some b1" "take 8 (Bytes b1) = w" "length w = 8" and lay: "sb_layers b1 = sb_layers b" and
    st: "\<And>h. length h = 8 \<Longrightarrow> sb_inv (store_front b1 h) \<and> Bytes (store_front b1 h) = h @ Bytes b" using prepended [OF b, of 8] by metis
  obtain c1 c2 c3 c4 c5 c6 c7 c8 where c: "w = [c1, c2, c3, c4, c5, c6, c7, c8]" using length_cells(5) [OF b1(3)] by blast
  have z: "Bytes (store_front b1 (be16 (icmp_TypeCode i) @ [0, 0] @ be16 (icmp_Id i) @ be16 (icmp_Seq i))) =
      be16 (icmp_TypeCode i) @ [0, 0] @ be16 (icmp_Id i) @ be16 (icmp_Seq i) @ Bytes b" using st [of "be16 (icmp_TypeCode i) @ [0, 0] @ be16 (icmp_Id i) @ be16 (icmp_Seq i)"] by simp
  have "ICMPv4_SerializeTo i b opts = Some (icmp_fixed opts i (Bytes b), store_front b1 (icmp_hdr (icmp_fixed opts i (Bytes b))), None)"
    using b1(1) z by (cases "ComputeChecksums opts") (simp_all add: ICMPv4_SerializeTo_def b1(2) c icmp_fixed_def icmp_hdr_def be16_def)
  then show "\<exists>b'. ICMPv4_SerializeTo i b opts = Some (icmp_fixed opts i (Bytes b), b', None) \<and> sb_inv b' \<and> sb_layers b' = sb_layers b
      \<and> Bytes b' = icmp_hdr (icmp_fixed opts i (Bytes b)) @ Bytes b"
    using st [of "icmp_hdr (icmp_fixed opts i (Bytes b))"] lay by (simp add: icmp_hdr_def)
next
  fix opts p old df and i :: ICMPv4
  show "ICMPv4_DecodeFromBytes old (icmp_hdr (icmp_fixed opts i p) @ p) df =
      Some (with_base (icmp_fixed opts i p) (icmp_hdr (icmp_fixed opts i p)) p, df, None)"
    by (simp add: ICMPv4_DecodeFromBytes_def icmp_hdr_def be16_def CreateICMPv4TypeCode_def mk16_split idx_def)
qed

interpretation icmp_dl: decoding_layer ICMPv4_DecodeFromBytes Contents Payload 8 id
proof
  fix l l' m :: ICMPv4 and data df df'
  show "ICMPv4_DecodeFromBytes l data df \<noteq> None" by (auto simp: ICMPv4_DecodeFromBytes_def)
  assume ok: "ICMPv4_DecodeFromBytes l data df = Some (l', df', None)"
  then have len: "\<not> length data < 8" by (auto simp: ICMPv4_DecodeFromBytes_def)
  then show "8 \<le> length (Contents l') \<and> (\<exists>rest. data = Contents l' @ Payload l' @ rest)" using ok by (auto simp: ICMPv4_DecodeFromBytes_def)
  show "\<exists>m'. ICMPv4_DecodeFromBytes m data df = Some (m', df', None) \<and> id m' = id l'"
    using ok len by (intro reuse_idI) (auto simp: ICMPv4_DecodeFromBytes_def)
qed simp

subsection \<open>GRE survives\<close>

definition sre_wire :: "GRERouting \<Rightarrow> bytes" where
  "sre_wire r = be16 (sre_AddressFamily r) @ [sre_SREOffset r, sre_SRELength r] @ sre_RoutingInformation r"

definition gre_rest :: "GRE \<Rightarrow> bytes" where
  "gre_rest g = (if gre_KeyPresent g then be32 (gre_Key g) else []) @ (if gre_SeqPresent g then be32 (gre_Seq g) else [])
     @ (if gre_RoutingPresent g then concat (map sre_wire (gre_Routing g)) @ be32 0 else [])
     @ (if gre_AckPresent g then be32 (gre_Ack g) else [])"

definition gre_checksum_field :: "GRE \<Rightarrow> bytes \<Rightarrow> bytes" where
  "gre_checksum_field g ck = (if gre_ChecksumPresent g \<or> gre_RoutingPresent g then ck @ be16 (gre_Offset g) else [])"

definition gre_hdr :: "GRE \<Rightarrow> bytes" where
  "gre_hdr g = GRE_flag_bytes g @ be16 (gre_Protocol g) @ gre_checksum_field g (be16 (gre_Checksum g)) @ gre_rest g"

definition gre_zeroed :: "GRE \<Rightarrow> bytes" where
  "gre_zeroed g = GRE_flag_bytes g @ be16 (gre_Protocol g) @ gre_checksum_field g [0, 0] @ gre_rest g"

definition wf_sre :: "GRERouting \<Rightarrow> bool" where
  "wf_sre r \<longleftrightarrow> length (sre_RoutingInformation r) = unat (sre_SRELength r) \<and> (sre_AddressFamily r \<noteq> 0 \<or> sre_SRELength r \<noteq> 0)"

text \<open>Headers as the decoder builds them: bit fields of their widths, the flag of the acknowledgment in both places, absent fields zero,
  and not both routing and acknowledgment, whose bytes the serializer writes over each other.\<close>

definition wf_gre :: "GRE \<Rightarrow> bool" where
  "wf_gre g \<longleftrightarrow> gre_RecursionControl g < 8 \<and> gre_Flags g < 32 \<and> gre_Version g < 8 \<and> bit (gre_Flags g) 4 = gre_AckPresent g
     \<and> (\<not> gre_ChecksumPresent g \<longrightarrow> gre_Checksum g = 0) \<and> (\<not> gre_ChecksumPresent g \<and> \<not> gre_RoutingPresent g \<longrightarrow> gre_Offset g = 0)
     \<and> (\<not> gre_KeyPresent g \<longrightarrow> gre_Key g = 0) \<and> (\<not> gre_SeqPresent g \<longrightarrow> gre_Seq g = 0) \<and> (\<not> gre_AckPresent g \<longrightarrow> gre_Ack g = 0)
     \<and> (\<not> gre_RoutingPresent g \<longrightarrow> gre_Routing g = []) \<and> \<not> (gre_RoutingPresent g \<and> gre_AckPresent g) \<and> (\<forall>r \<in> set (gre_Routing g). wf_sre r)"

lemma length_sre_wire [simp]: "length (sre_wire r) = 4 + length (sre_RoutingInformation r)"
  by (simp add: sre_wire_def)

lemma sre_size: "\<forall>r \<in> set rs. wf_sre r \<Longrightarrow> sum_list (map (\<lambda>r. 4 + unat (sre_SRELength r)) rs) = length (concat (map sre_wire rs))"
  by (induction rs) (auto simp: wf_sre_def sre_wire_def)

lemma GRE_size_wire: "wf_gre g \<Longrightarrow> GRE_size g = 4 + length (gre_checksum_field g [0, 0]) + length (gre_rest g)"
  by (simp add: GRE_size_def gre_rest_def gre_checksum_field_def wf_gre_def sre_size)

lemma write_sres_wire:
  "\<lbrakk>\<forall>r \<in> set rs. wf_sre r; length junk = length (concat (map sre_wire rs)); n = length pre\<rbrakk> \<Longrightarrow>
     write_sres rs (pre @ junk @ rest) n = Some (pre @ concat (map sre_wire rs) @ rest, length (pre @ concat (map sre_wire rs)))"
proof (induction rs arbitrary: pre junk n)
  case (Cons r rs)
  have wf: "length (sre_RoutingInformation r) = unat (sre_SRELength r)" using Cons.prems(1) by (simp add: wf_sre_def)
  let ?i = "sre_RoutingInformation r"
  have "length junk = 4 + (length ?i + length (concat (map sre_wire rs)))" using Cons.prems(2) by simp
  then obtain j1 j2 where j1: "junk = j1 @ j2" "length j1 = 4" "length j2 = length ?i + length (concat (map sre_wire rs))" using cut_junk by blast
  obtain j3 j4 where j3: "j2 = j3 @ j4" "length j3 = length ?i" "length j4 = length (concat (map sre_wire rs))" using cut_junk [OF j1(3)] by blast
  obtain a b c d where abcd: "j1 = [a, b, c, d]" using length_cells(2) [OF j1(2)] by blast
  have IH: "write_sres rs ((pre @ sre_wire r) @ j4 @ rest) (n + (4 + unat (sre_SRELength r))) =
      Some ((pre @ sre_wire r) @ concat (map sre_wire rs) @ rest, length ((pre @ sre_wire r) @ concat (map sre_wire rs)))"
    using Cons.prems j3(3) wf by (intro Cons.IH) auto
  let ?w = "pre @ be16 (sre_AddressFamily r) @ [sre_SREOffset r, sre_SRELength r]"
  have w: "write_at (pre @ junk @ rest) n (be16 (sre_AddressFamily r)) = Some (pre @ be16 (sre_AddressFamily r) @ [c, d] @ j3 @ j4 @ rest)"
    "write_at (pre @ be16 (sre_AddressFamily r) @ [c, d] @ j3 @ j4 @ rest) (n + 2) [sre_SREOffset r] =
      Some (pre @ be16 (sre_AddressFamily r) @ [sre_SREOffset r, d] @ j3 @ j4 @ rest)"
    "write_at (pre @ be16 (sre_AddressFamily r) @ [sre_SREOffset r, d] @ j3 @ j4 @ rest) (n + 3) [sre_SRELength r] = Some (?w @ j3 @ j4 @ rest)"
    "slice (?w @ j3 @ j4 @ rest) (n + 4) (n + 4 + unat (sre_SRELength r)) = Some j3"
    using Cons.prems(3) abcd j1(1) j3(1,2) wf by (simp_all add: be16_def)
  have "write_at (?w @ j3 @ j4 @ rest) (n + 4) ?i = Some (?w @ ?i @ j4 @ rest)" using j3(2) Cons.prems(3) by (intro write_mid) simp_all
  then have "write_at (?w @ j3 @ j4 @ rest) (n + 4) (take (unat (sre_SRELength r)) ?i) = Some (pre @ sre_wire r @ j4 @ rest)"
    using wf by (simp add: sre_wire_def)
  then show ?case using IH unfolding write_sres.simps w Option.bind.simps by simp
qed simp

lemma sre_loop_wire:
  "\<forall>r \<in> set rs. wf_sre r \<Longrightarrow> sre_loop (pre @ concat (map sre_wire rs) @ be32 0 @ rest) (length pre) = Some (rs, length pre + length (concat (map sre_wire rs)) + 4)"
proof (induction rs arbitrary: pre)
  case Nil
  show ?case by (subst sre_loop.simps) (simp add: be32_def nth_append mk16_def)
next
  case (Cons r rs)
  let ?D = "pre @ concat (map sre_wire (r # rs)) @ be32 0 @ rest"
  have wf: "length (sre_RoutingInformation r) = unat (sre_SRELength r)" "sre_AddressFamily r \<noteq> 0 \<or> sre_SRELength r \<noteq> 0" using Cons.prems by (simp_all add: wf_sre_def)
  have "sre_loop ((pre @ sre_wire r) @ concat (map sre_wire rs) @ be32 0 @ rest) (length (pre @ sre_wire r)) =
      Some (rs, length (pre @ sre_wire r) + length (concat (map sre_wire rs)) + 4)" using Cons.prems by (intro Cons.IH) simp
  then have IH: "sre_loop ?D (length pre + (4 + unat (sre_SRELength r))) = Some (rs, length pre + length (concat (map sre_wire (r # rs))) + 4)"
    using wf(1) by (simp add: add.assoc)
  have f: "mk16 (?D ! length pre) (?D ! (length pre + 1)) = sre_AddressFamily r" "?D ! (length pre + 2) = sre_SREOffset r" "?D ! (length pre + 3) = sre_SRELength r"
    "take (unat (sre_SRELength r)) (drop (length pre + 4) ?D) = sre_RoutingInformation r" "\<not> length ?D < length pre + 4" "\<not> length ?D < length pre + 4 + unat (sre_SRELength r)"
    using wf(1) by (simp_all add: sre_wire_def nth_append be16_def mk16_split)
  show ?case using IH wf(2) by (subst sre_loop.simps) (simp only: f Let_def if_False option.case prod.case, simp)
qed

text \<open>An optional field of four bytes, written behind what is written already.\<close>

lemma opt_write:
  assumes "length junk = length (if c then bs else []) + m" "n = length pre" "length bs = 4"
  shows "\<exists>j. (if c then do { w \<leftarrow> write_at (pre @ junk) n bs; Some (w, n + 4) } else Some (pre @ junk, n)) =
      Some ((pre @ (if c then bs else [])) @ j, length (pre @ (if c then bs else []))) \<and> length j = m"
proof (cases c)
  case True
  from write_next [of junk bs m n pre "[]"] assms True obtain j where "write_at (pre @ junk) n bs = Some ((pre @ bs) @ j)" "length j = m" by auto
  then show ?thesis using True assms by simp
qed (use assms in auto)

lemma gre_write_tail:
  fixes q :: bytes
  assumes wf: "wf_gre g"
    and len: "length j = length (if gre_RoutingPresent g then concat (map sre_wire (gre_Routing g)) @ be32 0 else []) + length (if gre_AckPresent g then be32 (gre_Ack g) else [])"
  shows "(if gre_RoutingPresent g
          then do { (w6, o6) \<leftarrow> write_sres (gre_Routing g) (q @ j) (length q); w7 \<leftarrow> write_at w6 o6 (be32 0); Some (w7, o6) } else Some (q @ j, length q))
        \<bind> (\<lambda>(w6, o6). if gre_AckPresent g then write_at w6 o6 (be32 (gre_Ack g)) else Some w6) =
      Some (q @ (if gre_RoutingPresent g then concat (map sre_wire (gre_Routing g)) @ be32 0 else []) @ (if gre_AckPresent g then be32 (gre_Ack g) else []))"
proof (cases "gre_RoutingPresent g")
  case True
  let ?x = "concat (map sre_wire (gre_Routing g))"
  have na: "\<not> gre_AckPresent g" using wf True by (simp add: wf_gre_def)
  then have "length j = length ?x + 4" using len True by simp
  then obtain k1 k2 where k: "j = k1 @ k2" "length k1 = length ?x" "length k2 = 4" using cut_junk by blast
  have "write_sres (gre_Routing g) (q @ k1 @ k2) (length q) = Some (q @ ?x @ k2, length (q @ ?x))"
    using wf k(2) by (intro write_sres_wire) (auto simp: wf_gre_def)
  moreover have "write_at ((q @ ?x) @ k2 @ []) (length (q @ ?x)) (be32 0) = Some ((q @ ?x) @ be32 0 @ [])" using k(3) by (intro write_mid) simp_all
  ultimately show ?thesis using True na k(1) by simp
next
  case False
  have "write_at (q @ j @ []) (length q) (be32 (gre_Ack g)) = Some (q @ be32 (gre_Ack g) @ [])" if "gre_AckPresent g" using len that False by (intro write_mid) simp_all
  then show ?thesis using False len by (cases "gre_AckPresent g") simp_all
qed

lemma GRE_write_fields_wire:
  assumes wf: "wf_gre g" and len: "length w = GRE_size g"
  shows "GRE_write_fields g w = Some (gre_zeroed g)"
proof -
  let ?C = "gre_ChecksumPresent g \<or> gre_RoutingPresent g" and ?ck = "[0, 0] @ be16 (gre_Offset g)"
  let ?c = "if ?C then ?ck else []" and ?k = "if gre_KeyPresent g then be32 (gre_Key g) else []" and ?s = "if gre_SeqPresent g then be32 (gre_Seq g) else []"
  let ?r = "if gre_RoutingPresent g then concat (map sre_wire (gre_Routing g)) @ be32 0 else []" and ?a = "if gre_AckPresent g then be32 (gre_Ack g) else []"
  let ?p = "GRE_flag_bytes g @ be16 (gre_Protocol g)"
  have fl: "length (GRE_flag_bytes g) = 2" by (simp add: GRE_flag_bytes_def)
  have "length w = 4 + (length ?c + (length ?k + (length ?s + (length ?r + length ?a))))"
    using len GRE_size_wire [OF wf] by (simp add: gre_checksum_field_def gre_rest_def)
  then obtain u j0 where u: "w = u @ j0" "length u = 4" "length j0 = length ?c + (length ?k + (length ?s + (length ?r + length ?a)))" using cut_junk by blast
  obtain c1 c2 c3 c4 where "u = [c1, c2, c3, c4]" using length_cells(2) [OF u(2)] by blast
  then have "w = [] @ [c1, c2] @ [c3, c4] @ j0" using u(1) by simp
  with write_mid [of "[c1, c2]" "GRE_flag_bytes g" 0 "[]" "[c3, c4] @ j0"] fl have w0: "write_at w 0 (GRE_flag_bytes g) = Some (GRE_flag_bytes g @ [c3, c4] @ j0)"
    by simp
  have w1: "write_at (GRE_flag_bytes g @ [c3, c4] @ j0) 2 (be16 (gre_Protocol g)) = Some (?p @ j0)"
    using write_mid [OF _ fl [symmetric], of "[c3, c4]" "be16 (gre_Protocol g)" j0] by simp
  have e: "4 = length ?p" "length ?ck = 4" "(4 :: nat) + 4 = 8" using fl by simp_all
  obtain j1 where 1: "(if ?C then do { w3 \<leftarrow> write_at (?p @ j0) 4 ?ck; Some (w3, 8) } else Some (?p @ j0, 4)) = Some ((?p @ ?c) @ j1, length (?p @ ?c))"
    "length j1 = length ?k + (length ?s + (length ?r + length ?a))"
    using opt_write [OF u(3) e(1,2), unfolded e(3)] by blast
  obtain j2 where 2: "(if gre_KeyPresent g then do { w \<leftarrow> write_at ((?p @ ?c) @ j1) (length (?p @ ?c)) (be32 (gre_Key g)); Some (w, length (?p @ ?c) + 4) }
      else Some ((?p @ ?c) @ j1, length (?p @ ?c))) = Some (((?p @ ?c) @ ?k) @ j2, length ((?p @ ?c) @ ?k))" "length j2 = length ?s + (length ?r + length ?a)"
    using opt_write [OF 1(2) refl length_be32, of "?p @ ?c"] by blast
  obtain j3 where 3: "(if gre_SeqPresent g then do { w \<leftarrow> write_at (((?p @ ?c) @ ?k) @ j2) (length ((?p @ ?c) @ ?k)) (be32 (gre_Seq g)); Some (w, length ((?p @ ?c) @ ?k) + 4) }
      else Some (((?p @ ?c) @ ?k) @ j2, length ((?p @ ?c) @ ?k))) = Some ((((?p @ ?c) @ ?k) @ ?s) @ j3, length (((?p @ ?c) @ ?k) @ ?s))" "length j3 = length ?r + length ?a"
    using opt_write [OF 2(2) refl length_be32, of "(?p @ ?c) @ ?k"] by blast
  let ?q = "((?p @ ?c) @ ?k) @ ?s"
  have z: "gre_zeroed g = ?q @ ?r @ ?a" by (simp add: gre_zeroed_def gre_checksum_field_def gre_rest_def)
  show ?thesis
    unfolding GRE_write_fields_def w0 Option.bind.simps w1 1(1) split_conv 2(1) 3(1) z by (rule gre_write_tail [OF wf 3(2)])
qed

lemma gre_flag_bits:
  assumes "wf_gre g" "GRE_flag_bytes g = [b0, b1]"
  shows "(b0 AND 0x80 \<noteq> 0) = gre_ChecksumPresent g" "(b0 AND 0x40 \<noteq> 0) = gre_RoutingPresent g" "(b0 AND 0x20 \<noteq> 0) = gre_KeyPresent g"
    "(b0 AND 0x10 \<noteq> 0) = gre_SeqPresent g" "(b0 AND 0x08 \<noteq> 0) = gre_StrictSourceRoute g" "(b1 AND 0x80 \<noteq> 0) = gre_AckPresent g"
    "b0 AND 0x7 = gre_RecursionControl g" "drop_bit 3 b1 = gre_Flags g" "b1 AND 0x7 = gre_Version g"
proof -
  have r: "\<not> bit (gre_RecursionControl g) n" if "3 \<le> n" for n
    using assms(1) that by (intro not_bit_small [of _ 3]) (simp_all add: wf_gre_def word_less_nat_alt)
  have v: "\<not> bit (gre_Version g) n" if "3 \<le> n" for n using assms(1) that by (intro not_bit_small [of _ 3]) (simp_all add: wf_gre_def word_less_nat_alt)
  have f: "\<not> bit (gre_Flags g) n" if "5 \<le> n" for n using assms(1) that by (intro not_bit_small [of _ 5]) (simp_all add: wf_gre_def word_less_nat_alt)
  have a: "bit (gre_Flags g) 4 = gre_AckPresent g" using assms(1) by (simp add: wf_gre_def)
  note d = assms(2) [unfolded GRE_flag_bytes_def list.inject, THEN conjunct1, symmetric]
    assms(2) [unfolded GRE_flag_bytes_def list.inject, THEN conjunct2, THEN conjunct1, symmetric]
  show "(b0 AND 0x80 \<noteq> 0) = gre_ChecksumPresent g" using word_nonzero_bit [of b0 7] by (simp add: d bit_simps r)
  show "(b0 AND 0x40 \<noteq> 0) = gre_RoutingPresent g" using word_nonzero_bit [of b0 6] by (simp add: d bit_simps r)
  show "(b0 AND 0x20 \<noteq> 0) = gre_KeyPresent g" using word_nonzero_bit [of b0 5] by (simp add: d bit_simps r)
  show "(b0 AND 0x10 \<noteq> 0) = gre_SeqPresent g" using word_nonzero_bit [of b0 4] by (simp add: d bit_simps r)
  show "(b0 AND 0x08 \<noteq> 0) = gre_StrictSourceRoute g" using word_nonzero_bit [of b0 3] by (simp add: d bit_simps r)
  show "(b1 AND 0x80 \<noteq> 0) = gre_AckPresent g" using word_nonzero_bit [of b1 7] by (simp add: d bit_simps v a)
  show "b0 AND 0x7 = gre_RecursionControl g"
  proof (rule bit_word_eqI)
    fix n assume "n < LENGTH(8)"
    then have "n < 8" by simp
    from less8_cases [OF this] show "bit (b0 AND 0x7) n = bit (gre_RecursionControl g) n" by (elim disjE) (simp_all add: d bit_simps r)
  qed
  show "drop_bit 3 b1 = gre_Flags g"
  proof (rule bit_word_eqI)
    fix n assume "n < LENGTH(8)"
    then have "n < 8" by simp
    from less8_cases [OF this] show "bit (drop_bit 3 b1) n = bit (gre_Flags g) n" by (elim disjE) (simp_all add: d bit_simps v f a)
  qed
  show "b1 AND 0x7 = gre_Version g"
  proof (rule bit_word_eqI)
    fix n assume "n < LENGTH(8)"
    then have "n < 8" by simp
    from less8_cases [OF this] show "bit (b1 AND 0x7) n = bit (gre_Version g) n" by (elim disjE) (simp_all add: d bit_simps v)
  qed
qed

lemma gre_read_wire:
  assumes "n = length pre" "D = pre @ x @ rest" "m = n + length x"
  shows "x = (if gre_ChecksumPresent k \<or> gre_RoutingPresent k then be16 c @ be16 off else []) \<Longrightarrow>
      gre_read_checksum D (k, n) = Some (if gre_ChecksumPresent k \<or> gre_RoutingPresent k then k\<lparr>gre_Checksum := c, gre_Offset := off\<rparr> else k, m)"
    and "x = (if gre_KeyPresent k then be32 v else []) \<Longrightarrow> gre_read_key D (k, n) = Some (if gre_KeyPresent k then k\<lparr>gre_Key := v\<rparr> else k, m)"
    and "x = (if gre_SeqPresent k then be32 v else []) \<Longrightarrow> gre_read_seq D (k, n) = Some (if gre_SeqPresent k then k\<lparr>gre_Seq := v\<rparr> else k, m)"
    and "x = (if gre_AckPresent k then be32 v else []) \<Longrightarrow> gre_read_ack D (k, n) = Some (if gre_AckPresent k then k\<lparr>gre_Ack := v\<rparr> else k, m)"
    and "\<lbrakk>x = (if gre_RoutingPresent k then concat (map sre_wire rs) @ be32 0 else []); \<forall>r \<in> set rs. wf_sre r\<rbrakk> \<Longrightarrow>
      gre_read_routing D (k, n) = Some (if gre_RoutingPresent k \<and> rs \<noteq> [] then k\<lparr>gre_Routing := rs\<rparr> else k, m)"
proof -
  assume x: "x = (if gre_ChecksumPresent k \<or> gre_RoutingPresent k then be16 c @ be16 off else [])"
  show "gre_read_checksum D (k, n) = Some (if gre_ChecksumPresent k \<or> gre_RoutingPresent k then k\<lparr>gre_Checksum := c, gre_Offset := off\<rparr> else k, m)"
  proof (cases "gre_ChecksumPresent k \<or> gre_RoutingPresent k")
    case True
    then have "u16_at D n = Some c" "u16_at D (n + 2) = Some off"
      using x assms u16_at_mid [of n pre c "be16 off @ rest"] u16_at_mid [of "n + 2" "pre @ be16 c" off rest] by auto
    then show ?thesis using True x assms by (simp add: gre_read_checksum_def)
  qed (use x assms in \<open>simp add: gre_read_checksum_def\<close>)
next
  assume x: "x = (if gre_KeyPresent k then be32 v else [])"
  then show "gre_read_key D (k, n) = Some (if gre_KeyPresent k then k\<lparr>gre_Key := v\<rparr> else k, m)"
    using assms u32_at_mid [of n pre v rest] by (cases "gre_KeyPresent k") (simp_all add: gre_read_key_def)
next
  assume x: "x = (if gre_SeqPresent k then be32 v else [])"
  then show "gre_read_seq D (k, n) = Some (if gre_SeqPresent k then k\<lparr>gre_Seq := v\<rparr> else k, m)"
    using assms u32_at_mid [of n pre v rest] by (cases "gre_SeqPresent k") (simp_all add: gre_read_seq_def)
next
  assume x: "x = (if gre_AckPresent k then be32 v else [])"
  then show "gre_read_ack D (k, n) = Some (if gre_AckPresent k then k\<lparr>gre_Ack := v\<rparr> else k, m)"
    using assms u32_at_mid [of n pre v rest] by (cases "gre_AckPresent k") (simp_all add: gre_read_ack_def)
next
  assume x: "x = (if gre_RoutingPresent k then concat (map sre_wire rs) @ be32 0 else [])" and "\<forall>r \<in> set rs. wf_sre r"
  from sre_loop_wire [OF this(2), of pre rest] x assms
  show "gre_read_routing D (k, n) = Some (if gre_RoutingPresent k \<and> rs \<noteq> [] then k\<lparr>gre_Routing := rs\<rparr> else k, m)"
    by (cases "gre_RoutingPresent k") (simp_all add: gre_read_routing_def)
qed

lemma GRE_decode_wire:
  assumes "wf_gre g"
  shows "GRE_DecodeFromBytes zero_GRE (gre_hdr g @ p) df = Some (with_base g (gre_hdr g) p, df, None)"
proof -
  define c k s r a where "c = gre_checksum_field g (be16 (gre_Checksum g))" and "k = (if gre_KeyPresent g then be32 (gre_Key g) else [])"
    and "s = (if gre_SeqPresent g then be32 (gre_Seq g) else [])" and "r = (if gre_RoutingPresent g then concat (map sre_wire (gre_Routing g)) @ be32 0 else [])"
    and "a = (if gre_AckPresent g then be32 (gre_Ack g) else [])"
  note fields = this
  let ?D = "gre_hdr g @ p" and ?h = "GRE_flag_bytes g @ be16 (gre_Protocol g)"
  have D: "?D = ?h @ c @ k @ s @ r @ a @ p" and H: "gre_hdr g = ?h @ c @ k @ s @ r @ a" unfolding fields by (simp_all only: gre_hdr_def gre_rest_def append_assoc)
  obtain b0 b1 where fb: "GRE_flag_bytes g = [b0, b1]" by (simp add: GRE_flag_bytes_def)
  have i: "idx ?D 0 = Some b0" "idx ?D 1 = Some b1" "u16_at ?D 2 = Some (gre_Protocol g)"
    unfolding D using u16_at_mid [of 2 "[b0, b1]" "gre_Protocol g" "c @ k @ s @ r @ a @ p"] by (simp_all add: fb idx_def)
  note f = gre_flag_bits [OF assms fb]
  let ?g1 = "zero_GRE\<lparr>gre_ChecksumPresent := gre_ChecksumPresent g, gre_RoutingPresent := gre_RoutingPresent g, gre_KeyPresent := gre_KeyPresent g,
    gre_SeqPresent := gre_SeqPresent g, gre_StrictSourceRoute := gre_StrictSourceRoute g, gre_AckPresent := gre_AckPresent g,
    gre_RecursionControl := gre_RecursionControl g, gre_Flags := gre_Flags g, gre_Version := gre_Version g, gre_Protocol := gre_Protocol g\<rparr>"
  let ?g2 = "?g1\<lparr>gre_Checksum := gre_Checksum g, gre_Offset := gre_Offset g\<rparr>" let ?g3 = "?g2\<lparr>gre_Key := gre_Key g\<rparr>"
  let ?g4 = "?g3\<lparr>gre_Seq := gre_Seq g\<rparr>" let ?g5 = "?g4\<lparr>gre_Routing := gre_Routing g\<rparr>" let ?g6 = "?g5\<lparr>gre_Ack := gre_Ack g\<rparr>"
  note wf = assms [unfolded wf_gre_def]
  have z: "(if gre_ChecksumPresent g \<or> gre_RoutingPresent g then ?g2 else ?g1) = ?g2" "(if gre_KeyPresent g then ?g3 else ?g2) = ?g3"
    "(if gre_SeqPresent g then ?g4 else ?g3) = ?g4" "(if gre_RoutingPresent g \<and> gre_Routing g \<noteq> [] then ?g5 else ?g4) = ?g5" "(if gre_AckPresent g then ?g6 else ?g5) = ?g6"
    using wf by (auto simp: zero_GRE_def)
  have h4: "4 = length ?h" by (simp add: fb)
  have sel: "gre_ChecksumPresent ?g1 = gre_ChecksumPresent g" "gre_RoutingPresent ?g1 = gre_RoutingPresent g" "gre_KeyPresent ?g2 = gre_KeyPresent g"
    "gre_SeqPresent ?g3 = gre_SeqPresent g" "gre_RoutingPresent ?g4 = gre_RoutingPresent g" "gre_AckPresent ?g5 = gre_AckPresent g" by simp_all
  have sp: "?D = (?h @ c) @ k @ (s @ r @ a @ p)" "?D = (?h @ c @ k) @ s @ (r @ a @ p)" "?D = (?h @ c @ k @ s) @ r @ (a @ p)" "?D = (?h @ c @ k @ s @ r) @ a @ p"
    using D by (simp_all only: append_assoc)
  have len: "length (?h @ c) = 4 + length c" "length (?h @ c @ k) = length (?h @ c) + length k" "length (?h @ c @ k @ s) = length (?h @ c @ k) + length s"
    "length (?h @ c @ k @ s @ r) = length (?h @ c @ k @ s) + length r" "length (gre_hdr g) = length (?h @ c @ k @ s @ r) + length a"
    unfolding H by (simp_all only: length_append add.assoc h4)
  have 1: "gre_read_checksum ?D (?g1, 4) = Some (?g2, length (?h @ c))"
    using gre_read_wire(1) [OF h4 D len(1), of ?g1 "gre_Checksum g" "gre_Offset g", unfolded sel z(1)] fields(1) unfolding gre_checksum_field_def by blast
  have 2: "gre_read_key ?D (?g2, length (?h @ c)) = Some (?g3, length (?h @ c @ k))"
    using gre_read_wire(2) [OF refl sp(1) len(2), of ?g2 "gre_Key g", unfolded sel z(2)] fields(2) by blast
  have 3: "gre_read_seq ?D (?g3, length (?h @ c @ k)) = Some (?g4, length (?h @ c @ k @ s))"
    using gre_read_wire(3) [OF refl sp(2) len(3), of ?g3 "gre_Seq g", unfolded sel z(3)] fields(3) by blast
  have 4: "gre_read_routing ?D (?g4, length (?h @ c @ k @ s)) = Some (?g5, length (?h @ c @ k @ s @ r))"
    using gre_read_wire(5) [OF refl sp(3) len(4), of ?g4 "gre_Routing g", unfolded sel z(4)] fields(4) wf by blast
  have 5: "gre_read_ack ?D (?g5, length (?h @ c @ k @ s @ r)) = Some (?g6, length (gre_hdr g))"
    using gre_read_wire(4) [OF refl sp(4) len(5), of ?g5 "gre_Ack g", unfolded sel z(5)] fields(5) by blast
  have "with_base ?g6 (gre_hdr g) p = with_base g (gre_hdr g) p" by (rule GRE.equality) (simp_all add: zero_GRE_def)
  then show ?thesis unfolding GRE_DecodeFromBytes_def i gre_read_fields_def Option.bind.simps Let_def f 1 2 3 4 5 split_conv by simp
qed

definition gre_fixed :: "SerializeOptions \<Rightarrow> GRE \<Rightarrow> bytes \<Rightarrow> GRE" where
  "gre_fixed opts g pl = (if gre_ChecksumPresent g \<and> ComputeChecksums opts then g\<lparr>gre_Checksum := tcpipChecksum (gre_zeroed g @ pl) 0\<rparr> else g)"

lemma gre_store_checksum:
  assumes "gre_ChecksumPresent g"
  shows "write_at (gre_zeroed g) 4 (be16 c) = Some (gre_hdr (g\<lparr>gre_Checksum := c\<rparr>))"
proof -
  let ?h = "GRE_flag_bytes g @ be16 (gre_Protocol g)"
  have "gre_zeroed g = ?h @ [0, 0] @ be16 (gre_Offset g) @ gre_rest g" using assms by (simp add: gre_zeroed_def gre_checksum_field_def)
  moreover have "gre_hdr (g\<lparr>gre_Checksum := c\<rparr>) = ?h @ be16 c @ be16 (gre_Offset g) @ gre_rest g"
    using assms by (simp add: gre_hdr_def gre_checksum_field_def GRE_flag_bytes_def gre_rest_def)
  moreover have "4 = length ?h" by (simp add: GRE_flag_bytes_def)
  ultimately show ?thesis by (simp only: write_mid [of "[0, 0]"] length_be16 list.size numeral_2_eq_2 add_0)
qed

lemma gre_hdr_zeroed: "wf_gre g \<Longrightarrow> \<not> gre_ChecksumPresent g \<Longrightarrow> gre_hdr g = gre_zeroed g"
  by (simp add: gre_hdr_def gre_zeroed_def gre_checksum_field_def wf_gre_def)

lemma wf_gre_checksum: "wf_gre g \<Longrightarrow> gre_ChecksumPresent g \<Longrightarrow> wf_gre (g\<lparr>gre_Checksum := c\<rparr>)"
  by (simp add: wf_gre_def)

lemma length_gre: "wf_gre g \<Longrightarrow> length (gre_hdr g) = GRE_size g" "wf_gre g \<Longrightarrow> length (gre_zeroed g) = GRE_size g"
  by (simp_all add: GRE_size_wire gre_hdr_def gre_zeroed_def gre_checksum_field_def GRE_flag_bytes_def)

interpretation gre: header_codec GRE_SerializeTo "\<lambda>old. GRE_DecodeFromBytes zero_GRE" "\<lambda>opts g p. wf_gre g" gre_fixed gre_hdr
proof
  fix b and opts :: SerializeOptions and g :: GRE assume b: "sb_inv b" and wf: "wf_gre g"
  obtain b1 w where b1: "PrependBytes b (int (GRE_size g)) = Some b1" "take (GRE_size g) (Bytes b1) = w" "length w = GRE_size g" and lay: "sb_layers b1 = sb_layers b"
    and st: "\<And>h. length h = GRE_size g \<Longrightarrow> sb_inv (store_front b1 h) \<and> Bytes (store_front b1 h) = h @ Bytes b" using prepended [OF b, of "GRE_size g"] by metis
  let ?g = "gre_fixed opts g (Bytes b)"
  have z: "Bytes (store_front b1 (gre_zeroed g)) = gre_zeroed g @ Bytes b" using st length_gre(2) [OF wf] by blast
  have "GRE_SerializeTo g b opts = Some (?g, store_front b1 (gre_hdr ?g), None)"
  proof (cases "gre_ChecksumPresent g")
    case True
    have self: "g\<lparr>gre_Checksum := gre_Checksum g\<rparr> = g" by simp
    show ?thesis unfolding GRE_SerializeTo_def b1(1,2) Option.bind.simps GRE_write_fields_wire [OF wf b1(3)] Let_def z
      using True gre_store_checksum [OF True, of "gre_Checksum g"] gre_store_checksum [OF True, of "tcpipChecksum (gre_zeroed g @ Bytes b) 0"]
      by (simp add: gre_fixed_def)
  next
    case False
    then show ?thesis unfolding GRE_SerializeTo_def b1(1,2) Option.bind.simps GRE_write_fields_wire [OF wf b1(3)]
      by (simp add: gre_fixed_def gre_hdr_zeroed [OF wf False])
  qed
  moreover have "length (gre_hdr ?g) = GRE_size g"
    using wf length_gre(1) [OF wf] length_gre(1) [OF wf_gre_checksum [OF wf]] by (auto simp: gre_fixed_def GRE_size_def)
  ultimately show "\<exists>b'. GRE_SerializeTo g b opts = Some (?g, b', None) \<and> sb_inv b' \<and> sb_layers b' = sb_layers b \<and> Bytes b' = gre_hdr ?g @ Bytes b"
    using st [of "gre_hdr ?g"] lay by simp
next
  fix opts :: SerializeOptions and p df and old g :: GRE assume "wf_gre g"
  then have "wf_gre (gre_fixed opts g p)" by (simp add: gre_fixed_def wf_gre_checksum)
  then show "GRE_DecodeFromBytes zero_GRE (gre_hdr (gre_fixed opts g p) @ p) df = Some (with_base (gre_fixed opts g p) (gre_hdr (gre_fixed opts g p)) p, df, None)"
    by (rule GRE_decode_wire)
qed

subsection \<open>Round trips and checksums\<close>

lemma checksum_room: "length xs < 100000 \<Longrightarrow> unat (0 :: u32) + wsum xs + 65535 < 4294967296"
  using wsum_bound [of xs] by simp

text \<open>C29. ICMPv4 messages, and GRE headers in which the subfields fit their bits, absent fields are zero and source routes do not come
  together with an acknowledgment, survive serialization and decoding in front of any payload: the checksum, the key, the sequence number, the
  acknowledgment and any list of source route entries, in every other combination. The checksum the serializer computes verifies at
  the receiver. (With source routes and an acknowledgment the serializer writes a broken header, see below.)\<close>

theorem ICMPv4_GRE_roundtrip:
  assumes "sb_inv b"
  shows "(\<exists>b' i'. ICMPv4_SerializeTo i b opts = Some (i', b', None) \<and> ICMPv4_DecodeFromBytes old (Bytes b') df = Some (with_base i' (icmp_hdr i') (Bytes b), df, None)
       \<and> icmp_TypeCode i' = icmp_TypeCode i \<and> icmp_Id i' = icmp_Id i \<and> icmp_Seq i' = icmp_Seq i
       \<and> (ComputeChecksums opts \<and> length (Bytes b) < 90000 \<longrightarrow> tcpipChecksum (Bytes b') 0 = 0))
    \<and> (wf_gre g \<longrightarrow> (\<exists>b' g'. GRE_SerializeTo g b opts = Some (g', b', None) \<and> GRE_DecodeFromBytes zero_GRE (Bytes b') df = Some (with_base g' (gre_hdr g') (Bytes b), df, None)
       \<and> g'\<lparr>gre_Checksum := 0\<rparr> = g\<lparr>gre_Checksum := 0\<rparr>
       \<and> (gre_ChecksumPresent g \<and> ComputeChecksums opts \<and> length (Bytes b') < 100000 \<longrightarrow> tcpipChecksum (Bytes b') 0 = 0)))"
proof (intro conjI impI)
  let ?i = "icmp_fixed opts i (Bytes b)"
  obtain b' where b': "ICMPv4_SerializeTo i b opts = Some (?i, b', None)" "Bytes b' = icmp_hdr ?i @ Bytes b"
    "ICMPv4_DecodeFromBytes old (Bytes b') df = Some (with_base ?i (icmp_hdr ?i) (Bytes b), df, None)" using icmp.survives [where l = i and opts = opts and old = old and df = df, OF assms] by blast
  have "tcpipChecksum (Bytes b') 0 = 0" if "ComputeChecksums opts" "length (Bytes b) < 90000"
    using stored_checksum_verifies [of "be16 (icmp_TypeCode i)" 0 "be16 (icmp_Id i) @ be16 (icmp_Seq i) @ Bytes b"] that
      checksum_room [of "be16 (icmp_TypeCode i) @ [0, 0] @ be16 (icmp_Id i) @ be16 (icmp_Seq i) @ Bytes b"]
    by (simp add: b'(2) icmp_hdr_def icmp_fixed_def)
  then show "\<exists>b' i'. ICMPv4_SerializeTo i b opts = Some (i', b', None) \<and> ICMPv4_DecodeFromBytes old (Bytes b') df = Some (with_base i' (icmp_hdr i') (Bytes b), df, None)
       \<and> icmp_TypeCode i' = icmp_TypeCode i \<and> icmp_Id i' = icmp_Id i \<and> icmp_Seq i' = icmp_Seq i
       \<and> (ComputeChecksums opts \<and> length (Bytes b) < 90000 \<longrightarrow> tcpipChecksum (Bytes b') 0 = 0)"
    using b' by (intro exI [of _ b'] exI [of _ ?i]) (simp add: icmp_fixed_def)
next
  assume wf: "wf_gre g"
  let ?g = "gre_fixed opts g (Bytes b)"
  obtain b' where b': "GRE_SerializeTo g b opts = Some (?g, b', None)" "Bytes b' = gre_hdr ?g @ Bytes b"
    "GRE_DecodeFromBytes zero_GRE (Bytes b') df = Some (with_base ?g (gre_hdr ?g) (Bytes b), df, None)" using gre.survives [where l = g and opts = opts and df = df, OF assms] wf by blast
  have "tcpipChecksum (Bytes b') 0 = 0" if c: "gre_ChecksumPresent g" "ComputeChecksums opts" "length (Bytes b') < 100000"
  proof -
    let ?h = "GRE_flag_bytes g @ be16 (gre_Protocol g)" and ?r = "be16 (gre_Offset g) @ gre_rest g @ Bytes b"
    have z: "gre_zeroed g @ Bytes b = ?h @ [0, 0] @ ?r" using c(1) by (simp add: gre_zeroed_def gre_checksum_field_def)
    have "gre_hdr ?g @ Bytes b = ?h @ be16 (tcpipChecksum (?h @ [0, 0] @ ?r) 0) @ ?r"
      using c(1,2) z by (simp add: gre_fixed_def gre_hdr_def gre_checksum_field_def GRE_flag_bytes_def gre_rest_def)
    moreover have "length (?h @ [0, 0] @ ?r) < 100000" using c(3) calculation unfolding b'(2) by simp
    moreover have "even (length ?h)" by (simp add: GRE_flag_bytes_def)
    ultimately show ?thesis unfolding b'(2) using stored_checksum_verifies [of ?h 0 ?r] checksum_room [of "?h @ [0, 0] @ ?r"] by (simp only:)
  qed
  moreover have "?g\<lparr>gre_Checksum := 0\<rparr> = g\<lparr>gre_Checksum := 0\<rparr>" by (simp add: gre_fixed_def)
  ultimately show "\<exists>b' g'. GRE_SerializeTo g b opts = Some (g', b', None) \<and> GRE_DecodeFromBytes zero_GRE (Bytes b') df = Some (with_base g' (gre_hdr g') (Bytes b), df, None)
       \<and> g'\<lparr>gre_Checksum := 0\<rparr> = g\<lparr>gre_Checksum := 0\<rparr>
       \<and> (gre_ChecksumPresent g \<and> ComputeChecksums opts \<and> length (Bytes b') < 100000 \<longrightarrow> tcpipChecksum (Bytes b') 0 = 0)"
    using b' by (intro exI [of _ b'] exI [of _ ?g]) simp
qed

definition ex_gre :: GRE where
  "ex_gre = zero_GRE\<lparr>gre_ChecksumPresent := True, gre_RoutingPresent := True, gre_KeyPresent := True, gre_RecursionControl := 5, gre_Version := 1,
     gre_Protocol := 0x0800, gre_Key := 0x12345678,
     gre_Routing := [\<lparr>sre_AddressFamily = 0x0800, sre_SREOffset = 4, sre_SRELength = 4, sre_RoutingInformation = [10, 0, 0, 1]\<rparr>]\<rparr>"

theorem ICMPv4_GRE_roundtrip_witness:
  "\<exists>b' g'. GRE_SerializeTo ex_gre NewSerializeBuffer \<lparr>FixLengths = True, ComputeChecksums = True\<rparr> = Some (g', b', None)
     \<and> GRE_DecodeFromBytes zero_GRE (Bytes b') False = Some (with_base g' (gre_hdr g') [], False, None) \<and> gre_Routing g' = gre_Routing ex_gre"
proof -
  have "wf_gre ex_gre" by (simp add: wf_gre_def ex_gre_def zero_GRE_def wf_sre_def)
  then obtain b' g' where "GRE_SerializeTo ex_gre NewSerializeBuffer \<lparr>FixLengths = True, ComputeChecksums = True\<rparr> = Some (g', b', None)"
    "GRE_DecodeFromBytes zero_GRE (Bytes b') False = Some (with_base g' (gre_hdr g') [], False, None)" and eq: "g'\<lparr>gre_Checksum := 0\<rparr> = ex_gre\<lparr>gre_Checksum := 0\<rparr>"
    using ICMPv4_GRE_roundtrip [OF sb_inv_New, of zero_ICMPv4 "\<lparr>FixLengths = True, ComputeChecksums = True\<rparr>" zero_ICMPv4 False ex_gre, THEN conjunct2, THEN mp]
    by (auto simp: Bytes_New)
  moreover have "gre_Routing g' = gre_Routing ex_gre" using arg_cong [OF eq, of gre_Routing] by simp
  ultimately show ?thesis by blast
qed

text \<open>With routing and acknowledgment the acknowledgment is written over the empty entry that ends the list, and the last four
  bytes of the header are never written: here the buffer's old bytes 9 remain, and the decoder takes the acknowledgment for an entry.\<close>

lemma GRE_ack_overwrites:
  "GRE_write_fields (zero_GRE\<lparr>gre_RoutingPresent := True, gre_AckPresent := True, gre_Flags := 16, gre_Ack := 7\<rparr>) (replicate 16 9) =
     Some [0x40, 0x80, 0, 0, 0, 0, 0, 0, 0, 0, 0, 7, 9, 9, 9, 9]"
  "GRE_size (zero_GRE\<lparr>gre_RoutingPresent := True, gre_AckPresent := True, gre_Flags := 16, gre_Ack := 7\<rparr>) = 16"
  by code_simp+

text \<open>A decoder that is reused keeps the fields that are absent in the next header.\<close>

lemma GRE_reuse_keeps:
  "map_option (\<lambda>(g, _). gre_Key g) (GRE_DecodeFromBytes (zero_GRE\<lparr>gre_Key := 5\<rparr>) [0, 0, 8, 0] False) = Some 5"
  by code_simp

subsection \<open>The decoder moves forward\<close>

lemma sre_loop_forward: "sre_loop data offset = Some (rs, o') \<Longrightarrow> offset < o'"
proof (induction data offset arbitrary: rs o' rule: sre_loop.induct)
  case (1 data offset)
  let ?sl = "data ! (offset + 3)"
  from 1(2) have len: "\<not> length data < offset + 4" "\<not> length data < offset + 4 + unat ?sl" by (subst (asm) sre_loop.simps, simp add: Let_def split: if_splits)+
  show ?case
  proof (cases "mk16 (data ! offset) (data ! (offset + 1)) = 0 \<and> ?sl = 0")
    case True
    then show ?thesis using 1(2) len by (subst (asm) sre_loop.simps) (simp add: Let_def)
  next
    case False
    then obtain rs1 where "sre_loop data (offset + (4 + unat ?sl)) = Some (rs1, o')"
      using 1(2) len by (subst (asm) sre_loop.simps) (auto simp: Let_def split: option.splits)
    from 1(1) [OF len(1) refl refl refl len(2) False this] show ?thesis by simp
  qed
qed

lemma gre_reads_forward:
  "gre_read_checksum data s = Some s' \<Longrightarrow> snd s \<le> snd s'" "gre_read_key data s = Some s' \<Longrightarrow> snd s \<le> snd s'"
  "gre_read_seq data s = Some s' \<Longrightarrow> snd s \<le> snd s'" "gre_read_routing data s = Some s' \<Longrightarrow> snd s \<le> snd s'"
  "gre_read_ack data s = Some s' \<Longrightarrow> snd s \<le> snd s'"
  subgoal by (cases s) (simp add: gre_read_checksum_def bind_eq_Some_conv split: if_splits del: u16_at_in, auto)
  subgoal by (cases s) (simp add: gre_read_key_def bind_eq_Some_conv split: if_splits del: u32_at_in, auto)
  subgoal by (cases s) (simp add: gre_read_seq_def bind_eq_Some_conv split: if_splits del: u32_at_in, auto)
  subgoal by (cases s) (simp add: gre_read_routing_def bind_eq_Some_conv split: if_splits, auto dest: sre_loop_forward)
  subgoal by (cases s) (simp add: gre_read_ack_def bind_eq_Some_conv split: if_splits del: u32_at_in, auto)
  done

lemma gre_fields_forward:
  assumes "gre_read_fields data s = Some s'"
  shows "snd s \<le> snd s'"
proof -
  from assms obtain s1 s2 s3 s4 where "gre_read_checksum data s = Some s1" "gre_read_key data s1 = Some s2" "gre_read_seq data s2 = Some s3"
    "gre_read_routing data s3 = Some s4" "gre_read_ack data s4 = Some s'" by (auto simp: gre_read_fields_def bind_eq_Some_conv)
  then have "snd s \<le> snd s1" "snd s1 \<le> snd s2" "snd s2 \<le> snd s3" "snd s3 \<le> snd s4" "snd s4 \<le> snd s'" by (simp_all add: gre_reads_forward)
  then show ?thesis by simp
qed

lemma GRE_payload_shorter:
  assumes "GRE_DecodeFromBytes g data df = Some (g', df', err)"
  shows "length (Payload g') < length data"
proof -
  from assms [unfolded GRE_DecodeFromBytes_def Let_def bind_eq_Some_conv]
  obtain b0 g1 s where s: "idx data 0 = Some b0" "gre_read_fields data (g1, 4) = Some s"
    and r: "(case s of (g5, offset) \<Rightarrow> slice data 0 offset \<bind> (\<lambda>c. slice data offset (length data) \<bind> (\<lambda>p. Some (g5\<lparr>Contents := c, Payload := p\<rparr>, df, None)))) = Some (g', df', err)"
    by blast
  obtain g5 n where "s = (g5, n)" by fastforce
  then have "4 \<le> n" "Payload g' = drop n data" using gre_fields_forward [OF s(2)] r by (auto simp: bind_eq_Some_conv slice_eq_Some simp del: slice_in)
  then show ?thesis using s(1) by (auto simp: idx_def split: if_splits)
qed

lemma udplite_payload_shorter: "udplite_of data = Some u \<Longrightarrow> length (Payload u) < length data"
  by (auto simp: udplite_of_def bind_eq_Some_conv slice_eq_Some simp del: u16_at_in slice_in)

end
