(* ===== verification/Parser.thy ===== *)
theory Parser
  imports Layer_Base Layer_Class
begin

section \<open>The decoding layer parser (\<^verbatim>\<open>parser.go\<close>, \<^verbatim>\<open>layers_decoder.go\<close>)\<close>

text \<open>
  A decoding layer is a pointer to a struct that the parser decodes in place. All the structs a parser decodes
  into are one store of type \<open>'st\<close>, and a decoding layer is the record of its four methods on that store. The
  three containers of decoding layers, their common interface as a locale, the decoding loop and the parser.
\<close>

record 'st DecodingLayer =
  DecodeFromBytes :: "'st \<Rightarrow> bytes \<Rightarrow> bool \<Rightarrow> 'st decoded"
  CanDecode :: LayerClass
  NextLayerType :: "'st \<Rightarrow> LayerType"
  LayerPayload :: "'st \<Rightarrow> bytes"

text \<open>A struct of the store as a decoding layer for one layer type.\<close>

definition in_store :: "('st \<Rightarrow> 'l) \<Rightarrow> ('l \<Rightarrow> 'st \<Rightarrow> 'st) \<Rightarrow> LayerType \<Rightarrow> ('l \<Rightarrow> bytes \<Rightarrow> bool \<Rightarrow> 'l decoded)
     \<Rightarrow> ('l \<Rightarrow> LayerType) \<Rightarrow> ('l \<Rightarrow> bytes) \<Rightarrow> 'st DecodingLayer" where
  "in_store get put t decode nxt payload =
     \<lparr>DecodeFromBytes = (\<lambda>st data df. map_option (\<lambda>(l, df1, err). (put l st, df1, err)) (decode (get st) data df)),
      CanDecode = LC_Type t, NextLayerType = (\<lambda>st. nxt (get st)), LayerPayload = (\<lambda>st. payload (get st))\<rparr>"

definition Payload_DecodeFromBytes :: "bytes \<Rightarrow> bytes \<Rightarrow> bool \<Rightarrow> bytes decoded" where
  "Payload_DecodeFromBytes p data df = Some (data, df, None)"

definition Payload_NextLayerType :: "bytes \<Rightarrow> LayerType" where
  "Payload_NextLayerType p = LayerTypeZero"

definition Payload_LayerPayload :: "bytes \<Rightarrow> bytes" where
  "Payload_LayerPayload p = []"

definition types_of :: "'st DecodingLayer \<Rightarrow> LayerType list" where
  "types_of d = LC_LayerTypes (CanDecode d)"

subsection \<open>Containers\<close>

text \<open>\<^verbatim>\<open>DecodingLayerSparse\<close> is indexed by layer type, \<^verbatim>\<open>nil\<close> entries are \<open>None\<close>; a negative index panics.\<close>

type_synonym 'st DecodingLayerSparse = "'st DecodingLayer option list"
type_synonym 'st DecodingLayerArray = "(LayerType \<times> 'st DecodingLayer) list"
type_synonym 'st DecodingLayerMap = "LayerType \<rightharpoonup> 'st DecodingLayer"

fun sparse_store :: "'a option list \<Rightarrow> 'a \<Rightarrow> LayerType list \<Rightarrow> 'a option list option" where
  "sparse_store dl d [] = Some dl"
| "sparse_store dl d (typ # ts) =
     (if typ < 0 then None else do { dl1 \<leftarrow> write_at dl (nat typ) [Some d]; sparse_store dl1 d ts })"

definition Sparse_Put :: "'st DecodingLayerSparse \<Rightarrow> 'st DecodingLayer \<Rightarrow> 'st DecodingLayerSparse option" where
  "Sparse_Put dl d =
     (let m = foldl (\<lambda>m typ. if typ > m then typ else m) (int (length dl) - 1) (types_of d);
          extra = m - int (length dl) + 1;
          dl1 = (if extra > 0 then dl @ replicate (nat extra) None else dl)
      in sparse_store dl1 d (types_of d))"

definition Sparse_Decoder :: "'st DecodingLayerSparse \<Rightarrow> LayerType \<Rightarrow> 'st DecodingLayer option option" where
  "Sparse_Decoder dl typ =
     (if typ < int (length dl) then (if typ < 0 then None else idx dl (nat typ)) else Some None)"

fun array_store :: "(LayerType \<times> 'a) list \<Rightarrow> LayerType \<Rightarrow> 'a \<Rightarrow> (LayerType \<times> 'a) list" where
  "array_store [] typ d = [(typ, d)]"
| "array_store ((t, e) # dl) typ d = (if t = typ then (t, d) # dl else (t, e) # array_store dl typ d)"

definition Array_Put :: "'st DecodingLayerArray \<Rightarrow> 'st DecodingLayer \<Rightarrow> 'st DecodingLayerArray option" where
  "Array_Put dl d = Some (foldl (\<lambda>dl typ. array_store dl typ d) dl (types_of d))"

fun Array_Decoder :: "'st DecodingLayerArray \<Rightarrow> LayerType \<Rightarrow> 'st DecodingLayer option option" where
  "Array_Decoder [] typ = Some None"
| "Array_Decoder ((t, d) # dl) typ = (if t = typ then Some (Some d) else Array_Decoder dl typ)"

definition Map_Put :: "'st DecodingLayerMap \<Rightarrow> 'st DecodingLayer \<Rightarrow> 'st DecodingLayerMap option" where
  "Map_Put dl d = Some (foldl (\<lambda>dl typ. dl(typ \<mapsto> d)) dl (types_of d))"

definition Map_Decoder :: "'st DecodingLayerMap \<Rightarrow> LayerType \<Rightarrow> 'st DecodingLayer option option" where
  "Map_Decoder dl typ = Some (dl typ)"

datatype 'st DecodingLayerContainer =
    Sparse "'st DecodingLayerSparse"
  | Array "'st DecodingLayerArray"
  | Map "'st DecodingLayerMap"

definition Put :: "'st DecodingLayerContainer \<Rightarrow> 'st DecodingLayer \<Rightarrow> 'st DecodingLayerContainer option" where
  "Put dlc d = (case dlc of
       Sparse dl \<Rightarrow> map_option Sparse (Sparse_Put dl d)
     | Array dl \<Rightarrow> map_option Array (Array_Put dl d)
     | Map dl \<Rightarrow> map_option Map (Map_Put dl d))"

definition Decoder_of :: "'st DecodingLayerContainer \<Rightarrow> LayerType \<Rightarrow> 'st DecodingLayer option option" where
  "Decoder_of dlc typ = (case dlc of
       Sparse dl \<Rightarrow> Sparse_Decoder dl typ
     | Array dl \<Rightarrow> Array_Decoder dl typ
     | Map dl \<Rightarrow> Map_Decoder dl typ)"

subsection \<open>The decoding loop\<close>

text \<open>How a decoding function ends: with a layer type and an error, or in a panic that unwinds it. In both cases
  \<^verbatim>\<open>*decoded\<close> holds the layer types decoded so far; the store and the \<^verbatim>\<open>Truncated\<close> flag are not described after a
  panic. A loop that does not end has the value \<open>None\<close>.\<close>

datatype 'st dresult =
    Returned LayerType "goerr option" "LayerType list" 'st bool
  | Panicked "LayerType list"

partial_function (option) decode_loop ::
  "(LayerType \<Rightarrow> 'st DecodingLayer option option) \<Rightarrow> 'st DecodingLayer \<Rightarrow> LayerType \<Rightarrow> bytes \<Rightarrow> LayerType list
     \<Rightarrow> 'st \<Rightarrow> bool \<Rightarrow> 'st dresult option" where
  "decode_loop lookup decoder typ data decoded st df =
     (case DecodeFromBytes decoder st data df of
        None \<Rightarrow> Some (Panicked decoded)
      | Some (st1, df1, Some err) \<Rightarrow> Some (Returned LayerTypeZero (Some err) decoded st1 df1)
      | Some (st1, df1, None) \<Rightarrow>
          let decoded1 = decoded @ [typ];
              typ1 = NextLayerType decoder st1;
              data1 = LayerPayload decoder st1
          in if data1 = [] then Some (Returned LayerTypeZero None decoded1 st1 df1)
             else (case lookup typ1 of
                     None \<Rightarrow> Some (Panicked decoded1)
                   | Some None \<Rightarrow> Some (Returned typ1 None decoded1 st1 df1)
                   | Some (Some decoder1) \<Rightarrow> decode_loop lookup decoder1 typ1 data1 decoded1 st1 df1))"

type_synonym 'st DecodingLayerFunc = "bytes \<Rightarrow> LayerType list \<Rightarrow> 'st \<Rightarrow> bool \<Rightarrow> 'st dresult option"

text \<open>\<^verbatim>\<open>LayersDecoder\<close> specialises one and the same loop to the type of the container; without a decoder for the
  first layer the function it returns does not touch \<^verbatim>\<open>*decoded\<close>.\<close>

definition LayersDecoder :: "'st DecodingLayerContainer \<Rightarrow> LayerType \<Rightarrow> 'st DecodingLayerFunc option" where
  "LayersDecoder dl first = do {
     firstDec \<leftarrow> Decoder_of dl first;
     Some (case firstDec of
         None \<Rightarrow> (\<lambda>data decoded st df. Some (Returned first None decoded st df))
       | Some d \<Rightarrow>
           (case dl of
              Sparse dlc \<Rightarrow> (\<lambda>data decoded st df. decode_loop (Sparse_Decoder dlc) d first data [] st df)
            | Array dlc \<Rightarrow> (\<lambda>data decoded st df. decode_loop (Array_Decoder dlc) d first data [] st df)
            | Map dlc \<Rightarrow> (\<lambda>data decoded st df. decode_loop (Map_Decoder dlc) d first data [] st df)))
   }"

subsection \<open>The parser\<close>

record 'st DecodingLayerParser =
  IgnorePanic :: bool
  IgnoreUnsupported :: bool
  dlc :: "'st DecodingLayerContainer"
  first :: LayerType
  decodeFunc :: "'st DecodingLayerFunc"
  Truncated :: bool

definition SetDecodingLayerContainer ::
  "'st DecodingLayerParser \<Rightarrow> 'st DecodingLayerContainer \<Rightarrow> 'st DecodingLayerParser option" where
  "SetDecodingLayerContainer l c = do {
     f \<leftarrow> LayersDecoder c (first l);
     Some (l\<lparr>dlc := c, decodeFunc := f\<rparr>)
   }"

definition AddDecodingLayer :: "'st DecodingLayerParser \<Rightarrow> 'st DecodingLayer \<Rightarrow> 'st DecodingLayerParser option" where
  "AddDecodingLayer l d = do { c \<leftarrow> Put (dlc l) d; SetDecodingLayerContainer l c }"

fun put_all :: "('c \<Rightarrow> 'd \<Rightarrow> 'c option) \<Rightarrow> 'c \<Rightarrow> 'd list \<Rightarrow> 'c option" where
  "put_all put c [] = Some c"
| "put_all put c (d # ds) = do { c1 \<leftarrow> put c d; put_all put c1 ds }"

text \<open>A nil decoding function, called before a container is set, panics.\<close>

definition NewDecodingLayerParser :: "LayerType \<Rightarrow> 'st DecodingLayer list \<Rightarrow> 'st DecodingLayerParser option" where
  "NewDecodingLayerParser frst decoders = do {
     c \<leftarrow> put_all Put (Map Map.empty) decoders;
     SetDecodingLayerContainer
       \<lparr>IgnorePanic = False, IgnoreUnsupported = False, dlc = Map Map.empty, first = frst,
        decodeFunc = (\<lambda>_ decoded _ _. Some (Panicked decoded)), Truncated = False\<rparr> c
   }"

text \<open>What a call of \<^verbatim>\<open>DecodeLayers\<close> leaves behind: the error, \<^verbatim>\<open>*decoded\<close>, and, unless a panic was turned into the
  error, the store and the parser's \<^verbatim>\<open>Truncated\<close>.\<close>

datatype 'st parsed =
    Parsed "goerr option" "LayerType list" 'st bool
  | Recovered goerr "LayerType list"
  | ParserPanics

definition UnsupportedLayerType :: "LayerType \<Rightarrow> goerr" where
  "UnsupportedLayerType t = Errorf ''No decoder for layer type %v'' [t]"

definition panicToError :: goerr where
  "panicToError = Errorf ''panic: %v'' []"

definition DecodeLayers :: "'st DecodingLayerParser \<Rightarrow> bytes \<Rightarrow> LayerType list \<Rightarrow> 'st \<Rightarrow> 'st parsed option" where
  "DecodeLayers l data decoded st = do {
     r \<leftarrow> decodeFunc l data decoded st False;
     Some (case r of
         Panicked decoded1 \<Rightarrow> if IgnorePanic l then ParserPanics else Recovered panicToError decoded1
       | Returned typ err decoded1 st1 df1 \<Rightarrow>
           if typ \<noteq> LayerTypeZero
           then (if IgnoreUnsupported l then Parsed None decoded1 st1 df1
                 else Parsed (Some (UnsupportedLayerType typ)) decoded1 st1 df1)
           else Parsed err decoded1 st1 df1)
   }"

subsection \<open>The interface of the containers\<close>

text \<open>What the loop relies on: a container accepts every decoder whose layer types it supports, and a lookup finds
  the decoder put last among those that handle the type.\<close>

locale decoding_layer_container =
  fixes put :: "'c \<Rightarrow> 'd \<Rightarrow> 'c option"
    and decoder :: "'c \<Rightarrow> LayerType \<Rightarrow> 'd option option"
    and empty :: 'c
    and types :: "'d \<Rightarrow> LayerType list"
    and supported :: "LayerType \<Rightarrow> bool"
  assumes put_total: "list_all supported (types d) \<Longrightarrow> put c d \<noteq> None"
    and decoder_put: "put c d = Some c' \<Longrightarrow> supported t \<Longrightarrow>
          decoder c' t = (if t \<in> set (types d) then Some (Some d) else decoder c t)"
    and decoder_empty: "supported t \<Longrightarrow> decoder empty t = Some None"
begin

lemma put_all_lookup:
  assumes "\<forall>d \<in> set ds. list_all supported (types d)"
  shows "\<exists>c'. put_all put c ds = Some c' \<and>
    (\<forall>t. supported t \<longrightarrow> decoder c' t = (case find (\<lambda>d. t \<in> set (types d)) (rev ds) of None \<Rightarrow> decoder c t | d \<Rightarrow> Some d))"
  using assms
proof (induction ds arbitrary: c)
  case (Cons d ds)
  then obtain c1 where c1: "put c d = Some c1" using put_total [of d c] by auto
  have "find P (xs @ [x]) = (case find P xs of None \<Rightarrow> if P x then Some x else None | r \<Rightarrow> r)" for P x and xs :: "'d list"
    by (induction xs) auto
  then show ?case using Cons.IH [of c1] Cons.prems c1 by (auto simp: decoder_put [OF c1] split: option.splits)
qed simp

lemma put_all_spec:
  assumes "\<forall>d \<in> set ds. list_all supported (types d)"
  obtains c where "put_all put empty ds = Some c"
    and "\<And>t. supported t \<Longrightarrow> decoder c t = Some (find (\<lambda>d. t \<in> set (types d)) (rev ds))"
proof -
  obtain c where c: "put_all put empty ds = Some c"
    "\<forall>t. supported t \<longrightarrow> decoder c t = (case find (\<lambda>d. t \<in> set (types d)) (rev ds) of None \<Rightarrow> decoder empty t | d \<Rightarrow> Some d)"
    using put_all_lookup [OF assms, of empty] by blast
  have "supported t \<Longrightarrow> decoder c t = Some (find (\<lambda>d. t \<in> set (types d)) (rev ds))" for t
    using c(2) [rule_format, of t] decoder_empty [of t] by (simp split: option.splits)
  with c(1) that show thesis by blast
qed

end

lemma foldl_upd: "foldl (\<lambda>dl typ. dl(typ \<mapsto> d)) m ts t = (if t \<in> set ts then Some d else m t)"
  by (induction ts arbitrary: m) auto

interpretation map_c: decoding_layer_container Map_Put Map_Decoder Map.empty types_of "\<lambda>_. True"
  by unfold_locales (auto simp: Map_Put_def Map_Decoder_def foldl_upd)

lemma Array_Decoder_store: "Array_Decoder (array_store dl ty d) t = (if t = ty then Some (Some d) else Array_Decoder dl t)"
  by (induction dl ty d rule: array_store.induct) auto

lemma foldl_array_store:
  "Array_Decoder (foldl (\<lambda>dl typ. array_store dl typ d) dl ts) t = (if t \<in> set ts then Some (Some d) else Array_Decoder dl t)"
  by (induction ts arbitrary: dl) (auto simp: Array_Decoder_store)

interpretation array_c: decoding_layer_container Array_Put Array_Decoder "[]" types_of "\<lambda>_. True"
  by unfold_locales (auto simp: Array_Put_def foldl_array_store)

lemma sparse_store_ok:
  assumes "\<forall>t \<in> set ts. 0 \<le> t \<and> nat t < length dl"
  shows "\<exists>dl'. sparse_store dl d ts = Some dl' \<and> length dl' = length dl
           \<and> (\<forall>i < length dl. dl' ! i = (if int i \<in> set ts then Some d else dl ! i))"
  using assms
proof (induction ts arbitrary: dl)
  case (Cons t ts)
  let ?dl = "take (nat t) dl @ Some d # drop (Suc (nat t)) dl"
  have t: "0 \<le> t" "nat t < length dl" using Cons.prems by simp_all
  have w: "write_at dl (nat t) [Some d] = Some ?dl" "length ?dl = length dl" using t by (simp_all add: Suc_leI)
  have i: "?dl ! i = (if int i = t then Some d else dl ! i)" if "i < length dl" for i
    using t that by (auto simp: nth_append nth_Cons' min_def)
  obtain dl' where "sparse_store ?dl d ts = Some dl'" "length dl' = length dl"
      "\<forall>i < length dl. dl' ! i = (if int i \<in> set ts then Some d else ?dl ! i)"
    using Cons.IH [of ?dl] Cons.prems w(2) by auto
  with w(1) t(1) i show ?case by auto
qed simp

lemma sparse_store_neg: "sparse_store dl d ts = Some dl' \<Longrightarrow> \<forall>t \<in> set ts. 0 \<le> t"
  by (induction dl d ts rule: sparse_store.induct) (auto split: if_splits bind_splits)

lemma Sparse_Put_ok:
  assumes "\<forall>t \<in> set (types_of d). 0 \<le> t"
  shows "\<exists>dl'. Sparse_Put dl d = Some dl' \<and>
    (\<forall>t \<ge> 0. Sparse_Decoder dl' t = (if t \<in> set (types_of d) then Some (Some d) else Sparse_Decoder dl t))"
proof -
  define m where "m = foldl (\<lambda>m typ. if typ > m then typ else m) (int (length dl) - 1) (types_of d)"
  have m: "int (length dl) - 1 \<le> m" "\<forall>t \<in> set (types_of d). t \<le> m"
    using foldl_max [of "int (length dl) - 1" "types_of d"] by (simp_all add: m_def)
  define dl1 where "dl1 = (if m - int (length dl) + 1 > 0 then dl @ replicate (nat (m - int (length dl) + 1)) None else dl)"
  have len: "int (length dl1) = m + 1" using m(1) by (simp add: dl1_def)
  have old: "dl1 ! i = (if i < length dl then dl ! i else None)" if "i < length dl1" for i
    using that by (auto simp: dl1_def nth_append)
  have "\<forall>t \<in> set (types_of d). 0 \<le> t \<and> nat t < length dl1" using assms m len by force
  from sparse_store_ok [OF this, of d] obtain dl' where dl': "sparse_store dl1 d (types_of d) = Some dl'"
      "length dl' = length dl1" "\<forall>i < length dl1. dl' ! i = (if int i \<in> set (types_of d) then Some d else dl1 ! i)"
    by blast
  have "Sparse_Decoder dl' t = (if t \<in> set (types_of d) then Some (Some d) else Sparse_Decoder dl t)" if "0 \<le> t" for t
  proof (cases "nat t < length dl1")
    case True
    then show ?thesis using that dl' old [of "nat t"] by (auto simp: Sparse_Decoder_def idx_def)
  next
    case False
    moreover have "length dl \<le> length dl1" using len m(1) by linarith
    ultimately show ?thesis using that dl'(2) len m(2) by (auto simp: Sparse_Decoder_def)
  qed
  moreover have "Sparse_Put dl d = Some dl'"
    using dl'(1) unfolding Sparse_Put_def Let_def m_def [symmetric] dl1_def [symmetric] .
  ultimately show ?thesis by blast
qed

interpretation sparse_c: decoding_layer_container Sparse_Put Sparse_Decoder "[]" types_of "\<lambda>t. 0 \<le> t"
proof
  fix d c c' t
  show "list_all ((\<le>) 0) (types_of d) \<Longrightarrow> Sparse_Put c d \<noteq> None"
    using Sparse_Put_ok [of d c] by (auto simp: list_all_iff)
  show "0 \<le> t \<Longrightarrow> Sparse_Decoder [] t = Some None" by (simp add: Sparse_Decoder_def)
  assume "Sparse_Put c d = Some c'" "0 \<le> t"
  moreover then have "\<forall>t \<in> set (types_of d). 0 \<le> t" by (auto simp: Sparse_Put_def Let_def dest: sparse_store_neg)
  ultimately show "Sparse_Decoder c' t = (if t \<in> set (types_of d) then Some (Some d) else Sparse_Decoder c t)"
    using Sparse_Put_ok [of d c] by auto
qed

subsection \<open>The three containers decode alike\<close>

definition latest_decoder :: "'st DecodingLayer list \<Rightarrow> LayerType \<Rightarrow> 'st DecodingLayer option" where
  "latest_decoder ds t = find (\<lambda>d. t \<in> set (types_of d)) (rev ds)"

lemma latest_decoder_in: "latest_decoder ds t = Some d \<Longrightarrow> d \<in> set ds \<and> t \<in> set (types_of d)"
  using nth_mem [of _ "rev ds"] by (auto simp: latest_decoder_def find_Some_iff)

lemma latest_decoder_None: "latest_decoder ds t = None \<longleftrightarrow> (\<forall>d \<in> set ds. t \<notin> set (types_of d))"
  by (auto simp: latest_decoder_def find_None_iff)

lemma decode_loop_cong_le:
  assumes agree: "\<And>t. P t \<Longrightarrow> lookup t = lookup' t"
    and next_ok: "\<And>t d st. lookup t = Some (Some d) \<Longrightarrow> P (NextLayerType d st)"
    and run: "decode_loop lookup d ty data decoded st df = Some r"
    and first_ok: "\<And>st. P (NextLayerType d st)"
  shows "decode_loop lookup' d ty data decoded st df = Some r"
proof -
  let ?P = "\<lambda>l d ty data decoded st df r. l = lookup \<longrightarrow> (\<forall>st. P (NextLayerType d st)) \<longrightarrow>
    decode_loop lookup' d ty data decoded st df = Some r"
  have "?P lookup d ty data decoded st df r"
  proof (rule decode_loop.raw_induct [of ?P, OF _ run], goal_cases)
    case (1 f l d ty data decoded st df r)
    have IH: "f lookup d ty data decoded st df = Some r \<Longrightarrow> \<forall>st. P (NextLayerType d st) \<Longrightarrow>
      decode_loop lookup' d ty data decoded st df = Some r" for d ty data decoded st df r using 1(1) by blast
    from 1(2) show ?case
      by (subst decode_loop.simps)
         (auto simp: Let_def agree [symmetric] intro!: IH next_ok split: option.splits prod.splits if_splits)
  qed
  then show ?thesis using run first_ok by blast
qed

lemma decode_loop_cong:
  assumes "\<And>t. P t \<Longrightarrow> lookup t = lookup' t"
    and "\<And>t d st. lookup t = Some (Some d) \<Longrightarrow> P (NextLayerType d st)"
    and "\<And>t d st. lookup' t = Some (Some d) \<Longrightarrow> P (NextLayerType d st)"
    and "\<And>st. P (NextLayerType d st)"
  shows "decode_loop lookup d ty data decoded st df = decode_loop lookup' d ty data decoded st df"
proof -
  have "decode_loop lookup d ty data decoded st df = Some r \<longleftrightarrow> decode_loop lookup' d ty data decoded st df = Some r" for r
    using decode_loop_cong_le [of P lookup lookup' d ty data decoded st df r]
      decode_loop_cong_le [of P lookup' lookup d ty data decoded st df r] assms by metis
  then show ?thesis by (metis option.exhaust)
qed

definition layers_spec :: "'st DecodingLayer list \<Rightarrow> LayerType \<Rightarrow> 'st DecodingLayerFunc" where
  "layers_spec ds frst data decoded st df =
     (case latest_decoder ds frst of
        None \<Rightarrow> Some (Returned frst None decoded st df)
      | Some d \<Rightarrow> decode_loop (\<lambda>t. Some (latest_decoder ds t)) d frst data [] st df)"

lemma put_all_Sparse: "put_all Put (Sparse c) ds = map_option Sparse (put_all Sparse_Put c ds)"
  by (induction ds arbitrary: c) (auto simp: Put_def split: option.splits bind_splits)

lemma put_all_Array: "put_all Put (Array c) ds = map_option Array (put_all Array_Put c ds)"
  by (induction ds arbitrary: c) (auto simp: Put_def split: option.splits bind_splits)

lemma put_all_Map: "put_all Put (Map c) ds = map_option Map (put_all Map_Put c ds)"
  by (induction ds arbitrary: c) (auto simp: Put_def split: option.splits bind_splits)

lemma decode_loop_latest:
  assumes "\<And>t. P t \<Longrightarrow> lookup t = Some (latest_decoder ds t)"
    and "\<And>t d st. lookup t = Some (Some d) \<Longrightarrow> P (NextLayerType d st)"
    and "\<forall>d \<in> set ds. \<forall>st. P (NextLayerType d st)" and "d \<in> set ds"
  shows "decode_loop lookup d ty data decoded st df = decode_loop (\<lambda>t. Some (latest_decoder ds t)) d ty data decoded st df"
  using assms by (intro decode_loop_cong [of P]) (auto dest: latest_decoder_in)

lemma LayersDecoder_eq:
  "LayersDecoder c frst = map_option (\<lambda>firstDec data decoded st df. case firstDec of
       None \<Rightarrow> Some (Returned frst None decoded st df)
     | Some d \<Rightarrow> decode_loop (Decoder_of c) d frst data [] st df) (Decoder_of c frst)"
proof -
  have c: "c = Sparse x \<Longrightarrow> Sparse_Decoder x = Decoder_of c" "c = Array y \<Longrightarrow> Array_Decoder y = Decoder_of c"
    "c = Map z \<Longrightarrow> Map_Decoder z = Decoder_of c" for x y z by (simp_all add: Decoder_of_def fun_eq_iff)
  then show ?thesis unfolding LayersDecoder_def
    by (cases c; cases "Decoder_of c frst") (auto split: option.splits)
qed

lemma LayersDecoder_latest:
  assumes dec: "\<And>t. P t \<Longrightarrow> Decoder_of c t = Some (latest_decoder ds t)"
    and found: "\<And>t d. Decoder_of c t = Some (Some d) \<Longrightarrow> P t"
    and nxt: "\<forall>d \<in> set ds. \<forall>st. P (NextLayerType d st)" and "P frst"
  shows "LayersDecoder c frst = Some (layers_spec ds frst)"
proof -
  have fst: "Decoder_of c frst = Some (latest_decoder ds frst)" by (rule dec) fact
  have "decode_loop (Decoder_of c) d ty data decoded st df = decode_loop (\<lambda>t. Some (latest_decoder ds t)) d ty data decoded st df"
    if "d \<in> set ds" for d ty data decoded st df
  proof (rule decode_loop_latest [of P, OF _ _ nxt that])
    fix t d st assume t: "Decoder_of c t = Some (Some d)"
    then show "P (NextLayerType d st)" using dec [OF found [OF t]] nxt by (auto dest: latest_decoder_in)
  qed (rule dec)
  then show ?thesis
    by (auto simp: LayersDecoder_eq fst layers_spec_def fun_eq_iff split: option.splits dest!: latest_decoder_in)
qed

text \<open>C37. For decoding layers with non-negative layer types the sparse, the array and the map container decode
  every input alike: each of them runs the loop with the decoder registered last for each type.\<close>

theorem containers_decode_alike:
  assumes "\<forall>d \<in> set ds. \<forall>t \<in> set (types_of d). 0 \<le> t"
    and "\<forall>d \<in> set ds. \<forall>st. 0 \<le> NextLayerType d st" and "0 \<le> frst"
  shows "\<exists>s a m. put_all Put (Sparse []) ds = Some s \<and> LayersDecoder s frst = Some (layers_spec ds frst)
           \<and> put_all Put (Array []) ds = Some a \<and> LayersDecoder a frst = Some (layers_spec ds frst)
           \<and> put_all Put (Map Map.empty) ds = Some m \<and> LayersDecoder m frst = Some (layers_spec ds frst)"
proof -
  have pos: "\<forall>d \<in> set ds. list_all ((\<le>) 0) (types_of d)" "\<forall>d \<in> set ds. list_all (\<lambda>_. True) (types_of d)"
    using assms(1) by (auto simp: list_all_iff)
  obtain s where s: "put_all Sparse_Put [] ds = Some s" "\<And>t. 0 \<le> t \<Longrightarrow> Sparse_Decoder s t = Some (latest_decoder ds t)"
    by (rule sparse_c.put_all_spec [OF pos(1), folded latest_decoder_def]) simp
  obtain a where a: "put_all Array_Put [] ds = Some a" "\<And>t. Array_Decoder a t = Some (latest_decoder ds t)"
    by (rule array_c.put_all_spec [OF pos(2), folded latest_decoder_def]) simp
  obtain m where m: "put_all Map_Put Map.empty ds = Some m" "\<And>t. Map_Decoder m t = Some (latest_decoder ds t)"
    by (rule map_c.put_all_spec [OF pos(2), folded latest_decoder_def]) simp
  have "LayersDecoder (Sparse s) frst = Some (layers_spec ds frst)"
  proof (rule LayersDecoder_latest [of "(\<le>) 0", OF _ _ assms(2,3)])
    show "0 \<le> t" if "Decoder_of (Sparse s) t = Some (Some d)" for t d
      using that by (simp add: Decoder_of_def Sparse_Decoder_def split: if_splits)
  qed (simp add: Decoder_of_def s(2))
  moreover have "LayersDecoder (Array a) frst = Some (layers_spec ds frst)"
    by (rule LayersDecoder_latest [of "\<lambda>_. True"]) (simp_all add: Decoder_of_def a(2))
  moreover have "LayersDecoder (Map m) frst = Some (layers_spec ds frst)"
    by (rule LayersDecoder_latest [of "\<lambda>_. True"]) (simp_all add: Decoder_of_def m(2))
  ultimately show ?thesis using s(1) a(1) m(1) by (simp add: put_all_Sparse put_all_Array put_all_Map)
qed

theorem containers_decode_alike_witness:
  "\<exists>s a m. let ds = [in_store id (\<lambda>l _. l) LayerTypePayload Payload_DecodeFromBytes Payload_NextLayerType Payload_LayerPayload]
     in put_all Put (Sparse []) ds = Some s \<and> LayersDecoder s 2 = Some (layers_spec ds 2)
      \<and> put_all Put (Array []) ds = Some a \<and> LayersDecoder a 2 = Some (layers_spec ds 2)
      \<and> put_all Put (Map Map.empty) ds = Some m \<and> LayersDecoder m 2 = Some (layers_spec ds 2)"
  unfolding Let_def
  by (rule containers_decode_alike) (simp_all add: in_store_def types_of_def LC_LayerTypes_def Payload_NextLayerType_def)

subsection \<open>Parsers keep their decoding function up to date\<close>

definition parses_with :: "'st DecodingLayerParser \<Rightarrow> 'st DecodingLayer list \<Rightarrow> bool" where
  "parses_with l ds \<longleftrightarrow> (\<forall>t. Decoder_of (dlc l) t = Some (latest_decoder ds t)) \<and> decodeFunc l = layers_spec ds (first l)"

lemma SetDecodingLayerContainer_parses:
  assumes "\<And>t. Decoder_of c t = Some (latest_decoder ds t)"
  shows "\<exists>l'. SetDecodingLayerContainer l c = Some l' \<and> parses_with l' ds \<and> first l' = first l
           \<and> IgnorePanic l' = IgnorePanic l \<and> IgnoreUnsupported l' = IgnoreUnsupported l"
  using LayersDecoder_latest [of "\<lambda>_. True" c ds "first l"] assms
  by (simp add: SetDecodingLayerContainer_def parses_with_def)

lemma latest_decoder_snoc:
  "latest_decoder (ds @ [d]) t = (if t \<in> set (types_of d) then Some d else latest_decoder ds t)"
  by (simp add: latest_decoder_def)

lemma Put_parses:
  assumes "\<And>t. Decoder_of c t = Some (latest_decoder ds t)"
  shows "\<exists>c'. Put c d = Some c' \<and> (\<forall>t. Decoder_of c' t = Some (latest_decoder (ds @ [d]) t))"
proof (cases c)
  case (Sparse dl)
  have "Decoder_of c (-1) = None" by (simp add: Sparse Decoder_of_def Sparse_Decoder_def)
  with assms [of "-1"] show ?thesis by simp
next
  case (Array dl)
  then show ?thesis
    using assms by (auto simp: Put_def Array_Put_def Decoder_of_def foldl_array_store latest_decoder_snoc)
next
  case (Map dl)
  then show ?thesis
    using assms by (auto simp: Put_def Map_Put_def Decoder_of_def Map_Decoder_def foldl_upd latest_decoder_snoc)
qed

lemma NewDecodingLayerParser_parses:
  "\<exists>l. NewDecodingLayerParser frst ds = Some l \<and> parses_with l ds \<and> first l = frst \<and> \<not> IgnorePanic l \<and> \<not> IgnoreUnsupported l"
proof -
  have "\<forall>d \<in> set ds. list_all (\<lambda>_. True) (types_of d)" by (simp add: list_all_iff)
  then obtain m where m: "put_all Map_Put Map.empty ds = Some m" "\<And>t. Map_Decoder m t = Some (latest_decoder ds t)"
    by (rule map_c.put_all_spec [folded latest_decoder_def]) simp
  then show ?thesis
    using SetDecodingLayerContainer_parses [of "Map m" ds]
    by (fastforce simp: NewDecodingLayerParser_def put_all_Map Decoder_of_def)
qed

text \<open>C38. A new parser decodes with the layers it was given, and adding a layer to such a parser makes it decode as
  one built from all the layers: the decoding function, computed when the container is set, never goes stale.\<close>

theorem parser_layers_up_to_date:
  "(\<exists>l. NewDecodingLayerParser frst ds = Some l \<and> parses_with l ds \<and> first l = frst) \<and>
   (parses_with l ds \<longrightarrow> (\<exists>l'. AddDecodingLayer l d = Some l' \<and> parses_with l' (ds @ [d]) \<and> first l' = first l))"
proof (intro conjI impI)
  show "\<exists>l. NewDecodingLayerParser frst ds = Some l \<and> parses_with l ds \<and> first l = frst"
    using NewDecodingLayerParser_parses by blast
  assume "parses_with l ds"
  then obtain c where c: "Put (dlc l) d = Some c" "\<forall>t. Decoder_of c t = Some (latest_decoder (ds @ [d]) t)"
    using Put_parses [of "dlc l" ds d] by (auto simp: parses_with_def)
  then show "\<exists>l'. AddDecodingLayer l d = Some l' \<and> parses_with l' (ds @ [d]) \<and> first l' = first l"
    using SetDecodingLayerContainer_parses [of c "ds @ [d]" l] by (auto simp: AddDecodingLayer_def)
qed

definition payload_layer :: "bytes DecodingLayer" where
  "payload_layer = in_store id (\<lambda>l _. l) LayerTypePayload Payload_DecodeFromBytes Payload_NextLayerType Payload_LayerPayload"

theorem parser_layers_up_to_date_witness:
  "\<exists>l l'. NewDecodingLayerParser 2 [] = Some l \<and> AddDecodingLayer l payload_layer = Some l' \<and> parses_with l' [payload_layer]"
  using parser_layers_up_to_date [of 2 "[] :: bytes DecodingLayer list"] by fastforce

text \<open>Without a decoder for the first layer a call leaves the slice of decoded layers as it was: what an earlier
  packet put there is reported again, with the error for an unsupported layer or, when such layers are ignored, with no
  error at all.\<close>

lemma DecodeLayers_stale:
  assumes "parses_with l ds" and "\<forall>d \<in> set ds. first l \<notin> set (types_of d)" and "first l \<noteq> LayerTypeZero"
  shows "DecodeLayers l data decoded st =
     Some (Parsed (if IgnoreUnsupported l then None else Some (UnsupportedLayerType (first l))) decoded st False)"
  using assms by (simp add: DecodeLayers_def parses_with_def layers_spec_def latest_decoder_None [symmetric])

lemma DecodeLayers_stale_witness:
  "\<exists>l. NewDecodingLayerParser 17 [payload_layer] = Some l \<and>
     DecodeLayers l [1, 2] [17, 20] [] = Some (Parsed (Some (UnsupportedLayerType 17)) [17, 20] [] False)"
proof -
  obtain l where l: "NewDecodingLayerParser 17 [payload_layer] = Some l" "parses_with l [payload_layer]" "first l = 17"
      "\<not> IgnoreUnsupported l"
    using NewDecodingLayerParser_parses by metis
  with DecodeLayers_stale [OF l(2), of "[1, 2]" "[17, 20]" "[]"] show ?thesis
    by (auto simp: payload_layer_def in_store_def types_of_def LC_LayerTypes_def)
qed

subsection \<open>Decoding ends\<close>

text \<open>What the loop relies on in the layers: none panics, and none that leaves a payload leaves as much data as it
  was given.\<close>

locale parser_layers =
  fixes ds :: "'st DecodingLayer list"
  assumes layer_no_panic: "d \<in> set ds \<Longrightarrow> DecodeFromBytes d st data df \<noteq> None"
    and layer_progress: "d \<in> set ds \<Longrightarrow> DecodeFromBytes d st data df = Some (st', df', None) \<Longrightarrow>
          LayerPayload d st' = [] \<or> length (LayerPayload d st') < length data"
begin

lemma decode_loop_returns:
  assumes "d \<in> set ds" and "ty \<in> set (types_of d)"
  shows "\<exists>ty' err decoded' st' df'. decode_loop (\<lambda>t. Some (latest_decoder ds t)) d ty data decoded st df
        = Some (Returned ty' err (decoded @ decoded') st' df') \<and> length decoded' \<le> max 1 (length data)
      \<and> (\<forall>t \<in> set decoded'. latest_decoder ds t \<noteq> None) \<and> (ty' = LayerTypeZero \<or> latest_decoder ds ty' = None \<and> err = None)"
  using assms
proof (induction "length data" arbitrary: d ty data decoded st df rule: less_induct)
  case less
  have ty: "latest_decoder ds ty \<noteq> None" using less.prems by (auto simp: latest_decoder_None)
  obtain st1 df1 err where run: "DecodeFromBytes d st data df = Some (st1, df1, err)"
    using layer_no_panic [OF less.prems(1), of st data df] by auto
  note step = decode_loop.simps [of _ d ty data decoded st df]
  show ?case
  proof (cases err)
    case None
    show ?thesis
    proof (cases "LayerPayload d st1 = [] \<or> latest_decoder ds (NextLayerType d st1) = None")
      case True
      let ?ty' = "if LayerPayload d st1 = [] then LayerTypeZero else NextLayerType d st1"
      from True have "decode_loop (\<lambda>t. Some (latest_decoder ds t)) d ty data decoded st df
          = Some (Returned ?ty' None (decoded @ [ty]) st1 df1)"
        using run None by (subst step) auto
      moreover have "length [ty] \<le> max 1 (length data)" by simp
      moreover have "\<forall>t \<in> set [ty]. latest_decoder ds t \<noteq> None" using ty by simp
      moreover have "?ty' = LayerTypeZero \<or> latest_decoder ds ?ty' = None \<and> None = (None :: goerr option)" using True by auto
      ultimately show ?thesis by blast
    next
      case False
      then obtain d1 where d1: "latest_decoder ds (NextLayerType d st1) = Some d1" by auto
      have short: "length (LayerPayload d st1) < length data"
        using layer_progress [OF less.prems(1), of st data df st1 df1] run None False by auto
      obtain ty' err' decoded' st' df' where
        rest: "decode_loop (\<lambda>t. Some (latest_decoder ds t)) d1 (NextLayerType d st1) (LayerPayload d st1) (decoded @ [ty]) st1 df1
           = Some (Returned ty' err' ((decoded @ [ty]) @ decoded') st' df')"
        and ok: "length decoded' \<le> max 1 (length (LayerPayload d st1))" "\<forall>t \<in> set decoded'. latest_decoder ds t \<noteq> None"
        "ty' = LayerTypeZero \<or> latest_decoder ds ty' = None \<and> err' = None"
        using less.hyps [OF short latest_decoder_in [OF d1, THEN conjunct1] latest_decoder_in [OF d1, THEN conjunct2], of "decoded @ [ty]" st1 df1]
        by blast
      have "decode_loop (\<lambda>t. Some (latest_decoder ds t)) d ty data decoded st df
          = Some (Returned ty' err' (decoded @ ty # decoded') st' df')"
        using run None False d1 rest by (subst step) simp
      moreover have "length (ty # decoded') \<le> max 1 (length data)" using ok(1) short False by (cases "LayerPayload d st1") auto
      moreover have "\<forall>t \<in> set (ty # decoded'). latest_decoder ds t \<noteq> None" using ok(2) ty by simp
      ultimately show ?thesis using ok(3) by blast
    qed
  qed (use run in \<open>subst step, auto\<close>)
qed

lemma DecodeLayers_returns:
  assumes "parses_with l ds" and "latest_decoder ds (first l) \<noteq> None"
  shows "\<exists>err decoded' st' df'. DecodeLayers l data decoded st = Some (Parsed err decoded' st' df')
      \<and> length decoded' \<le> max 1 (length data) \<and> (\<forall>t \<in> set decoded'. \<exists>d \<in> set ds. t \<in> set (types_of d))"
proof -
  obtain d where d: "latest_decoder ds (first l) = Some d" using assms(2) by auto
  from decode_loop_returns [OF latest_decoder_in [OF d, THEN conjunct1] latest_decoder_in [OF d, THEN conjunct2], of data "[]" st False]
  obtain ty' err decoded' st' df' where
      "decode_loop (\<lambda>t. Some (latest_decoder ds t)) d (first l) data [] st False = Some (Returned ty' err decoded' st' df')"
      "length decoded' \<le> max 1 (length data)" "\<forall>t \<in> set decoded'. latest_decoder ds t \<noteq> None" by auto
  then show ?thesis using assms(1) d
    by (auto simp: DecodeLayers_def parses_with_def layers_spec_def latest_decoder_None)
qed

end

end
