(* ===== verification/Packet.thy ===== *)
theory Packet
  imports Layer_Base Layer_Class
begin

section \<open>Packets, eager and lazy (\<^verbatim>\<open>packet.go\<close>, \<^verbatim>\<open>decode.go\<close>, \<^verbatim>\<open>base.go\<close>)\<close>

text \<open>
  The struct \<^verbatim>\<open>packet\<close> and its two subclasses: an eager packet decodes all its layers when it is made, a lazy
  packet decodes as many as an accessor needs. What a decoder does to a packet is an argument \<open>decode\<close>, the list of
  its calls to the packet builder and the way it ends; a loop that does not end has the value \<open>None\<close>, and inside it a
  panic that nobody recovers has the value \<open>None\<close>. Of \<^verbatim>\<open>CaptureInfo\<close> the ancillary data is left out.
\<close>

record CaptureInfo =
  Timestamp :: int
  CaptureLength :: int
  Length :: int
  InterfaceIndex :: int

definition zero_CaptureInfo :: CaptureInfo where
  "zero_CaptureInfo = \<lparr>Timestamp = 0, CaptureLength = 0, Length = 0, InterfaceIndex = 0\<rparr>"

record DecodeOptions =
  Lazy :: bool
  NoCopy :: bool
  SkipDecodeRecovery :: bool
  DecodeStreamsAsDatagrams :: bool

record DecodeFailure =
  df_data :: bytes
  df_err :: goerr

record packet =
  pk_data :: bytes
  pk_layers :: "Layer list"
  pk_last :: "Layer option"
  pk_ci :: CaptureInfo
  pk_Truncated :: bool
  decodeOptions :: DecodeOptions
  link :: "Layer option"
  network :: "Layer option"
  transport :: "Layer option"
  application :: "Layer option"
  failure :: "DecodeFailure option"

definition new_packet :: "bytes \<Rightarrow> DecodeOptions \<Rightarrow> packet" where
  "new_packet data opts =
     \<lparr>pk_data = data, pk_layers = [], pk_last = None, pk_ci = zero_CaptureInfo, pk_Truncated = False, decodeOptions = opts,
      link = None, network = None, transport = None, application = None, failure = None\<rparr>"

subsection \<open>The packet builder\<close>

definition set_first :: "'a option \<Rightarrow> 'a \<Rightarrow> 'a option" where
  "set_first old l = (if old = None then Some l else old)"

definition packet_SetTruncated :: "'x packet_scheme \<Rightarrow> 'x packet_scheme" where
  "packet_SetTruncated p = p\<lparr>pk_Truncated := True\<rparr>"

definition packet_SetLinkLayer :: "'x packet_scheme \<Rightarrow> Layer \<Rightarrow> 'x packet_scheme" where
  "packet_SetLinkLayer p l = p\<lparr>link := set_first (link p) l\<rparr>"

definition packet_SetNetworkLayer :: "'x packet_scheme \<Rightarrow> Layer \<Rightarrow> 'x packet_scheme" where
  "packet_SetNetworkLayer p l = p\<lparr>network := set_first (network p) l\<rparr>"

definition packet_SetTransportLayer :: "'x packet_scheme \<Rightarrow> Layer \<Rightarrow> 'x packet_scheme" where
  "packet_SetTransportLayer p l = p\<lparr>transport := set_first (transport p) l\<rparr>"

definition packet_SetApplicationLayer :: "'x packet_scheme \<Rightarrow> Layer \<Rightarrow> 'x packet_scheme" where
  "packet_SetApplicationLayer p l = p\<lparr>application := set_first (application p) l\<rparr>"

definition packet_SetErrorLayer :: "'x packet_scheme \<Rightarrow> DecodeFailure \<Rightarrow> 'x packet_scheme" where
  "packet_SetErrorLayer p l = p\<lparr>failure := set_first (failure p) l\<rparr>"

definition packet_AddLayer :: "'x packet_scheme \<Rightarrow> Layer \<Rightarrow> 'x packet_scheme" where
  "packet_AddLayer p l = p\<lparr>pk_layers := pk_layers p @ [l], pk_last := Some l\<rparr>"

fun apply_action :: "'x packet_scheme \<Rightarrow> action \<Rightarrow> 'x packet_scheme" where
  "apply_action p (AddLayer l) = packet_AddLayer p l"
| "apply_action p (SetLinkLayer l) = packet_SetLinkLayer p l"
| "apply_action p (SetNetworkLayer l) = packet_SetNetworkLayer p l"
| "apply_action p (SetTransportLayer l) = packet_SetTransportLayer p l"
| "apply_action p (SetApplicationLayer l) = packet_SetApplicationLayer p l"
| "apply_action p SetTruncated = packet_SetTruncated p"

definition apply_actions :: "'x packet_scheme \<Rightarrow> action list \<Rightarrow> 'x packet_scheme" where
  "apply_actions p acts = foldl apply_action p acts"

definition DecodeFailure_layer :: "DecodeFailure \<Rightarrow> Layer" where
  "DecodeFailure_layer f = \<lparr>ly_type = LayerTypeDecodeFailure, ly_contents = df_data f, ly_payload = []\<rparr>"

definition addFinalDecodeError :: "'x packet_scheme \<Rightarrow> goerr \<Rightarrow> 'x packet_scheme" where
  "addFinalDecodeError p err =
     (let fail = \<lparr>df_data = (case pk_last p of None \<Rightarrow> pk_data p | Some l \<Rightarrow> ly_payload l), df_err = err\<rparr>
      in packet_SetErrorLayer (packet_AddLayer p (DecodeFailure_layer fail)) fail)"

text \<open>The deferred call after a panic: the packet with the failure layer, or \<open>None\<close> when the panic goes on.\<close>

definition panic_error :: goerr where
  "panic_error = Errorf ''%v'' []"

definition recoverDecodeError :: "'x packet_scheme \<Rightarrow> 'x packet_scheme option" where
  "recoverDecodeError p = (if SkipDecodeRecovery (decodeOptions p) then None else Some (addFinalDecodeError p panic_error))"

subsection \<open>The decoders of \<^verbatim>\<open>decode.go\<close> and \<^verbatim>\<open>base.go\<close>\<close>

definition decodeUnknown :: "bytes \<Rightarrow> decode_step" where
  "decodeUnknown data = ([], Return (Some (Errorf ''Layer type not currently supported'' [])))"

definition decodePayload :: "bytes \<Rightarrow> decode_step" where
  "decodePayload data =
     (let l = \<lparr>ly_type = LayerTypePayload, ly_contents = data, ly_payload = []\<rparr>
      in ([AddLayer l, SetApplicationLayer l], Return None))"

definition decodeFragment :: "bytes \<Rightarrow> decode_step" where
  "decodeFragment data =
     (let l = \<lparr>ly_type = LayerTypeFragment, ly_contents = data, ly_payload = []\<rparr>
      in ([AddLayer l, SetApplicationLayer l], Return None))"

subsection \<open>Eager packets\<close>

type_synonym decoders = "Decoder \<Rightarrow> bytes \<Rightarrow> decode_step"

datatype run_end = Ended "goerr option" | Crashed

text \<open>\<^verbatim>\<open>Decode\<close> of a decoder on an eager packet, with the \<^verbatim>\<open>NextDecoder\<close> call it ends in.\<close>

partial_function (option) eager_Decode :: "decoders \<Rightarrow> Decoder \<Rightarrow> bytes \<Rightarrow> packet \<Rightarrow> (packet \<times> run_end) option" where
  "eager_Decode decode dec data p =
     (let p1 = apply_actions p (fst (decode dec data))
      in case snd (decode dec data) of
           Return err \<Rightarrow> Some (p1, Ended err)
         | Panics \<Rightarrow> Some (p1, Crashed)
         | NextDecoder n \<Rightarrow>
             (case pk_last p1 of
                None \<Rightarrow> Some (p1, Ended (Some (Errorf ''NextDecoder called, but no layers added yet'' [])))
              | Some l \<Rightarrow> if ly_payload l = [] then Some (p1, Ended None) else eager_Decode decode n (ly_payload l) p1))"

definition initialDecode :: "decoders \<Rightarrow> packet \<Rightarrow> Decoder \<Rightarrow> packet option option" where
  "initialDecode decode p dec = do {
     r \<leftarrow> eager_Decode decode dec (pk_data p) p;
     Some (case r of
         (p1, Ended None) \<Rightarrow> Some p1
       | (p1, Ended (Some err)) \<Rightarrow> Some (addFinalDecodeError p1 err)
       | (p1, Crashed) \<Rightarrow> recoverDecodeError p1)
   }"

text \<open>\<open>scan\<close> is the loop over layers: the first layer whose type satisfies a test that may panic.\<close>

fun scan :: "(LayerType \<Rightarrow> bool option) \<Rightarrow> Layer list \<Rightarrow> Layer option option" where
  "scan test [] = Some None"
| "scan test (l # ls) = do { b \<leftarrow> test (ly_type l); if b then Some (Some l) else scan test ls }"

definition eager_Layer :: "packet \<Rightarrow> LayerType \<Rightarrow> Layer option option" where
  "eager_Layer p t = scan (\<lambda>u. Some (u = t)) (pk_layers p)"

definition eager_LayerClass :: "packet \<Rightarrow> LayerClass \<Rightarrow> Layer option option" where
  "eager_LayerClass p lc = scan (LC_Contains lc) (pk_layers p)"

subsection \<open>Lazy packets\<close>

record lazyPacket = packet +
  lz_next :: "Decoder option"

definition decodeNextLayer :: "decoders \<Rightarrow> lazyPacket \<Rightarrow> lazyPacket option" where
  "decodeNextLayer decode p =
     (case lz_next p of
        None \<Rightarrow> Some p
      | Some dec \<Rightarrow>
          let d = (case pk_last p of None \<Rightarrow> pk_data p | Some l \<Rightarrow> ly_payload l);
              p0 = p\<lparr>lz_next := None\<rparr>
          in if d = [] then Some p0
             else let p1 = apply_actions p0 (fst (decode dec d))
                  in case snd (decode dec d) of
                       Return None \<Rightarrow> Some p1
                     | Return (Some err) \<Rightarrow> Some (addFinalDecodeError p1 err)
                     | Panics \<Rightarrow> recoverDecodeError p1
                     | NextDecoder n \<Rightarrow> Some (p1\<lparr>lz_next := Some n\<rparr>))"

text \<open>The loop of the accessors, \<^verbatim>\<open>for !stop && p.next != nil { p.decodeNextLayer() }\<close>.\<close>

partial_function (option) lazy_loop :: "(lazyPacket \<Rightarrow> bool) \<Rightarrow> decoders \<Rightarrow> lazyPacket \<Rightarrow> lazyPacket option option" where
  "lazy_loop stop decode p =
     (if \<not> stop p \<and> lz_next p \<noteq> None
      then (case decodeNextLayer decode p of None \<Rightarrow> Some None | Some p1 \<Rightarrow> lazy_loop stop decode p1)
      else Some (Some p))"

definition with_result :: "('p \<Rightarrow> 'r) \<Rightarrow> 'p option option \<Rightarrow> ('p \<times> 'r) option option" where
  "with_result f r = map_option (map_option (\<lambda>p. (p, f p))) r"

definition lazy_LinkLayer :: "decoders \<Rightarrow> lazyPacket \<Rightarrow> (lazyPacket \<times> Layer option) option option" where
  "lazy_LinkLayer decode p = with_result link (lazy_loop (\<lambda>p. link p \<noteq> None) decode p)"

definition lazy_NetworkLayer :: "decoders \<Rightarrow> lazyPacket \<Rightarrow> (lazyPacket \<times> Layer option) option option" where
  "lazy_NetworkLayer decode p = with_result network (lazy_loop (\<lambda>p. network p \<noteq> None) decode p)"

definition lazy_TransportLayer :: "decoders \<Rightarrow> lazyPacket \<Rightarrow> (lazyPacket \<times> Layer option) option option" where
  "lazy_TransportLayer decode p = with_result transport (lazy_loop (\<lambda>p. transport p \<noteq> None) decode p)"

definition lazy_ApplicationLayer :: "decoders \<Rightarrow> lazyPacket \<Rightarrow> (lazyPacket \<times> Layer option) option option" where
  "lazy_ApplicationLayer decode p = with_result application (lazy_loop (\<lambda>p. application p \<noteq> None) decode p)"

definition lazy_ErrorLayer :: "decoders \<Rightarrow> lazyPacket \<Rightarrow> (lazyPacket \<times> DecodeFailure option) option option" where
  "lazy_ErrorLayer decode p = with_result failure (lazy_loop (\<lambda>p. failure p \<noteq> None) decode p)"

definition lazy_Layers :: "decoders \<Rightarrow> lazyPacket \<Rightarrow> (lazyPacket \<times> Layer list) option option" where
  "lazy_Layers decode p = with_result pk_layers (lazy_loop (\<lambda>_. False) decode p)"

partial_function (option) lazy_scan ::
  "(LayerType \<Rightarrow> bool option) \<Rightarrow> decoders \<Rightarrow> lazyPacket \<Rightarrow> nat \<Rightarrow> (lazyPacket \<times> Layer option) option option" where
  "lazy_scan test decode p numLayers =
     (if lz_next p = None then Some (Some (p, None))
      else (case decodeNextLayer decode p of
              None \<Rightarrow> Some None
            | Some p1 \<Rightarrow>
                (case scan test (drop numLayers (pk_layers p1)) of
                   None \<Rightarrow> Some None
                 | Some (Some l) \<Rightarrow> Some (Some (p1, Some l))
                 | Some None \<Rightarrow> lazy_scan test decode p1 (length (pk_layers p1)))))"

definition lazy_search :: "(LayerType \<Rightarrow> bool option) \<Rightarrow> decoders \<Rightarrow> lazyPacket \<Rightarrow> (lazyPacket \<times> Layer option) option option" where
  "lazy_search test decode p =
     (case scan test (pk_layers p) of
        None \<Rightarrow> Some None
      | Some (Some l) \<Rightarrow> Some (Some (p, Some l))
      | Some None \<Rightarrow> lazy_scan test decode p (length (pk_layers p)))"

definition lazy_Layer :: "decoders \<Rightarrow> lazyPacket \<Rightarrow> LayerType \<Rightarrow> (lazyPacket \<times> Layer option) option option" where
  "lazy_Layer decode p t = lazy_search (\<lambda>u. Some (u = t)) decode p"

definition lazy_LayerClass :: "decoders \<Rightarrow> lazyPacket \<Rightarrow> LayerClass \<Rightarrow> (lazyPacket \<times> Layer option) option option" where
  "lazy_LayerClass decode p lc = lazy_search (LC_Contains lc) decode p"

subsection \<open>Making packets\<close>

definition new_lazyPacket :: "bytes \<Rightarrow> Decoder \<Rightarrow> DecodeOptions \<Rightarrow> lazyPacket" where
  "new_lazyPacket data dec opts = packet.extend (new_packet data opts) \<lparr>lz_next = Some dec\<rparr>"

text \<open>\<^verbatim>\<open>NewPacket\<close> returns one of the two subclasses. Copying the input changes nothing here, where byte slices
  are values.\<close>

definition NewPacket :: "decoders \<Rightarrow> bytes \<Rightarrow> Decoder \<Rightarrow> DecodeOptions \<Rightarrow> (packet + lazyPacket) option option" where
  "NewPacket decode data firstLayerDecoder opts =
     (if Lazy opts then Some (Some (Inr (new_lazyPacket data firstLayerDecoder opts)))
      else map_option (map_option Inl) (initialDecode decode (new_packet data opts) firstLayerDecoder))"

subsection \<open>What builder calls keep\<close>

definition last_added :: "action list \<Rightarrow> Layer option" where
  "last_added acts = foldl (\<lambda>r a. case a of AddLayer l \<Rightarrow> Some l | _ \<Rightarrow> r) None acts"

lemmas builder_defs = packet_AddLayer_def packet_SetLinkLayer_def packet_SetNetworkLayer_def packet_SetTransportLayer_def
  packet_SetApplicationLayer_def packet_SetTruncated_def packet_SetErrorLayer_def set_first_def

lemma apply_actions_Nil [simp]: "apply_actions p [] = p"
  by (simp add: apply_actions_def)

lemma apply_actions_snoc [simp]: "apply_actions p (acts @ [a]) = apply_action (apply_actions p acts) a"
  by (simp add: apply_actions_def)

lemma pk_last_apply_actions: "pk_last (apply_actions p acts) = (case last_added acts of None \<Rightarrow> pk_last p | l \<Rightarrow> l)"
proof (induction acts rule: rev_induct)
  case (snoc a acts)
  then show ?case by (cases a) (simp_all add: last_added_def builder_defs)
qed (simp add: last_added_def)

lemma apply_action_keeps [simp]:
  "decodeOptions (apply_action p a) = decodeOptions p" "pk_data (apply_action p a) = pk_data p"
  "failure (apply_action p a) = failure p" "pk_ci (apply_action p a) = pk_ci p"
  by (cases a; simp add: builder_defs)+

lemma apply_actions_keeps [simp]:
  "decodeOptions (apply_actions p acts) = decodeOptions p" "pk_data (apply_actions p acts) = pk_data p"
  "failure (apply_actions p acts) = failure p" "pk_ci (apply_actions p acts) = pk_ci p"
  by (induction acts rule: rev_induct; simp)+

lemma lz_next_apply_actions [simp]: "lz_next (apply_actions p acts) = lz_next p"
proof (induction acts rule: rev_induct)
  case (snoc a acts)
  then show ?case by (cases a) (simp_all add: builder_defs)
qed simp

lemma truncate_apply_action [simp]: "packet.truncate (apply_action p a) = apply_action (packet.truncate p) a"
  by (cases a) (simp_all add: builder_defs packet.defs)

lemma truncate_apply_actions [simp]: "packet.truncate (apply_actions p acts) = apply_actions (packet.truncate p) acts"
  by (induction acts rule: rev_induct) simp_all

lemma addFinalDecodeError_keeps [simp]:
  "decodeOptions (addFinalDecodeError p e) = decodeOptions p" "pk_data (addFinalDecodeError p e) = pk_data p"
  "pk_ci (addFinalDecodeError p e) = pk_ci p" "lz_next (addFinalDecodeError lp e) = lz_next lp"
  by (simp_all add: addFinalDecodeError_def builder_defs Let_def)

lemma truncate_addFinal [simp]: "packet.truncate (addFinalDecodeError p e) = addFinalDecodeError (packet.truncate p) e"
  by (simp add: addFinalDecodeError_def builder_defs Let_def packet.defs split: option.split)

text \<open>The layers reported so far are never changed, and the first layer of each kind stays.\<close>

definition extends :: "'x packet_scheme \<Rightarrow> 'y packet_scheme \<Rightarrow> bool" where
  "extends p q \<longleftrightarrow> (\<exists>ls. pk_layers q = pk_layers p @ ls) \<and> (link p = None \<or> link q = link p)
     \<and> (network p = None \<or> network q = network p) \<and> (transport p = None \<or> transport q = transport p)
     \<and> (application p = None \<or> application q = application p) \<and> (failure p = None \<or> failure q = failure p)"

lemma extends_refl [simp]: "extends p p"
  by (simp add: extends_def)

lemma extends_trans: "extends p q \<Longrightarrow> extends q r \<Longrightarrow> extends p r"
  unfolding extends_def by (elim conjE exE; intro conjI) force+

lemma extends_apply_action: "extends p (apply_action p a)"
  by (cases a) (auto simp: extends_def builder_defs)

lemma extends_apply_actions: "extends p (apply_actions p acts)"
  by (induction acts rule: rev_induct) (auto intro: extends_trans extends_apply_action)

lemma extends_addFinal: "extends p (addFinalDecodeError p e)"
  by (auto simp: extends_def addFinalDecodeError_def builder_defs Let_def)

lemma extends_next [simp]: "extends p (q\<lparr>lz_next := n\<rparr>) = extends p q" "extends (p\<lparr>lz_next := n\<rparr>) q = extends p q"
  by (simp_all add: extends_def)

lemma decodeNextLayer_extends:
  assumes "decodeNextLayer decode p = Some p1"
  shows "extends p p1" and "decodeOptions p1 = decodeOptions p"
proof -
  have a: "extends p (apply_actions (p\<lparr>lz_next := None\<rparr>) acts)" for acts
    using extends_apply_actions [of "p\<lparr>lz_next := None\<rparr>"] by simp
  show "extends p p1" "decodeOptions p1 = decodeOptions p"
    using assms a extends_trans [OF a extends_addFinal]
    by (auto simp: decodeNextLayer_def recoverDecodeError_def Let_def split: option.splits if_splits outcome.splits)
qed

lemma truncate_lz_next [simp]: "packet.truncate (p\<lparr>lz_next := n\<rparr>) = packet.truncate p"
  by (simp add: packet.defs)

lemma decodeNextLayer_nonempty:
  assumes "lz_next p = Some dec" and "d = (case pk_last p of None \<Rightarrow> pk_data p | Some l \<Rightarrow> ly_payload l)" and "d \<noteq> []"
  shows "decodeNextLayer decode p =
    (case snd (decode dec d) of
       Return None \<Rightarrow> Some (apply_actions (p\<lparr>lz_next := None\<rparr>) (fst (decode dec d)))
     | Return (Some err) \<Rightarrow> Some (addFinalDecodeError (apply_actions (p\<lparr>lz_next := None\<rparr>) (fst (decode dec d))) err)
     | Panics \<Rightarrow> recoverDecodeError (apply_actions (p\<lparr>lz_next := None\<rparr>) (fst (decode dec d)))
     | NextDecoder n \<Rightarrow> Some ((apply_actions (p\<lparr>lz_next := None\<rparr>) (fst (decode dec d)))\<lparr>lz_next := Some n\<rparr>))"
  using assms by (simp add: decodeNextLayer_def Let_def assms(2) [symmetric])

text \<open>How \<open>initialDecode\<close> ends a run.\<close>

definition finish :: "packet \<times> run_end \<Rightarrow> packet option" where
  "finish = (\<lambda>(q, r). case r of Ended None \<Rightarrow> Some q | Ended (Some err) \<Rightarrow> Some (addFinalDecodeError q err) | Crashed \<Rightarrow> recoverDecodeError q)"

lemma initialDecode_finish: "initialDecode decode p dec = map_option finish (eager_Decode decode dec (pk_data p) p)"
  by (cases "eager_Decode decode dec (pk_data p) p")
     (auto simp: initialDecode_def finish_def split: run_end.splits option.splits)

subsection \<open>Eager and lazy decoding agree\<close>

text \<open>The data of the pending decoder, and what a decoder does that hands on to another: it adds a layer before.\<close>

definition pending :: "'x packet_scheme \<Rightarrow> bytes" where
  "pending p = (case pk_last p of None \<Rightarrow> pk_data p | Some l \<Rightarrow> ly_payload l)"

definition adds_layer :: "decode_step \<Rightarrow> bool" where
  "adds_layer s \<longleftrightarrow> (\<forall>n. snd s = NextDecoder n \<longrightarrow> last_added (fst s) \<noteq> None)"

abbreviation all_layers :: "decoders \<Rightarrow> lazyPacket \<Rightarrow> lazyPacket option option" where
  "all_layers \<equiv> lazy_loop (\<lambda>_. False)"

lemma all_layers_done: "lz_next p = None \<Longrightarrow> all_layers decode p = Some (Some p)"
  by (simp add: lazy_loop.simps)

lemma all_layers_step:
  assumes "lz_next p \<noteq> None"
  shows "all_layers decode p = (case decodeNextLayer decode p of None \<Rightarrow> Some None | Some p1 \<Rightarrow> all_layers decode p1)"
  using assms by (subst lazy_loop.simps) simp

lemma pending_last: "pk_last p = Some l \<Longrightarrow> pending p = ly_payload l"
  by (simp add: pending_def)

lemma pending_truncate [simp]: "pending (packet.truncate p) = pending p" "pk_last (packet.truncate p) = pk_last p"
  by (simp_all add: pending_def packet.defs split: option.split)

lemma decodeOptions_truncate: "decodeOptions (packet.truncate p) = decodeOptions p"
  by (simp add: packet.defs)

text \<open>One step of an eager run against one step of a lazy packet with the same pending decoder.\<close>

lemma eager_lazy_step:
  assumes "lz_next p = Some dec" "pending p = d" "d \<noteq> []" "pk_last p \<noteq> None \<or> adds_layer (decode dec d)"
  obtains (halt) x y where "decodeNextLayer decode p = y" "eager_Decode decode dec d (packet.truncate p) = Some x"
      "finish x = map_option packet.truncate y" "\<And>p1. y = Some p1 \<Longrightarrow> lz_next p1 = None"
  | (empty) p1 n where "decodeNextLayer decode p = Some p1" "lz_next p1 = Some n" "pending p1 = []"
      "eager_Decode decode dec d (packet.truncate p) = Some (packet.truncate p1, Ended None)"
  | (go) p1 n where "decodeNextLayer decode p = Some p1" "lz_next p1 = Some n" "pending p1 \<noteq> []" "pk_last p1 \<noteq> None"
      "eager_Decode decode dec d (packet.truncate p) = eager_Decode decode n (pending p1) (packet.truncate p1)"
      "snd (decode dec d) = NextDecoder n" "packet.truncate p1 = apply_actions (packet.truncate p) (fst (decode dec d))"
proof -
  let ?q = "apply_actions (packet.truncate p) (fst (decode dec d))"
  note dn = decodeNextLayer_nonempty [OF assms(1), of d decode, unfolded pending_def [symmetric], OF assms(2) [symmetric] assms(3)]
  show thesis
  proof (cases "snd (decode dec d)")
    case (Return err)
    show thesis by (rule halt [OF refl]) (use Return dn in \<open>auto simp: eager_Decode.simps finish_def split: option.splits\<close>)
  next
    case Panics
    show thesis
    proof (rule halt [OF refl])
      show "eager_Decode decode dec d (packet.truncate p) = Some (?q, Crashed)" using Panics by (subst eager_Decode.simps) simp
      show "finish (?q, Crashed) = map_option packet.truncate (decodeNextLayer decode p)"
        "\<And>p1. decodeNextLayer decode p = Some p1 \<Longrightarrow> lz_next p1 = None"
        using dn Panics by (auto simp: finish_def recoverDecodeError_def decodeOptions_truncate split: if_splits)
    qed
  next
    case (NextDecoder n)
    let ?p1 = "(apply_actions (p\<lparr>lz_next := None\<rparr>) (fst (decode dec d)))\<lparr>lz_next := Some n\<rparr>"
    have p1: "decodeNextLayer decode p = Some ?p1" using dn NextDecoder by simp
    have t: "packet.truncate ?p1 = ?q" by simp
    have "pk_last ?p1 \<noteq> None" using assms(4) NextDecoder by (auto simp: pk_last_apply_actions adds_layer_def split: option.splits)
    then obtain l where l: "pk_last ?p1 = Some l" by auto
    then have ql: "pk_last ?q = Some l" using t by (metis pending_truncate(2))
    have e: "eager_Decode decode dec d (packet.truncate p) = (if ly_payload l = [] then Some (?q, Ended None) else eager_Decode decode n (ly_payload l) ?q)"
      using NextDecoder ql by (subst eager_Decode.simps) simp
    have pe: "pending ?p1 = ly_payload l" unfolding pending_def l by simp
    show thesis
    proof (cases "ly_payload l = []")
      case True
      show thesis by (rule empty [OF p1]) (use True e pe t in simp_all)
    next
      case False
      show thesis by (rule go [OF p1]) (use False e pe t NextDecoder l in simp_all)
    qed
  qed
qed
lemma lazy_imp_eager:
  assumes ret: "all_layers decode p = Some r"
  shows "case lz_next p of None \<Rightarrow> r = Some p
    | Some dec \<Rightarrow> if pending p = [] then map_option packet.truncate r = Some (packet.truncate p)
        else (pk_last p \<noteq> None \<or> adds_layer (decode dec (pending p)))
           \<longrightarrow> map_option finish (eager_Decode decode dec (pending p) (packet.truncate p)) = Some (map_option packet.truncate r)"
    (is "?P decode p r")
proof -
  have "(stop :: lazyPacket \<Rightarrow> bool) = (\<lambda>_. False) \<longrightarrow> ?P decode p r" if "lazy_loop stop decode p = Some r" for stop
  proof (rule lazy_loop.raw_induct [where P = "\<lambda>stop decode p r. stop = (\<lambda>_. False) \<longrightarrow> ?P decode p r", OF _ that])
    fix f stop decode p r
    assume IH: "\<And>stop decode p r. f stop decode p = Some r \<Longrightarrow> stop = (\<lambda>_. False) \<longrightarrow> ?P decode p r"
      and eq: "(if \<not> stop p \<and> lz_next p \<noteq> None then case decodeNextLayer decode p of None \<Rightarrow> Some None | Some p1 \<Rightarrow> f stop decode p1
          else Some (Some p)) = Some r"
    show "stop = (\<lambda>_. False) \<longrightarrow> ?P decode p r"
    proof
      assume s: "stop = (\<lambda>_. False)"
      show "?P decode p r"
      proof (cases "lz_next p")
        case None
        then show ?thesis using eq s by simp
      next
        case (Some dec)
        then have f: "(case decodeNextLayer decode p of None \<Rightarrow> Some None | Some p1 \<Rightarrow> f stop decode p1) = Some r" using eq s by simp
        show ?thesis
        proof (cases "pending p = []")
          case True
          then have "decodeNextLayer decode p = Some (p\<lparr>lz_next := None\<rparr>)" using Some by (simp add: decodeNextLayer_def pending_def)
          then show ?thesis using f IH s Some True by fastforce
        next
          case False
          have "map_option finish (eager_Decode decode dec (pending p) (packet.truncate p)) = Some (map_option packet.truncate r)"
            if g: "pk_last p \<noteq> None \<or> adds_layer (decode dec (pending p))"
          proof (cases rule: eager_lazy_step [where decode = decode, OF Some refl False g, case_names halt empty go])
            case (halt x y)
            then show ?thesis using f IH s by (cases y) fastforce+
          next
            case (empty p1 n)
            then show ?thesis using f IH s by (fastforce simp: finish_def)
          next
            case (go p1 n)
            then show ?thesis using f IH s by fastforce
          qed
          then show ?thesis using Some False by simp
        qed
      qed
    qed
  qed
  then show ?thesis using ret by blast
qed

lemma eager_imp_lazy:
  assumes ret: "eager_Decode decode dec d (packet.truncate p) = Some r"
    and "lz_next p = Some dec" "pending p = d" "d \<noteq> []" "pk_last p \<noteq> None \<or> adds_layer (decode dec d)"
  shows "\<exists>x. all_layers decode p = Some x"
proof -
  let ?P = "\<lambda>decode dec d q r. \<forall>p :: lazyPacket. packet.truncate p = q \<longrightarrow> lz_next p = Some dec \<longrightarrow> pending p = d \<longrightarrow> d \<noteq> []
      \<longrightarrow> pk_last p \<noteq> None \<or> adds_layer (decode dec d) \<longrightarrow> (\<exists>x. all_layers decode p = Some x)"
  have "?P decode dec d (packet.truncate p) r"
  proof (rule eager_Decode.raw_induct [where P = ?P, OF _ ret])
    fix f decode dec d q r
    assume IH: "\<And>decode dec d q r. f decode dec d q = Some r \<Longrightarrow> ?P decode dec d q r"
      and eq: "(let p1 = apply_actions q (fst (decode dec d))
        in case snd (decode dec d) of Return err \<Rightarrow> Some (p1, Ended err)
           | NextDecoder n \<Rightarrow>
               (case pk_last p1 of
                  None \<Rightarrow> Some (p1, Ended (Some (Errorf ''NextDecoder called, but no layers added yet'' [])))
                | Some l \<Rightarrow> if ly_payload l = [] then Some (p1, Ended None) else f decode n (ly_payload l) p1)
           | Panics \<Rightarrow> Some (p1, Crashed)) = Some r"
    show "?P decode dec d q r"
    proof (intro allI impI)
      fix p :: lazyPacket
      assume p: "packet.truncate p = q" "lz_next p = Some dec" "pending p = d" "d \<noteq> []" "pk_last p \<noteq> None \<or> adds_layer (decode dec d)"
      have step: "all_layers decode p = (case decodeNextLayer decode p of None \<Rightarrow> Some None | Some p1 \<Rightarrow> all_layers decode p1)"
        using p(2) by (simp add: all_layers_step)
      show "\<exists>x. all_layers decode p = Some x"
      proof (cases rule: eager_lazy_step [where decode = decode, OF p(2-5), case_names halt empty go])
        case (halt x y)
        then show ?thesis using step by (cases y) (auto simp: all_layers_done)
      next
        case (empty p1 n)
        then have "decodeNextLayer decode p1 = Some (p1\<lparr>lz_next := None\<rparr>)" by (simp add: decodeNextLayer_def pending_def)
        then show ?thesis using empty step all_layers_step [of p1 decode] by (simp add: all_layers_done)
      next
        case (go p1 n)
        obtain l where l: "pk_last p1 = Some l" using go by auto
        have q: "apply_actions q (fst (decode dec d)) = packet.truncate p1" using go p(1) by simp
        have pl: "pending p1 = ly_payload l" by (simp add: pending_def l)
        have "f decode n (ly_payload l) (packet.truncate p1) = Some r"
          using eq go(3,6) pl unfolding q Let_def pending_truncate(2) l by simp
        from IH [OF this] have "\<exists>x. all_layers decode p1 = Some x" using go(2-4) pl by metis
        then show ?thesis using step go(1) by simp
      qed
    qed
  qed
  then show ?thesis using assms(2-5) by blast
qed

text \<open>A lazy packet asked for all its layers does what an eager packet does, also when decoding does not end or panics.\<close>

lemma eager_is_lazy:
  assumes "lz_next p = Some dec" "pending p = d" "d \<noteq> []" "pk_last p \<noteq> None \<or> adds_layer (decode dec d)"
  shows "map_option finish (eager_Decode decode dec d (packet.truncate p)) = map_option (map_option packet.truncate) (all_layers decode p)"
proof (cases "all_layers decode p")
  case None
  then have "eager_Decode decode dec d (packet.truncate p) = None"
    using eager_imp_lazy [where decode = decode, OF _ assms] by (cases "eager_Decode decode dec d (packet.truncate p)") auto
  with None show ?thesis by simp
next
  case (Some r)
  have "map_option finish (eager_Decode decode dec d (packet.truncate p)) = Some (map_option packet.truncate r)"
    using lazy_imp_eager [OF Some] assms by (simp del: not_None_eq)
  then show ?thesis using Some by simp
qed

text \<open>Induction over the steps of a packet whose layers can all be decoded.\<close>

lemma all_layers_induct [consumes 1, case_names finished step]:
  assumes ret: "all_layers decode p = Some (Some q)"
    and fin: "\<And>p. lz_next p = None \<Longrightarrow> Q p p"
    and step: "\<And>p p1 q. lz_next p \<noteq> None \<Longrightarrow> decodeNextLayer decode p = Some p1 \<Longrightarrow> Q p1 q \<Longrightarrow> Q p q"
  shows "Q p q"
proof -
  let ?P = "\<lambda>stop dec p r. stop = (\<lambda>_ :: lazyPacket. False) \<longrightarrow> dec = decode \<longrightarrow> (\<forall>q. r = Some q \<longrightarrow> Q p q)"
  have "?P (\<lambda>_. False) decode p (Some q)"
  proof (rule lazy_loop.raw_induct [where P = ?P, OF _ ret])
    fix f stop dec p r
    assume IH: "\<And>stop dec p r. f stop dec p = Some r \<Longrightarrow> ?P stop dec p r"
      and eq: "(if \<not> stop p \<and> lz_next p \<noteq> None then case decodeNextLayer dec p of None \<Rightarrow> Some None | Some p1 \<Rightarrow> f stop dec p1
          else Some (Some p)) = Some r"
    show "?P stop dec p r"
    proof (intro impI allI)
      fix q assume a: "stop = (\<lambda>_. False)" "dec = decode" "r = Some q"
      show "Q p q"
      proof (cases "lz_next p = None")
        case True
        then show ?thesis using eq a fin by auto
      next
        case False
        then obtain p1 where p1: "decodeNextLayer decode p = Some p1" "f stop decode p1 = Some r"
          using eq a by (auto split: option.splits)
        then show ?thesis using IH [of stop decode p1 r] a step [OF False p1(1)] by blast
      qed
    qed
  qed
  then show ?thesis by simp
qed

lemma all_layers_no_panic:
  assumes ret: "all_layers decode p = Some r" and "\<not> SkipDecodeRecovery (decodeOptions p)"
  shows "\<exists>q. r = Some q"
proof -
  let ?P = "\<lambda>stop dec p r. \<not> SkipDecodeRecovery (decodeOptions (p :: lazyPacket)) \<longrightarrow> (\<exists>q :: lazyPacket. r = Some q)"
  have "?P (\<lambda>_. False) decode p r"
  proof (rule lazy_loop.raw_induct [where P = ?P, OF _ ret])
    fix f stop dec p r
    assume IH: "\<And>stop dec p r. f stop dec p = Some r \<Longrightarrow> ?P stop dec p r"
      and eq: "(if \<not> stop p \<and> lz_next p \<noteq> None then case decodeNextLayer dec p of None \<Rightarrow> Some None | Some p1 \<Rightarrow> f stop dec p1
          else Some (Some p)) = Some r"
    show "?P stop dec p r"
    proof
      assume o: "\<not> SkipDecodeRecovery (decodeOptions p)"
      then have "decodeNextLayer dec p \<noteq> None"
        by (auto simp: decodeNextLayer_def recoverDecodeError_def Let_def split: option.splits outcome.splits)
      then obtain p1 where p1: "decodeNextLayer dec p = Some p1" by auto
      show "\<exists>q. r = Some q" using eq p1 IH [of stop dec p1 r] decodeNextLayer_extends(2) [OF p1] o by (auto split: if_splits)
    qed
  qed
  then show ?thesis using assms(2) by blast
qed

lemma all_layers_extends: "all_layers decode p = Some (Some q) \<Longrightarrow> extends p q \<and> lz_next q = None"
proof (induction p q rule: all_layers_induct)
  case (step p p1 q)
  then show ?case using extends_trans [OF decodeNextLayer_extends(1)] by blast
qed simp

lemma all_layers_unstep:
  "all_layers decode p = Some (Some q) \<Longrightarrow> lz_next p \<noteq> None \<Longrightarrow> decodeNextLayer decode p = Some p1 \<Longrightarrow> all_layers decode p1 = Some (Some q)"
  by (simp add: all_layers_step)

text \<open>An accessor that stops early finds what a fully decoded packet has, and leaves a packet with the same layers to come.\<close>

definition finds :: "decoders \<Rightarrow> lazyPacket \<Rightarrow> (lazyPacket \<times> 'r) option option \<Rightarrow> 'r option \<Rightarrow> bool" where
  "finds decode q r x \<longleftrightarrow>
     (\<exists>res. r = Some res \<and> map_option snd res = x \<and> (\<forall>p' y. res = Some (p', y) \<longrightarrow> all_layers decode p' = Some (Some q)))"

lemma lazy_loop_finds:
  assumes stable: "\<And>p q. extends p q \<Longrightarrow> f p = None \<or> f q = f p" and "all_layers decode p = Some (Some q)"
  shows "finds decode q (with_result f (lazy_loop (\<lambda>p. f p \<noteq> None) decode p)) (Some (f q))"
proof -
  have "all_layers decode p = Some (Some q) \<longrightarrow> ?thesis" using assms(2)
  proof (induction p q rule: all_layers_induct)
    case (finished p)
    then show ?case by (simp add: lazy_loop.simps with_result_def finds_def)
  next
    case (step p p1 q)
    show ?case
    proof
      assume a: "all_layers decode p = Some (Some q)"
      have "f p = None \<or> f q = f p" using stable all_layers_extends [OF a] by blast
      moreover have "all_layers decode p1 = Some (Some q)" using all_layers_unstep [OF a step(1,2)] .
      ultimately show "finds decode q (with_result f (lazy_loop (\<lambda>p. f p \<noteq> None) decode p)) (Some (f q))"
        using step a by (subst lazy_loop.simps) (auto simp: with_result_def finds_def)
    qed
  qed
  then show ?thesis using assms(2) by simp
qed

lemma scan_append:
  "scan test (xs @ ys) = (case scan test xs of None \<Rightarrow> None | Some (Some l) \<Rightarrow> Some (Some l) | Some None \<Rightarrow> scan test ys)"
  by (induction test xs rule: scan.induct) (auto split: option.splits bind_splits)

lemma lazy_scan_finds:
  assumes "all_layers decode p = Some (Some q)"
  shows "finds decode q (lazy_scan test decode p (length (pk_layers p))) (scan test (drop (length (pk_layers p)) (pk_layers q)))"
proof -
  have "all_layers decode p = Some (Some q) \<longrightarrow> ?thesis" using assms
  proof (induction p q rule: all_layers_induct)
    case (finished p)
    then show ?case by (simp add: lazy_scan.simps finds_def)
  next
    case (step p p1 q)
    obtain ls where ls: "pk_layers p1 = pk_layers p @ ls" using decodeNextLayer_extends(1) [OF step(2)] by (auto simp: extends_def)
    show ?case
    proof
      assume "all_layers decode p = Some (Some q)"
      then have a: "all_layers decode p1 = Some (Some q)" using all_layers_unstep step(1,2) by blast
      obtain ms where ms: "pk_layers q = pk_layers p1 @ ms" using all_layers_extends [OF a] by (auto simp: extends_def)
      show "finds decode q (lazy_scan test decode p (length (pk_layers p))) (scan test (drop (length (pk_layers p)) (pk_layers q)))"
        using step a ls ms by (subst lazy_scan.simps) (auto simp: scan_append finds_def split: option.splits)
    qed
  qed
  then show ?thesis using assms by simp
qed

lemma lazy_search_finds:
  assumes "all_layers decode p = Some (Some q)"
  shows "finds decode q (lazy_search test decode p) (scan test (pk_layers q))"
proof -
  obtain ls where "pk_layers q = pk_layers p @ ls" using all_layers_extends [OF assms] by (auto simp: extends_def)
  then show ?thesis
    using lazy_scan_finds [OF assms, of test] assms by (auto simp: lazy_search_def scan_append finds_def split: option.splits)
qed

lemma lazy_Layers_eq: "lazy_Layers decode p = Some (Some (q, ls)) \<longleftrightarrow> all_layers decode p = Some (Some q) \<and> ls = pk_layers q"
  by (auto simp: lazy_Layers_def with_result_def)

text \<open>C36. Each accessor of a lazy packet decodes only as many layers as it needs. Whenever all layers can be decoded it returns what the
  field of the fully decoded packet holds: the first link, network, transport and application layer, the failure, and the
  first layer of a given type or class (or it panics, if asking the class does). It leaves a packet with the same layers to come, so the
  order in which accessors are called does not matter. The decoders are any.\<close>

theorem lazy_accessors_agree:
  assumes "lazy_Layers decode p = Some (Some (q, ls))"
  shows "finds decode q (lazy_LinkLayer decode p) (Some (link q))
      \<and> finds decode q (lazy_NetworkLayer decode p) (Some (network q))
      \<and> finds decode q (lazy_TransportLayer decode p) (Some (transport q))
      \<and> finds decode q (lazy_ApplicationLayer decode p) (Some (application q))
      \<and> finds decode q (lazy_ErrorLayer decode p) (Some (failure q))
      \<and> finds decode q (lazy_Layer decode p t) (eager_Layer (packet.truncate q) t)
      \<and> finds decode q (lazy_LayerClass decode p c) (eager_LayerClass (packet.truncate q) c)"
proof -
  have a: "all_layers decode p = Some (Some q)" using assms by (simp add: lazy_Layers_eq)
  have t: "pk_layers (packet.truncate q) = pk_layers q" by (simp add: packet.defs)
  show ?thesis
    unfolding lazy_LinkLayer_def lazy_NetworkLayer_def lazy_TransportLayer_def lazy_ApplicationLayer_def lazy_ErrorLayer_def
      lazy_Layer_def lazy_LayerClass_def eager_Layer_def eager_LayerClass_def t
    by (intro conjI lazy_search_finds [OF a]) (rule lazy_loop_finds [OF _ a]; simp add: extends_def)+
qed

theorem lazy_accessors_agree_witness:
  "\<exists>q. lazy_Layers (\<lambda>_. decodePayload) (new_lazyPacket [1, 2, 3] DecodePayload
         \<lparr>Lazy = True, NoCopy = False, SkipDecodeRecovery = False, DecodeStreamsAsDatagrams = False\<rparr>) = Some (Some (q, pk_layers q))
     \<and> finds (\<lambda>_. decodePayload) q (lazy_ApplicationLayer (\<lambda>_. decodePayload) (new_lazyPacket [1, 2, 3] DecodePayload
         \<lparr>Lazy = True, NoCopy = False, SkipDecodeRecovery = False, DecodeStreamsAsDatagrams = False\<rparr>)) (Some (application q))
     \<and> application q = Some \<lparr>ly_type = 2, ly_contents = [1, 2, 3], ly_payload = []\<rparr>"
proof -
  let ?p = "new_lazyPacket [1, 2, 3] DecodePayload \<lparr>Lazy = True, NoCopy = False, SkipDecodeRecovery = False, DecodeStreamsAsDatagrams = False\<rparr>"
  have "\<exists>q. lazy_Layers (\<lambda>_. decodePayload) ?p = Some (Some (q, pk_layers q)) \<and> application q = Some \<lparr>ly_type = 2, ly_contents = [1, 2, 3], ly_payload = []\<rparr>"
    by (simp add: lazy_Layers_def with_result_def lazy_loop.simps decodeNextLayer_def decodePayload_def Let_def new_lazyPacket_def new_packet_def
        packet.defs apply_actions_def builder_defs)
  then obtain q where q: "lazy_Layers (\<lambda>_. decodePayload) ?p = Some (Some (q, pk_layers q))"
    "application q = Some \<lparr>ly_type = 2, ly_contents = [1, 2, 3], ly_payload = []\<rparr>" by blast
  show ?thesis using lazy_accessors_agree [OF q(1)] q by blast
qed

lemma eager_Decode_options:
  assumes "eager_Decode decode dec d p = Some (q, e)"
  shows "decodeOptions q = decodeOptions p"
proof -
  have "decodeOptions (fst (q, e)) = decodeOptions p"
  proof (rule eager_Decode.raw_induct [where P = "\<lambda>decode dec d p r. decodeOptions (fst r) = decodeOptions p", OF _ assms])
    fix f decode dec d p r
    assume IH: "\<And>decode dec d p r. f decode dec d p = Some r \<Longrightarrow> decodeOptions (fst r) = decodeOptions p"
      and eq: "(let p1 = apply_actions p (fst (decode dec d))
        in case snd (decode dec d) of Return err \<Rightarrow> Some (p1, Ended err)
           | NextDecoder n \<Rightarrow>
               (case pk_last p1 of
                  None \<Rightarrow> Some (p1, Ended (Some (Errorf ''NextDecoder called, but no layers added yet'' [])))
                | Some l \<Rightarrow> if ly_payload l = [] then Some (p1, Ended None) else f decode n (ly_payload l) p1)
           | Panics \<Rightarrow> Some (p1, Crashed)) = Some r"
    then show "decodeOptions (fst r) = decodeOptions p"
      by (auto simp: Let_def split: outcome.splits option.splits if_splits)
  qed
  then show ?thesis by simp
qed

lemma new_lazyPacket_fields:
  "packet.truncate (new_lazyPacket data dec opts) = new_packet data opts" "lz_next (new_lazyPacket data dec opts) = Some dec"
  "decodeOptions (new_lazyPacket data dec opts) = opts" "pending (new_lazyPacket data dec opts) = data" "pk_data (new_packet data opts) = data"
  by (simp_all add: new_lazyPacket_def new_packet_def pending_def packet.defs)

lemma initialDecode_lazy:
  assumes "data \<noteq> []" "adds_layer (decode dec data)"
  shows "initialDecode decode (new_packet data opts) dec = map_option (map_option packet.truncate) (all_layers decode (new_lazyPacket data dec opts))"
  using eager_is_lazy [of "new_lazyPacket data dec opts" dec data decode] assms new_lazyPacket_fields
  by (simp add: initialDecode_finish)

subsection \<open>The contract of the decoders\<close>

text \<open>A decoder that hands on to another one has added a layer, and that layer's payload is shorter than the data, or it is all the
  data and the other decoder has a lower rank. Then decoding ends.\<close>

locale packet_decoders =
  fixes decode :: decoders and rank :: "Decoder \<Rightarrow> nat"
  assumes descends: "snd (decode dec data) = NextDecoder n \<Longrightarrow>
    \<exists>l. last_added (fst (decode dec data)) = Some l
      \<and> (length (ly_payload l) < length data \<or> length (ly_payload l) = length data \<and> rank n < rank dec)"
begin

lemma adds: "adds_layer (decode dec data)"
  using descends by (fastforce simp: adds_layer_def)

lemma all_layers_returns: "\<exists>r. all_layers decode p = Some r"
proof -
  let ?m = "\<lambda>p. (if lz_next p = None then 0 else Suc 0, length (pending p), case lz_next p of None \<Rightarrow> 0 | Some dec \<Rightarrow> rank dec)"
  have "wf (inv_image (less_than <*lex*> less_than <*lex*> less_than) ?m)" by auto
  then show ?thesis
  proof (induction p rule: wf_induct_rule)
    case (less p)
    show ?case
    proof (cases "\<exists>dec n. lz_next p = Some dec \<and> pending p \<noteq> [] \<and> snd (decode dec (pending p)) = NextDecoder n")
      case True
      then obtain dec n where n: "lz_next p = Some dec" "pending p \<noteq> []" "snd (decode dec (pending p)) = NextDecoder n" by blast
      let ?p1 = "(apply_actions (p\<lparr>lz_next := None\<rparr>) (fst (decode dec (pending p))))\<lparr>lz_next := Some n\<rparr>"
      obtain l where l: "last_added (fst (decode dec (pending p))) = Some l"
          "length (ly_payload l) < length (pending p) \<or> length (ly_payload l) = length (pending p) \<and> rank n < rank dec"
        using descends n(3) by blast
      have "decodeNextLayer decode p = Some ?p1"
        using decodeNextLayer_nonempty [OF n(1), of "pending p" decode] n(2,3) by (simp add: pending_def)
      moreover have "pending ?p1 = ly_payload l" using pending_last [of ?p1 l] l(1) by (simp add: pk_last_apply_actions)
      ultimately show ?thesis using less [of ?p1] l(2) n(1) all_layers_step [of p decode] by auto
    next
      case False
      then have "decodeNextLayer decode p = Some p1 \<Longrightarrow> lz_next p1 = None" for p1
        by (auto simp: decodeNextLayer_def pending_def recoverDecodeError_def Let_def split: option.splits if_splits outcome.splits)
      then show ?thesis
        using all_layers_done all_layers_step [of p decode] by (cases "decodeNextLayer decode p"; cases "lz_next p") auto
    qed
  qed
qed

lemma all_layers_total: "\<not> SkipDecodeRecovery (decodeOptions p) \<Longrightarrow> \<exists>q. all_layers decode p = Some (Some q)"
  using all_layers_returns [of p] all_layers_no_panic by blast

end

end
