(* ===== verification/Packet_Source.thy ===== *)
theory Packet_Source
  imports Packet
begin

section \<open>Packet sources (\<^verbatim>\<open>packet.go\<close>)\<close>

text \<open>
  A \<^verbatim>\<open>PacketDataSource\<close> is the sequence of results its reads return; after the last one every read returns
  \<^verbatim>\<open>io.EOF\<close>. Reads that block or that depend on anything but the reads before are not modelled. The theory models the concatenation of sources, \<^verbatim>\<open>NextPacket\<close>, and the goroutine that feeds the channel
  of \<^verbatim>\<open>Packets\<close>, whose output is the list of packets it sends before it closes the channel.
\<close>

text \<open>The errors the code tells apart. \<open>ClosedFile\<close> is an error whose text contains "use of closed file".\<close>

datatype read_err =
    EOF | ErrUnexpectedEOF | ErrNoProgress | ErrClosedPipe | ErrShortBuffer | EBADF | ClosedFile
  | EAGAIN | NetTemporary | OtherErr goerr

type_synonym read_result = "read_err + bytes \<times> CaptureInfo"
type_synonym PacketDataSource = "read_result list"

fun ReadPacketData :: "PacketDataSource \<Rightarrow> read_result \<times> PacketDataSource" where
  "ReadPacketData [] = (Inl EOF, [])"
| "ReadPacketData (r # rs) = (r, rs)"

fun concat_ReadPacketData :: "PacketDataSource list \<Rightarrow> read_result \<times> PacketDataSource list" where
  "concat_ReadPacketData [] = (Inl EOF, [])"
| "concat_ReadPacketData (s # c) =
     (case ReadPacketData s of
        (r, s1) \<Rightarrow> if r = Inl EOF then concat_ReadPacketData c else (r, s1 # c))"







subsection \<open>Concatenation\<close>

definition flat :: "PacketDataSource list \<Rightarrow> PacketDataSource" where
  "flat c = concat (map (takeWhile (\<lambda>r. r \<noteq> Inl EOF)) c)"

text \<open>C39. The concatenation of sources implements the one source that holds the results of all of them up to their first
  end of file, in order: each read of one corresponds to a read of the other.\<close>

theorem concat_refines:
  assumes "concat_ReadPacketData c = (r, c')"
  shows "ReadPacketData (flat c) = (r, flat c')"
  using assms
proof (induction c rule: concat_ReadPacketData.induct)
  case (2 s c)
  then show ?case by (cases s) (auto simp: flat_def split: if_splits)
qed (simp add: flat_def)

theorem concat_refines_witness:
  "ReadPacketData (flat [[Inl EOF], [Inl EAGAIN]]) = (Inl EAGAIN, flat [[]])"
  using concat_refines [of "[[Inl EOF], [Inl EAGAIN]]" "Inl EAGAIN" "[[]]"] by simp

subsection \<open>The channel\<close>




end
