(* ===== verification/Layer_Dot11.thy ===== *)
theory Layer_Dot11
  imports Layer_Link
begin

section \<open>Data frames of IEEE 802.11 (\<^verbatim>\<open>layers/dot11.go\<close>)\<close>

text \<open>
  The layers of data frames have no header of their own: their payload is all the data, which a QoS layer hands on to the
  plain layer and a plain layer to LLC. The frame header, the management and the control layers are not modelled.
\<close>

definition zero_Dot11Data :: BaseLayer where
  "zero_Dot11Data = \<lparr>Contents = [], Payload = []\<rparr>"

definition Dot11Data_DecodeFromBytes :: "BaseLayer \<Rightarrow> bytes \<Rightarrow> bool \<Rightarrow> BaseLayer decoded" where
  "Dot11Data_DecodeFromBytes m data df = Some (m\<lparr>Payload := data\<rparr>, df, None)"

definition Dot11DataQOS_DecodeFromBytes :: "BaseLayer \<Rightarrow> bytes \<Rightarrow> bool \<Rightarrow> BaseLayer decoded" where
  "Dot11DataQOS_DecodeFromBytes m data df = Some (\<lparr>Contents = [], Payload = data\<rparr>, df, None)"

abbreviation (input) LayerTypeDot11Data :: LayerType where "LayerTypeDot11Data \<equiv> 67"
abbreviation (input) LayerTypeDot11DataCFAck :: LayerType where "LayerTypeDot11DataCFAck \<equiv> 68"
abbreviation (input) LayerTypeDot11DataCFPoll :: LayerType where "LayerTypeDot11DataCFPoll \<equiv> 69"
abbreviation (input) LayerTypeDot11DataCFAckPoll :: LayerType where "LayerTypeDot11DataCFAckPoll \<equiv> 70"
abbreviation (input) LayerTypeDot11DataNull :: LayerType where "LayerTypeDot11DataNull \<equiv> 71"
abbreviation (input) LayerTypeDot11DataCFAckNoData :: LayerType where "LayerTypeDot11DataCFAckNoData \<equiv> 72"
abbreviation (input) LayerTypeDot11DataCFPollNoData :: LayerType where "LayerTypeDot11DataCFPollNoData \<equiv> 73"
abbreviation (input) LayerTypeDot11DataCFAckPollNoData :: LayerType where "LayerTypeDot11DataCFAckPollNoData \<equiv> 74"
abbreviation (input) LayerTypeDot11DataQOSData :: LayerType where "LayerTypeDot11DataQOSData \<equiv> 75"
abbreviation (input) LayerTypeDot11DataQOSDataCFAck :: LayerType where "LayerTypeDot11DataQOSDataCFAck \<equiv> 76"
abbreviation (input) LayerTypeDot11DataQOSDataCFPoll :: LayerType where "LayerTypeDot11DataQOSDataCFPoll \<equiv> 77"
abbreviation (input) LayerTypeDot11DataQOSDataCFAckPoll :: LayerType where "LayerTypeDot11DataQOSDataCFAckPoll \<equiv> 78"
abbreviation (input) LayerTypeDot11DataQOSNull :: LayerType where "LayerTypeDot11DataQOSNull \<equiv> 79"
abbreviation (input) LayerTypeDot11DataQOSCFPollNoData :: LayerType where "LayerTypeDot11DataQOSCFPollNoData \<equiv> 80"
abbreviation (input) LayerTypeDot11DataQOSCFAckPollNoData :: LayerType where "LayerTypeDot11DataQOSCFAckPollNoData \<equiv> 81"

definition decodeDot11Data :: "bytes \<Rightarrow> decode_step" where
  "decodeDot11Data data = decodingLayerDecoder (Dot11Data_DecodeFromBytes zero_Dot11Data data False) (base_layer LayerTypeDot11Data) (\<lambda>_. LayerTypeLLC)"

definition decodeDot11DataCFAck :: "bytes \<Rightarrow> decode_step" where
  "decodeDot11DataCFAck data = decodingLayerDecoder (Dot11Data_DecodeFromBytes zero_Dot11Data data False) (base_layer LayerTypeDot11DataCFAck) (\<lambda>_. LayerTypeLLC)"

definition decodeDot11DataCFPoll :: "bytes \<Rightarrow> decode_step" where
  "decodeDot11DataCFPoll data = decodingLayerDecoder (Dot11Data_DecodeFromBytes zero_Dot11Data data False) (base_layer LayerTypeDot11DataCFPoll) (\<lambda>_. LayerTypeLLC)"

definition decodeDot11DataCFAckPoll :: "bytes \<Rightarrow> decode_step" where
  "decodeDot11DataCFAckPoll data = decodingLayerDecoder (Dot11Data_DecodeFromBytes zero_Dot11Data data False) (base_layer LayerTypeDot11DataCFAckPoll) (\<lambda>_. LayerTypeLLC)"

definition decodeDot11DataNull :: "bytes \<Rightarrow> decode_step" where
  "decodeDot11DataNull data = decodingLayerDecoder (Dot11Data_DecodeFromBytes zero_Dot11Data data False) (base_layer LayerTypeDot11DataNull) (\<lambda>_. LayerTypeLLC)"

definition decodeDot11DataCFAckNoData :: "bytes \<Rightarrow> decode_step" where
  "decodeDot11DataCFAckNoData data = decodingLayerDecoder (Dot11Data_DecodeFromBytes zero_Dot11Data data False) (base_layer LayerTypeDot11DataCFAckNoData) (\<lambda>_. LayerTypeLLC)"

definition decodeDot11DataCFPollNoData :: "bytes \<Rightarrow> decode_step" where
  "decodeDot11DataCFPollNoData data = decodingLayerDecoder (Dot11Data_DecodeFromBytes zero_Dot11Data data False) (base_layer LayerTypeDot11DataCFPollNoData) (\<lambda>_. LayerTypeLLC)"

definition decodeDot11DataCFAckPollNoData :: "bytes \<Rightarrow> decode_step" where
  "decodeDot11DataCFAckPollNoData data = decodingLayerDecoder (Dot11Data_DecodeFromBytes zero_Dot11Data data False) (base_layer LayerTypeDot11DataCFAckPollNoData) (\<lambda>_. LayerTypeLLC)"

definition decodeDot11DataQOSData :: "bytes \<Rightarrow> decode_step" where
  "decodeDot11DataQOSData data = decodingLayerDecoder (Dot11DataQOS_DecodeFromBytes zero_Dot11Data data False) (base_layer LayerTypeDot11DataQOSData) (\<lambda>_. LayerTypeDot11Data)"

definition decodeDot11DataQOSDataCFAck :: "bytes \<Rightarrow> decode_step" where
  "decodeDot11DataQOSDataCFAck data = decodingLayerDecoder (Dot11DataQOS_DecodeFromBytes zero_Dot11Data data False) (base_layer LayerTypeDot11DataQOSDataCFAck) (\<lambda>_. LayerTypeDot11DataCFAck)"

definition decodeDot11DataQOSDataCFPoll :: "bytes \<Rightarrow> decode_step" where
  "decodeDot11DataQOSDataCFPoll data = decodingLayerDecoder (Dot11DataQOS_DecodeFromBytes zero_Dot11Data data False) (base_layer LayerTypeDot11DataQOSDataCFPoll) (\<lambda>_. LayerTypeDot11DataCFPoll)"

definition decodeDot11DataQOSDataCFAckPoll :: "bytes \<Rightarrow> decode_step" where
  "decodeDot11DataQOSDataCFAckPoll data = decodingLayerDecoder (Dot11DataQOS_DecodeFromBytes zero_Dot11Data data False) (base_layer LayerTypeDot11DataQOSDataCFAckPoll) (\<lambda>_. LayerTypeDot11DataCFAckPoll)"

definition decodeDot11DataQOSNull :: "bytes \<Rightarrow> decode_step" where
  "decodeDot11DataQOSNull data = decodingLayerDecoder (Dot11DataQOS_DecodeFromBytes zero_Dot11Data data False) (base_layer LayerTypeDot11DataQOSNull) (\<lambda>_. LayerTypeDot11DataNull)"

definition decodeDot11DataQOSCFPollNoData :: "bytes \<Rightarrow> decode_step" where
  "decodeDot11DataQOSCFPollNoData data = decodingLayerDecoder (Dot11DataQOS_DecodeFromBytes zero_Dot11Data data False) (base_layer LayerTypeDot11DataQOSCFPollNoData) (\<lambda>_. LayerTypeDot11DataCFPollNoData)"

definition decodeDot11DataQOSCFAckPollNoData :: "bytes \<Rightarrow> decode_step" where
  "decodeDot11DataQOSCFAckPollNoData data = decodingLayerDecoder (Dot11DataQOS_DecodeFromBytes zero_Dot11Data data False) (base_layer LayerTypeDot11DataQOSCFAckPollNoData) (\<lambda>_. LayerTypeDot11DataCFAckPollNoData)"

lemmas dot11_data_defs = Dot11Data_DecodeFromBytes_def Dot11DataQOS_DecodeFromBytes_def decodingLayerDecoder_def truncation_def
  decodeDot11Data_def decodeDot11DataCFAck_def decodeDot11DataCFPoll_def
  decodeDot11DataCFAckPoll_def decodeDot11DataNull_def decodeDot11DataCFAckNoData_def
  decodeDot11DataCFPollNoData_def decodeDot11DataCFAckPollNoData_def decodeDot11DataQOSData_def
  decodeDot11DataQOSDataCFAck_def decodeDot11DataQOSDataCFPoll_def decodeDot11DataQOSDataCFAckPoll_def
  decodeDot11DataQOSNull_def decodeDot11DataQOSCFPollNoData_def decodeDot11DataQOSCFAckPollNoData_def

end
