(* ===== verification/Decoders.thy ===== *)
theory Decoders
  imports Packet Layer_Ethernet Layer_Tags Layer_IPv6 Layer_UDP Layer_TCP Layer_DNS Layer_GRE Layer_Dot11
begin

section \<open>From type codes to decoding functions (\<^verbatim>\<open>layers/enums.go\<close>, \<^verbatim>\<open>layers/layertypes.go\<close>)\<close>

text \<open>
  The tables that \<^verbatim>\<open>initActualTypeData\<close> and the registrations of \<^verbatim>\<open>layertypes.go\<close> fill: which decoding function a
  value of the interface \<^verbatim>\<open>Decoder\<close> calls. A decoding function is named by the layer type it decodes; those of the
  layers that have no theory of their own are the argument \<open>other\<close>, which also stands for the error of a layer type
  without a decoder. The contract of the packet loop is shown for the table. Data given to the decoders
  with unchecked slices ends its array.
\<close>

definition decodeIPv4or6 :: "bytes \<Rightarrow> decode_step" where
  "decodeIPv4or6 data =
     steps_or_panic (do {
       b0 \<leftarrow> idx data 0;
       let version = drop_bit 4 b0;
       Some (if version = 4 then decodeIPv4 data
             else if version = 6 then decodeIPv6 data
             else ([], Return (Some (Errorf ''Invalid IP packet version %v'' [uint version])))) })"

definition ProtocolGuessingDecoder :: "bytes \<Rightarrow> decode_step" where
  "ProtocolGuessingDecoder data =
     steps_or_panic (do {
       b0 \<leftarrow> idx data 0;
       Some (if b0 \<in> {0x45, 0x46, 0x47, 0x48, 0x49, 0x4a, 0x4b, 0x4c, 0x4d, 0x4e, 0x4f} then decodeIPv4 data
             else if b0 \<in> {0x60, 0x61, 0x62, 0x63, 0x64, 0x65, 0x66, 0x67, 0x68, 0x69, 0x6a, 0x6b, 0x6c, 0x6d, 0x6e, 0x6f}
             then decodeIPv6 data
             else ([], Return (Some (Errorf ''Unable to guess protocol of packet data'' [])))) })"

record decode_tables =
  dt_tcp_ports :: port_table
  dt_udp_ports :: port_table
  dt_streams :: bool

definition decode_func :: "decode_tables \<Rightarrow> (LayerType \<Rightarrow> bytes \<Rightarrow> decode_step) \<Rightarrow> LayerType \<Rightarrow> bytes \<Rightarrow> decode_step" where
  "decode_func tb other t data =
     (case map_of [(0, decodeUnknown), (1, decodeUnknown), (2, decodePayload), (3, decodeFragment),
                   (10, decodeARP []), (15, decodeDot1Q), (16, decodeEtherIP), (17, decodeEthernet), (18, decodeGRE), (19, decodeICMPv4),
                   (20, decodeIPv4), (21, decodeIPv6), (22, decodeLLC), (23, decodeSNAP), (24, decodeMPLS), (25, decodePPP), (26, decodePPPoE []), (44, decodeTCP (dt_tcp_ports tb) (dt_streams tb)), (45, decodeUDP (dt_udp_ports tb)),
                   (46, decodeIPv6HopByHop), (47, decodeIPv6Routing), (48, decodeIPv6Fragment), (49, decodeIPv6Destination),
                   (52, decodeUDPLite), (53, decodeFDDI), (54, decodeLoopback),
                   (67, decodeDot11Data), (68, decodeDot11DataCFAck), (69, decodeDot11DataCFPoll), (70, decodeDot11DataCFAckPoll),
                   (71, decodeDot11DataNull), (72, decodeDot11DataCFAck), (73, decodeDot11DataCFPoll), (74, decodeDot11DataCFAckPoll),
                   (75, decodeDot11DataQOSData), (76, decodeDot11DataQOSDataCFAck), (77, decodeDot11DataQOSDataCFPoll),
                   (78, decodeDot11DataQOSDataCFAckPoll), (79, decodeDot11DataQOSNull), (80, decodeDot11DataQOSCFPollNoData),
                   (81, decodeDot11DataQOSCFAckPollNoData), (107, decodeDNS), (113, decodeLinuxSLL []), (116, decodeVXLAN), (145, decodeERSPANII)] t of
        Some f \<Rightarrow> f data
      | None \<Rightarrow> other t data)"

text \<open>The layer types whose decoding functions \<^verbatim>\<open>LinkTypeMetadata\<close>, \<^verbatim>\<open>PPPTypeMetadata\<close>, \<^verbatim>\<open>PPPoECodeMetadata\<close> and
  \<^verbatim>\<open>FDDIFrameControlMetadata\<close> hold (not on OpenBSD); the entries for raw IP are in \<open>raw_links\<close>.\<close>

definition LinkTypeMetadata :: "(u8 \<times> LayerType) list" where
  "LinkTypeMetadata = [(1, 17), (9, 25), (10, 53), (0, 54), (105, 65), (108, 54), (117, 63), (127, 64), (220, 108),
                       (113, 113), (119, 115)]"

definition raw_links :: "u8 list" where
  "raw_links = [101, 12]"

definition PPPTypeMetadata :: "(u16 \<times> LayerType) list" where
  "PPPTypeMetadata = [(0x21, 20), (0x57, 21), (0x281, 24), (0x283, 24)]"

definition PPPoECodeMetadata :: "(u8 \<times> LayerType) list" where
  "PPPoECodeMetadata = [(0, 25)]"

definition FDDIFrameControlMetadata :: "(u8 \<times> LayerType) list" where
  "FDDIFrameControlMetadata = [(0x50, 22)]"

definition by_table :: "('k \<times> LayerType) list \<Rightarrow> string \<Rightarrow> int \<Rightarrow> (LayerType \<Rightarrow> decode_step) \<Rightarrow> 'k \<Rightarrow> decode_step" where
  "by_table table what code f k =
     (case map_of table k of Some t \<Rightarrow> f t | None \<Rightarrow> ([], Return (Some (Errorf (''Unable to decode '' @ what @ '' %d'') [code]))))"

fun Decode :: "decode_tables \<Rightarrow> (LayerType \<Rightarrow> bytes \<Rightarrow> decode_step) \<Rightarrow> Decoder \<Rightarrow> bytes \<Rightarrow> decode_step" where
  "Decode tb other (ByLayerType t) data = decode_func tb other t data"
| "Decode tb other (ByEthernetType a) data =
     by_table EthernetTypeMetadata ''EthernetType'' (uint a) (\<lambda>t. decode_func tb other t data) a"
| "Decode tb other (ByIPProtocol a) data =
     by_table IPProtocolMetadata ''IPProtocol'' (uint a) (\<lambda>t. decode_func tb other t data) a"
| "Decode tb other (ByLinkType a) data =
     (if a \<in> set raw_links then decodeIPv4or6 data
      else by_table LinkTypeMetadata ''LinkType'' (uint a) (\<lambda>t. decode_func tb other t data) a)"
| "Decode tb other (ByPPPType a) data =
     by_table PPPTypeMetadata ''PPPType'' (uint a) (\<lambda>t. decode_func tb other t data) a"
| "Decode tb other (ByPPPoECode a) data =
     by_table PPPoECodeMetadata ''PPPoECode'' (uint a) (\<lambda>t. decode_func tb other t data) a"
| "Decode tb other (ByFDDIFrameControl a) data =
     by_table FDDIFrameControlMetadata ''FDDIFrameControl'' (uint a) (\<lambda>t. decode_func tb other t data) a"
| "Decode tb other (ByProtocolFamily a) data =
     by_table ProtocolFamilyMetadata ''ProtocolFamily'' (uint a) (\<lambda>t. decode_func tb other t data) a"
| "Decode tb other ProtocolGuessing data = ProtocolGuessingDecoder data"
| "Decode tb other MPLSFunc data = decodeMPLS data"
| "Decode tb other DecodePayload data = decodePayload data"
| "Decode tb other DecodeFragment data = decodeFragment data"

subsection \<open>Every decoding function makes progress\<close>

definition progresses :: "bytes \<Rightarrow> decode_step \<Rightarrow> bool" where
  "progresses data s \<longleftrightarrow> (\<forall>n. snd s = NextDecoder n \<longrightarrow>
     (\<exists>l. last_added (fst s) = Some l \<and> length (ly_payload l) < length data))"

named_theorems progress_intros \<open>decoding functions that make progress\<close>

lemma last_added_append: "last_added (xs @ ys) = (case last_added ys of None \<Rightarrow> last_added xs | l \<Rightarrow> l)"
proof -
  let ?f = "\<lambda>r a. case a of AddLayer l \<Rightarrow> Some l | _ \<Rightarrow> r"
  have "foldl ?f i ys = (case foldl ?f None ys of None \<Rightarrow> i | l \<Rightarrow> l)" for i
  proof (induction ys rule: rev_induct)
    case (snoc a ys)
    then show ?case by (cases a) simp_all
  qed simp
  from this [of "foldl ?f None xs"] show ?thesis unfolding last_added_def foldl_append .
qed

lemma last_added_Cons:
  "last_added (a # acts) = (case last_added acts of None \<Rightarrow> (case a of AddLayer l \<Rightarrow> Some l | _ \<Rightarrow> None) | l \<Rightarrow> l)"
  using last_added_append [of "[a]" acts] by (simp add: last_added_def [of "[a]"] split: option.split)

lemma last_added_simps [simp]:
  "last_added [] = None" "last_added (AddLayer l # acts) = (case last_added acts of None \<Rightarrow> Some l | m \<Rightarrow> m)"
  "last_added (SetLinkLayer l # acts) = last_added acts" "last_added (SetNetworkLayer l # acts) = last_added acts"
  "last_added (SetTransportLayer l # acts) = last_added acts" "last_added (SetApplicationLayer l # acts) = last_added acts"
  "last_added (SetTruncated # acts) = last_added acts"
  by (simp add: last_added_def) (simp_all add: last_added_Cons split: option.splits)

lemma progresses_Return [progress_intros]: "progresses data (acts, Return e)"
  and progresses_Panics [progress_intros]: "progresses data (acts, Panics)"
  by (simp_all add: progresses_def)

lemma progresses_last [progress_intros]:
  "last_added acts = Some l \<Longrightarrow> length (ly_payload l) < length data \<Longrightarrow> progresses data (acts, out)"
  by (simp add: progresses_def)

lemma progresses_steps_or_panic: "(\<And>s. r = Some s \<Longrightarrow> progresses data s) \<Longrightarrow> progresses data (steps_or_panic r)"
  by (auto simp: steps_or_panic_def progresses_def split: option.splits)

lemma progresses_decodingLayerDecoder:
  assumes "\<And>l t. r = Some (l, t, None) \<Longrightarrow> length (ly_payload (to_layer l)) < length data"
  shows "progresses data (decodingLayerDecoder r to_layer nxt)"
  using assms
  by (auto simp: decodingLayerDecoder_def progresses_def last_added_append split: option.splits prod.splits)

lemma progress_Ethernet [progress_intros]: "progresses data (decodeEthernet data)"
  using eth_dl.payload_shorter [of zero_Ethernet data False]
  by (auto simp: decodeEthernet_def progresses_def last_added_append split: option.splits prod.splits)

lemma progress_Dot1Q [progress_intros]: "progresses data (decodeDot1Q data)"
  unfolding decodeDot1Q_def by (rule progresses_decodingLayerDecoder) (auto dest: dq_dl.payload_shorter)

lemma progress_EtherIP [progress_intros]: "progresses data (decodeEtherIP data)"
  unfolding decodeEtherIP_def
  by (rule progresses_decodingLayerDecoder) (auto simp: EtherIP_DecodeFromBytes_def slice_def split: if_splits bind_splits)

lemma progress_ERSPANII [progress_intros]: "progresses data (decodeERSPANII data)"
  unfolding decodeERSPANII_def
  by (rule progresses_decodingLayerDecoder) (auto simp: ERSPANII_DecodeFromBytes_def slice_def split: if_splits bind_splits)

lemma progress_MPLS [progress_intros]: "progresses data (decodeMPLS data)"
  unfolding decodeMPLS_def
  by (rule progresses_steps_or_panic)
     (auto simp: mpls_of_def slice_def progresses_def split: if_splits bind_splits)

lemma progress_VXLAN [progress_intros]: "progresses data (decodeVXLAN data)"
  by (auto simp: decodeVXLAN_def progresses_def last_added_append dest!: vx_dl.payload_shorter split: option.splits prod.splits)

lemma progress_IPv4 [progress_intros]: "progresses data (decodeIPv4 data)"
  by (auto simp: decodeIPv4_def progresses_def last_added_append dest!: ip4_dl.payload_shorter split: option.splits prod.splits)

lemma IPv6_hbh_shorter:
  assumes "IPv6_DecodeFromBytes ip data df = Some (ip', df', None)" and "v6_HopByHop ip' = Some h"
  shows "length (Payload h) < length data"
proof -
  have len: "40 \<le> length data" using assms(1) by (simp add: IPv6_DecodeFromBytes_def split: if_splits)
  have "v6_HopByHop (v6_header_of data) = None" by (simp add: v6_header_of_def)
  then have hbh: "IPv6_decode_hbh (v6_header_of data) df = Some (ip', df', None)"
    using assms len by (auto simp: IPv6_decode_simp IPv6_decode_tail_simp split: if_splits)
  obtain h' df1 err where h': "IPv6HopByHop_DecodeFromBytes zero_IPv6Options (Payload (v6_header_of data)) df = Some (h', df1, err)"
    using hbh_td.returns by blast
  have "err = None \<and> h' = h"
    using hbh h' assms(2)
    by (cases err) (auto simp: IPv6_decode_hbh_def Let_def IPv6_cut_simp IPv6_decode_tail_simp
        split: sum.splits option.splits if_splits bind_splits)
  then have "length (Payload h) < length (Payload (v6_header_of data))" using h' hbh_td.payload_shorter by blast
  then show ?thesis by (simp add: v6_header_of_def)
qed

lemma progress_IPv6 [progress_intros]: "progresses data (decodeIPv6 data)"
proof -
  obtain ip t err where r: "IPv6_DecodeFromBytes zero_IPv6 data False = Some (ip, t, err)" using ip6_td.returns by blast
  show ?thesis
  proof (cases err)
    case None
    then have "length (Payload ip) < length data" "\<And>h. v6_HopByHop ip = Some h \<Longrightarrow> length (Payload h) < length data"
      using r ip6_td.payload_shorter IPv6_hbh_shorter by blast+
    with r None show ?thesis
      by (auto simp: decodeIPv6_def progresses_def last_added_append split: option.splits)
  qed (use r in \<open>simp add: decodeIPv6_def progresses_def\<close>)
qed

lemma progress_HopByHop [progress_intros]: "progresses data (decodeIPv6HopByHop data)"
  by (auto simp: decodeIPv6HopByHop_def progresses_def last_added_append dest!: hbh_td.payload_shorter split: option.splits prod.splits)

lemma progress_Destination [progress_intros]: "progresses data (decodeIPv6Destination data)"
proof (cases rule: ext_base_cases [of data False, case_names bad good])
  case bad
  then show ?thesis by (simp add: decodeIPv6Destination_def IPv6Destination_DecodeFromBytes_def progresses_def)
next
  case (good ext)
  with decode_tlvs_append [of "ext_ActualLength ext" data 2 False] show ?thesis
    by (auto simp: decodeIPv6Destination_def IPv6Destination_DecodeFromBytes_def progresses_def last_added_append set_ext_base_def
        split: option.splits)
qed

lemma progress_Routing [progress_intros]: "progresses data (decodeIPv6Routing data)"
proof (cases rule: ext_base_cases [of data False, case_names bad good])
  case bad
  then show ?thesis by (simp add: decodeIPv6Routing_def steps_or_panic_def progresses_def)
next
  case (good ext)
  then show ?thesis
    by (auto simp: decodeIPv6Routing_def Let_def progresses_def last_added_append steps_or_panic_def
        split: option.splits if_splits bind_splits)
qed

lemma progress_Fragment [progress_intros]: "progresses data (decodeIPv6Fragment data)"
  by (auto simp: decodeIPv6Fragment_def steps_or_panic_def IPv6Fragment_of_def slice_def progresses_def
      split: option.splits bind_splits if_splits)

lemma progress_UDP [progress_intros]: "progresses data (decodeUDP tbl data)"
  by (auto simp: decodeUDP_def progresses_def last_added_append dest!: udp_dl.payload_shorter split: option.splits prod.splits)

lemma progress_TCP [progress_intros]: "progresses data (decodeTCP tbl st data)"
  by (auto simp: decodeTCP_def progresses_def last_added_append dest!: tcp_dl.payload_shorter split: option.splits prod.splits)

lemma progress_DNS [progress_intros]: "progresses data (decodeDNS data)"
  by (auto simp: decodeDNS_def progresses_def last_added_append split: option.splits prod.splits)

lemma progress_ARP [progress_intros]: "progresses data (decodeARP [] data)"
proof (cases "length data < 8")
  case False
  have "length (Payload a) < length data" if "ARP_DecodeFromBytes [] zero_ARP data False = Some (a, t, None)" for a t
    using that False unfolding ARP_DecodeFromBytes_def slice_cap_def append_Nil2 Let_def
    by (auto simp: bind_eq_Some_conv slice_eq_Some simp del: u16_at_in slice_in split: if_splits)
  then show ?thesis unfolding decodeARP_def by (intro progresses_decodingLayerDecoder) simp
qed (simp add: decodeARP_def ARP_DecodeFromBytes_def decodingLayerDecoder_def progresses_def)

lemma progress_PPP [progress_intros]: "progresses data (decodePPP data)"
proof (cases "ppp_of data")
  case (Some r)
  then show ?thesis by (cases r) (simp_all add: decodePPP_def steps_or_panic_def progresses_def last_added_def link_payload_shorter)
qed (simp add: decodePPP_def steps_or_panic_def progresses_def)

lemma progress_PPPoE [progress_intros]: "progresses data (decodePPPoE [] data)"
  by (cases "pppoe_of [] data") (simp_all add: decodePPPoE_def steps_or_panic_def progresses_def last_added_def link_payload_shorter)

lemma progress_FDDI [progress_intros]: "progresses data (decodeFDDI data)"
  by (cases "fddi_of data") (simp_all add: decodeFDDI_def steps_or_panic_def progresses_def last_added_def link_payload_shorter)

lemma progress_UDPLite [progress_intros]: "progresses data (decodeUDPLite data)"
  by (cases "udplite_of data") (simp_all add: decodeUDPLite_def steps_or_panic_def progresses_def last_added_def udplite_payload_shorter)

lemma progress_LLC [progress_intros]: "progresses data (decodeLLC data)"
  by (auto simp: decodeLLC_def progresses_def last_added_append dest!: llc_dl.payload_shorter split: option.splits prod.splits)

lemma progress_SNAP [progress_intros]: "progresses data (decodeSNAP data)"
  by (auto simp: decodeSNAP_def progresses_def last_added_append dest!: snap_dl.payload_shorter split: option.splits prod.splits)

lemma progress_Loopback [progress_intros]: "progresses data (decodeLoopback data)"
  by (auto simp: decodeLoopback_def progresses_def last_added_append dest!: loopback_dl.payload_shorter split: option.splits prod.splits)

lemma progress_LinuxSLL [progress_intros]: "progresses data (decodeLinuxSLL [] data)"
  by (auto simp: decodeLinuxSLL_def LinuxSLL_DecodeFromBytes_def progresses_def last_added_append slice_cap_def bind_eq_Some_conv
      split: option.splits prod.splits if_splits)

lemma progress_ICMPv4 [progress_intros]: "progresses data (decodeICMPv4 data)"
  unfolding decodeICMPv4_def by (rule progresses_decodingLayerDecoder) (auto dest: icmp_dl.payload_shorter)

lemma progress_GRE [progress_intros]: "progresses data (decodeGRE data)"
  unfolding decodeGRE_def by (rule progresses_decodingLayerDecoder) (auto dest: GRE_payload_shorter)

lemma progress_ends [progress_intros]:
  "progresses data (decodeUnknown data)" "progresses data (decodePayload data)" "progresses data (decodeFragment data)"
  by (simp_all add: decodeUnknown_def decodePayload_def decodeFragment_def progresses_def Let_def)

lemma progress_guess [progress_intros]:
  "progresses data (decodeIPv4or6 data)" "progresses data (ProtocolGuessingDecoder data)"
  by (cases "idx data 0"; simp add: decodeIPv4or6_def ProtocolGuessingDecoder_def steps_or_panic_def Let_def progress_intros)+

text \<open>The layers of 802.11 data frames hand on all their data, a QoS layer to a plain one and a plain one to LLC; \<open>dec_rank\<close> goes down
  with each such step. A value other than a layer type may stand for any of the decoding functions.\<close>

definition dec_rank :: "Decoder \<Rightarrow> nat" where
  "dec_rank d = (case d of ByLayerType t \<Rightarrow> if t \<in> {67..74} then 1 else if t \<in> {75..81} then 2 else 0 | _ \<Rightarrow> 3)"

definition descends_below :: "nat \<Rightarrow> bytes \<Rightarrow> decode_step \<Rightarrow> bool" where
  "descends_below r data s \<longleftrightarrow> (\<forall>n. snd s = NextDecoder n \<longrightarrow>
     (\<exists>l. last_added (fst s) = Some l
       \<and> (length (ly_payload l) < length data \<or> length (ly_payload l) = length data \<and> dec_rank n < r)))"

lemma descends_progresses: "progresses data s \<Longrightarrow> descends_below r data s"
  by (auto simp: progresses_def descends_below_def)

lemma descends_mono: "descends_below r data s \<Longrightarrow> r \<le> r' \<Longrightarrow> descends_below r' data s"
  by (fastforce simp: descends_below_def)

lemma adds_progresses: "progresses data s \<Longrightarrow> adds_layer s"
  by (fastforce simp: progresses_def adds_layer_def)

lemma descends_adds: "descends_below r data s \<Longrightarrow> adds_layer s"
  by (fastforce simp: descends_below_def adds_layer_def)

lemma descends_Dot11:
  "descends_below 1 data (decodeDot11Data data)" "descends_below 1 data (decodeDot11DataCFAck data)"
  "descends_below 1 data (decodeDot11DataCFPoll data)" "descends_below 1 data (decodeDot11DataCFAckPoll data)"
  "descends_below 1 data (decodeDot11DataNull data)" "descends_below 2 data (decodeDot11DataQOSData data)"
  "descends_below 2 data (decodeDot11DataQOSDataCFAck data)" "descends_below 2 data (decodeDot11DataQOSDataCFPoll data)"
  "descends_below 2 data (decodeDot11DataQOSDataCFAckPoll data)" "descends_below 2 data (decodeDot11DataQOSNull data)"
  "descends_below 2 data (decodeDot11DataQOSCFPollNoData data)" "descends_below 2 data (decodeDot11DataQOSCFAckPollNoData data)"
  by (simp_all add: descends_below_def dot11_data_defs dec_rank_def)

lemma decode_func_descends:
  "decode_func tb other t data = other t data \<or> descends_below (dec_rank (ByLayerType t)) data (decode_func tb other t data)"
proof (cases "decode_func tb other t data = other t data")
  case False
  then show ?thesis
    unfolding decode_func_def
    by (auto intro: descends_progresses progress_intros descends_Dot11 [THEN descends_mono] simp: dec_rank_def
        split: option.splits dest!: map_of_SomeD)
qed simp

lemma dec_rank_le: "dec_rank d \<le> 3"
  by (auto simp: dec_rank_def split: Decoder.splits)

lemma by_table_descends:
  "(\<exists>t. by_table table what code (\<lambda>t. decode_func tb other t data) k = other t data)
     \<or> descends_below 3 data (by_table table what code (\<lambda>t. decode_func tb other t data) k)"
proof (cases "map_of table k")
  case (Some u)
  have "(\<exists>t. decode_func tb other u data = other t data) \<or> descends_below 3 data (decode_func tb other u data)"
    using decode_func_descends [of tb other u data] descends_mono [of "dec_rank (ByLayerType u)" data _ 3] dec_rank_le by metis
  with Some show ?thesis by (simp add: by_table_def)
qed (simp add: by_table_def descends_below_def)

lemma Decode_descends:
  "(\<exists>t. Decode tb other d data = other t data) \<or> descends_below (dec_rank d) data (Decode tb other d data)"
proof (cases d)
  case (ByLayerType t)
  then show ?thesis using decode_func_descends [of tb other t data] by auto
next
  case (ByLinkType a)
  show ?thesis
  proof (cases "a \<in> set raw_links")
    case True
    then show ?thesis using ByLinkType by (auto intro: descends_progresses progress_intros)
  next
    case False
    then show ?thesis unfolding ByLinkType Decode.simps dec_rank_def by (simp only: if_False Decoder.case by_table_descends)
  qed
qed (simp_all only: Decode.simps dec_rank_def Decoder.case by_table_descends, auto intro: descends_progresses progress_intros)

lemma Decode_adds: "(\<And>t data. adds_layer (other t data)) \<Longrightarrow> adds_layer (Decode tb other d data)"
  using Decode_descends [of tb other d data] descends_adds by metis

subsection \<open>Eager and lazy packets agree\<close>

text \<open>C35. A lazy packet asked for all its layers does exactly what an eager packet of the same data does, whichever layer it
  starts with and whatever the non-empty data: it has the same layers, link, network, transport, application and error layers and
  truncation flag; it panics, with recovery skipped, where the eager packet does; and it decodes for ever if the eager packet
  does. The decoders of the layers without a theory may be any that add a layer before they hand on to another
  decoder, as the interface of the packet builder asks.\<close>

theorem lazy_decodes_like_eager:
  assumes "\<forall>t data. adds_layer (other t data)" and "data \<noteq> []"
  shows "initialDecode (Decode tb other) (new_packet data opts) dec =
       map_option (map_option (packet.truncate \<circ> fst)) (lazy_Layers (Decode tb other) (new_lazyPacket data dec opts))
     \<and> (\<forall>lp ls. lazy_Layers (Decode tb other) (new_lazyPacket data dec opts) = Some (Some (lp, ls)) \<longrightarrow> ls = pk_layers lp \<and> lz_next lp = None)"
proof -
  have "adds_layer (Decode tb other dec data)" using assms(1) by (intro Decode_adds) blast
  then have "initialDecode (Decode tb other) (new_packet data opts) dec
      = map_option (map_option packet.truncate) (all_layers (Decode tb other) (new_lazyPacket data dec opts))"
    by (rule initialDecode_lazy [OF assms(2)])
  then show ?thesis
    using all_layers_extends [of "Decode tb other" "new_lazyPacket data dec opts"]
    by (auto simp: lazy_Layers_def with_result_def option.map_comp comp_def)
qed

text \<open>The registry in which the layers without a theory have no decoder.\<close>

definition no_decoder :: "LayerType \<Rightarrow> bytes \<Rightarrow> decode_step" where
  "no_decoder t data = ([], Return (Some (Errorf ''Layer type %v has no associated decoder'' [t])))"

lemma no_decoder_adds: "adds_layer (no_decoder t data)"
  by (simp add: no_decoder_def adds_layer_def)

definition ex_tables :: decode_tables where
  "ex_tables = \<lparr>dt_tcp_ports = tcpPortLayerType, dt_udp_ports = udpPortLayerType, dt_streams = False\<rparr>"

definition lazy_opts :: DecodeOptions where
  "lazy_opts = \<lparr>Lazy = True, NoCopy = False, SkipDecodeRecovery = False, DecodeStreamsAsDatagrams = False\<rparr>"

theorem lazy_decodes_like_eager_witness:
  "initialDecode (Decode ex_tables no_decoder) (new_packet [1, 2, 3] lazy_opts) (ByLinkType 1) =
     map_option (map_option (packet.truncate \<circ> fst)) (lazy_Layers (Decode ex_tables no_decoder) (new_lazyPacket [1, 2, 3] (ByLinkType 1) lazy_opts))"
  using lazy_decodes_like_eager [of no_decoder "[1, 2, 3]" ex_tables lazy_opts "ByLinkType 1"] no_decoder_adds by blast




text \<open>On empty data the two kinds of packets differ: an eager packet runs its first decoder, which reports an error
  as a failure layer or adds an empty payload layer, while a lazy packet has no layers and no error.\<close>

lemma empty_packet_differs:
  "lazy_Layers decode (new_lazyPacket [] dec opts) = Some (Some ((new_lazyPacket [] dec opts)\<lparr>lz_next := None\<rparr>, []))
   \<and> (\<exists>p f. initialDecode (Decode tb other) (new_packet [] opts) (ByLinkType 1) = Some (Some p) \<and> failure p = Some f)
   \<and> (\<exists>p l. initialDecode (Decode tb other) (new_packet [] opts) DecodePayload = Some (Some p) \<and> pk_layers p = [l] \<and> application p = Some l)"
proof (intro conjI)
  have "decodeNextLayer decode (new_lazyPacket [] dec opts) = Some ((new_lazyPacket [] dec opts)\<lparr>lz_next := None\<rparr>)"
    by (simp add: decodeNextLayer_def new_lazyPacket_def new_packet_def packet.defs)
  then show "lazy_Layers decode (new_lazyPacket [] dec opts) = Some (Some ((new_lazyPacket [] dec opts)\<lparr>lz_next := None\<rparr>, []))"
    unfolding lazy_Layers_def
    by (subst lazy_loop.simps, simp, subst lazy_loop.simps) (simp add: with_result_def new_lazyPacket_def new_packet_def packet.defs)
  show "\<exists>p f. initialDecode (Decode tb other) (new_packet [] opts) (ByLinkType 1) = Some (Some p) \<and> failure p = Some f"
    by (simp add: initialDecode_def eager_Decode.simps raw_links_def LinkTypeMetadata_def by_table_def decode_func_def decodeEthernet_def
        Ethernet_DecodeFromBytes_def new_packet_def addFinalDecodeError_def builder_defs Let_def truncation_def apply_actions_def)
  show "\<exists>p l. initialDecode (Decode tb other) (new_packet [] opts) DecodePayload = Some (Some p) \<and> pk_layers p = [l] \<and> application p = Some l"
    by (simp add: initialDecode_def eager_Decode.simps decodePayload_def new_packet_def builder_defs Let_def apply_actions_def)
qed

end
