(* ===== verification/Tcp_Assembly.thy ===== *)
theory Tcp_Assembly
  imports Layer_TCP "HOL-Library.AList"
begin

section \<open>TCP stream reassembly (\<^verbatim>\<open>tcpassembly/assembly.go\<close>)\<close>

text \<open>
  Sequence numbers, the page cache, connections with their list of out-of-order pages, the stream pool, and the
  assembler that delivers each stream's bytes in order. The doubly linked list of pages of a connection is a list from
  its first to its last page, the page cache counts its pages, the pool's map is an association list in one of its
  possible iteration orders, and the calls on the user's streams are a log. One assembler is modelled, so locks and
  the race that the loop around \<^verbatim>\<open>getConnection\<close> handles do not occur; debug output is left out.
\<close>

subsection \<open>Sequence numbers\<close>

type_synonym Sequence = int

definition invalidSequence :: Sequence where
  "invalidSequence = -1"

definition uint32Size :: int where
  "uint32Size = 4294967296"

definition Difference :: "Sequence \<Rightarrow> Sequence \<Rightarrow> int" where
  "Difference s t =
     (if s > uint32Size - uint32Size div 4 \<and> t < uint32Size div 4 then t + uint32Size - s
      else if t > uint32Size - uint32Size div 4 \<and> s < uint32Size div 4 then t - (s + uint32Size)
      else t - s)"

text \<open>Masking with the low 32 bits is the remainder, also of a negative sum.\<close>

definition Add :: "Sequence \<Rightarrow> int \<Rightarrow> Sequence" where
  "Add s t = (s + t) mod uint32Size"

subsection \<open>Pages\<close>

record Reassembly =
  ra_Bytes :: bytes
  ra_Skip :: int
  ra_Start :: bool
  ra_End :: bool
  ra_Seen :: int

definition pageBytes :: nat where
  "pageBytes = 1900"

record page =
  pg_Reassembly :: Reassembly
  pg_seq :: Sequence

record pageCache =
  pc_free :: nat
  pc_pcSize :: nat
  pc_size :: nat
  pc_used :: int

definition pc_grow :: "pageCache \<Rightarrow> pageCache" where
  "pc_grow c = c\<lparr>pc_size := pc_size c + pc_pcSize c, pc_free := pc_free c + pc_pcSize c, pc_pcSize := pc_pcSize c * 2\<rparr>"

definition initialAllocSize :: nat where
  "initialAllocSize = 1024"

definition newPageCache :: pageCache where
  "newPageCache = pc_grow \<lparr>pc_free = 0, pc_pcSize = initialAllocSize, pc_size = 0, pc_used = 0\<rparr>"

text \<open>The clean page that \<^verbatim>\<open>next\<close> returns has no bytes, no flags and the time stamp.\<close>

definition pc_next :: "pageCache \<Rightarrow> int \<Rightarrow> (Reassembly \<times> pageCache) option" where
  "pc_next c ts =
     (let c1 = (if pc_free c = 0 then pc_grow c else c)
      in if pc_free c1 = 0 then None
         else Some (\<lparr>ra_Bytes = [], ra_Skip = 0, ra_Start = False, ra_End = False, ra_Seen = ts\<rparr>,
                    c1\<lparr>pc_free := pc_free c1 - 1, pc_used := pc_used c1 + 1\<rparr>))"

definition pc_replace :: "pageCache \<Rightarrow> pageCache" where
  "pc_replace c = c\<lparr>pc_used := pc_used c - 1, pc_free := pc_free c + 1\<rparr>"

subsection \<open>Connections and the pool\<close>

type_synonym key = "Flow \<times> Flow"

record 's connection =
  cn_key :: "key option"
  cn_pages :: int
  cn_list :: "page list"
  cn_nextSeq :: Sequence
  cn_created :: int
  cn_lastSeen :: int
  cn_stream :: "'s option"
  cn_closed :: bool

text \<open>A zeroed connection; its first time stamp is Go's zero time, before every other.\<close>

definition zero_connection :: "int \<Rightarrow> 's connection" where
  "zero_connection t0 = \<lparr>cn_key = None, cn_pages = 0, cn_list = [], cn_nextSeq = 0, cn_created = t0, cn_lastSeen = t0,
     cn_stream = None, cn_closed = False\<rparr>"

text \<open>\<^verbatim>\<open>reset\<close> leaves \<^verbatim>\<open>lastSeen\<close> alone.\<close>

definition cn_reset :: "'s connection \<Rightarrow> key \<Rightarrow> 's option \<Rightarrow> int \<Rightarrow> 's connection" where
  "cn_reset c k s ts = c\<lparr>cn_key := Some k, cn_pages := 0, cn_list := [], cn_nextSeq := invalidSequence, cn_created := ts,
     cn_stream := s, cn_closed := False\<rparr>"

record 's StreamPool =
  sp_conns :: "(key \<times> 's connection) list"
  sp_users :: int
  sp_factory :: "Flow \<Rightarrow> Flow \<Rightarrow> 's option"
  sp_free :: "'s connection list"
  sp_nextAlloc :: nat
  sp_zeroTime :: int

datatype 's event =
    New key
  | Reassembled "'s" "Reassembly list"
  | ReassemblyComplete "'s"

record 's Assembler =
  MaxBufferedPagesTotal :: int
  MaxBufferedPagesPerConnection :: int
  as_ret :: "Reassembly list"
  as_pc :: pageCache
  as_pool :: "'s StreamPool"
  as_log :: "'s event list"

definition sp_grow :: "'s StreamPool \<Rightarrow> 's StreamPool" where
  "sp_grow p = p\<lparr>sp_free := sp_free p @ replicate (sp_nextAlloc p) (zero_connection (sp_zeroTime p)), sp_nextAlloc := sp_nextAlloc p * 2\<rparr>"

definition NewStreamPool :: "(Flow \<Rightarrow> Flow \<Rightarrow> 's option) \<Rightarrow> int \<Rightarrow> 's StreamPool" where
  "NewStreamPool factory t0 = \<lparr>sp_conns = [], sp_users = 0, sp_factory = factory, sp_free = [], sp_nextAlloc = initialAllocSize, sp_zeroTime = t0\<rparr>"

definition NewAssembler :: "'s StreamPool \<Rightarrow> 's Assembler" where
  "NewAssembler pool =
     \<lparr>MaxBufferedPagesTotal = 0, MaxBufferedPagesPerConnection = 0, as_ret = [], as_pc = newPageCache,
      as_pool = pool\<lparr>sp_users := sp_users pool + 1\<rparr>, as_log = []\<rparr>"

definition newConnection :: "'s StreamPool \<Rightarrow> key \<Rightarrow> 's option \<Rightarrow> int \<Rightarrow> ('s connection \<times> 's StreamPool) option" where
  "newConnection p k s ts =
     (let p1 = (if sp_free p = [] then sp_grow p else p)
      in if sp_free p1 = [] then None
         else Some (cn_reset (last (sp_free p1)) k s ts, p1\<lparr>sp_free := butlast (sp_free p1)\<rparr>))"

text \<open>\<^verbatim>\<open>getConnection\<close>; a new stream is recorded in the log.\<close>

definition getConnection :: "'s Assembler \<Rightarrow> key \<Rightarrow> bool \<Rightarrow> int \<Rightarrow> ('s connection option \<times> 's Assembler) option" where
  "getConnection a k end ts =
     (let conn = map_of (sp_conns (as_pool a)) k
      in if end \<or> conn \<noteq> None then Some (conn, a)
         else do {
           (c, p) \<leftarrow> newConnection (as_pool a) k (sp_factory (as_pool a) (fst k) (snd k)) ts;
           Some (Some c, a\<lparr>as_pool := p\<lparr>sp_conns := AList.update k c (sp_conns p)\<rparr>, as_log := as_log a @ [New k]\<rparr>) })"

definition sp_remove :: "'s StreamPool \<Rightarrow> 's connection \<Rightarrow> 's StreamPool" where
  "sp_remove p conn = p\<lparr>sp_conns := (case cn_key conn of None \<Rightarrow> sp_conns p | Some k \<Rightarrow> AList.delete k (sp_conns p)),
                        sp_free := sp_free p @ [conn]\<rparr>"

subsection \<open>Moving bytes\<close>

definition byteSpan :: "Sequence \<Rightarrow> Sequence \<Rightarrow> bytes \<Rightarrow> bytes \<times> Sequence" where
  "byteSpan expected received bytes =
     (if expected = invalidSequence then (bytes, Add received (int (length bytes)))
      else let span = Difference received expected
           in if span \<le> 0 then (bytes, Add received (int (length bytes)))
              else if int (length bytes) < span then ([], expected)
              else (drop (nat span) bytes, Add expected (int (length bytes) - span)))"

text \<open>\<^verbatim>\<open>addNextFromConn\<close>; without a first page it dereferences nil.\<close>

definition addNextFromConn :: "'s Assembler \<Rightarrow> 's connection \<Rightarrow> ('s Assembler \<times> 's connection) option" where
  "addNextFromConn a conn =
     (case cn_list conn of
        [] \<Rightarrow> None
      | p # ps \<Rightarrow>
          let r = pg_Reassembly p;
              diff = Difference (cn_nextSeq conn) (pg_seq p);
              r1 = (if cn_nextSeq conn = invalidSequence then r\<lparr>ra_Skip := -1\<rparr>
                    else if diff > 0 then r\<lparr>ra_Skip := diff\<rparr> else r);
              (bytes, nextSeq) = byteSpan (cn_nextSeq conn) (pg_seq p) (ra_Bytes r1);
              r2 = r1\<lparr>ra_Bytes := bytes\<rparr>
          in Some (a\<lparr>as_ret := as_ret a @ [r2], as_pc := pc_replace (as_pc a)\<rparr>,
                   conn\<lparr>cn_nextSeq := nextSeq, cn_list := ps, cn_pages := cn_pages conn - 1\<rparr>))"

function addContiguous :: "'s Assembler \<Rightarrow> 's connection \<Rightarrow> 's Assembler \<times> 's connection" where
  "addContiguous a conn =
     (case cn_list conn of
        [] \<Rightarrow> (a, conn)
      | p # ps \<Rightarrow>
          if Difference (cn_nextSeq conn) (pg_seq p) \<le> 0
          then (case addNextFromConn a conn of None \<Rightarrow> (a, conn) | Some (a1, conn1) \<Rightarrow> addContiguous a1 conn1)
          else (a, conn))"
  by pat_completeness auto
termination
  by (relation "measure (\<lambda>(a, conn). length (cn_list conn))")
     (auto simp: addNextFromConn_def Let_def split: prod.splits)

declare addContiguous.simps [simp del]

definition closeConnection :: "'s Assembler \<Rightarrow> 's connection \<Rightarrow> ('s Assembler \<times> 's connection) option" where
  "closeConnection a conn = do {
     s \<leftarrow> cn_stream conn;
     let conn1 = conn\<lparr>cn_closed := True\<rparr>;
     Some (a\<lparr>as_log := as_log a @ [ReassemblyComplete s], as_pool := sp_remove (as_pool a) conn1,
             as_pc := (pc_replace ^^ length (cn_list conn)) (as_pc a)\<rparr>, conn1)
   }"

text \<open>A nil stream and an empty slice of results panic.\<close>

definition sendToConnection :: "'s Assembler \<Rightarrow> 's connection \<Rightarrow> ('s Assembler \<times> 's connection) option" where
  "sendToConnection a conn =
     (let (a1, conn1) = addContiguous a conn
      in do {
        s \<leftarrow> cn_stream conn1;
        let a2 = a1\<lparr>as_log := as_log a1 @ [Reassembled s (as_ret a1)]\<rparr>;
        if as_ret a2 = [] then None
        else if ra_End (last (as_ret a2)) then closeConnection a2 conn1 else Some (a2, conn1) })"

definition skipFlush :: "'s Assembler \<Rightarrow> 's connection \<Rightarrow> ('s Assembler \<times> 's connection) option" where
  "skipFlush a conn =
     (if cn_list conn = [] then closeConnection a conn
      else do {
        (a1, conn1) \<leftarrow> addNextFromConn (a\<lparr>as_ret := []\<rparr>) conn;
        let (a2, conn2) = addContiguous a1 conn1;
        sendToConnection a2 conn2 })"

subsection \<open>Storing out-of-order packets\<close>

text \<open>The loop of \<^verbatim>\<open>pagesFromTCP\<close>: one page for each 1900 bytes, one page for no bytes; the last page carries the end
  flag.\<close>

function pages_loop :: "pageCache \<Rightarrow> Reassembly \<Rightarrow> Sequence \<Rightarrow> bytes \<Rightarrow> bool \<Rightarrow> int \<Rightarrow> (page list \<times> pageCache) option" where
  "pages_loop pc current sq bytes fin ts =
     (let len = min (length bytes) pageBytes;
          r = current\<lparr>ra_Bytes := take len bytes\<rparr>;
          rest = drop len bytes
      in if rest = [] then Some ([\<lparr>pg_Reassembly = r\<lparr>ra_End := fin\<rparr>, pg_seq = sq\<rparr>], pc)
         else do {
           (nxt, pc1) \<leftarrow> pc_next pc ts;
           (ps, pc2) \<leftarrow> pages_loop pc1 nxt (Add sq (int len)) rest fin ts;
           Some (\<lparr>pg_Reassembly = r, pg_seq = sq\<rparr> # ps, pc2) })"
  by pat_completeness auto
termination
  by (relation "measure (\<lambda>(pc, current, sq, bytes, fin, ts). length bytes)") (auto simp: pageBytes_def)

declare pages_loop.simps [simp del]

definition pagesFromTCP :: "pageCache \<Rightarrow> TCP \<Rightarrow> int \<Rightarrow> (page list \<times> pageCache) option" where
  "pagesFromTCP pc t ts = do {
     (current, pc1) \<leftarrow> pc_next pc ts;
     pages_loop pc1 current (uint (tcp_Seq t)) (Payload t) (tcp_RST t \<or> tcp_FIN t) ts
   }"

text \<open>\<^verbatim>\<open>traverseConn\<close> walks from the last page down past the pages whose sequence number comes after: the pages
  before and from the place found. \<^verbatim>\<open>pushBetween\<close> links the new pages in there.\<close>

definition traverseConn :: "'s connection \<Rightarrow> Sequence \<Rightarrow> page list \<times> page list" where
  "traverseConn c sq =
     (let after = rev (takeWhile (\<lambda>p. Difference (pg_seq p) sq < 0) (rev (cn_list c)))
      in (take (length (cn_list c) - length after) (cn_list c), after))"

definition pushBetween :: "'s connection \<Rightarrow> page list \<Rightarrow> page list \<Rightarrow> page list \<Rightarrow> 's connection" where
  "pushBetween c prev next new = c\<lparr>cn_list := prev @ new @ next\<rparr>"

definition insertIntoConn :: "'s Assembler \<Rightarrow> TCP \<Rightarrow> 's connection \<Rightarrow> int \<Rightarrow> ('s Assembler \<times> 's connection) option" where
  "insertIntoConn a t conn ts =
     (if cn_list conn \<noteq> [] \<and> pg_seq (hd (cn_list conn)) = cn_nextSeq conn then None
      else do {
        (new, pc1) \<leftarrow> pagesFromTCP (as_pc a) t ts;
        let a1 = a\<lparr>as_pc := pc1\<rparr>;
        let (prev, current) = traverseConn conn (uint (tcp_Seq t));
        let conn1 = pushBetween conn prev current new;
        let conn2 = conn1\<lparr>cn_pages := cn_pages conn1 + int (length new)\<rparr>;
        if (MaxBufferedPagesPerConnection a > 0 \<and> cn_pages conn2 \<ge> MaxBufferedPagesPerConnection a) \<or>
           (MaxBufferedPagesTotal a > 0 \<and> pc_used pc1 \<ge> MaxBufferedPagesTotal a)
        then addNextFromConn a1 conn2 else Some (a1, conn2) })"

subsection \<open>Assemble\<close>

definition save_conn :: "'s Assembler \<times> 's connection \<Rightarrow> key \<Rightarrow> 's Assembler" where
  "save_conn = (\<lambda>(a, conn) k. if cn_closed conn then a
     else a\<lparr>as_pool := (as_pool a)\<lparr>sp_conns := AList.update k conn (sp_conns (as_pool a))\<rparr>\<rparr>)"

text \<open>The body of \<^verbatim>\<open>AssembleWithTimestamp\<close> once it holds the connection.\<close>

definition assemble_conn :: "'s Assembler \<Rightarrow> 's connection \<Rightarrow> TCP \<Rightarrow> int \<Rightarrow> ('s Assembler \<times> 's connection) option" where
  "assemble_conn a conn0 t ts =
     (let conn = (if cn_lastSeen conn0 < ts then conn0\<lparr>cn_lastSeen := ts\<rparr> else conn0);
          sq = uint (tcp_Seq t)
      in do {
        (a1, conn1) \<leftarrow>
          (if cn_nextSeq conn = invalidSequence
           then (if tcp_SYN t
                 then Some (a\<lparr>as_ret := as_ret a @ [\<lparr>ra_Bytes = Payload t, ra_Skip = 0, ra_Start = True, ra_End = False, ra_Seen = ts\<rparr>]\<rparr>,
                            conn\<lparr>cn_nextSeq := Add sq (int (length (Payload t)) + 1)\<rparr>)
                 else insertIntoConn a t conn ts)
           else if Difference (cn_nextSeq conn) sq > 0 then insertIntoConn a t conn ts
           else let (bytes, nextSeq) = byteSpan (cn_nextSeq conn) sq (Payload t)
                in Some (a\<lparr>as_ret := as_ret a @ [\<lparr>ra_Bytes = bytes, ra_Skip = 0, ra_Start = False,
                                                 ra_End = (tcp_RST t \<or> tcp_FIN t), ra_Seen = ts\<rparr>]\<rparr>,
                         conn\<lparr>cn_nextSeq := nextSeq\<rparr>));
        if as_ret a1 \<noteq> [] then sendToConnection a1 conn1 else Some (a1, conn1) })"

text \<open>\<^verbatim>\<open>None\<close> stands for a panic, and for the loop around \<^verbatim>\<open>getConnection\<close> spinning on a closed connection.\<close>

definition AssembleWithTimestamp :: "'s Assembler \<Rightarrow> Flow \<Rightarrow> TCP \<Rightarrow> int \<Rightarrow> 's Assembler option" where
  "AssembleWithTimestamp a netFlow t ts =
     (if \<not> tcp_SYN t \<and> \<not> tcp_FIN t \<and> \<not> tcp_RST t \<and> Payload t = [] then Some a
      else do {
        tf \<leftarrow> TCP_TransportFlow t;
        let k = (netFlow, tf);
        (c, a1) \<leftarrow> getConnection (a\<lparr>as_ret := []\<rparr>) k (\<not> tcp_SYN t \<and> Payload t = []) ts;
        case c of
          None \<Rightarrow> Some a1
        | Some conn \<Rightarrow>
            if cn_closed conn then None
            else do { r \<leftarrow> assemble_conn a1 conn t ts; Some (save_conn r k) } })"

subsection \<open>Flushing\<close>

text \<open>\<^verbatim>\<open>for conn.first != nil && conn.first.Seen.Before(opt.T)\<close>: each round removes at least one page.\<close>

function flush_loop :: "'s Assembler \<Rightarrow> 's connection \<Rightarrow> int \<Rightarrow> bool \<Rightarrow> ('s Assembler \<times> 's connection \<times> bool) option" where
  "flush_loop a conn T flushed =
     (case cn_list conn of
        [] \<Rightarrow> Some (a, conn, flushed)
      | p # ps \<Rightarrow>
          if ra_Seen (pg_Reassembly p) < T then do {
            (a1, conn1) \<leftarrow> skipFlush a conn;
            if cn_closed conn1 then Some (a1, conn1, True)
            else if length (cn_list conn1) < length (cn_list conn) then flush_loop a1 conn1 T True else None }
          else Some (a, conn, flushed))"
  by pat_completeness auto
termination
  by (relation "measure (\<lambda>(a, conn, T, flushed). length (cn_list conn))") auto

declare flush_loop.simps [simp del]

record FlushOptions =
  fo_T :: int
  fo_CloseAll :: bool

definition flush_conn :: "'s Assembler \<Rightarrow> 's connection \<Rightarrow> FlushOptions \<Rightarrow> ('s Assembler \<times> 's connection \<times> nat \<times> nat) option" where
  "flush_conn a conn opt =
     (if cn_closed conn then Some (a, conn, 0, 0)
      else do {
        (a1, conn1, flushed) \<leftarrow> flush_loop a conn (fo_T opt) False;
        let closes = (if cn_closed conn1 then 1 else 0);
        if fo_CloseAll opt \<and> \<not> cn_closed conn1 \<and> cn_list conn1 = [] \<and> cn_lastSeen conn1 < fo_T opt
        then do { (a2, conn2) \<leftarrow> closeConnection a1 conn1; Some (a2, conn2, 1, closes + 1) }
        else Some (a1, conn1, if flushed then 1 else 0, closes) })"

fun flush_conns :: "'s Assembler \<Rightarrow> key list \<Rightarrow> FlushOptions \<Rightarrow> ('s Assembler \<times> nat \<times> nat) option" where
  "flush_conns a [] opt = Some (a, 0, 0)"
| "flush_conns a (k # ks) opt =
     (case map_of (sp_conns (as_pool a)) k of
        None \<Rightarrow> flush_conns a ks opt
      | Some conn \<Rightarrow> do {
          (a1, conn1, f, c) \<leftarrow> flush_conn a conn opt;
          (a2, fs, cs) \<leftarrow> flush_conns (save_conn (a1, conn1) k) ks opt;
          Some (a2, f + fs, c + cs) })"

definition FlushWithOptions :: "'s Assembler \<Rightarrow> FlushOptions \<Rightarrow> ('s Assembler \<times> nat \<times> nat) option" where
  "FlushWithOptions a opt = flush_conns a (map fst (sp_conns (as_pool a))) opt"

definition FlushOlderThan :: "'s Assembler \<Rightarrow> int \<Rightarrow> ('s Assembler \<times> nat \<times> nat) option" where
  "FlushOlderThan a t = FlushWithOptions a \<lparr>fo_T = t, fo_CloseAll = True\<rparr>"

text \<open>\<^verbatim>\<open>for !conn.closed { a.skipFlush(conn) }\<close>\<close>

function skip_all :: "'s Assembler \<Rightarrow> 's connection \<Rightarrow> ('s Assembler \<times> 's connection) option" where
  "skip_all a conn =
     (if cn_closed conn then Some (a, conn)
      else do {
        (a1, conn1) \<leftarrow> skipFlush a conn;
        if cn_closed conn1 then Some (a1, conn1)
        else if length (cn_list conn1) < length (cn_list conn) then skip_all a1 conn1 else None })"
  by pat_completeness auto
termination
  by (relation "measure (\<lambda>(a, conn). length (cn_list conn))") auto

declare skip_all.simps [simp del]

fun flush_all_conns :: "'s Assembler \<Rightarrow> key list \<Rightarrow> 's Assembler option" where
  "flush_all_conns a [] = Some a"
| "flush_all_conns a (k # ks) =
     (case map_of (sp_conns (as_pool a)) k of
        None \<Rightarrow> flush_all_conns a ks
      | Some conn \<Rightarrow> do { r \<leftarrow> skip_all a conn; flush_all_conns (save_conn r k) ks })"

definition FlushAll :: "'s Assembler \<Rightarrow> ('s Assembler \<times> nat) option" where
  "FlushAll a = do {
     a1 \<leftarrow> flush_all_conns a (map fst (sp_conns (as_pool a)));
     Some (a1, length (sp_conns (as_pool a)))
   }"

end
