(* ===== verification/Tcp_Stream.thy ===== *)
theory Tcp_Stream
  imports Tcp_Assembly
begin

section \<open>A reassembled stream is the stream that was sent\<close>

text \<open>
  The functional correctness of \<^verbatim>\<open>tcpassembly\<close> on one connection: packets that are pieces of one byte stream, in any
  order, repeated and overlapping, with sequence numbers that may wrap around, are delivered as a growing prefix of that
  stream, and completely once every byte and the SYN have arrived.
\<close>

subsection \<open>Sequence arithmetic\<close>

lemma Add_range: "0 \<le> Add s t" "Add s t < uint32Size"
  by (simp_all add: Add_def uint32Size_def)

lemma Add_Add [simp]: "Add (Add s x) y = Add s (x + y)"
  by (simp add: Add_def mod_add_left_eq add.assoc)

lemma Difference_Add:
  assumes "0 \<le> s" "s < uint32Size" "\<bar>d\<bar> < uint32Size div 4"
  shows "Difference s (Add s d) = d"
proof -
  consider "0 \<le> s + d" "s + d < uint32Size" | "s + d < 0" | "uint32Size \<le> s + d" by linarith
  then show ?thesis
  proof cases
    case 1
    then have "Add s d = s + d" by (simp add: Add_def)
    with assms 1 show ?thesis by (auto simp: Difference_def uint32Size_def)
  next
    case 2
    have "Add s d = (s + d + uint32Size) mod uint32Size" by (simp add: Add_def)
    also have "\<dots> = s + d + uint32Size" using assms 2 by (intro mod_pos_pos_trivial) (auto simp: uint32Size_def)
    finally show ?thesis using assms 2 by (auto simp: Difference_def uint32Size_def)
  next
    case 3
    have "Add s d = (s + d - uint32Size + uint32Size) mod uint32Size" by (simp add: Add_def)
    also have "\<dots> = (s + d - uint32Size) mod uint32Size" by (rule mod_add_self2)
    also have "\<dots> = s + d - uint32Size" using assms 3 by (intro mod_pos_pos_trivial) (auto simp: uint32Size_def)
    finally show ?thesis using assms 3 by (auto simp: Difference_def uint32Size_def)
  qed
qed

text \<open>C4. Comparison of sequence numbers recovers every distance below a quarter of the sequence space, across the
  wrap-around, and no larger one: at exactly a quarter it can be wrong in sign.\<close>

theorem Difference_window:
  "(0 \<le> s \<and> s < uint32Size \<and> \<bar>d\<bar> < uint32Size div 4 \<longrightarrow> Difference s (Add s d) = d)
   \<and> Difference (uint32Size - uint32Size div 4) (Add (uint32Size - uint32Size div 4) (uint32Size div 4)) < 0"
proof (intro conjI impI)
  show "Difference s (Add s d) = d" if "0 \<le> s \<and> s < uint32Size \<and> \<bar>d\<bar> < uint32Size div 4" using that Difference_Add by blast
  show "Difference (uint32Size - uint32Size div 4) (Add (uint32Size - uint32Size div 4) (uint32Size div 4)) < 0"
    by (simp add: Difference_def Add_def uint32Size_def)
qed

theorem Difference_window_witness:
  "Difference 4294967290 (Add 4294967290 10) = 10"
  using Difference_window [of 4294967290 10] by (simp add: uint32Size_def)

text \<open>The sequence number of the \<open>i\<close>-th byte after a SYN with number \<open>isn\<close>.\<close>

definition sq_of :: "int \<Rightarrow> int \<Rightarrow> Sequence" where
  "sq_of isn i = Add isn (1 + i)"

lemma Add_sq_of [simp]: "Add (sq_of isn i) k = sq_of isn (i + k)"
  by (simp add: sq_of_def add.assoc)

lemma sq_of_valid [simp]: "sq_of isn i \<noteq> invalidSequence" "0 \<le> sq_of isn i" "sq_of isn i < uint32Size"
  using Add_range [of isn "1 + i"] by (simp_all add: sq_of_def invalidSequence_def)

lemma Difference_sq_of: "\<bar>j - i\<bar> < uint32Size div 4 \<Longrightarrow> Difference (sq_of isn i) (sq_of isn j) = j - i"
  using Difference_Add [of "sq_of isn i" "j - i"] by simp

lemma sq_of_inj: "sq_of isn i = sq_of isn j \<Longrightarrow> \<bar>j - i\<bar> < uint32Size div 4 \<Longrightarrow> i = j"
  using Difference_sq_of [of j i isn] Difference_sq_of [of i i isn] by (simp add: uint32Size_def)

lemma byteSpan_sq_of:
  assumes "bs = take (length bs) (drop i S)" and "i + length bs \<le> length S" and "i \<le> n" and "n \<le> length S"
    and "int (length S) < uint32Size div 4"
  defines "m \<equiv> max n (i + length bs)"
  shows "byteSpan (sq_of isn (int n)) (sq_of isn (int i)) bs = (take (m - n) (drop n S), sq_of isn (int m))"
proof -
  have d: "Difference (sq_of isn (int i)) (sq_of isn (int n)) = int n - int i" using assms by (intro Difference_sq_of) auto
  consider "n = i" | "i < n" "i + length bs < n" | "i < n" "n \<le> i + length bs" using assms(3) by linarith
  then show ?thesis
  proof cases
    case 1
    with assms(1) d show ?thesis by (simp add: byteSpan_def m_def)
  next
    case 2
    with d show ?thesis by (simp add: byteSpan_def m_def)
  next
    case 3
    have "drop (n - i) bs = take (m - n) (drop n S)"
      using assms(1) 3 by (metis (no_types, lifting) add.commute diff_diff_left drop_drop drop_take le_add_diff_inverse2 less_imp_le max.absorb2 m_def
          add_diff_cancel_left' diff_diff_cancel)
    with 3 d show ?thesis by (simp add: byteSpan_def m_def nat_diff_distrib' add.commute)
  qed
qed

subsection \<open>Pages of a stream\<close>

text \<open>\<open>page_at S isn p i\<close>: the page holds the bytes of the stream \<open>S\<close> from position \<open>i\<close> on.\<close>

definition page_at :: "bytes \<Rightarrow> int \<Rightarrow> page \<Rightarrow> nat \<Rightarrow> bool" where
  "page_at S isn p i \<longleftrightarrow> pg_seq p = sq_of isn (int i) \<and> i + length (ra_Bytes (pg_Reassembly p)) \<le> length S
     \<and> ra_Bytes (pg_Reassembly p) = take (length (ra_Bytes (pg_Reassembly p))) (drop i S)
     \<and> ra_Skip (pg_Reassembly p) = 0 \<and> \<not> ra_End (pg_Reassembly p)"

definition stream_ok :: "bytes \<Rightarrow> bool" where
  "stream_ok S \<longleftrightarrow> int (length S) + 1 < uint32Size div 4"

abbreviation page_len :: "page \<Rightarrow> nat" where
  "page_len p \<equiv> length (ra_Bytes (pg_Reassembly p))"

text \<open>The pages are kept with their positions \<open>is\<close>. A page may come before one with a smaller position only if the pages
  before it reach it: then it is ready whenever they are.\<close>

fun chained :: "nat \<Rightarrow> nat list \<Rightarrow> page list \<Rightarrow> bool" where
  "chained n [] [] \<longleftrightarrow> True"
| "chained n (i # is) (p # ps) \<longleftrightarrow> ((\<forall>j \<in> set is. i \<le> j) \<or> i \<le> n) \<and> chained (max n (i + page_len p)) is ps"
| "chained n _ _ \<longleftrightarrow> False"

definition pages_of :: "bytes \<Rightarrow> int \<Rightarrow> nat \<Rightarrow> nat list \<Rightarrow> page list \<Rightarrow> bool" where
  "pages_of S isn n is ps \<longleftrightarrow> list_all2 (\<lambda>i p. page_at S isn p i) is ps \<and> chained n is ps"

text \<open>The positions of the bytes that the pages hold.\<close>

definition held :: "nat list \<Rightarrow> page list \<Rightarrow> nat set" where
  "held is ps = (\<Union>(i, p) \<in> set (zip is ps). {i ..< i + page_len p})"

lemma held_Cons [simp]: "held (i # is) (p # ps) = {i ..< i + page_len p} \<union> held is ps"
  by (simp add: held_def)

lemma held_Nil [simp]: "held [] ps = {}"
  by (simp add: held_def)

text \<open>Delivered pieces carry the next bytes of the stream, skip nothing and do not end it.\<close>

definition pieces :: "bytes \<Rightarrow> nat \<Rightarrow> nat \<Rightarrow> Reassembly list \<Rightarrow> bool" where
  "pieces S n m rs \<longleftrightarrow> n \<le> m \<and> m \<le> length S \<and> concat (map ra_Bytes rs) = take (m - n) (drop n S)
     \<and> (\<forall>r \<in> set rs. ra_Skip r = 0 \<and> \<not> ra_End r)"

lemma pieces_append: "pieces S n m rs \<Longrightarrow> pieces S m k qs \<Longrightarrow> pieces S n k (rs @ qs)"
proof -
  assume a: "pieces S n m rs" "pieces S m k qs"
  then have le: "n \<le> m" "m \<le> k" "k \<le> length S" by (simp_all add: pieces_def)
  have "take (k - n) (drop n S) = take (m - n) (drop n S) @ take (k - m) (drop m S)"
    using le take_add [of "m - n" "k - m" "drop n S"] by simp
  with a le show ?thesis by (auto simp: pieces_def)
qed

lemma addNext_stream:
  assumes "stream_ok S" "cn_nextSeq conn = sq_of isn (int n)" "n \<le> length S" "cn_list conn = p # ps" "page_at S isn p i" "i \<le> n"
  defines "m \<equiv> max n (i + page_len p)"
  obtains r pc where "addNextFromConn a conn = Some (a\<lparr>as_ret := as_ret a @ [r], as_pc := pc\<rparr>,
      conn\<lparr>cn_nextSeq := sq_of isn (int m), cn_list := ps, cn_pages := cn_pages conn - 1\<rparr>)"
    and "pieces S n m [r]" and "pc = pc_replace (as_pc a)"
proof -
  have len: "int (length S) < uint32Size div 4" using assms(1) by (simp add: stream_ok_def)
  have p: "pg_seq p = sq_of isn (int i)" "i + page_len p \<le> length S" "ra_Bytes (pg_Reassembly p) = take (page_len p) (drop i S)"
    "ra_Skip (pg_Reassembly p) = 0" "\<not> ra_End (pg_Reassembly p)" using assms(5) by (simp_all add: page_at_def)
  have d: "Difference (sq_of isn (int n)) (pg_seq p) = int i - int n" unfolding p(1)
    using len p(2) assms(3,6) by (intro Difference_sq_of) auto
  have b: "byteSpan (sq_of isn (int n)) (pg_seq p) (ra_Bytes (pg_Reassembly p)) = (take (m - n) (drop n S), sq_of isn (int m))"
    unfolding p(1) m_def by (rule byteSpan_sq_of [OF p(3,2) assms(6,3) len])
  have "m \<le> length S" using p(2) assms(3) by (simp add: m_def)
  then have "pieces S n m [(pg_Reassembly p)\<lparr>ra_Bytes := take (m - n) (drop n S)\<rparr>]" using p(4,5) by (simp add: pieces_def m_def)
  moreover have "addNextFromConn a conn = Some (a\<lparr>as_ret := as_ret a @ [(pg_Reassembly p)\<lparr>ra_Bytes := take (m - n) (drop n S)\<rparr>],
      as_pc := pc_replace (as_pc a)\<rparr>, conn\<lparr>cn_nextSeq := sq_of isn (int m), cn_list := ps, cn_pages := cn_pages conn - 1\<rparr>)"
    using assms(2,4,6) b d by (simp add: addNextFromConn_def Let_def)
  ultimately show thesis using that by blast
qed

lemma addContiguous_stream:
  assumes "stream_ok S" "cn_nextSeq conn = sq_of isn (int n)" "n \<le> length S" "pages_of S isn n is (cn_list conn)" "0 < pc_pcSize (as_pc a)"
  shows "\<exists>m rs pc js ps k. addContiguous a conn = (a\<lparr>as_ret := as_ret a @ rs, as_pc := pc\<rparr>,
        conn\<lparr>cn_nextSeq := sq_of isn (int m), cn_list := ps, cn_pages := k\<rparr>)
      \<and> pieces S n m rs \<and> pages_of S isn m js ps \<and> (\<forall>j \<in> set js. m < j) \<and> 0 < pc_pcSize pc
      \<and> {..<n} \<union> held is (cn_list conn) \<subseteq> {..<m} \<union> held js ps"
  using assms
proof (induction a conn arbitrary: n "is" rule: addContiguous.induct)
  case (1 a conn)
  note len = \<open>stream_ok S\<close>
  show ?case
  proof (cases "cn_list conn")
    case Nil
    then have "is = []" using 1(5) by (simp add: pages_of_def)
    moreover have "addContiguous a conn = (a, conn)" by (simp add: addContiguous.simps Nil)
    moreover have "conn = conn\<lparr>cn_nextSeq := sq_of isn (int n), cn_list := [], cn_pages := cn_pages conn\<rparr>" using Nil 1(3) by simp
    ultimately show ?thesis
      using 1(4,6) Nil by (intro exI [of _ n] exI [of _ "[]"] exI [of _ "as_pc a"] exI [of _ "cn_pages conn"]) (simp add: pieces_def pages_of_def)
  next
    case (Cons p ps)
    then obtain i js where i: "is = i # js" "page_at S isn p i" "list_all2 (\<lambda>i p. page_at S isn p i) js ps"
        "(\<forall>j \<in> set js. i \<le> j) \<or> i \<le> n" "chained (max n (i + page_len p)) js ps"
      using 1(5) by (cases "is") (auto simp: pages_of_def)
    have d: "Difference (cn_nextSeq conn) (pg_seq p) = int i - int n"
      using i(2) 1(3,4) len by (auto simp: page_at_def stream_ok_def intro!: Difference_sq_of)
    show ?thesis
    proof (cases "i \<le> n")
      case True
      let ?m = "max n (i + page_len p)"
      obtain r pc where r: "addNextFromConn a conn = Some (a\<lparr>as_ret := as_ret a @ [r], as_pc := pc\<rparr>,
          conn\<lparr>cn_nextSeq := sq_of isn (int ?m), cn_list := ps, cn_pages := cn_pages conn - 1\<rparr>)"
        "pieces S n ?m [r]" "pc = pc_replace (as_pc a)"
        using addNext_stream [OF len 1(3,4) Cons i(2) True, of a thesis] by blast
      let ?a = "a\<lparr>as_ret := as_ret a @ [r], as_pc := pc\<rparr>"
      let ?c = "conn\<lparr>cn_nextSeq := sq_of isn (int ?m), cn_list := ps, cn_pages := cn_pages conn - 1\<rparr>"
      have step: "addContiguous a conn = addContiguous ?a ?c" using d True r(1) Cons by (subst addContiguous.simps) simp
      have "pages_of S isn ?m js (cn_list ?c)" using i(3,5) by (simp add: pages_of_def)
      moreover have "?m \<le> length S" "0 < pc_pcSize pc" using r(2,3) 1(6) by (simp_all add: pieces_def pc_replace_def)
      ultimately obtain m rs pc2 ks qs k where
          res: "addContiguous ?a ?c = (?a\<lparr>as_ret := as_ret ?a @ rs, as_pc := pc2\<rparr>,
             ?c\<lparr>cn_nextSeq := sq_of isn (int m), cn_list := qs, cn_pages := k\<rparr>)"
          and ok: "pieces S ?m m rs" "pages_of S isn m ks qs" "\<forall>j \<in> set ks. m < j" "0 < pc_pcSize pc2"
             "{..<?m} \<union> held js ps \<subseteq> {..<m} \<union> held ks qs"
        using 1(1) [OF Cons _ r(1) refl len, of ?m js] d True by auto
      have "{..<n} \<union> held is (cn_list conn) \<subseteq> {..<?m} \<union> held js ps" by (auto simp: i(1) Cons)
      then have "{..<n} \<union> held is (cn_list conn) \<subseteq> {..<m} \<union> held ks qs" using ok(5) by (rule order_trans)
      with step res ok pieces_append [OF r(2) ok(1)] show ?thesis
        by (intro exI [of _ m] exI [of _ "r # rs"] exI [of _ pc2] exI [of _ ks] exI [of _ qs] exI [of _ k]) simp
    next
      case False
      then have "addContiguous a conn = (a, conn)" using d Cons by (subst addContiguous.simps) simp
      moreover have "conn = conn\<lparr>cn_nextSeq := sq_of isn (int n), cn_list := p # ps, cn_pages := cn_pages conn\<rparr>" using Cons 1(3) by simp
      moreover have "\<forall>j \<in> set is. n < j" using False i(1,4) by auto
      ultimately show ?thesis using 1(4-6) Cons
        by (intro exI [of _ n] exI [of _ "[]"] exI [of _ "as_pc a"] exI [of _ "is"] exI [of _ "p # ps"] exI [of _ "cn_pages conn"]) (simp add: pieces_def)
    qed
  qed
qed

subsection \<open>Storing a segment\<close>

fun contig :: "nat \<Rightarrow> nat list \<Rightarrow> page list \<Rightarrow> bool" where
  "contig o' [] [] \<longleftrightarrow> True"
| "contig o' (j # js) (p # ps) \<longleftrightarrow> j = o' \<and> contig (o' + page_len p) js ps"
| "contig o' _ _ \<longleftrightarrow> False"

lemma contig_ge: "contig k js N \<Longrightarrow> j \<in> set js \<Longrightarrow> k \<le> j"
proof (induction k js N rule: contig.induct)
  case (2 k i js p ps)
  then show ?case by fastforce
qed simp_all

lemma chained_mono: "chained n is ps \<Longrightarrow> n \<le> n' \<Longrightarrow> chained n' is ps"
proof (induction n "is" ps arbitrary: n' rule: chained.induct)
  case (2 n i "is" p ps)
  have "max n (i + page_len p) \<le> max n' (i + page_len p)" using 2(3) by simp
  then show ?case using 2 by auto
qed simp_all

lemma chained_contig:
  "contig k js N \<Longrightarrow> k \<le> n \<or> (\<forall>j \<in> set is2. k \<le> j) \<Longrightarrow> chained n is2 ps2 \<Longrightarrow> chained n (js @ is2) (N @ ps2)"
proof (induction k js N arbitrary: n rule: contig.induct)
  case (2 k i js p ps)
  let ?n = "max n (i + page_len p)"
  have "chained ?n (js @ is2) (ps @ ps2)" using 2 chained_mono [OF 2(4), of ?n] by (intro 2(1)) auto
  moreover have "(\<forall>j \<in> set (js @ is2). i \<le> j) \<or> i \<le> n" using 2(2,3) contig_ge by fastforce
  ultimately show ?case by simp
qed simp_all

lemma chained_insert:
  assumes "length is1 = length ps1" "chained n (is1 @ is2) (ps1 @ ps2)" "contig k js N"
    and "is1 \<noteq> [] \<Longrightarrow> last is1 \<le> k" "\<forall>j \<in> set is2. k \<le> j"
  shows "chained n (is1 @ js @ is2) (ps1 @ N @ ps2)"
  using assms
proof (induction is1 ps1 arbitrary: n rule: list_induct2)
  case Nil
  then show ?case by (simp add: chained_contig)
next
  case (Cons i is1 p ps1)
  have "chained (max n (i + page_len p)) (is1 @ js @ is2) (ps1 @ N @ ps2)"
    using Cons.prems by (intro Cons.IH) auto
  moreover have "(\<forall>j \<in> set (is1 @ js @ is2). i \<le> j) \<or> i \<le> n"
  proof (cases "i \<le> n")
    case False
    then have le: "\<forall>j \<in> set (is1 @ is2). i \<le> j" using Cons.prems(1) by simp
    have "i \<le> k"
    proof (cases "is1 = []")
      case False
      then have "i \<le> last is1" "last is1 \<le> k" using le Cons.prems(3) by simp_all
      then show ?thesis by simp
    qed (use Cons.prems(3) in simp)
    then show ?thesis using le contig_ge [OF Cons.prems(2)] by fastforce
  qed simp
  ultimately show ?case by simp
qed

lemma held_append: "length is1 = length ps1 \<Longrightarrow> held (is1 @ is2) (ps1 @ ps2) = held is1 ps1 \<union> held is2 ps2"
  by (induction is1 ps1 rule: list_induct2) (simp_all add: Un_assoc)

lemma pc_next_ok:
  assumes "0 < pc_pcSize c"
  obtains c' where "pc_next c ts = Some (\<lparr>ra_Bytes = [], ra_Skip = 0, ra_Start = False, ra_End = False, ra_Seen = ts\<rparr>, c')"
    and "0 < pc_pcSize c'"
  using assms by (cases "pc_free c = 0") (simp_all add: pc_next_def pc_grow_def Let_def)

lemma pages_loop_stream:
  assumes "0 < pc_pcSize pc" "ra_Skip r = 0" "\<not> ra_End r" "bs = take (length bs) (drop k S)" "k + length bs \<le> length S"
  shows "\<exists>N js pc'. pages_loop pc r (sq_of isn (int k)) bs False ts = Some (N, pc') \<and> 0 < pc_pcSize pc' \<and> N \<noteq> []
     \<and> list_all2 (\<lambda>i p. page_at S isn p i) js N \<and> contig k js N \<and> held js N = {k ..< k + length bs}"
  using assms
proof (induction "length bs" arbitrary: pc r bs k rule: less_induct)
  case less
  let ?len = "min (length bs) pageBytes"
  let ?p = "\<lparr>pg_Reassembly = r\<lparr>ra_Bytes := take ?len bs\<rparr>, pg_seq = sq_of isn (int k)\<rparr>"
  have "take ?len bs = take ?len (take (length bs) (drop k S))" using less.prems(4) by (rule arg_cong)
  then have tk: "take ?len bs = take ?len (drop k S)" by (simp add: min_def)
  have at: "page_at S isn ?p k" using less.prems(2,3,5) tk by (simp add: page_at_def min_def)
  show ?case
  proof (cases "drop ?len bs = []")
    case True
    then have "pages_loop pc r (sq_of isn (int k)) bs False ts = Some ([?p\<lparr>pg_Reassembly := (pg_Reassembly ?p)\<lparr>ra_End := False\<rparr>\<rparr>], pc)"
      by (subst pages_loop.simps) simp
    moreover have "?p\<lparr>pg_Reassembly := (pg_Reassembly ?p)\<lparr>ra_End := False\<rparr>\<rparr> = ?p" using less.prems(3) by simp
    moreover have "length bs = ?len" using True by simp
    ultimately show ?thesis
      using less.prems(1) at by (intro exI [of _ "[?p]"] exI [of _ "[k]"] exI [of _ pc]) simp
  next
    case False
    then have short: "length (drop ?len bs) < length bs" by (auto simp: pageBytes_def)
    have bsl: "drop ?len bs = take (length (drop ?len bs)) (drop (k + ?len) S)"
      using less.prems(4) by (metis add.commute drop_drop drop_take length_drop)
    obtain pc1 where pc1: "pc_next pc ts = Some (\<lparr>ra_Bytes = [], ra_Skip = 0, ra_Start = False, ra_End = False, ra_Seen = ts\<rparr>, pc1)"
      "0 < pc_pcSize pc1" using pc_next_ok [OF less.prems(1)] by metis
    have "k + ?len + length (drop ?len bs) \<le> length S" using less.prems(5) by simp
    from less.hyps [OF short pc1(2) _ _ bsl this, of "\<lparr>ra_Bytes = [], ra_Skip = 0, ra_Start = False, ra_End = False, ra_Seen = ts\<rparr>"]
    obtain N js pc2 where N: "pages_loop pc1 \<lparr>ra_Bytes = [], ra_Skip = 0, ra_Start = False, ra_End = False, ra_Seen = ts\<rparr>
         (sq_of isn (int (k + ?len))) (drop ?len bs) False ts = Some (N, pc2)"
      "0 < pc_pcSize pc2" "list_all2 (\<lambda>i p. page_at S isn p i) js N" "contig (k + ?len) js N"
      "held js N = {k + ?len ..< k + ?len + length (drop ?len bs)}" by auto
    have "pages_loop pc r (sq_of isn (int k)) bs False ts = Some (?p # N, pc2)"
      using False pc1(1) N(1) by (subst pages_loop.simps) (simp add: Let_def)
    moreover have "page_len ?p = ?len" by simp
    moreover have "{k ..< k + ?len} \<union> held js N = {k ..< k + length bs}" unfolding N(5) by auto
    ultimately show ?thesis
      using N(2-4) at by (intro exI [of _ "?p # N"] exI [of _ "k # js"] exI [of _ pc2]) simp
  qed
qed

lemma traverse_split:
  obtains ps1 ps2 where "traverseConn c sq = (ps1, ps2)" "cn_list c = ps1 @ ps2"
    "\<forall>p \<in> set ps2. Difference (pg_seq p) sq < 0" "ps1 \<noteq> [] \<Longrightarrow> \<not> Difference (pg_seq (last ps1)) sq < 0"
proof -
  let ?P = "\<lambda>p. Difference (pg_seq p) sq < 0" and ?L = "cn_list c"
  let ?a = "rev (takeWhile ?P (rev ?L))" and ?b = "rev (dropWhile ?P (rev ?L))"
  have L: "?L = ?b @ ?a" by (metis rev_append rev_rev_ident takeWhile_dropWhile_id)
  then have "take (length ?L - length ?a) ?L = ?b" by (metis add_diff_cancel_right' append_eq_conv_conj length_append)
  then have "traverseConn c sq = (?b, ?a)" by (simp add: traverseConn_def Let_def)
  moreover have "\<forall>p \<in> set ?a. ?P p" by (auto dest: set_takeWhileD)
  moreover have "?b \<noteq> [] \<Longrightarrow> \<not> ?P (last ?b)" using hd_dropWhile [of ?P "rev ?L"] by (simp add: last_rev)
  ultimately show thesis using that L by blast
qed

lemma insert_stream:
  assumes len: "stream_ok S" and lim: "MaxBufferedPagesTotal a \<le> 0" "MaxBufferedPagesPerConnection a \<le> 0" and pc: "0 < pc_pcSize (as_pc a)"
    and pages: "pages_of S isn n is (cn_list conn)"
    and t: "uint (tcp_Seq t) = sq_of isn (int k)" "k + length (Payload t) \<le> length S" "Payload t = take (length (Payload t)) (drop k S)"
      "\<not> tcp_RST t" "\<not> tcp_FIN t"
    and nxt: "cn_nextSeq conn = invalidSequence \<or> cn_nextSeq conn = sq_of isn (int n) \<and> n \<le> length S \<and> (\<forall>i \<in> set is. n < i)"
  shows "\<exists>pc' L js q. insertIntoConn a t conn ts = Some (a\<lparr>as_pc := pc'\<rparr>, conn\<lparr>cn_list := L, cn_pages := q\<rparr>)
     \<and> pages_of S isn n js L \<and> held is (cn_list conn) \<union> {k ..< k + length (Payload t)} \<subseteq> held js L
     \<and> set js \<subseteq> set is \<union> {k..} \<and> 0 < pc_pcSize pc'"
proof -
  have segs: "list_all2 (\<lambda>i p. page_at S isn p i) is (cn_list conn)" using pages by (simp add: pages_of_def)
  have small: "i \<le> length S" if "page_at S isn p i" for p i using that by (simp add: page_at_def)
  have no_wtf: "\<not> (cn_list conn \<noteq> [] \<and> pg_seq (hd (cn_list conn)) = cn_nextSeq conn)"
  proof
    assume h: "cn_list conn \<noteq> [] \<and> pg_seq (hd (cn_list conn)) = cn_nextSeq conn"
    then obtain i where i: "i \<in> set is" "page_at S isn (hd (cn_list conn)) i"
      using segs by (cases "cn_list conn"; cases "is") auto
    then have "cn_nextSeq conn = sq_of isn (int i)" using h by (simp add: page_at_def)
    with nxt have "sq_of isn (int n) = sq_of isn (int i)" "n < i" "n \<le> length S" using i(1) by auto
    then show False using sq_of_inj [of isn "int n" "int i"] len small [OF i(2)] by (simp add: stream_ok_def)
  qed
  obtain pc1 where pc1: "pc_next (as_pc a) ts = Some (\<lparr>ra_Bytes = [], ra_Skip = 0, ra_Start = False, ra_End = False, ra_Seen = ts\<rparr>, pc1)"
    "0 < pc_pcSize pc1" using pc_next_ok [OF pc] by metis
  from pages_loop_stream [OF pc1(2) _ _ t(3,2), of "\<lparr>ra_Bytes = [], ra_Skip = 0, ra_Start = False, ra_End = False, ra_Seen = ts\<rparr>" isn ts]
  obtain N js pc2 where N: "pagesFromTCP (as_pc a) t ts = Some (N, pc2)" "0 < pc_pcSize pc2"
      "list_all2 (\<lambda>i p. page_at S isn p i) js N" "contig k js N" "held js N = {k ..< k + length (Payload t)}"
    using t(1,4,5) pc1(1) by (auto simp: pagesFromTCP_def)
  obtain ps1 ps2 where ps: "traverseConn conn (uint (tcp_Seq t)) = (ps1, ps2)" "cn_list conn = ps1 @ ps2"
      "\<forall>p \<in> set ps2. Difference (pg_seq p) (uint (tcp_Seq t)) < 0"
      "ps1 \<noteq> [] \<Longrightarrow> \<not> Difference (pg_seq (last ps1)) (uint (tcp_Seq t)) < 0"
    using traverse_split [of conn "uint (tcp_Seq t)" thesis] by blast
  obtain is1 is2 where isf: "is = is1 @ is2" "list_all2 (\<lambda>i p. page_at S isn p i) is1 ps1" "list_all2 (\<lambda>i p. page_at S isn p i) is2 ps2"
    using segs unfolding ps(2) list_all2_append2 by blast
  have diff: "Difference (pg_seq p) (uint (tcp_Seq t)) = int k - int i" if "page_at S isn p i" for p i
    using that small [OF that] t(1,2) len by (auto simp: page_at_def stream_ok_def intro!: Difference_sq_of)
  have "\<forall>j \<in> set is2. k \<le> j"
  proof
    fix j assume "j \<in> set is2"
    then obtain p where "p \<in> set ps2" "page_at S isn p j" using isf(3) by (metis in_set_conv_nth list_all2_conv_all_nth)
    then show "k \<le> j" using diff ps(3) by fastforce
  qed
  moreover have "last is1 \<le> k" if "is1 \<noteq> []"
  proof -
    have "ps1 \<noteq> []" using that isf(2) by auto
    moreover have "page_at S isn (last ps1) (last is1)"
      using isf(2) that \<open>ps1 \<noteq> []\<close> by (simp add: last_conv_nth list_all2_conv_all_nth)
    ultimately show ?thesis using diff ps(4) by fastforce
  qed
  ultimately have "chained n (is1 @ js @ is2) (ps1 @ N @ ps2)"
    using pages N(4) isf ps(2) by (intro chained_insert) (auto simp: pages_of_def dest: list_all2_lengthD)
  then have "pages_of S isn n (is1 @ js @ is2) (ps1 @ N @ ps2)" using isf(2,3) N(3) by (simp add: pages_of_def list_all2_appendI)
  moreover have "held is (cn_list conn) \<union> {k ..< k + length (Payload t)} \<subseteq> held (is1 @ js @ is2) (ps1 @ N @ ps2)"
    using isf(1) N(5) ps(2) isf(2,3) [THEN list_all2_lengthD] N(3) [THEN list_all2_lengthD] by (auto simp: held_append)
  moreover have "set (is1 @ js @ is2) \<subseteq> set is \<union> {k..}" using isf(1) contig_ge [OF N(4)] by auto
  moreover have "insertIntoConn a t conn ts = Some (a\<lparr>as_pc := pc2\<rparr>, conn\<lparr>cn_list := ps1 @ N @ ps2, cn_pages := cn_pages conn + int (length N)\<rparr>)"
    using no_wtf N(1) ps(1) lim by (simp add: insertIntoConn_def pushBetween_def)
  ultimately show ?thesis using N(2) by blast
qed

lemma send_stream:
  assumes "stream_ok S" "cn_stream conn = Some s" "cn_nextSeq conn = sq_of isn (int n)" "n \<le> length S"
    "pages_of S isn n is (cn_list conn)" "0 < pc_pcSize (as_pc a)" "as_ret a \<noteq> []" "pieces S n0 n (as_ret a)"
  shows "\<exists>m rs pc js ps k. sendToConnection a conn = Some (a\<lparr>as_ret := rs, as_pc := pc, as_log := as_log a @ [Reassembled s rs]\<rparr>,
        conn\<lparr>cn_nextSeq := sq_of isn (int m), cn_list := ps, cn_pages := k\<rparr>)
      \<and> pieces S n0 m rs \<and> pages_of S isn m js ps \<and> (\<forall>j \<in> set js. m < j) \<and> 0 < pc_pcSize pc
      \<and> {..<n} \<union> held is (cn_list conn) \<subseteq> {..<m} \<union> held js ps"
proof -
  obtain m rs pc js ps k where c: "addContiguous a conn = (a\<lparr>as_ret := as_ret a @ rs, as_pc := pc\<rparr>,
        conn\<lparr>cn_nextSeq := sq_of isn (int m), cn_list := ps, cn_pages := k\<rparr>)"
      "pieces S n m rs" "pages_of S isn m js ps" "\<forall>j \<in> set js. m < j" "0 < pc_pcSize pc"
      "{..<n} \<union> held is (cn_list conn) \<subseteq> {..<m} \<union> held js ps"
    using addContiguous_stream [OF assms(1,3-6)] by blast
  have p: "pieces S n0 m (as_ret a @ rs)" by (rule pieces_append [OF assms(8) c(2)])
  then have "\<not> ra_End (last (as_ret a @ rs))" using assms(7) by (metis append_is_Nil_conv last_in_set pieces_def)
  then have "sendToConnection a conn = Some (a\<lparr>as_ret := as_ret a @ rs, as_pc := pc, as_log := as_log a @ [Reassembled s (as_ret a @ rs)]\<rparr>,
        conn\<lparr>cn_nextSeq := sq_of isn (int m), cn_list := ps, cn_pages := k\<rparr>)"
    using c(1) assms(2,7) by (simp add: sendToConnection_def)
  with p c(3-6) show ?thesis by blast
qed

subsection \<open>The state of a connection\<close>

fun delivered :: "'s \<Rightarrow> 's event list \<Rightarrow> Reassembly list" where
  "delivered s [] = []"
| "delivered s (Reassembled s' rs # evs) = (if s' = s then rs else []) @ delivered s evs"
| "delivered s (New k # evs) = delivered s evs"
| "delivered s (ReassemblyComplete s' # evs) = delivered s evs"

lemma delivered_append [simp]: "delivered s (xs @ ys) = delivered s xs @ delivered s ys"
  by (induction s xs rule: delivered.induct) simp_all

text \<open>\<open>stream_state S isn s a conn m C\<close>: before the SYN (\<open>m = None\<close>) nothing was delivered, afterwards (\<open>m = Some n\<close>) the
  first \<open>n\<close> bytes; the positions in \<open>C\<close> were delivered or are stored, and no stored page is ready.\<close>

definition stream_state :: "bytes \<Rightarrow> int \<Rightarrow> 's \<Rightarrow> 's Assembler \<Rightarrow> 's connection \<Rightarrow> nat option \<Rightarrow> nat set \<Rightarrow> bool" where
  "stream_state S isn s a conn m C \<longleftrightarrow>
     \<not> cn_closed conn \<and> cn_stream conn = Some s \<and> MaxBufferedPagesTotal a \<le> 0 \<and> MaxBufferedPagesPerConnection a \<le> 0
     \<and> 0 < pc_pcSize (as_pc a)
     \<and> cn_nextSeq conn = (case m of None \<Rightarrow> invalidSequence | Some n \<Rightarrow> sq_of isn (int n))
     \<and> pieces S 0 (case m of None \<Rightarrow> 0 | Some n \<Rightarrow> n) (delivered s (as_log a))
     \<and> (\<exists>is. pages_of S isn (case m of None \<Rightarrow> 0 | Some n \<Rightarrow> n) is (cn_list conn) \<and> (\<forall>n. m = Some n \<longrightarrow> (\<forall>i \<in> set is. n < i))
            \<and> C \<subseteq> {..<(case m of None \<Rightarrow> 0 | Some n \<Rightarrow> n)} \<union> held is (cn_list conn))"

text \<open>A packet of the stream: the SYN without data, or a piece of the stream's bytes.\<close>

definition piece_at :: "bytes \<Rightarrow> int \<Rightarrow> TCP \<Rightarrow> nat \<Rightarrow> bool" where
  "piece_at S isn t k \<longleftrightarrow> uint (tcp_Seq t) = sq_of isn (int k) \<and> k + length (Payload t) \<le> length S
     \<and> Payload t = take (length (Payload t)) (drop k S)"

definition packet_of :: "bytes \<Rightarrow> int \<Rightarrow> TCP \<Rightarrow> bool" where
  "packet_of S isn t \<longleftrightarrow> \<not> tcp_FIN t \<and> \<not> tcp_RST t \<and>
     (if tcp_SYN t then Payload t = [] \<and> uint (tcp_Seq t) = sq_of isn (-1) else \<exists>k. piece_at S isn t k)"

definition carries :: "bytes \<Rightarrow> int \<Rightarrow> TCP \<Rightarrow> nat \<Rightarrow> bool" where
  "carries S isn t i \<longleftrightarrow> \<not> tcp_SYN t \<and> (\<exists>k. piece_at S isn t k \<and> k \<le> i \<and> i < k + length (Payload t))"

lemma carries_piece:
  assumes "stream_ok S" "piece_at S isn t k"
  shows "{i. carries S isn t i} \<subseteq> {k ..< k + length (Payload t)}"
proof
  fix i assume "i \<in> {i. carries S isn t i}"
  then obtain k' where k': "piece_at S isn t k'" "k' \<le> i" "i < k' + length (Payload t)" by (auto simp: carries_def)
  then have "k' = k" using assms sq_of_inj [of isn "int k'" "int k"] by (auto simp: piece_at_def stream_ok_def)
  with k' show "i \<in> {k ..< k + length (Payload t)}" by simp
qed

lemma stream_state_lastSeen:
  "stream_state S isn s a conn m C \<Longrightarrow> stream_state S isn s a (conn\<lparr>cn_lastSeen := ts\<rparr>) m C"
  by (simp add: stream_state_def)

lemma state_after_send:
  assumes st: "stream_state S isn s a conn m C" and "m = None \<Longrightarrow> n0 = 0" and "\<And>n. m = Some n \<Longrightarrow> n0 = n"
    and r: "pieces S n0 n' rs" "pages_of S isn n' js ps" "\<forall>j \<in> set js. n' < j" "0 < pc_pcSize pc" "D \<subseteq> {..<n'} \<union> held js ps"
  shows "stream_state S isn s (a\<lparr>as_ret := rs, as_pc := pc, as_log := as_log a @ [Reassembled s rs]\<rparr>)
      (conn\<lparr>cn_nextSeq := sq_of isn (int n'), cn_list := ps, cn_pages := k\<rparr>) (Some n') D"
proof -
  have "pieces S 0 n0 (delivered s (as_log a))" using st assms(2,3) by (auto simp: stream_state_def split: option.splits)
  from pieces_append [OF this r(1)] show ?thesis using st r by (auto simp: stream_state_def)
qed

lemma assemble_store:
  assumes "stream_ok S" and st: "stream_state S isn s a conn m C" and t: "packet_of S isn t" "piece_at S isn t k" "\<not> tcp_SYN t"
    and later: "\<And>n. m = Some n \<Longrightarrow> n < k"
  shows "\<exists>a' conn'. insertIntoConn a t conn ts = Some (a', conn') \<and> stream_state S isn s a' conn' m (C \<union> {i. carries S isn t i})
     \<and> as_pool a' = as_pool a \<and> as_ret a' = as_ret a \<and> cn_key conn' = cn_key conn"
proof -
  let ?n = "case m of None \<Rightarrow> 0 | Some n \<Rightarrow> n"
  obtain "is" where isf: "pages_of S isn ?n is (cn_list conn)" "\<forall>n. m = Some n \<longrightarrow> (\<forall>i \<in> set is. n < i)"
      "C \<subseteq> {..<?n} \<union> held is (cn_list conn)" using st by (auto simp: stream_state_def)
  have "pieces S 0 ?n (delivered s (as_log a))" using st by (simp add: stream_state_def)
  then have "?n \<le> length S" by (simp add: pieces_def)
  then have nxt: "cn_nextSeq conn = invalidSequence \<or> cn_nextSeq conn = sq_of isn (int ?n) \<and> ?n \<le> length S \<and> (\<forall>i \<in> set is. ?n < i)"
    using st isf(2) by (auto simp: stream_state_def split: option.splits)
  have "\<exists>pc' L js q. insertIntoConn a t conn ts = Some (a\<lparr>as_pc := pc'\<rparr>, conn\<lparr>cn_list := L, cn_pages := q\<rparr>)
     \<and> pages_of S isn ?n js L \<and> held is (cn_list conn) \<union> {k ..< k + length (Payload t)} \<subseteq> held js L
     \<and> set js \<subseteq> set is \<union> {k..} \<and> 0 < pc_pcSize pc'"
    using st t by (intro insert_stream [OF assms(1) _ _ _ isf(1) _ _ _ _ _ nxt]) (simp_all add: stream_state_def piece_at_def packet_of_def)
  then obtain pc' L js q where r: "insertIntoConn a t conn ts = Some (a\<lparr>as_pc := pc'\<rparr>, conn\<lparr>cn_list := L, cn_pages := q\<rparr>)"
      "pages_of S isn ?n js L" "held is (cn_list conn) \<union> {k ..< k + length (Payload t)} \<subseteq> held js L"
      "set js \<subseteq> set is \<union> {k..}" "0 < pc_pcSize pc'" by blast
  have "\<forall>n. m = Some n \<longrightarrow> (\<forall>i \<in> set js. n < i)" using r(4) isf(2) later by fastforce
  moreover have "C \<union> {i. carries S isn t i} \<subseteq> {..<?n} \<union> held js L" using isf(3) r(3) carries_piece [OF assms(1) t(2)] by blast
  ultimately have "stream_state S isn s (a\<lparr>as_pc := pc'\<rparr>) (conn\<lparr>cn_list := L, cn_pages := q\<rparr>) m (C \<union> {i. carries S isn t i})"
    using st r(2,5) unfolding stream_state_def by simp blast
  then show ?thesis using r(1) by auto
qed

lemma assemble_ready:
  assumes ok: "stream_ok S" and st: "stream_state S isn s a conn (Some n) C" and ret: "as_ret a = []" and t: "packet_of S isn t"
    and early: "tcp_SYN t \<or> (\<exists>k \<le> n. piece_at S isn t k)"
  defines "sp \<equiv> byteSpan (cn_nextSeq conn) (uint (tcp_Seq t)) (Payload t)"
  shows "\<exists>a' conn' m'. sendToConnection
        (a\<lparr>as_ret := [\<lparr>ra_Bytes = fst sp, ra_Skip = 0, ra_Start = False, ra_End = (tcp_RST t \<or> tcp_FIN t), ra_Seen = ts\<rparr>]\<rparr>)
        (conn\<lparr>cn_nextSeq := snd sp\<rparr>) = Some (a', conn')
     \<and> stream_state S isn s a' conn' (Some m') (C \<union> {i. carries S isn t i}) \<and> as_pool a' = as_pool a \<and> cn_key conn' = cn_key conn"
proof -
  have nS: "n \<le> length S" and nxt: "cn_nextSeq conn = sq_of isn (int n)" using st by (simp_all add: stream_state_def pieces_def)
  obtain "is" where isf: "pages_of S isn n is (cn_list conn)" "C \<subseteq> {..<n} \<union> held is (cn_list conn)"
    using st by (auto simp: stream_state_def)
  have lS: "int (length S) < uint32Size div 4" using ok by (simp add: stream_ok_def)
  obtain n1 where n1: "sp = (take (n1 - n) (drop n S), sq_of isn (int n1))" "n \<le> n1" "n1 \<le> length S"
      "{i. carries S isn t i} \<subseteq> {..<n1}"
  proof (cases "tcp_SYN t")
    case True
    have "Difference (sq_of isn (-1)) (sq_of isn (int n)) = int n + 1"
      using ok nS Difference_sq_of [of "int n" "-1" isn] by (simp add: stream_ok_def)
    then have "sp = ([], sq_of isn (int n))" using True t nxt by (simp add: sp_def packet_of_def byteSpan_def)
    then show thesis using that [of n] nS True by (simp add: carries_def)
  next
    case False
    then obtain k where k: "k \<le> n" "piece_at S isn t k" using early by blast
    then have "sp = (take (max n (k + length (Payload t)) - n) (drop n S), sq_of isn (int (max n (k + length (Payload t)))))"
      unfolding sp_def nxt using nS lS by (simp add: piece_at_def) (rule byteSpan_sq_of, auto)
    moreover have "{i. carries S isn t i} \<subseteq> {..<max n (k + length (Payload t))}" using carries_piece [OF ok k(2)] by fastforce
    moreover have "k + length (Payload t) \<le> length S" using k(2) by (simp add: piece_at_def)
    ultimately show thesis using that [of "max n (k + length (Payload t))"] nS by simp
  qed
  let ?r = "\<lparr>ra_Bytes = fst sp, ra_Skip = 0, ra_Start = False, ra_End = (tcp_RST t \<or> tcp_FIN t), ra_Seen = ts\<rparr>"
  let ?a = "a\<lparr>as_ret := [?r]\<rparr>" and ?c = "conn\<lparr>cn_nextSeq := snd sp\<rparr>"
  have "pieces S n n1 [?r]" using n1 t by (simp add: pieces_def packet_of_def)
  moreover have "pages_of S isn n1 is (cn_list ?c)" using isf(1) n1(2) by (auto simp: pages_of_def intro: chained_mono)
  ultimately have "\<exists>m rs pc js ps k. sendToConnection ?a ?c = Some (?a\<lparr>as_ret := rs, as_pc := pc, as_log := as_log ?a @ [Reassembled s rs]\<rparr>,
        ?c\<lparr>cn_nextSeq := sq_of isn (int m), cn_list := ps, cn_pages := k\<rparr>)
      \<and> pieces S n m rs \<and> pages_of S isn m js ps \<and> (\<forall>j \<in> set js. m < j) \<and> 0 < pc_pcSize pc
      \<and> {..<n1} \<union> held is (cn_list ?c) \<subseteq> {..<m} \<union> held js ps"
    using st n1 by (intro send_stream [OF ok]) (simp_all add: stream_state_def)
  then obtain m rs pc js ps k where r: "sendToConnection ?a ?c = Some (a\<lparr>as_ret := rs, as_pc := pc, as_log := as_log a @ [Reassembled s rs]\<rparr>,
        conn\<lparr>cn_nextSeq := sq_of isn (int m), cn_list := ps, cn_pages := k\<rparr>)"
      "pieces S n m rs" "pages_of S isn m js ps" "\<forall>j \<in> set js. m < j" "0 < pc_pcSize pc"
      "{..<n1} \<union> held is (cn_list conn) \<subseteq> {..<m} \<union> held js ps" by auto
  have "C \<union> {i. carries S isn t i} \<subseteq> {..<n1} \<union> held is (cn_list conn)" using isf(2) n1(2,4) by (auto dest: order_less_le_trans)
  then have "C \<union> {i. carries S isn t i} \<subseteq> {..<m} \<union> held js ps" using r(6) by (rule order_trans)
  from state_after_send [OF st _ _ r(2-5) this] r(1) show ?thesis by auto
qed

lemma assemble_syn:
  assumes ok: "stream_ok S" and st: "stream_state S isn s a conn None C" and t: "packet_of S isn t" "tcp_SYN t" and ret: "as_ret a = []"
  shows "\<exists>a' conn' m'. sendToConnection
        (a\<lparr>as_ret := [\<lparr>ra_Bytes = Payload t, ra_Skip = 0, ra_Start = True, ra_End = False, ra_Seen = ts\<rparr>]\<rparr>)
        (conn\<lparr>cn_nextSeq := Add (uint (tcp_Seq t)) (int (length (Payload t)) + 1)\<rparr>) = Some (a', conn')
     \<and> stream_state S isn s a' conn' (Some m') (C \<union> {i. carries S isn t i}) \<and> as_pool a' = as_pool a \<and> cn_key conn' = cn_key conn"
proof -
  obtain "is" where isf: "pages_of S isn 0 is (cn_list conn)" "C \<subseteq> held is (cn_list conn)" using st by (auto simp: stream_state_def)
  let ?a = "a\<lparr>as_ret := [\<lparr>ra_Bytes = Payload t, ra_Skip = 0, ra_Start = True, ra_End = False, ra_Seen = ts\<rparr>]\<rparr>"
  let ?c = "conn\<lparr>cn_nextSeq := Add (uint (tcp_Seq t)) (int (length (Payload t)) + 1)\<rparr>"
  have c: "?c = conn\<lparr>cn_nextSeq := sq_of isn (int 0)\<rparr>" using t by (simp add: packet_of_def)
  have "\<exists>m rs pc js ps k. sendToConnection ?a ?c = Some (?a\<lparr>as_ret := rs, as_pc := pc, as_log := as_log ?a @ [Reassembled s rs]\<rparr>,
        ?c\<lparr>cn_nextSeq := sq_of isn (int m), cn_list := ps, cn_pages := k\<rparr>)
      \<and> pieces S 0 m rs \<and> pages_of S isn m js ps \<and> (\<forall>j \<in> set js. m < j) \<and> 0 < pc_pcSize pc
      \<and> {..<0} \<union> held is (cn_list ?c) \<subseteq> {..<m} \<union> held js ps"
    using st isf(1) t unfolding c by (intro send_stream [OF ok]) (simp_all add: stream_state_def pieces_def packet_of_def)
  then obtain m rs pc js ps k where r: "sendToConnection ?a ?c = Some (a\<lparr>as_ret := rs, as_pc := pc, as_log := as_log a @ [Reassembled s rs]\<rparr>,
        conn\<lparr>cn_nextSeq := sq_of isn (int m), cn_list := ps, cn_pages := k\<rparr>)"
      "pieces S 0 m rs" "pages_of S isn m js ps" "\<forall>j \<in> set js. m < j" "0 < pc_pcSize pc"
      "held is (cn_list conn) \<subseteq> {..<m} \<union> held js ps" by auto
  have "C \<union> {i. carries S isn t i} \<subseteq> {..<m} \<union> held js ps" using isf(2) r(6) t(2) by (auto simp: carries_def)
  from state_after_send [OF st _ _ r(2-5) this] r(1) show ?thesis by auto
qed

lemma assemble_conn_stream:
  assumes ok: "stream_ok S" and st: "stream_state S isn s a conn m C" and ret: "as_ret a = []" and t: "packet_of S isn t"
  shows "\<exists>a' conn' m'. assemble_conn a conn t ts = Some (a', conn') \<and> stream_state S isn s a' conn' m' (C \<union> {i. carries S isn t i})
     \<and> (tcp_SYN t \<or> m \<noteq> None \<longrightarrow> m' \<noteq> None) \<and> as_pool a' = as_pool a \<and> cn_key conn' = cn_key conn"
proof -
  let ?c = "if cn_lastSeen conn < ts then conn\<lparr>cn_lastSeen := ts\<rparr> else conn"
  have st': "stream_state S isn s a ?c m C" using st by (simp add: stream_state_lastSeen)
  have key: "cn_key ?c = cn_key conn" by simp
  have inv: "cn_nextSeq ?c = invalidSequence \<longleftrightarrow> m = None" using st' by (auto simp: stream_state_def split: option.splits)
  show ?thesis
  proof (cases m)
    case None
    show ?thesis
    proof (cases "tcp_SYN t")
      case True
      from assemble_syn [OF ok st' [unfolded None] t True ret, of ts] obtain a' conn' m' where
          r: "sendToConnection (a\<lparr>as_ret := [\<lparr>ra_Bytes = Payload t, ra_Skip = 0, ra_Start = True, ra_End = False, ra_Seen = ts\<rparr>]\<rparr>)
            (?c\<lparr>cn_nextSeq := Add (uint (tcp_Seq t)) (int (length (Payload t)) + 1)\<rparr>) = Some (a', conn')"
            "stream_state S isn s a' conn' (Some m') (C \<union> {i. carries S isn t i})" "as_pool a' = as_pool a" "cn_key conn' = cn_key ?c"
        by blast
      have "assemble_conn a conn t ts = Some (a', conn')" using r(1) inv None ret True by (simp add: assemble_conn_def Let_def)
      with r(2-4) key show ?thesis by (metis option.distinct(1))
    next
      case False
      then obtain k where "piece_at S isn t k" using t by (auto simp: packet_of_def)
      then obtain a' conn' where r: "insertIntoConn a t ?c ts = Some (a', conn')"
          "stream_state S isn s a' conn' m (C \<union> {i. carries S isn t i})" "as_pool a' = as_pool a" "as_ret a' = as_ret a"
          "cn_key conn' = cn_key ?c" using assemble_store [OF ok st' t _ False, of k ts] None by auto
      have "assemble_conn a conn t ts = Some (a', conn')" using r(1,4) inv None ret False by (simp add: assemble_conn_def Let_def)
      with r(2,3,5) key False None show ?thesis by metis
    qed
  next
    case (Some n)
    have nS: "n \<le> length S" "cn_nextSeq ?c = sq_of isn (int n)" using st' Some by (auto simp: stream_state_def pieces_def)
    have d: "Difference (cn_nextSeq ?c) (uint (tcp_Seq t)) = int k - int n" if "piece_at S isn t k" for k
      using that nS ok by (auto simp: piece_at_def stream_ok_def intro!: Difference_sq_of)
    show ?thesis
    proof (cases "tcp_SYN t \<or> (\<exists>k \<le> n. piece_at S isn t k)")
      case True
      have "Difference (cn_nextSeq ?c) (uint (tcp_Seq t)) \<le> 0"
      proof (cases "tcp_SYN t")
        case True
        then show ?thesis using t nS ok Difference_sq_of [of "-1" "int n" isn] by (simp add: packet_of_def stream_ok_def)
      next
        case False
        then obtain k where "k \<le> n" "piece_at S isn t k" using True by blast
        then show ?thesis using d [of k] by simp
      qed
      moreover obtain a' conn' m' where r: "let sp = byteSpan (cn_nextSeq ?c) (uint (tcp_Seq t)) (Payload t) in sendToConnection
          (a\<lparr>as_ret := [\<lparr>ra_Bytes = fst sp, ra_Skip = 0, ra_Start = False, ra_End = (tcp_RST t \<or> tcp_FIN t), ra_Seen = ts\<rparr>]\<rparr>)
          (?c\<lparr>cn_nextSeq := snd sp\<rparr>) = Some (a', conn')"
          "stream_state S isn s a' conn' (Some m') (C \<union> {i. carries S isn t i})" "as_pool a' = as_pool a" "cn_key conn' = cn_key ?c"
        using assemble_ready [OF ok st' [unfolded Some] ret t True, of ts] unfolding Let_def by blast
      ultimately have "assemble_conn a conn t ts = Some (a', conn')"
        using inv Some ret by (simp add: assemble_conn_def Let_def case_prod_beta)
      with r(2-4) key show ?thesis by (metis option.distinct(1))
    next
      case False
      then obtain k where k: "piece_at S isn t k" "n < k" using t by (auto simp: packet_of_def not_le)
      have later: "m = Some x \<Longrightarrow> x < k" for x using k(2) Some by simp
      obtain a' conn' where r: "insertIntoConn a t ?c ts = Some (a', conn')"
          "stream_state S isn s a' conn' m (C \<union> {i. carries S isn t i})" "as_pool a' = as_pool a" "as_ret a' = as_ret a"
          "cn_key conn' = cn_key ?c" using assemble_store [OF ok st' t k(1) _ later, of ts] False by blast
      have "Difference (cn_nextSeq ?c) (uint (tcp_Seq t)) > 0" using d k by auto
      then have "assemble_conn a conn t ts = Some (a', conn')" using r(1,4) inv Some ret by (simp add: assemble_conn_def Let_def)
      with r(2,3,5) key Some show ?thesis by (metis option.distinct(1))
    qed
  qed
qed

subsection \<open>A run of the assembler\<close>

fun assemble_all :: "'s Assembler \<Rightarrow> Flow \<Rightarrow> (TCP \<times> int) list \<Rightarrow> 's Assembler option" where
  "assemble_all a netFlow [] = Some a"
| "assemble_all a netFlow ((t, ts) # pkts) = do { a1 \<leftarrow> AssembleWithTimestamp a netFlow t ts; assemble_all a1 netFlow pkts }"

text \<open>\<open>flow_state\<close>: the connection of a flow is in the state of its stream, or was not seen yet.\<close>

definition flow_state :: "bytes \<Rightarrow> int \<Rightarrow> 's \<Rightarrow> key \<Rightarrow> 's Assembler \<Rightarrow> nat option \<Rightarrow> nat set \<Rightarrow> bool" where
  "flow_state S isn s k a m C \<longleftrightarrow> sp_factory (as_pool a) (fst k) (snd k) = Some s \<and> 0 < sp_nextAlloc (as_pool a) \<and>
     (case map_of (sp_conns (as_pool a)) k of
        None \<Rightarrow> m = None \<and> C = {} \<and> delivered s (as_log a) = [] \<and> MaxBufferedPagesTotal a \<le> 0 \<and> MaxBufferedPagesPerConnection a \<le> 0
                  \<and> 0 < pc_pcSize (as_pc a)
      | Some conn \<Rightarrow> stream_state S isn s a conn m C)"

lemma getConnection_stream:
  assumes st: "flow_state S isn s k a m C" and e: "\<not> end \<or> map_of (sp_conns (as_pool a)) k \<noteq> None"
  shows "\<exists>conn a'. getConnection a k end ts = Some (Some conn, a') \<and> stream_state S isn s a' conn m C
     \<and> as_ret a' = as_ret a \<and> sp_factory (as_pool a') = sp_factory (as_pool a) \<and> 0 < sp_nextAlloc (as_pool a')"
proof (cases "map_of (sp_conns (as_pool a)) k")
  case None
  let ?p = "if sp_free (as_pool a) = [] then sp_grow (as_pool a) else as_pool a"
  have free: "sp_free ?p \<noteq> []" using st by (simp add: sp_grow_def flow_state_def)
  have p: "sp_factory ?p = sp_factory (as_pool a)" "0 < sp_nextAlloc ?p" using st by (simp_all add: sp_grow_def flow_state_def)
  let ?c = "cn_reset (last (sp_free ?p)) k (Some s) ts"
  let ?a = "a\<lparr>as_pool := ?p\<lparr>sp_free := butlast (sp_free ?p), sp_conns := AList.update k ?c (sp_conns ?p)\<rparr>, as_log := as_log a @ [New k]\<rparr>"
  have "newConnection (as_pool a) k (Some s) ts = Some (?c, ?p\<lparr>sp_free := butlast (sp_free ?p)\<rparr>)"
    unfolding newConnection_def Let_def using free by (rule if_not_P)
  then have "getConnection a k end ts = Some (Some ?c, ?a)"
    using None e st by (simp add: getConnection_def flow_state_def)
  moreover have "stream_state S isn s ?a ?c m C"
    using st None by (auto simp: flow_state_def stream_state_def cn_reset_def pieces_def pages_of_def intro!: exI [of _ "[]"])
  ultimately show ?thesis using p by (intro exI [of _ ?c] exI [of _ ?a]) simp
next
  case (Some conn)
  with st show ?thesis by (simp add: getConnection_def flow_state_def)
qed

lemma Assemble_stream:
  assumes ok: "stream_ok S" and st: "flow_state S isn s (netFlow, tf) a m C" and t: "packet_of S isn t" "TCP_TransportFlow t = Some tf"
  shows "\<exists>a' m'. AssembleWithTimestamp a netFlow t ts = Some a' \<and> flow_state S isn s (netFlow, tf) a' m' (C \<union> {i. carries S isn t i})
     \<and> (tcp_SYN t \<or> m \<noteq> None \<longrightarrow> m' \<noteq> None)"
proof (cases "\<not> tcp_SYN t \<and> Payload t = []")
  case True
  then have "{i. carries S isn t i} = {}" by (simp add: carries_def)
  with True t(1) st show ?thesis by (auto simp: AssembleWithTimestamp_def packet_of_def)
next
  case False
  have st0: "flow_state S isn s (netFlow, tf) (a\<lparr>as_ret := []\<rparr>) m C" using st by (simp add: flow_state_def stream_state_def split: option.splits)
  obtain conn a1 where g: "getConnection (a\<lparr>as_ret := []\<rparr>) (netFlow, tf) False ts = Some (Some conn, a1)"
      "stream_state S isn s a1 conn m C" "as_ret a1 = []" "sp_factory (as_pool a1) = sp_factory (as_pool a)" "0 < sp_nextAlloc (as_pool a1)"
    using getConnection_stream [OF st0, of False ts] by auto
  obtain a2 conn2 m' where c: "assemble_conn a1 conn t ts = Some (a2, conn2)" "stream_state S isn s a2 conn2 m' (C \<union> {i. carries S isn t i})"
      "tcp_SYN t \<or> m \<noteq> None \<longrightarrow> m' \<noteq> None" "as_pool a2 = as_pool a1"
    using assemble_conn_stream [OF ok g(2,3) t(1), of ts] by blast
  have closed: "\<not> cn_closed conn" "\<not> cn_closed conn2" using g(2) c(2) by (simp_all add: stream_state_def)
  let ?a = "a2\<lparr>as_pool := (as_pool a2)\<lparr>sp_conns := AList.update (netFlow, tf) conn2 (sp_conns (as_pool a2))\<rparr>\<rparr>"
  have "AssembleWithTimestamp a netFlow t ts = Some ?a"
    using g(1) c(1) closed t(2) False by (cases "tcp_SYN t") (simp_all add: AssembleWithTimestamp_def save_conn_def)
  moreover have "flow_state S isn s (netFlow, tf) ?a m' (C \<union> {i. carries S isn t i})"
    using c(2,4) g(4,5) st by (simp add: flow_state_def stream_state_def update_conv')
  ultimately show ?thesis using c(3) by blast
qed

lemma assemble_all_stream:
  assumes "stream_ok S" "flow_state S isn s (netFlow, tf) a m C" "\<forall>(t, ts) \<in> set pkts. packet_of S isn t \<and> TCP_TransportFlow t = Some tf"
  shows "\<exists>a' m'. assemble_all a netFlow pkts = Some a' \<and> flow_state S isn s (netFlow, tf) a' m' (C \<union> {i. \<exists>(t, ts) \<in> set pkts. carries S isn t i})
     \<and> (m \<noteq> None \<or> (\<exists>(t, ts) \<in> set pkts. tcp_SYN t) \<longrightarrow> m' \<noteq> None)"
  using assms(2,3)
proof (induction pkts arbitrary: a m C)
  case (Cons x pkts)
  obtain t ts where x: "x = (t, ts)" by (cases x)
  have t: "packet_of S isn t" "TCP_TransportFlow t = Some tf" using Cons.prems(2) x by auto
  obtain a1 m1 where a1: "AssembleWithTimestamp a netFlow t ts = Some a1" "flow_state S isn s (netFlow, tf) a1 m1 (C \<union> {i. carries S isn t i})"
      "tcp_SYN t \<or> m \<noteq> None \<longrightarrow> m1 \<noteq> None"
    using Assemble_stream [OF assms(1) Cons.prems(1) t, of ts] by blast
  have "(C \<union> {i. carries S isn t i}) \<union> {i. \<exists>(t, ts) \<in> set pkts. carries S isn t i} = C \<union> {i. \<exists>(t, ts) \<in> set (x # pkts). carries S isn t i}"
    using x by auto
  with Cons.IH [OF a1(2)] Cons.prems(2) a1(1,3) x show ?case by fastforce
qed (use assms in auto)

text \<open>C1. Whatever the order, the repetition and the overlap of the packets of a byte stream, and wherever its sequence
  numbers wrap, a fresh assembler accepts them all and has delivered a prefix of the stream, without skips; once the SYN
  and every byte have arrived it has delivered the whole stream.\<close>

theorem stream_reassembled:
  assumes "int (length S) + 1 < uint32Size div 4" and "factory netFlow tf = Some s"
    and "\<forall>(t, ts) \<in> set pkts. packet_of S isn t \<and> TCP_TransportFlow t = Some tf"
  shows "\<exists>a n. assemble_all (NewAssembler (NewStreamPool factory t0)) netFlow pkts = Some a
      \<and> concat (map ra_Bytes (delivered s (as_log a))) = take n S
      \<and> (\<forall>r \<in> set (delivered s (as_log a)). ra_Skip r = 0 \<and> \<not> ra_End r)
      \<and> ((\<exists>(t, ts) \<in> set pkts. tcp_SYN t) \<and> (\<forall>i < length S. \<exists>(t, ts) \<in> set pkts. carries S isn t i) \<longrightarrow> n = length S)"
proof -
  have ok: "stream_ok S" using assms(1) by (simp add: stream_ok_def)
  have "flow_state S isn s (netFlow, tf) (NewAssembler (NewStreamPool factory t0)) None {}"
    using assms(2) by (simp add: flow_state_def NewAssembler_def NewStreamPool_def initialAllocSize_def newPageCache_def pc_grow_def)
  from assemble_all_stream [OF ok this assms(3)] obtain a m where
      a: "assemble_all (NewAssembler (NewStreamPool factory t0)) netFlow pkts = Some a"
      "flow_state S isn s (netFlow, tf) a m {i. \<exists>(t, ts) \<in> set pkts. carries S isn t i}"
      "(\<exists>(t, ts) \<in> set pkts. tcp_SYN t) \<longrightarrow> m \<noteq> None" by auto
  let ?n = "case m of None \<Rightarrow> 0 | Some n \<Rightarrow> n"
  have p: "pieces S 0 ?n (delivered s (as_log a))"
    using a(2) by (auto simp: flow_state_def stream_state_def pieces_def split: option.splits)
  have "?n = length S" if syn: "\<exists>(t, ts) \<in> set pkts. tcp_SYN t" and all: "\<forall>i < length S. \<exists>(t, ts) \<in> set pkts. carries S isn t i"
  proof -
    obtain n where n: "m = Some n" using a(3) syn by auto
    then obtain conn where "stream_state S isn s a conn (Some n) {i. \<exists>(t, ts) \<in> set pkts. carries S isn t i}"
      using a(2) by (auto simp: flow_state_def split: option.splits)
    then obtain "is" where c: "\<forall>i \<in> set is. n < i"
        "{i. \<exists>(t, ts) \<in> set pkts. carries S isn t i} \<subseteq> {..<n} \<union> held is (cn_list conn)"
      unfolding stream_state_def by auto
    have "n \<notin> held is (cn_list conn)" using c(1) by (auto simp: held_def dest!: set_zip_leftD)
    then have "\<not> (\<exists>(t, ts) \<in> set pkts. carries S isn t n)" using c(2) by blast
    then have "\<not> n < length S" using all by blast
    then show ?thesis using p n by (simp add: pieces_def)
  qed
  with a(1) p show ?thesis by (intro exI [of _ a] exI [of _ ?n]) (simp add: pieces_def)
qed

definition ex_segment :: "u32 \<Rightarrow> bool \<Rightarrow> bytes \<Rightarrow> TCP" where
  "ex_segment sq syn bs = zero_TCP\<lparr>tcp_Seq := sq, tcp_SYN := syn, Payload := bs, tcp_sPort := [0, 80], tcp_dPort := [1, 1]\<rparr>"

definition ex_tcp_flow :: Flow where
  "ex_tcp_flow = \<lparr>fl_typ = 4, fl_slen = 2, fl_dlen = 2, fl_src = [0, 80] @ replicate 14 0, fl_dst = [1, 1] @ replicate 14 0\<rparr>"

theorem stream_reassembled_witness:
  "\<exists>a. assemble_all (NewAssembler (NewStreamPool (\<lambda>_ _. Some ()) 0)) ex_tcp_flow
        [(ex_segment 1 False [20, 30], 5), (ex_segment 4294967295 True [], 6), (ex_segment 0 False [10, 20], 7)] = Some a
     \<and> concat (map ra_Bytes (delivered () (as_log a))) = [10, 20, 30]"
proof -
  let ?pkts = "[(ex_segment 1 False [20, 30], 5), (ex_segment 4294967295 True [], 6), (ex_segment 0 False [10, 20], 7 :: int)]"
  have sel: "tcp_SYN (ex_segment sq syn bs) = syn" "tcp_FIN (ex_segment sq syn bs) = False" "tcp_RST (ex_segment sq syn bs) = False"
    "Payload (ex_segment sq syn bs) = bs" "tcp_Seq (ex_segment sq syn bs) = sq" for sq syn bs
    by (simp_all add: ex_segment_def zero_TCP_def)
  have at: "piece_at [10, 20, 30] 4294967295 (ex_segment 1 False [20, 30]) 1" "piece_at [10, 20, 30] 4294967295 (ex_segment 0 False [10, 20]) 0"
    by (simp_all add: piece_at_def sel sq_of_def Add_def uint32Size_def)
  have seg: "packet_of [10, 20, 30] 4294967295 (ex_segment 1 False [20, 30])" "packet_of [10, 20, 30] 4294967295 (ex_segment 4294967295 True [])"
    "packet_of [10, 20, 30] 4294967295 (ex_segment 0 False [10, 20])"
    using at by (auto simp: packet_of_def sel sq_of_def Add_def uint32Size_def)
  have flow: "TCP_TransportFlow (ex_segment sq syn bs) = Some ex_tcp_flow" for sq syn bs
    by (simp add: ex_segment_def TCP_TransportFlow_def NewFlow_def ex_tcp_flow_def pad16_def MaxEndpointSize_def zero_TCP_def numeral_eq_Suc)
  have carried: "\<exists>(t, ts) \<in> set ?pkts. carries [10, 20, 30] 4294967295 t i" if "i < 3" for i
  proof -
    have "carries [10, 20, 30] 4294967295 (ex_segment 0 False [10, 20]) i" if "i < 2"
      using that at(2) by (auto simp: carries_def sel intro!: exI [of _ 0])
    moreover have "carries [10, 20, 30] 4294967295 (ex_segment 1 False [20, 30]) i" if "1 \<le> i"
      using that \<open>i < 3\<close> at(1) by (auto simp: carries_def sel intro!: exI [of _ 1])
    ultimately show ?thesis by (cases "i < 2") auto
  qed
  have "\<forall>(t, ts) \<in> set ?pkts. packet_of [10, 20, 30] 4294967295 t \<and> TCP_TransportFlow t = Some ex_tcp_flow" using seg flow by simp
  from stream_reassembled [OF _ _ this, of "\<lambda>_ _. Some ()" ex_tcp_flow "()" 0]
  obtain a n where a: "assemble_all (NewAssembler (NewStreamPool (\<lambda>_ _. Some ()) 0)) ex_tcp_flow ?pkts = Some a"
      "concat (map ra_Bytes (delivered () (as_log a))) = take n [10, 20, 30]"
      "(\<exists>(t, ts) \<in> set ?pkts. tcp_SYN t) \<and> (\<forall>i < length [10, 20, 30 :: byte]. \<exists>(t, ts) \<in> set ?pkts. carries [10, 20, 30] 4294967295 t i)
         \<longrightarrow> n = length [10, 20, 30 :: byte]"
    by (auto simp: uint32Size_def)
  have "tcp_SYN (ex_segment 4294967295 True [])" by (simp add: sel)
  then have "\<exists>(t, ts) \<in> set ?pkts. tcp_SYN t" by simp
  moreover have "\<forall>i < length [10, 20, 30 :: byte]. \<exists>(t, ts) \<in> set ?pkts. carries [10, 20, 30] 4294967295 t i" using carried by simp
  ultimately have "n = length [10, 20, 30 :: byte]" using a(3) by blast
  with a(1,2) show ?thesis by auto
qed

end
