(* ===== verification/Tcp_Accounting.thy ===== *)
theory Tcp_Accounting
  imports Tcp_Assembly
begin

section \<open>The assembler's invariant\<close>

text \<open>
  For arbitrary packets of arbitrary flows: no call of the assembler panics, every page taken from the cache is in the list
  of exactly one open connection or was given back, and flushing everything gives back all pages and closes all connections.
\<close>

definition pc_ok :: "pageCache \<Rightarrow> bool" where
  "pc_ok c \<longleftrightarrow> 0 < pc_pcSize c \<and> pc_used c + int (pc_free c) = int (pc_size c)"

text \<open>No stored page is ready when the assembler is not at work, so that the check in \<^verbatim>\<open>insertIntoConn\<close> never fires.\<close>

definition not_ready :: "'s connection \<Rightarrow> bool" where
  "not_ready c \<longleftrightarrow> cn_list c = [] \<or> cn_nextSeq c = invalidSequence \<or> Difference (cn_nextSeq c) (pg_seq (hd (cn_list c))) > 0"

definition conn_ok :: "'s connection \<Rightarrow> bool" where
  "conn_ok c \<longleftrightarrow> \<not> cn_closed c \<and> cn_stream c \<noteq> None \<and> cn_pages c = int (length (cn_list c)) \<and> (\<forall>p \<in> set (cn_list c). 0 \<le> pg_seq p)"

definition total_pages :: "(key \<times> 's connection) list \<Rightarrow> nat" where
  "total_pages cs = sum_list (map (\<lambda>(k, c). length (cn_list c)) cs)"

definition assembler_inv :: "'s Assembler \<Rightarrow> bool" where
  "assembler_inv a \<longleftrightarrow> pc_ok (as_pc a) \<and> 0 < sp_nextAlloc (as_pool a) \<and> (\<forall>n t. sp_factory (as_pool a) n t \<noteq> None)
     \<and> distinct (map fst (sp_conns (as_pool a)))
     \<and> (\<forall>k c. map_of (sp_conns (as_pool a)) k = Some c \<longrightarrow> conn_ok c \<and> not_ready c \<and> cn_key c = Some k)
     \<and> pc_used (as_pc a) = int (total_pages (sp_conns (as_pool a)))"

subsection \<open>What the operations on one connection do\<close>

text \<open>\<open>handled a c a' c'\<close>: the connection stays open, or it was closed and taken out of the pool; the pages are accounted for.\<close>

definition same_rest :: "'s Assembler \<Rightarrow> 's connection \<Rightarrow> 's Assembler \<Rightarrow> 's connection \<Rightarrow> bool" where
  "same_rest a c a' c' \<longleftrightarrow> as_pool a' = as_pool a \<and> cn_key c' = cn_key c \<and> conn_ok c' \<and> pc_ok (as_pc a')
     \<and> pc_used (as_pc a') - int (length (cn_list c')) = pc_used (as_pc a) - int (length (cn_list c))"

definition was_closed :: "'s Assembler \<Rightarrow> 's connection \<Rightarrow> 's Assembler \<Rightarrow> 's connection \<Rightarrow> bool" where
  "was_closed a c a' c' \<longleftrightarrow> cn_closed c' \<and> cn_key c' = cn_key c \<and> as_pool a' = sp_remove (as_pool a) c' \<and> pc_ok (as_pc a')
     \<and> pc_used (as_pc a') = pc_used (as_pc a) - int (length (cn_list c))"

definition handled :: "'s Assembler \<Rightarrow> 's connection \<Rightarrow> 's Assembler \<Rightarrow> 's connection \<Rightarrow> bool" where
  "handled a c a' c' \<longleftrightarrow> same_rest a c a' c' \<and> not_ready c' \<or> was_closed a c a' c'"

lemma same_rest_trans: "same_rest a c a' c' \<Longrightarrow> same_rest a' c' a'' c'' \<Longrightarrow> same_rest a c a'' c''"
  by (simp add: same_rest_def)

lemma handled_trans: "same_rest a c a' c' \<Longrightarrow> handled a' c' a'' c'' \<Longrightarrow> handled a c a'' c''"
  by (auto simp: handled_def same_rest_def was_closed_def)

lemma pc_replace_ok [simp]: "pc_ok c \<Longrightarrow> pc_ok (pc_replace c)" "pc_used (pc_replace c) = pc_used c - 1"
  by (simp_all add: pc_ok_def pc_replace_def)

lemma pc_replace_many: "pc_ok c \<Longrightarrow> pc_ok ((pc_replace ^^ n) c) \<and> pc_used ((pc_replace ^^ n) c) = pc_used c - int n"
  by (induction n) simp_all

lemma pc_next_accounts:
  assumes "pc_ok c"
  shows "\<exists>r c'. pc_next c ts = Some (r, c') \<and> pc_ok c' \<and> pc_used c' = pc_used c + 1"
  using assms by (cases "pc_free c = 0") (auto simp: pc_next_def pc_grow_def pc_ok_def Let_def)

lemma addNext_ok:
  assumes "conn_ok c" "pc_ok (as_pc a)" "cn_list c \<noteq> []"
  shows "\<exists>a' c'. addNextFromConn a c = Some (a', c') \<and> same_rest a c a' c' \<and> as_ret a' \<noteq> [] \<and> as_log a' = as_log a
     \<and> cn_list c' = tl (cn_list c)"
  using assms by (cases "cn_list c") (auto simp: addNextFromConn_def same_rest_def conn_ok_def Let_def split: prod.splits)

lemma addContiguous_ok:
  "conn_ok c \<Longrightarrow> pc_ok (as_pc a) \<Longrightarrow> \<exists>a' c'. addContiguous a c = (a', c') \<and> same_rest a c a' c'
     \<and> (cn_list c' = [] \<or> Difference (cn_nextSeq c') (pg_seq (hd (cn_list c'))) > 0) \<and> (as_ret a \<noteq> [] \<longrightarrow> as_ret a' \<noteq> [])
     \<and> length (cn_list c') \<le> length (cn_list c)"
proof (induction a c rule: addContiguous.induct)
  case (1 a c)
  show ?case
  proof (cases "cn_list c = [] \<or> Difference (cn_nextSeq c) (pg_seq (hd (cn_list c))) > 0")
    case True
    then have "addContiguous a c = (a, c)" by (subst addContiguous.simps) (auto split: list.splits)
    with True 1 show ?thesis by (auto simp: same_rest_def)
  next
    case False
    then obtain p ps where l: "cn_list c = p # ps" "Difference (cn_nextSeq c) (pg_seq p) \<le> 0" by (cases "cn_list c") auto
    obtain a1 c1 where n: "addNextFromConn a c = Some (a1, c1)" "same_rest a c a1 c1" "as_ret a1 \<noteq> []" "cn_list c1 = tl (cn_list c)"
      using addNext_ok [OF 1(2,3)] l by auto
    have "addContiguous a c = addContiguous a1 c1" using l n(1) by (subst addContiguous.simps) simp
    with 1(1) [OF l(1,2) n(1) refl] n l(1) show ?thesis by (auto simp: same_rest_def)
  qed
qed

lemma closeConnection_ok:
  assumes "conn_ok c" "pc_ok (as_pc a)"
  shows "\<exists>a' c'. closeConnection a c = Some (a', c') \<and> was_closed a c a' c'"
  using assms pc_replace_many [OF assms(2)] by (auto simp: closeConnection_def was_closed_def conn_ok_def Let_def)

lemma sendToConnection_ok:
  assumes "conn_ok c" "pc_ok (as_pc a)" "as_ret a \<noteq> []"
  shows "\<exists>a' c'. sendToConnection a c = Some (a', c') \<and> handled a c a' c' \<and> length (cn_list c') \<le> length (cn_list c)"
proof -
  obtain a1 c1 where c1: "addContiguous a c = (a1, c1)" "same_rest a c a1 c1" "not_ready c1" "as_ret a1 \<noteq> []" "length (cn_list c1) \<le> length (cn_list c)"
    using addContiguous_ok [OF assms(1,2)] assms(3) by (auto simp: not_ready_def)
  obtain s where s: "cn_stream c1 = Some s" using c1(2) by (auto simp: same_rest_def conn_ok_def)
  let ?a = "a1\<lparr>as_log := as_log a1 @ [Reassembled s (as_ret a1)]\<rparr>"
  have r: "same_rest a c ?a c1" "conn_ok c1" "pc_ok (as_pc ?a)" using c1(2) by (simp_all add: same_rest_def)
  obtain a2 c2 where c2: "closeConnection ?a c1 = Some (a2, c2)" "was_closed ?a c1 a2 c2" using closeConnection_ok [OF r(2,3)] by blast
  have "cn_list c2 = cn_list c1" using c2(1) s by (auto simp: closeConnection_def Let_def)
  moreover have "handled a c a2 c2" using handled_trans [OF r(1)] c2(2) by (simp add: handled_def)
  moreover have "handled a c ?a c1" using r(1) c1(3) by (simp add: handled_def)
  ultimately show ?thesis using c1 s c2(1) by (cases "ra_End (last (as_ret a1))") (simp_all add: sendToConnection_def Let_def)
qed

lemma skipFlush_ok:
  assumes "conn_ok c" "pc_ok (as_pc a)"
  shows "\<exists>a' c'. skipFlush a c = Some (a', c') \<and> handled a c a' c' \<and> (cn_closed c' \<or> length (cn_list c') < length (cn_list c))"
proof (cases "cn_list c = []")
  case True
  then show ?thesis using closeConnection_ok [OF assms] by (auto simp: skipFlush_def handled_def was_closed_def)
next
  case False
  have pc: "pc_ok (as_pc (a\<lparr>as_ret := []\<rparr>))" using assms(2) by simp
  obtain a1 c1 where n: "addNextFromConn (a\<lparr>as_ret := []\<rparr>) c = Some (a1, c1)" "same_rest (a\<lparr>as_ret := []\<rparr>) c a1 c1" "as_ret a1 \<noteq> []"
      "cn_list c1 = tl (cn_list c)" using addNext_ok [OF assms(1) pc False] by blast
  then have ok1: "conn_ok c1" "pc_ok (as_pc a1)" by (simp_all add: same_rest_def)
  obtain a2 c2 where m: "addContiguous a1 c1 = (a2, c2)" "same_rest a1 c1 a2 c2" "as_ret a2 \<noteq> []" "length (cn_list c2) \<le> length (cn_list c1)"
    using addContiguous_ok [OF ok1] n(3) by auto
  then have ok2: "conn_ok c2" "pc_ok (as_pc a2)" by (simp_all add: same_rest_def)
  obtain a3 c3 where f: "sendToConnection a2 c2 = Some (a3, c3)" "handled a2 c2 a3 c3" "length (cn_list c3) \<le> length (cn_list c2)"
    using sendToConnection_ok [OF ok2 m(3)] by blast
  have "same_rest a c a1 c1" using n(2) by (simp add: same_rest_def)
  then have "handled a c a3 c3" using m(2) f(2) by (blast intro: handled_trans same_rest_trans)
  moreover have "length (cn_list c3) < length (cn_list c)" using False n(4) m(4) f(3) by (cases "cn_list c") auto
  ultimately show ?thesis using False n(1) m(1) f(1) by (simp add: skipFlush_def)
qed

lemma Difference_self [simp]: "Difference s s = 0"
  by (auto simp: Difference_def uint32Size_def)

lemma pages_loop_ok:
  "pc_ok pc \<Longrightarrow> 0 \<le> sq \<Longrightarrow> \<exists>N pc'. pages_loop pc r sq bs fin ts = Some (N, pc') \<and> pc_ok pc' \<and> N \<noteq> [] \<and> pg_seq (hd N) = sq
     \<and> (\<forall>p \<in> set N. 0 \<le> pg_seq p) \<and> pc_used pc' = pc_used pc + int (length N) - 1"
proof (induction "length bs" arbitrary: pc r sq bs rule: less_induct)
  case less
  let ?len = "min (length bs) pageBytes"
  show ?case
  proof (cases "drop ?len bs = []")
    case True
    with less.prems show ?thesis by (subst pages_loop.simps) simp
  next
    case False
    then have short: "length (drop ?len bs) < length bs" by (auto simp: pageBytes_def)
    obtain nr pc1 where n: "pc_next pc ts = Some (nr, pc1)" "pc_ok pc1" "pc_used pc1 = pc_used pc + 1"
      using pc_next_accounts [OF less.prems(1)] by blast
    have "0 \<le> Add sq (int ?len)" by (simp add: Add_def uint32Size_def)
    from less.hyps [OF short n(2) this, of nr] obtain N pc2 where
        N: "pages_loop pc1 nr (Add sq (int ?len)) (drop ?len bs) fin ts = Some (N, pc2)" "pc_ok pc2" "\<forall>p \<in> set N. 0 \<le> pg_seq p"
           "pc_used pc2 = pc_used pc1 + int (length N) - 1" by blast
    have "pages_loop pc r sq bs fin ts = Some (\<lparr>pg_Reassembly = r\<lparr>ra_Bytes := take ?len bs\<rparr>, pg_seq = sq\<rparr> # N, pc2)"
      using False n(1) N(1) by (subst pages_loop.simps) (simp add: Let_def)
    then show ?thesis using N(2-4) n(3) less.prems(2) by simp
  qed
qed

lemma traverse_append: "fst (traverseConn c sq) @ snd (traverseConn c sq) = cn_list c"
proof -
  let ?P = "\<lambda>p. Difference (pg_seq p) sq < 0" and ?L = "cn_list c"
  have L: "?L = rev (dropWhile ?P (rev ?L)) @ rev (takeWhile ?P (rev ?L))" by (metis rev_append rev_rev_ident takeWhile_dropWhile_id)
  then have "take (length ?L - length (takeWhile ?P (rev ?L))) ?L = rev (dropWhile ?P (rev ?L))"
    by (metis add_diff_cancel_right' append_eq_conv_conj length_append length_rev)
  with L show ?thesis by (simp add: traverseConn_def Let_def)
qed

lemma insertIntoConn_ok:
  assumes "conn_ok c" "pc_ok (as_pc a)" "not_ready c" "as_ret a = []"
    and "cn_nextSeq c = invalidSequence \<or> Difference (cn_nextSeq c) (uint (tcp_Seq t)) > 0"
  shows "\<exists>a' c'. insertIntoConn a t c ts = Some (a', c') \<and> same_rest a c a' c' \<and> (as_ret a' = [] \<longrightarrow> not_ready c')"
proof -
  have no_wtf: "\<not> (cn_list c \<noteq> [] \<and> pg_seq (hd (cn_list c)) = cn_nextSeq c)"
  proof
    assume h: "cn_list c \<noteq> [] \<and> pg_seq (hd (cn_list c)) = cn_nextSeq c"
    then have "0 \<le> cn_nextSeq c" using assms(1) by (metis conn_ok_def hd_in_set)
    then show False using assms(3) h by (auto simp: not_ready_def invalidSequence_def)
  qed
  obtain r pc1 where n: "pc_next (as_pc a) ts = Some (r, pc1)" "pc_ok pc1" "pc_used pc1 = pc_used (as_pc a) + 1"
    using pc_next_accounts [OF assms(2)] by blast
  obtain N pc2 where N: "pages_loop pc1 r (uint (tcp_Seq t)) (Payload t) (tcp_RST t \<or> tcp_FIN t) ts = Some (N, pc2)" "pc_ok pc2"
      "N \<noteq> []" "pg_seq (hd N) = uint (tcp_Seq t)" "\<forall>p \<in> set N. 0 \<le> pg_seq p" "pc_used pc2 = pc_used pc1 + int (length N) - 1"
    using pages_loop_ok [OF n(2), of "uint (tcp_Seq t)" r "Payload t" "tcp_RST t \<or> tcp_FIN t" ts] by auto
  then have pages: "pagesFromTCP (as_pc a) t ts = Some (N, pc2)" using n(1) by (simp add: pagesFromTCP_def)
  obtain ps qs where ps: "traverseConn c (uint (tcp_Seq t)) = (ps, qs)" "cn_list c = ps @ qs"
    using traverse_append [of c "uint (tcp_Seq t)"] by (cases "traverseConn c (uint (tcp_Seq t))") auto
  let ?a = "a\<lparr>as_pc := pc2\<rparr>" and ?c = "c\<lparr>cn_list := ps @ N @ qs, cn_pages := cn_pages c + int (length N)\<rparr>"
  have sr: "same_rest a c ?a ?c" using assms(1) N(2,5,6) n(3) ps(2) by (auto simp: same_rest_def conn_ok_def)
  then have ok: "conn_ok ?c" "pc_ok (as_pc ?a)" "cn_list ?c \<noteq> []" using N(3) by (auto simp: same_rest_def)
  have "hd (ps @ N @ qs) = (if ps = [] then hd N else hd (cn_list c))" "ps \<noteq> [] \<Longrightarrow> cn_list c \<noteq> []" using N(3) ps(2) by auto
  then have nr: "not_ready ?c" using assms(3,5) N(4) by (auto simp: not_ready_def)
  obtain a1 c1 where add: "addNextFromConn ?a ?c = Some (a1, c1)" "same_rest ?a ?c a1 c1" "as_ret a1 \<noteq> []" using addNext_ok [OF ok] by blast
  let ?limit = "(MaxBufferedPagesPerConnection a > 0 \<and> cn_pages ?c \<ge> MaxBufferedPagesPerConnection a) \<or>
     (MaxBufferedPagesTotal a > 0 \<and> pc_used pc2 \<ge> MaxBufferedPagesTotal a)"
  have "insertIntoConn a t c ts = (if ?limit then addNextFromConn ?a ?c else Some (?a, ?c))"
    unfolding insertIntoConn_def if_not_P [OF no_wtf] using pages ps(1) by (simp add: pushBetween_def Let_def)
  then show ?thesis using sr nr add same_rest_trans [OF sr add(2)] by (cases ?limit) auto
qed

lemma assemble_conn_ok:
  assumes "conn_ok c" "not_ready c" "pc_ok (as_pc a)" "as_ret a = []"
  shows "\<exists>a' c'. assemble_conn a c t ts = Some (a', c') \<and> handled a c a' c'"
proof -
  let ?c = "if cn_lastSeen c < ts then c\<lparr>cn_lastSeen := ts\<rparr> else c"
  have c: "conn_ok ?c" "not_ready ?c" "cn_list ?c = cn_list c" "cn_nextSeq ?c = cn_nextSeq c" "cn_key ?c = cn_key c"
    using assms(1,2) by (simp_all add: conn_ok_def not_ready_def)
  have first: "handled a c a' c'" if "handled a ?c a' c'" for a' c'
    using that c(3,5) by (simp add: handled_def same_rest_def was_closed_def)
  have direct: "\<exists>a' c'. sendToConnection (a\<lparr>as_ret := [r]\<rparr>) (?c\<lparr>cn_nextSeq := x\<rparr>) = Some (a', c') \<and> handled a c a' c'" for r x
  proof -
    have "conn_ok (?c\<lparr>cn_nextSeq := x\<rparr>)" "pc_ok (as_pc (a\<lparr>as_ret := [r]\<rparr>))" "as_ret (a\<lparr>as_ret := [r]\<rparr>) \<noteq> []"
      using c(1) assms(3) by (simp_all add: conn_ok_def)
    from sendToConnection_ok [OF this] show ?thesis
      using c(3,5) by (auto simp: handled_def same_rest_def was_closed_def)
  qed
  show ?thesis
  proof (cases "(cn_nextSeq c = invalidSequence \<and> \<not> tcp_SYN t) \<or> (cn_nextSeq c \<noteq> invalidSequence \<and> Difference (cn_nextSeq c) (uint (tcp_Seq t)) > 0)")
    case True
    then have "cn_nextSeq ?c = invalidSequence \<or> Difference (cn_nextSeq ?c) (uint (tcp_Seq t)) > 0" using c(4) by auto
    from insertIntoConn_ok [OF c(1) assms(3) c(2) assms(4) this] obtain a1 c1 where
        i: "insertIntoConn a t ?c ts = Some (a1, c1)" "same_rest a ?c a1 c1" "as_ret a1 = [] \<longrightarrow> not_ready c1" by blast
    have eq: "assemble_conn a c t ts = (if as_ret a1 \<noteq> [] then sendToConnection a1 c1 else Some (a1, c1))"
      using True i(1) c(4) by (auto simp: assemble_conn_def Let_def)
    show ?thesis
    proof (cases "as_ret a1 = []")
      case True
      then show ?thesis using eq i first by (auto simp: handled_def)
    next
      case False
      have "conn_ok c1" "pc_ok (as_pc a1)" using i(2) by (simp_all add: same_rest_def)
      from sendToConnection_ok [OF this False] show ?thesis using eq False i(2) first handled_trans by auto blast
    qed
  next
    case False
    then show ?thesis
      using direct assms(4) c(4) by (cases "cn_nextSeq c = invalidSequence") (auto simp: assemble_conn_def Let_def split: prod.split)
  qed
qed

subsection \<open>The pool\<close>

lemma total_pages_update:
  "map_of cs k = Some c \<Longrightarrow> total_pages (AList.update k c' cs) + length (cn_list c) = total_pages cs + length (cn_list c')"
  by (induction cs) (auto simp: total_pages_def split: if_splits)

lemma total_pages_new: "map_of cs k = None \<Longrightarrow> total_pages (AList.update k c' cs) = total_pages cs + length (cn_list c')"
  by (induction cs) (auto simp: total_pages_def split: if_splits)

lemma total_pages_delete:
  "distinct (map fst cs) \<Longrightarrow> map_of cs k = Some c \<Longrightarrow> total_pages (AList.delete k cs) + length (cn_list c) = total_pages cs"
proof (induction cs)
  case (Cons x cs)
  have "k \<notin> fst ` set cs \<Longrightarrow> AList.delete k cs = cs" by (rule delete_id)
  with Cons show ?case by (cases x) (auto simp: total_pages_def split: if_splits)
qed simp

lemma inv_conn:
  assumes "assembler_inv a" "map_of (sp_conns (as_pool a)) k = Some c"
  shows "conn_ok c" "not_ready c" "cn_key c = Some k" "pc_ok (as_pc a)"
  using assms unfolding assembler_inv_def by blast+

lemma inv_factory: "assembler_inv a \<Longrightarrow> sp_factory (as_pool a) n t \<noteq> None"
  unfolding assembler_inv_def by blast

lemma handled_inv:
  assumes inv: "assembler_inv a" "map_of (sp_conns (as_pool a)) k = Some c" and h: "handled a c a' c'"
  shows "assembler_inv (save_conn (a', c') k)"
proof (cases "cn_closed c'")
  case True
  note ok = inv_conn(1,3) [OF inv]
  have w: "cn_key c' = Some k" "as_pool a' = sp_remove (as_pool a) c'" "pc_ok (as_pc a')"
      "pc_used (as_pc a') = pc_used (as_pc a) - int (length (cn_list c))"
    using h True ok(2) by (auto simp: handled_def same_rest_def conn_ok_def was_closed_def)
  have p: "sp_conns (as_pool a') = AList.delete k (sp_conns (as_pool a))" "sp_nextAlloc (as_pool a') = sp_nextAlloc (as_pool a)"
      "sp_factory (as_pool a') = sp_factory (as_pool a)" using w(1,2) by (simp_all add: sp_remove_def)
  have d: "distinct (map fst (sp_conns (as_pool a)))" using inv(1) by (simp add: assembler_inv_def)
  have "total_pages (sp_conns (as_pool a')) + length (cn_list c) = total_pages (sp_conns (as_pool a))"
    unfolding p(1) by (rule total_pages_delete [OF d inv(2)])
  moreover have "pc_used (as_pc a) = int (total_pages (sp_conns (as_pool a)))" using inv(1) by (simp add: assembler_inv_def)
  ultimately have "pc_used (as_pc a') = int (total_pages (sp_conns (as_pool a')))" using w(4) by simp
  then show ?thesis using True inv(1) w(3) p d
    by (simp add: save_conn_def assembler_inv_def distinct_delete delete_conv')
next
  case False
  have s: "same_rest a c a' c'" "not_ready c'" using h False by (auto simp: handled_def was_closed_def)
  note ok = inv_conn(3) [OF inv]
  have "total_pages (AList.update k c' (sp_conns (as_pool a))) + length (cn_list c) = total_pages (sp_conns (as_pool a)) + length (cn_list c')"
    by (rule total_pages_update [OF inv(2)])
  moreover have "pc_used (as_pc a) = int (total_pages (sp_conns (as_pool a)))" using inv(1) by (simp add: assembler_inv_def)
  moreover have "pc_used (as_pc a') - int (length (cn_list c')) = pc_used (as_pc a) - int (length (cn_list c))"
    using s(1) by (simp add: same_rest_def)
  ultimately have "pc_used (as_pc a') = int (total_pages (AList.update k c' (sp_conns (as_pool a))))" by linarith
  then show ?thesis using False inv(1) s ok
    by (simp add: save_conn_def assembler_inv_def same_rest_def distinct_update update_conv')
qed

lemma getConnection_inv:
  assumes "assembler_inv a"
  shows "\<exists>co a1. getConnection a k end ts = Some (co, a1) \<and> assembler_inv a1 \<and> as_ret a1 = as_ret a
     \<and> (\<forall>c. co = Some c \<longrightarrow> map_of (sp_conns (as_pool a1)) k = Some c)"
proof (cases "end \<or> map_of (sp_conns (as_pool a)) k \<noteq> None")
  case True
  then show ?thesis using assms by (auto simp: getConnection_def Let_def)
next
  case False
  then have None: "map_of (sp_conns (as_pool a)) k = None" by simp
  obtain s where s: "sp_factory (as_pool a) (fst k) (snd k) = Some s" using inv_factory [OF assms] by blast
  define p where "p = (if sp_free (as_pool a) = [] then sp_grow (as_pool a) else as_pool a)"
  define c where "c = cn_reset (last (sp_free p)) k (Some s) ts"
  let ?a = "a\<lparr>as_pool := p\<lparr>sp_free := butlast (sp_free p), sp_conns := AList.update k c (sp_conns p)\<rparr>, as_log := as_log a @ [New k]\<rparr>"
  have p: "sp_factory p = sp_factory (as_pool a)" "0 < sp_nextAlloc p" "sp_conns p = sp_conns (as_pool a)" "sp_free p \<noteq> []"
    using assms by (simp_all add: p_def sp_grow_def assembler_inv_def)
  have "newConnection (as_pool a) k (Some s) ts = Some (c, p\<lparr>sp_free := butlast (sp_free p)\<rparr>)"
    unfolding newConnection_def Let_def p_def [symmetric] c_def using p(4) by (rule if_not_P)
  then have "getConnection a k end ts = Some (Some c, ?a)" using False s by (simp add: getConnection_def)
  moreover have c: "conn_ok c" "not_ready c" "cn_key c = Some k" "cn_list c = []" by (simp_all add: c_def conn_ok_def not_ready_def cn_reset_def)
  moreover have "assembler_inv ?a"
    using assms p(1-3) c total_pages_new [OF None, of c]
    by (simp add: assembler_inv_def distinct_update update_conv')
  ultimately show ?thesis by (simp add: update_conv')
qed

lemma Assemble_inv:
  assumes "assembler_inv a" "TCP_TransportFlow t = Some tf"
  shows "\<exists>a'. AssembleWithTimestamp a nf t ts = Some a' \<and> assembler_inv a'"
proof -
  have inv: "assembler_inv (a\<lparr>as_ret := []\<rparr>)" using assms(1) by (simp add: assembler_inv_def)
  obtain co a1 where g: "getConnection (a\<lparr>as_ret := []\<rparr>) (nf, tf) (\<not> tcp_SYN t \<and> Payload t = []) ts = Some (co, a1)" "assembler_inv a1"
      "as_ret a1 = []" "\<forall>c. co = Some c \<longrightarrow> map_of (sp_conns (as_pool a1)) (nf, tf) = Some c"
    using getConnection_inv [OF inv, of "(nf, tf)"] by (metis Assembler.select_convs(3) Assembler.surjective Assembler.update_convs(3))
  show ?thesis
  proof (cases co)
    case None
    then show ?thesis using g assms by (simp add: AssembleWithTimestamp_def)
  next
    case (Some c)
    then have c: "map_of (sp_conns (as_pool a1)) (nf, tf) = Some c" "conn_ok c" "not_ready c" "pc_ok (as_pc a1)"
      using g(4) inv_conn [OF g(2)] by blast+
    obtain a2 c2 where r: "assemble_conn a1 c t ts = Some (a2, c2)" "handled a1 c a2 c2" using assemble_conn_ok [OF c(2-4) g(3)] by blast
    have "assembler_inv (save_conn (a2, c2) (nf, tf))" by (rule handled_inv [OF g(2) c(1) r(2)])
    then show ?thesis using g(1) Some c(2) r(1) assms by (simp add: AssembleWithTimestamp_def conn_ok_def)
  qed
qed

subsection \<open>Flushing\<close>

lemma handled_refl: "conn_ok c \<Longrightarrow> not_ready c \<Longrightarrow> pc_ok (as_pc a) \<Longrightarrow> handled a c a c"
  by (simp add: handled_def same_rest_def)

lemma flush_loop_ok:
  "conn_ok c \<Longrightarrow> not_ready c \<Longrightarrow> pc_ok (as_pc a) \<Longrightarrow> \<exists>a' c' f. flush_loop a c T fl = Some (a', c', f) \<and> handled a c a' c'"
proof (induction "length (cn_list c)" arbitrary: a c fl rule: less_induct)
  case less
  obtain a1 c1 where s: "skipFlush a c = Some (a1, c1)" "handled a c a1 c1" "cn_closed c1 \<or> length (cn_list c1) < length (cn_list c)"
    using skipFlush_ok [OF less.prems(1,3)] by blast
  show ?case
  proof (cases "cn_list c \<noteq> [] \<and> ra_Seen (pg_Reassembly (hd (cn_list c))) < T")
    case False
    then have "flush_loop a c T fl = Some (a, c, fl)" by (subst flush_loop.simps) (auto split: list.splits)
    then show ?thesis using handled_refl [OF less.prems] by blast
  next
    case True
    then obtain p ps where l: "cn_list c = p # ps" "ra_Seen (pg_Reassembly p) < T" by (cases "cn_list c") auto
    show ?thesis
    proof (cases "cn_closed c1")
      case True
      then have "flush_loop a c T fl = Some (a1, c1, True)" using l s(1) by (subst flush_loop.simps) simp
      then show ?thesis using s(2) by blast
    next
      case False
      then have sr: "same_rest a c a1 c1" "not_ready c1" using s(2) by (auto simp: handled_def was_closed_def)
      then have ok: "conn_ok c1" "pc_ok (as_pc a1)" by (simp_all add: same_rest_def)
      have "flush_loop a c T fl = flush_loop a1 c1 T True" using l s(1,3) False by (subst flush_loop.simps) simp
      then show ?thesis using less.hyps [OF _ ok(1) sr(2) ok(2), of True] s(3) False handled_trans [OF sr(1)] by metis
    qed
  qed
qed

lemma flush_conn_ok:
  assumes "conn_ok c" "not_ready c" "pc_ok (as_pc a)"
  shows "\<exists>a' c' f n. flush_conn a c opt = Some (a', c', f, n) \<and> handled a c a' c'"
proof -
  obtain a1 c1 f where l: "flush_loop a c (fo_T opt) False = Some (a1, c1, f)" "handled a c a1 c1" using flush_loop_ok [OF assms] by blast
  show ?thesis
  proof (cases "fo_CloseAll opt \<and> \<not> cn_closed c1 \<and> cn_list c1 = [] \<and> cn_lastSeen c1 < fo_T opt")
    case True
    then have sr: "same_rest a c a1 c1" using l(2) by (auto simp: handled_def was_closed_def)
    then obtain a2 c2 where "closeConnection a1 c1 = Some (a2, c2)" "was_closed a1 c1 a2 c2"
      using closeConnection_ok [of c1 a1] by (auto simp: same_rest_def)
    moreover from this(2) have "handled a c a2 c2" using handled_trans [OF sr] by (simp add: handled_def)
    ultimately show ?thesis using True l assms(1) by (simp add: flush_conn_def conn_ok_def Let_def)
  next
    case False
    then show ?thesis using l assms(1) by (auto simp: flush_conn_def conn_ok_def Let_def)
  qed
qed

lemma flush_conns_inv: "assembler_inv a \<Longrightarrow> \<exists>a' f n. flush_conns a ks opt = Some (a', f, n) \<and> assembler_inv a'"
proof (induction ks arbitrary: a)
  case (Cons k ks)
  show ?case
  proof (cases "map_of (sp_conns (as_pool a)) k")
    case (Some c)
    then have c: "conn_ok c" "not_ready c" "pc_ok (as_pc a)" using inv_conn [OF Cons.prems] by blast+
    obtain a1 c1 f n where r: "flush_conn a c opt = Some (a1, c1, f, n)" "handled a c a1 c1" using flush_conn_ok [OF c] by metis
    have "assembler_inv (save_conn (a1, c1) k)" by (rule handled_inv [OF Cons.prems Some r(2)])
    from Cons.IH [OF this] show ?thesis using Some r(1) by auto
  qed (use Cons in simp)
qed simp

lemma skip_all_ok:
  "conn_ok c \<Longrightarrow> pc_ok (as_pc a) \<Longrightarrow> \<exists>a' c'. skip_all a c = Some (a', c') \<and> was_closed a c a' c'"
proof (induction "length (cn_list c)" arbitrary: a c rule: less_induct)
  case less
  obtain a1 c1 where s: "skipFlush a c = Some (a1, c1)" "handled a c a1 c1" "cn_closed c1 \<or> length (cn_list c1) < length (cn_list c)"
    using skipFlush_ok [OF less.prems] by blast
  have nc: "\<not> cn_closed c" using less.prems(1) by (simp add: conn_ok_def)
  show ?case
  proof (cases "cn_closed c1")
    case True
    then have "was_closed a c a1 c1" using s(2) by (auto simp: handled_def same_rest_def conn_ok_def)
    then show ?thesis using s(1) nc True by (subst skip_all.simps) simp
  next
    case False
    then have sr: "same_rest a c a1 c1" using s(2) by (auto simp: handled_def was_closed_def)
    then have "conn_ok c1" "pc_ok (as_pc a1)" by (simp_all add: same_rest_def)
    then obtain a2 c2 where "skip_all a1 c1 = Some (a2, c2)" "was_closed a1 c1 a2 c2" using less.hyps s(3) False by blast
    moreover have "skip_all a c = skip_all a1 c1" using s(1,3) nc False by (subst skip_all.simps) simp
    moreover have "was_closed a c a2 c2" using calculation(2) sr by (simp add: was_closed_def same_rest_def)
    ultimately show ?thesis by auto
  qed
qed

lemma flush_all_inv:
  "assembler_inv a \<Longrightarrow> \<exists>a'. flush_all_conns a ks = Some a' \<and> assembler_inv a' \<and> fst ` set (sp_conns (as_pool a')) = fst ` set (sp_conns (as_pool a)) - set ks"
proof (induction ks arbitrary: a)
  case (Cons k ks)
  show ?case
  proof (cases "map_of (sp_conns (as_pool a)) k")
    case None
    then have "k \<notin> fst ` set (sp_conns (as_pool a))" by (simp add: map_of_eq_None_iff)
    then show ?thesis using Cons.IH [OF Cons.prems] None by auto
  next
    case (Some c)
    then have c: "conn_ok c" "pc_ok (as_pc a)" "cn_key c = Some k" using inv_conn [OF Cons.prems] by blast+
    obtain a1 c1 where r: "skip_all a c = Some (a1, c1)" "was_closed a c a1 c1" using skip_all_ok [OF c(1,2)] by blast
    have inv: "assembler_inv (save_conn (a1, c1) k)" using handled_inv [OF Cons.prems Some, of a1 c1] r(2) by (simp add: handled_def)
    have "fst ` set (sp_conns (as_pool (save_conn (a1, c1) k))) = fst ` set (sp_conns (as_pool a)) - {k}"
    proof -
      have "set (map fst (AList.delete k (sp_conns (as_pool a)))) = set (map fst (sp_conns (as_pool a))) - {k}"
        by (simp only: delete_keys set_removeAll)
      then show ?thesis using r(2) c(3) by (simp add: save_conn_def was_closed_def sp_remove_def)
    qed
    then show ?thesis using Cons.IH [OF inv] Some r(1) by auto
  qed
qed simp

subsection \<open>The theorems\<close>

lemma NewAssembler_inv:
  "\<forall>n t. factory n t \<noteq> None \<Longrightarrow> assembler_inv (NewAssembler (NewStreamPool factory t0))"
  by (simp add: assembler_inv_def NewAssembler_def NewStreamPool_def initialAllocSize_def newPageCache_def pc_grow_def pc_ok_def total_pages_def)

text \<open>C2. The assembler's invariant: with a factory that returns streams, a new assembler satisfies it, and every packet of
  every flow is handled without a panic and keeps it, as do the calls that flush. In particular the pages in use are always
  exactly the pages in the lists of the open connections, whose counters are right.\<close>

theorem assembler_invariant:
  "((\<forall>n t. factory n t \<noteq> None) \<longrightarrow> assembler_inv (NewAssembler (NewStreamPool factory t0)))
   \<and> (assembler_inv a \<and> TCP_TransportFlow p \<noteq> None \<longrightarrow> (\<exists>a'. AssembleWithTimestamp a netFlow p ts = Some a' \<and> assembler_inv a'))
   \<and> (assembler_inv a \<longrightarrow> (\<exists>a' flushed closed. FlushWithOptions a opt = Some (a', flushed, closed) \<and> assembler_inv a'))"
proof (intro conjI impI)
  show "assembler_inv (NewAssembler (NewStreamPool factory t0))" if "\<forall>n t. factory n t \<noteq> None" by (rule NewAssembler_inv [OF that])
  show "\<exists>a'. AssembleWithTimestamp a netFlow p ts = Some a' \<and> assembler_inv a'" if "assembler_inv a \<and> TCP_TransportFlow p \<noteq> None"
    using that Assemble_inv by blast
  show "\<exists>a' flushed closed. FlushWithOptions a opt = Some (a', flushed, closed) \<and> assembler_inv a'" if "assembler_inv a"
    unfolding FlushWithOptions_def by (rule flush_conns_inv [OF that])
qed

theorem assembler_invariant_witness:
  "\<exists>a'. AssembleWithTimestamp (NewAssembler (NewStreamPool (\<lambda>_ _. Some ()) 0)) InvalidFlow
      (zero_TCP\<lparr>tcp_FIN := True, Payload := [1]\<rparr>) 3 = Some a' \<and> assembler_inv a'"
proof -
  let ?a = "NewAssembler (NewStreamPool (\<lambda>_ _. Some ()) 0)" and ?t = "zero_TCP\<lparr>tcp_FIN := True, Payload := [1]\<rparr>"
  have "TCP_TransportFlow ?t \<noteq> None" by (simp add: TCP_TransportFlow_def NewFlow_def zero_TCP_def)
  moreover have "assembler_inv ?a" by (rule NewAssembler_inv) simp
  ultimately show ?thesis
    using assembler_invariant [of "\<lambda>_ _. Some ()" 0 ?a ?t InvalidFlow 3 "\<lparr>fo_T = 0, fo_CloseAll = True\<rparr>"] by blast
qed

text \<open>C3. Flushing everything ends, closes every connection, gives all pages back to the cache and returns the number of
  connections there were.\<close>

theorem FlushAll_empties:
  assumes "assembler_inv a"
  shows "\<exists>a'. FlushAll a = Some (a', length (sp_conns (as_pool a))) \<and> assembler_inv a' \<and> sp_conns (as_pool a') = []
     \<and> pc_used (as_pc a') = 0 \<and> pc_free (as_pc a') = pc_size (as_pc a')"
proof -
  obtain a' where a': "flush_all_conns a (map fst (sp_conns (as_pool a))) = Some a'" "assembler_inv a'"
      "fst ` set (sp_conns (as_pool a')) = fst ` set (sp_conns (as_pool a)) - set (map fst (sp_conns (as_pool a)))"
    using flush_all_inv [OF assms] by blast
  then have "sp_conns (as_pool a') = []" by simp
  moreover from this have "pc_used (as_pc a') = 0" "pc_free (as_pc a') = pc_size (as_pc a')"
    using a'(2) by (simp_all add: assembler_inv_def total_pages_def pc_ok_def)
  ultimately show ?thesis using a'(1,2) by (simp add: FlushAll_def)
qed

theorem FlushAll_empties_witness:
  "\<exists>a'. FlushAll (NewAssembler (NewStreamPool (\<lambda>_ _. Some ()) 0)) = Some (a', 0) \<and> pc_used (as_pc a') = 0"
proof -
  have "assembler_inv (NewAssembler (NewStreamPool (\<lambda>_ _. Some ()) 0))" by (rule NewAssembler_inv) simp
  from FlushAll_empties [OF this] show ?thesis by (auto simp: NewAssembler_def NewStreamPool_def)
qed

end
