(* ===== verification/Ip4_Defrag.thy ===== *)
theory Ip4_Defrag
  imports Layer_IPv4 "HOL-Library.AList"
begin

section \<open>IPv4 defragmentation (\<^verbatim>\<open>ip4defrag/defrag.go\<close>)\<close>

text \<open>
  The fragment lists of the flows between two addresses with one identification, the insertion of a fragment with the
  counters that decide when a datagram is complete, and the construction of the datagram. Offsets and lengths are 16-bit
  words that wrap as in the source. The map of flows is an association list; locks and debug output are left out.
\<close>

definition IPv4MinimumFragmentSize :: u16 where
  "IPv4MinimumFragmentSize = 8"

definition IPv4MaximumSize :: u16 where
  "IPv4MaximumSize = 65535"

definition IPv4MaximumFragmentOffset :: u16 where
  "IPv4MaximumFragmentOffset = 8183"

definition IPv4MaximumFragmentListLen :: nat where
  "IPv4MaximumFragmentListLen = 8192"

abbreviation (input) IPv4DontFragment :: u8 where "IPv4DontFragment \<equiv> 2"
abbreviation (input) IPv4MoreFragments :: u8 where "IPv4MoreFragments \<equiv> 1"

definition dontDefrag :: "IPv4 \<Rightarrow> bool" where
  "dontDefrag ip \<longleftrightarrow>
     (if ip_Flags ip AND IPv4DontFragment \<noteq> 0 then True
      else if ip_Flags ip AND IPv4MoreFragments = 0 \<and> ip_FragOffset ip = 0 then True
      else False)"

definition securityChecks :: "IPv4 \<Rightarrow> goerr option" where
  "securityChecks ip =
     (let fragSize = ip_Length ip - ucast (ip_IHL ip) * 4
      in if fragSize < IPv4MinimumFragmentSize
         then Some (Errorf ''defrag: fragment too small (handcrafted? %d < %d)'' [uint fragSize, uint IPv4MinimumFragmentSize])
         else if ip_FragOffset ip > IPv4MaximumFragmentOffset
         then Some (Errorf ''defrag: fragment offset too big (handcrafted? %d > %d)'' [uint (ip_FragOffset ip), uint IPv4MaximumFragmentOffset])
         else let fragOffset = ip_FragOffset ip * 8
              in if fragOffset + ip_Length ip > IPv4MaximumSize
                 then Some (Errorf ''defrag: fragment will overrun (handcrafted? %d > %d)'' [uint (fragOffset + ip_Length ip), uint IPv4MaximumSize])
                 else None)"

record fragmentList =
  fl_List :: "IPv4 list"
  fl_Highest :: u16
  fl_Current :: u16
  fl_FinalReceived :: bool
  fl_LastSeen :: int

definition new_fragmentList :: "int \<Rightarrow> fragmentList" where
  "new_fragmentList t0 = \<lparr>fl_List = [], fl_Highest = 0, fl_Current = 0, fl_FinalReceived = False, fl_LastSeen = t0\<rparr>"

text \<open>The loop of \<^verbatim>\<open>build\<close>: the payload so far and the offset reached. The outer \<open>None\<close> is a slice panic.\<close>

fun build_loop :: "IPv4 list \<Rightarrow> bytes \<Rightarrow> u16 \<Rightarrow> (goerr + bytes) option" where
  "build_loop [] final currentOffset = Some (Inr final)"
| "build_loop (frag # es) final currentOffset =
     (if ip_FragOffset frag * 8 = currentOffset
      then build_loop es (final @ Payload frag) (currentOffset + ip_Length frag - 20)
      else if ip_FragOffset frag * 8 < currentOffset
      then let startAt = currentOffset - ip_FragOffset frag * 8
           in if startAt > ip_Length frag - 20 then Some (Inl (Errorf ''defrag: building - invalid fragment'' []))
              else do {
                rest \<leftarrow> slice (Payload frag) (unat startAt) (length (Payload frag));
                build_loop es (final @ rest) (currentOffset + ip_FragOffset frag * 8) }
      else Some (Inl (Errorf ''defrag: building - hole found'' [])))"

definition build :: "fragmentList \<Rightarrow> IPv4 \<Rightarrow> (goerr + IPv4) option" where
  "build f ip = do {
     r \<leftarrow> build_loop (fl_List f) [] 0;
     Some (case r of
         Inl e \<Rightarrow> Inl e
       | Inr final \<Rightarrow> Inr \<lparr>Contents = [], Payload = final, ip_Version = ip_Version ip, ip_IHL = ip_IHL ip, ip_TOS = ip_TOS ip,
             ip_Length = fl_Highest f, ip_Id = ip_Id ip, ip_Flags = 0, ip_FragOffset = 0, ip_TTL = ip_TTL ip, ip_Protocol = ip_Protocol ip,
             ip_Checksum = 0, ip_SrcIP = ip_SrcIP ip, ip_DstIP = ip_DstIP ip, ip_Options = ip_Options ip, ip_Padding = ip_Padding ip\<rparr>)
   }"

text \<open>The loop that looks for the place of a fragment; \<open>None\<close> when one with its offset is there. A fragment behind all
  stored ones is not inserted.\<close>

fun insert_scan :: "IPv4 \<Rightarrow> IPv4 list \<Rightarrow> IPv4 list option" where
  "insert_scan ip [] = Some []"
| "insert_scan ip (frag # es) =
     (if ip_FragOffset ip = ip_FragOffset frag then None
      else if ip_FragOffset ip < ip_FragOffset frag then Some (ip # frag # es)
      else map_option ((#) frag) (insert_scan ip es))"

definition insert_counters :: "fragmentList \<Rightarrow> IPv4 list \<Rightarrow> IPv4 \<Rightarrow> int \<Rightarrow> fragmentList" where
  "insert_counters f l ip t =
     (let fragOffset = ip_FragOffset ip * 8; fragLength = ip_Length ip - 20
      in f\<lparr>fl_List := l, fl_LastSeen := t,
           fl_Highest := (if fl_Highest f < fragOffset + fragLength then fragOffset + fragLength else fl_Highest f),
           fl_Current := fl_Current f + fragLength,
           fl_FinalReceived := (if ip_Flags ip AND IPv4MoreFragments = 0 then True else fl_FinalReceived f)\<rparr>)"

definition fl_insert :: "fragmentList \<Rightarrow> IPv4 \<Rightarrow> int \<Rightarrow> (fragmentList \<times> IPv4 option \<times> goerr option) option" where
  "fl_insert f ip t =
     (case (if ip_FragOffset ip * 8 \<ge> fl_Highest f then Some (fl_List f @ [ip]) else insert_scan ip (fl_List f)) of
        None \<Rightarrow> Some (f, None, None)
      | Some l \<Rightarrow>
          let f1 = insert_counters f l ip t
          in if fl_FinalReceived f1 \<and> fl_Highest f1 = fl_Current f1
             then do { r \<leftarrow> build f1 ip; Some (case r of Inl e \<Rightarrow> (f1, None, Some e) | Inr out \<Rightarrow> (f1, Some out, None)) }
             else Some (f1, None, None))"

type_synonym ipv4_key = "Flow \<times> u16"

definition newIPv4 :: "IPv4 \<Rightarrow> ipv4_key option" where
  "newIPv4 ip = map_option (\<lambda>f. (f, ip_Id ip)) (IPv4_NetworkFlow ip)"

type_synonym IPv4Defragmenter = "(ipv4_key \<times> fragmentList) list"

definition NewIPv4Defragmenter :: IPv4Defragmenter where
  "NewIPv4Defragmenter = []"

definition defrag_flush :: "IPv4Defragmenter \<Rightarrow> ipv4_key \<Rightarrow> IPv4Defragmenter" where
  "defrag_flush d ipf = AList.delete ipf d"

definition DefragIPv4WithTimestamp :: "IPv4Defragmenter \<Rightarrow> IPv4 \<Rightarrow> int \<Rightarrow> (IPv4Defragmenter \<times> IPv4 option \<times> goerr option) option" where
  "DefragIPv4WithTimestamp d ip t =
     (if dontDefrag ip then Some (d, Some ip, None)
      else case securityChecks ip of
        Some err \<Rightarrow> Some (d, None, Some err)
      | None \<Rightarrow> do {
          ipf \<leftarrow> newIPv4 ip;
          let fl = (case map_of d ipf of None \<Rightarrow> new_fragmentList 0 | Some fl \<Rightarrow> fl);
          (fl1, out, err2) \<leftarrow> fl_insert fl ip t;
          let d1 = AList.update ipf fl1 d;
          Some (if out = None \<and> length (fl_List fl1) + 1 > IPv4MaximumFragmentListLen
                then (defrag_flush d1 ipf, None,
                      Some (Errorf ''defrag: Fragment List hits its maximumsize(%d), without success. Flushing the list''
                              [int IPv4MaximumFragmentListLen]))
                else if out \<noteq> None then (defrag_flush d1 ipf, out, None)
                else (d1, None, err2)) })"

definition DiscardOlderThan :: "IPv4Defragmenter \<Rightarrow> int \<Rightarrow> IPv4Defragmenter \<times> nat" where
  "DiscardOlderThan d t = (filter (\<lambda>(k, v). \<not> fl_LastSeen v < t) d, length (filter (\<lambda>(k, v). fl_LastSeen v < t) d))"

subsection \<open>Fragments of a datagram\<close>

text \<open>\<open>cuts_ok a cs\<close>: consecutive pieces, given by offset and length, from offset \<open>a\<close> on, all of at least eight bytes and
  all but the last of a multiple of eight bytes.\<close>

fun cuts_ok :: "nat \<Rightarrow> (nat \<times> nat) list \<Rightarrow> bool" where
  "cuts_ok a [] \<longleftrightarrow> True"
| "cuts_ok a ((b, n) # cs) \<longleftrightarrow> b = a \<and> 8 \<le> n \<and> 8 dvd a \<and> cuts_ok (a + n) cs"

definition cuts_end :: "(nat \<times> nat) list \<Rightarrow> nat" where
  "cuts_end cs = (if cs = [] then 0 else fst (last cs) + snd (last cs))"

text \<open>The fragment of the datagram \<open>D\<close> for one piece, with a header of 20 bytes.\<close>

definition frag_of :: "bytes \<Rightarrow> nat \<times> nat \<Rightarrow> IPv4 \<Rightarrow> bool" where
  "frag_of D c f \<longleftrightarrow> unat (ip_FragOffset f) * 8 = fst c \<and> fst c + snd c \<le> length D \<and> Payload f = take (snd c) (drop (fst c) D)
     \<and> ip_Length f = of_nat (20 + snd c) \<and> ip_IHL f = 5 \<and> ip_Flags f = (if fst c + snd c = length D then 0 else 1)"

lemma cuts_sorted: "cuts_ok a cs \<Longrightarrow> (b, n) \<in> set cs \<Longrightarrow> a \<le> b \<and> 8 \<le> n"
proof (induction a cs rule: cuts_ok.induct)
  case (2 a b' n' cs)
  then show ?case by fastforce
qed simp

lemma cuts_ok_append: "cuts_ok a (xs @ (b, n) # ys) \<Longrightarrow> cuts_ok (b + n) ys \<and> (\<forall>(b', n') \<in> set xs. b' + n' \<le> b) \<and> 8 \<le> n \<and> a \<le> b"
proof (induction a xs rule: cuts_ok.induct)
  case (2 a b' n' xs)
  then have "cuts_ok (b' + n') (xs @ (b, n) # ys)" by simp
  with 2 show ?case by fastforce
qed simp

lemma frag_words:
  assumes "frag_of D c f" and "length D \<le> 65515"
  shows "unat (ip_FragOffset f * 8) = fst c" "unat (ip_Length f - 20) = snd c" "ip_Length f - 20 = of_nat (snd c)"
    "length (Payload f) = snd c" "unat (ip_FragOffset f) * 8 = fst c"
proof -
  have c: "unat (ip_FragOffset f) * 8 = fst c" "fst c + snd c \<le> length D" "ip_Length f = of_nat (20 + snd c)"
    "Payload f = take (snd c) (drop (fst c) D)" using assms(1) by (simp_all add: frag_of_def)
  show "unat (ip_FragOffset f) * 8 = fst c" by (rule c(1))
  show "unat (ip_FragOffset f * 8) = fst c" using c assms(2) by (simp add: unat_word_ariths)
  show l: "ip_Length f - 20 = of_nat (snd c)" by (simp add: c(3))
  show "unat (ip_Length f - 20) = snd c" unfolding l using c(2) assms(2) by (intro unat_of_nat_u16) simp
  show "length (Payload f) = snd c" using c(2,4) by simp
qed

lemma frag_compare:
  assumes "frag_of D c f" "frag_of D c' f'"
  shows "ip_FragOffset f = ip_FragOffset f' \<longleftrightarrow> fst c = fst c'" "ip_FragOffset f < ip_FragOffset f' \<longleftrightarrow> fst c < fst c'"
proof -
  have "unat (ip_FragOffset f) * 8 = fst c" "unat (ip_FragOffset f') * 8 = fst c'" using assms by (simp_all add: frag_of_def)
  then show "ip_FragOffset f = ip_FragOffset f' \<longleftrightarrow> fst c = fst c'" "ip_FragOffset f < ip_FragOffset f' \<longleftrightarrow> fst c < fst c'"
    by (auto simp: word_less_nat_alt word_unat_eq_iff)
qed

lemma insert_scan_place:
  assumes "frag_of D c ip" "list_all2 (frag_of D) cs pre" "\<forall>c' \<in> set cs. fst c' < fst c"
  shows "frag_of D c' g \<Longrightarrow> fst c < fst c' \<Longrightarrow> insert_scan ip (pre @ g # post) = Some (pre @ ip # g # post)"
    and "frag_of D c g \<Longrightarrow> insert_scan ip (pre @ g # post) = None"
  using assms(2,3)
  by (induction cs pre rule: list_all2_induct) (auto simp: frag_compare [OF assms(1)])

lemma build_loop_frags:
  assumes "list_all2 (frag_of D) cs L" "cuts_ok a cs" "length D \<le> 65515" "cs \<noteq> [] \<Longrightarrow> cuts_end cs = length D" "cs = [] \<Longrightarrow> a = length D" "a \<le> length D"
  shows "build_loop L final (of_nat a) = Some (Inr (final @ drop a D))"
  using assms(1,2,4-)
proof (induction cs L arbitrary: a final rule: list_all2_induct)
  case (Cons c cs f L)
  obtain n where c: "c = (a, n)" "cuts_ok (a + n) cs" using Cons.prems(1) by (cases c) auto
  note w = frag_words [OF Cons.hyps(1) assms(3)]
  have le: "a + n \<le> length D" "Payload f = take n (drop a D)" using Cons.hyps(1) c(1) by (simp_all add: frag_of_def)
  have "unat (of_nat a :: u16) = a" using le(1) assms(3) by (intro unat_of_nat_u16) simp
  then have "ip_FragOffset f * 8 = of_nat a" using w(1) c(1) by (simp add: word_unat_eq_iff)
  moreover have "of_nat a + ip_Length f - 20 = (of_nat (a + n) :: u16)" using w(3) c(1) by (simp add: algebra_simps)
  moreover have "build_loop L (final @ Payload f) (of_nat (a + n)) = Some (Inr ((final @ Payload f) @ drop (a + n) D))"
  proof (rule Cons.IH [OF c(2)])
    show "cs \<noteq> [] \<Longrightarrow> cuts_end cs = length D" using Cons.prems(2) by (simp add: cuts_end_def)
    show "cs = [] \<Longrightarrow> a + n = length D" using Cons.prems(2) c(1) by (simp add: cuts_end_def)
  qed (rule le(1))
  moreover have "Payload f @ drop (a + n) D = drop a D" using le(2) by (metis add.commute append_take_drop_id drop_drop)
  ultimately show ?case by (simp del: of_nat_add)
qed simp

subsection \<open>The state of a flow\<close>

definition frag_state :: "bytes \<Rightarrow> (nat \<times> nat) list \<Rightarrow> (nat \<times> nat) set \<Rightarrow> fragmentList \<Rightarrow> bool" where
  "frag_state D cuts R f \<longleftrightarrow> (let cs = filter (\<lambda>c. c \<in> R) cuts in
     list_all2 (frag_of D) cs (fl_List f) \<and> unat (fl_Highest f) = cuts_end cs \<and> unat (fl_Current f) = sum_list (map snd cs)
     \<and> (fl_FinalReceived f \<longleftrightarrow> (\<exists>c \<in> set cs. fst c + snd c = length D)))"

definition datagram :: "bytes \<Rightarrow> (nat \<times> nat) list \<Rightarrow> bool" where
  "datagram D cuts \<longleftrightarrow> cuts_ok 0 cuts \<and> cuts \<noteq> [] \<and> cuts_end cuts = length D \<and> length D \<le> 65515
     \<and> (\<forall>c \<in> set cuts. fst c \<le> 65464)"

lemma cuts_sum: "cuts_ok a cs \<Longrightarrow> cs \<noteq> [] \<Longrightarrow> a + sum_list (map snd cs) = cuts_end cs"
proof (induction a cs rule: cuts_ok.induct)
  case (2 a b n cs)
  then show ?case by (cases cs) (auto simp: cuts_end_def)
qed simp

lemma sum_filter_le: "sum_list (map snd (filter P cs)) \<le> sum_list (map snd cs)" for cs :: "(nat \<times> nat) list"
  by (induction cs) auto

lemma sum_filter_less: "c \<in> set cs \<Longrightarrow> \<not> P c \<Longrightarrow> 0 < snd c \<Longrightarrow> sum_list (map snd (filter P cs)) < sum_list (map snd cs)"
  for cs :: "(nat \<times> nat) list"
proof (induction cs)
  case (Cons d cs)
  then show ?case using sum_filter_le [of P cs] by (cases "c = d") auto
qed simp

lemma cut_split:
  assumes "datagram D cuts" "(b, n) \<in> set cuts"
  obtains xs ys where "cuts = xs @ (b, n) # ys" "\<forall>c \<in> set xs. fst c + snd c \<le> b" "\<forall>c \<in> set xs. fst c < b"
    "\<forall>c \<in> set ys. b + n \<le> fst c" "8 \<le> n" "(b, n) \<notin> set xs" "(b, n) \<notin> set ys" "\<And>c. c \<in> set cuts \<Longrightarrow> fst c + snd c \<le> length D"
proof -
  obtain xs ys where s: "cuts = xs @ (b, n) # ys" using assms(2) by (meson split_list)
  have ok: "cuts_ok 0 cuts" using assms(1) by (simp add: datagram_def)
  note a = cuts_ok_append [OF ok [unfolded s]]
  have x: "\<forall>c \<in> set xs. fst c + snd c \<le> b" using a by auto
  have pos: "8 \<le> snd c" if "c \<in> set cuts" for c using cuts_sorted [OF ok, of "fst c" "snd c"] that by simp
  have x2: "\<forall>c \<in> set xs. fst c < b"
  proof
    fix c assume c: "c \<in> set xs"
    then have "8 \<le> snd c" "fst c + snd c \<le> b" using pos [of c] x s by auto
    then show "fst c < b" by simp
  qed
  have y: "\<forall>c \<in> set ys. b + n \<le> fst c" using a cuts_sorted [of "b + n" ys] by (metis prod.collapse)
  have n: "8 \<le> n" using a by simp
  have "fst c + snd c \<le> length D" if "c \<in> set cuts" for c
  proof -
    obtain us vs where u: "cuts = us @ c # vs" using \<open>c \<in> set cuts\<close> by (meson split_list)
    have "cuts_ok (fst c + snd c) vs" using cuts_ok_append [of 0 us "fst c" "snd c" vs] ok u by simp
    then have "fst c + snd c \<le> cuts_end cuts"
      using cuts_sorted [of "fst c + snd c" vs "fst (last vs)" "snd (last vs)"] u by (cases "vs = []") (auto simp: cuts_end_def)
    then show ?thesis using assms(1) by (simp add: datagram_def)
  qed
  with s x x2 y n show thesis by (intro that) auto
qed

lemma fl_insert_duplicate:
  assumes dg: "datagram D cuts" and st: "frag_state D cuts R f" and c: "c \<in> set cuts" "c \<in> R" "frag_of D c ip"
  shows "fl_insert f ip t = Some (f, None, None)"
proof -
  obtain b n where bn: "c = (b, n)" by (cases c)
  obtain xs ys where s: "cuts = xs @ (b, n) # ys" "\<forall>c \<in> set xs. fst c < b" "\<forall>c \<in> set ys. b + n \<le> fst c" "8 \<le> n"
    using cut_split [OF dg c(1) [unfolded bn], of thesis] by blast
  let ?F = "filter (\<lambda>c. c \<in> R)"
  have cs: "?F cuts = ?F xs @ c # ?F ys" using s(1) c(2) bn by simp
  obtain pre g post where L: "fl_List f = pre @ g # post" "list_all2 (frag_of D) (?F xs) pre" "frag_of D c g"
    using st unfolding frag_state_def Let_def cs list_all2_append1 list_all2_Cons1 by auto
  have "b + n \<le> cuts_end (?F cuts)"
  proof (cases "?F ys = []")
    case True
    then show ?thesis using cs bn by (simp add: cuts_end_def)
  next
    case False
    then have "last (?F ys) \<in> set ys" by (meson filter_is_subset in_mono last_in_set)
    then show ?thesis using cs s(3) False by (force simp: cuts_end_def)
  qed
  then have "b < unat (fl_Highest f)" using st s(4) by (simp add: frag_state_def Let_def)
  moreover have "unat (ip_FragOffset ip * 8) = b" using frag_words(1) [OF c(3)] dg bn by (simp add: datagram_def)
  ultimately have "\<not> fl_Highest f \<le> ip_FragOffset ip * 8" by (simp add: word_le_nat_alt)
  moreover have "insert_scan ip (fl_List f) = None" unfolding L(1)
    by (rule insert_scan_place(2) [OF c(3) L(2) _ L(3)]) (use s(2) bn in auto)
  ultimately show ?thesis by (simp add: fl_insert_def Let_def)
qed

text \<open>The place of a new fragment: at the end when everything behind it is missing, before the next one otherwise.\<close>

lemma fl_insert_place:
  assumes dg: "datagram D cuts" and st: "frag_state D cuts R f" and c: "c \<in> set cuts" "c \<notin> R" "frag_of D c ip"
  obtains l where "(if ip_FragOffset ip * 8 \<ge> fl_Highest f then Some (fl_List f @ [ip]) else insert_scan ip (fl_List f)) = Some l"
    and "list_all2 (frag_of D) (filter (\<lambda>c'. c' \<in> insert c R) cuts) l"
    and "cuts_end (filter (\<lambda>c'. c' \<in> insert c R) cuts) = max (fst c + snd c) (cuts_end (filter (\<lambda>c'. c' \<in> R) cuts))"
    and "sum_list (map snd (filter (\<lambda>c'. c' \<in> insert c R) cuts)) = sum_list (map snd (filter (\<lambda>c'. c' \<in> R) cuts)) + snd c"
proof -
  obtain b n where bn: "c = (b, n)" by (cases c)
  obtain xs ys where s: "cuts = xs @ (b, n) # ys" "\<forall>c \<in> set xs. fst c + snd c \<le> b" "\<forall>c \<in> set xs. fst c < b" "\<forall>c \<in> set ys. b + n \<le> fst c" "8 \<le> n"
      "(b, n) \<notin> set xs" "(b, n) \<notin> set ys"
    using cut_split [OF dg c(1) [unfolded bn], of thesis] by blast
  let ?F = "filter (\<lambda>c. c \<in> R)" and ?F' = "filter (\<lambda>c'. c' \<in> insert c R)"
  have same: "?F' xs = ?F xs" "?F' ys = ?F ys" by (rule filter_cong [OF refl], use s(6,7) bn in auto)+
  have cs: "?F cuts = ?F xs @ ?F ys" "?F' cuts = ?F xs @ c # ?F ys"
    using s(1) c(2) bn same by simp_all
  obtain pre post where L: "fl_List f = pre @ post" "list_all2 (frag_of D) (?F xs) pre" "list_all2 (frag_of D) (?F ys) post"
    using st unfolding frag_state_def Let_def cs(1) list_all2_append1 by auto
  have off: "unat (ip_FragOffset ip * 8) = b" using frag_words(1) [OF c(3)] dg bn by (simp add: datagram_def)
  have hi: "unat (fl_Highest f) = cuts_end (?F xs @ ?F ys)" using st cs(1) by (simp add: frag_state_def Let_def)
  have x: "cuts_end (?F xs) \<le> b"
  proof (cases "?F xs = []")
    case False
    then have "last (?F xs) \<in> set xs" by (meson filter_is_subset in_mono last_in_set)
    then show ?thesis using s(2) False by (simp add: cuts_end_def)
  qed (simp add: cuts_end_def)
  have sums: "sum_list (map snd (?F' cuts)) = sum_list (map snd (?F cuts)) + snd c" unfolding cs by simp
  show thesis
  proof (cases "?F ys = []")
    case True
    then have "fl_Highest f \<le> ip_FragOffset ip * 8" using x hi off by (simp add: word_le_nat_alt)
    moreover have "list_all2 (frag_of D) (?F' cuts) (fl_List f @ [ip])" unfolding cs(2) L(1) using L(2,3) c(3) True by (simp add: list_all2_appendI)
    moreover have "cuts_end (?F' cuts) = max (fst c + snd c) (cuts_end (?F cuts))" unfolding cs using True x bn by (simp add: cuts_end_def)
    ultimately show thesis using that sums by simp
  next
    case False
    have lst: "last (?F ys) \<in> set ys" using False by (meson filter_is_subset in_mono last_in_set)
    have e: "cuts_end (?F xs @ ?F ys) = fst (last (?F ys)) + snd (last (?F ys))" using False by (simp add: cuts_end_def)
    have ge: "b + n \<le> cuts_end (?F xs @ ?F ys)" unfolding e using s(4) lst by fastforce
    then have "\<not> fl_Highest f \<le> ip_FragOffset ip * 8" using hi off s(5) by (simp add: word_le_nat_alt)
    moreover obtain c' cs' g post' where g: "?F ys = c' # cs'" "post = g # post'" "frag_of D c' g"
      using False L(3) by (cases "?F ys"; cases post) auto
    moreover have "c' \<in> set ys" using g(1) by (metis filter_is_subset in_mono list.set_intros(1))
    then have "fst c < fst c'" using s(4,5) bn by fastforce
    ultimately have "insert_scan ip (fl_List f) = Some (pre @ ip # post)" unfolding L(1) g(2)
      using s(3) bn by (intro insert_scan_place(1) [OF c(3) L(2) _ g(3)]) auto
    moreover have "list_all2 (frag_of D) (?F' cuts) (pre @ ip # post)" unfolding cs(2) using L(2,3) c(3) by (simp add: list_all2_appendI)
    moreover have "cuts_end (?F' cuts) = max (fst c + snd c) (cuts_end (?F cuts))"
      unfolding cs using False ge e bn by (simp add: cuts_end_def)
    ultimately show thesis using that sums \<open>\<not> fl_Highest f \<le> ip_FragOffset ip * 8\<close> by simp
  qed
qed


text \<open>The datagram that is rebuilt when \<open>ip\<close> is the fragment that completes it.\<close>

definition rebuilt :: "bytes \<Rightarrow> IPv4 \<Rightarrow> IPv4" where
  "rebuilt D ip = ip\<lparr>Contents := [], Payload := D, ip_Length := of_nat (length D), ip_Flags := 0, ip_FragOffset := 0, ip_Checksum := 0\<rparr>"

lemma build_whole:
  assumes dg: "datagram D cuts" and st: "frag_state D cuts R f" and all: "set cuts \<subseteq> R"
  shows "build f ip = Some (Inr (rebuilt D ip))"
proof -
  have cs: "filter (\<lambda>c. c \<in> R) cuts = cuts" using all by (auto simp: filter_id_conv)
  have s: "list_all2 (frag_of D) cuts (fl_List f)" "unat (fl_Highest f) = length D"
    using st dg by (simp_all add: frag_state_def datagram_def cs Let_def)
  have "build_loop (fl_List f) [] (of_nat 0) = Some (Inr ([] @ drop 0 D))"
    by (rule build_loop_frags [OF s(1)]) (use dg in \<open>auto simp: datagram_def\<close>)
  moreover have "fl_Highest f = of_nat (length D)" using s(2) by (metis of_nat_unat ucast_id unsigned_of_nat)
  ultimately show ?thesis by (simp add: build_def rebuilt_def)
qed

lemma complete_iff:
  assumes dg: "datagram D cuts" and st: "frag_state D cuts R f"
  shows "fl_FinalReceived f \<and> fl_Highest f = fl_Current f \<longleftrightarrow> set cuts \<subseteq> R"
proof -
  let ?cs = "filter (\<lambda>c. c \<in> R) cuts"
  have ok: "cuts_ok 0 cuts" "cuts \<noteq> []" "cuts_end cuts = length D" using dg by (simp_all add: datagram_def)
  have sum: "sum_list (map snd cuts) = length D" using cuts_sum [OF ok(1,2)] ok(3) by simp
  have hi: "unat (fl_Highest f) = cuts_end ?cs" "unat (fl_Current f) = sum_list (map snd ?cs)"
    "fl_FinalReceived f \<longleftrightarrow> (\<exists>c \<in> set ?cs. fst c + snd c = length D)" using st by (simp_all add: frag_state_def Let_def)
  show ?thesis
  proof
    assume "set cuts \<subseteq> R"
    then have "?cs = cuts" by (auto simp: filter_id_conv)
    then show "fl_FinalReceived f \<and> fl_Highest f = fl_Current f" using hi ok sum
      by (auto simp: word_unat_eq_iff cuts_end_def intro!: bexI [of _ "last cuts"])
  next
    assume a: "fl_FinalReceived f \<and> fl_Highest f = fl_Current f"
    then obtain c where c: "c \<in> set ?cs" "fst c + snd c = length D" using hi(3) by blast
    then obtain xs ys where s: "cuts = xs @ c # ys" "\<forall>d \<in> set ys. length D \<le> fst d" "\<And>d. d \<in> set cuts \<Longrightarrow> fst d + snd d \<le> length D"
      using cut_split [OF dg, of "fst c" "snd c" thesis] by auto
    have "ys = []"
    proof (rule ccontr)
      assume "ys \<noteq> []"
      then have "hd ys \<in> set ys" by simp
      then have "length D \<le> fst (hd ys)" "fst (hd ys) + snd (hd ys) \<le> length D" "8 \<le> snd (hd ys)"
        using s cuts_sorted [OF ok(1), of "fst (hd ys)" "snd (hd ys)"] by auto
      then show False by simp
    qed
    moreover have "c \<in> R" using c(1) by simp
    ultimately have "last ?cs = c" using s(1) by simp
    moreover have "?cs \<noteq> []" using c(1) by force
    ultimately have "cuts_end ?cs = length D" using c(2) by (simp add: cuts_end_def)
    then have "sum_list (map snd ?cs) = sum_list (map snd cuts)" using a hi sum by simp
    moreover have "0 < snd d" if "d \<in> set cuts" for d using cuts_sorted [OF ok(1), of "fst d" "snd d"] that by simp
    ultimately show "set cuts \<subseteq> R" using sum_filter_less [of _ cuts "\<lambda>c. c \<in> R"] by (metis less_irrefl subsetI)
  qed
qed

lemma fl_insert_new:
  assumes dg: "datagram D cuts" and st: "frag_state D cuts R f" and c: "c \<in> set cuts" "c \<notin> R" "frag_of D c ip"
  obtains f1 where "frag_state D cuts (insert c R) f1"
    and "fl_insert f ip t = Some (f1, if set cuts \<subseteq> insert c R then Some (rebuilt D ip) else None, None)"
proof -
  let ?cs = "filter (\<lambda>c'. c' \<in> insert c R) cuts"
  obtain l where l: "(if ip_FragOffset ip * 8 \<ge> fl_Highest f then Some (fl_List f @ [ip]) else insert_scan ip (fl_List f)) = Some l"
      "list_all2 (frag_of D) ?cs l" "cuts_end ?cs = max (fst c + snd c) (cuts_end (filter (\<lambda>c'. c' \<in> R) cuts))"
      "sum_list (map snd ?cs) = sum_list (map snd (filter (\<lambda>c'. c' \<in> R) cuts)) + snd c"
    by (rule fl_insert_place [OF dg st c])
  define f1 where "f1 = insert_counters f l ip t"
  have D: "length D \<le> 65515" using dg by (simp add: datagram_def)
  note w = frag_words [OF c(3) D]
  have fc: "fst c + snd c \<le> length D" "ip_Flags ip = (if fst c + snd c = length D then 0 else 1)" using c(3) by (simp_all add: frag_of_def)
  have top: "unat (ip_FragOffset ip * 8 + (ip_Length ip - 20)) = fst c + snd c"
    using w(1,2) fc(1) D by (simp add: unat_word_ariths(1) del: of_nat_add)
  have "sum_list (map snd ?cs) \<le> length D"
    using sum_filter_le [of "\<lambda>c'. c' \<in> insert c R" cuts] cuts_sum [of 0 cuts] dg by (simp add: datagram_def)
  then have cur: "unat (fl_Current f + (ip_Length ip - 20)) = sum_list (map snd ?cs)"
    using st w(2) l(4) D by (simp add: unat_word_ariths(1) frag_state_def Let_def)
  have hi: "unat (if fl_Highest f < ip_FragOffset ip * 8 + (ip_Length ip - 20) then ip_FragOffset ip * 8 + (ip_Length ip - 20) else fl_Highest f) = cuts_end ?cs"
    unfolding l(3) using st top by (simp add: word_less_nat_alt frag_state_def Let_def)
  have "(ip_Flags ip AND IPv4MoreFragments = 0) \<longleftrightarrow> fst c + snd c = length D" using fc(2) by simp
  moreover have rcv: "set ?cs = insert c (set (filter (\<lambda>c'. c' \<in> R) cuts))" using c(1) by auto
  moreover have old: "fl_FinalReceived f \<longleftrightarrow> (\<exists>c \<in> set (filter (\<lambda>c'. c' \<in> R) cuts). fst c + snd c = length D)" using st by (simp only: frag_state_def Let_def)
  ultimately have fin: "(if ip_Flags ip AND IPv4MoreFragments = 0 then True else fl_FinalReceived f) \<longleftrightarrow> (\<exists>c \<in> set ?cs. fst c + snd c = length D)"
    by (simp only: if_bool_eq_disj) blast
  have "fl_List f1 = l" "unat (fl_Highest f1) = cuts_end ?cs" "unat (fl_Current f1) = sum_list (map snd ?cs)"
    unfolding hi [symmetric] cur [symmetric] f1_def by (simp_all add: insert_counters_def Let_def)
  moreover have "fl_FinalReceived f1 \<longleftrightarrow> (\<exists>c \<in> set ?cs. fst c + snd c = length D)"
    unfolding fin [symmetric] f1_def by (simp add: insert_counters_def Let_def)
  ultimately have st1: "frag_state D cuts (insert c R) f1" using l(2) by (simp only: frag_state_def Let_def simp_thms)
  have "fl_insert f ip t = (if fl_FinalReceived f1 \<and> fl_Highest f1 = fl_Current f1
        then do { r \<leftarrow> build f1 ip; Some (case r of Inl e \<Rightarrow> (f1, None, Some e) | Inr out \<Rightarrow> (f1, Some out, None)) } else Some (f1, None, None))"
    unfolding fl_insert_def Let_def l(1) f1_def by (simp only: option.case)
  then have "fl_insert f ip t = Some (f1, if set cuts \<subseteq> insert c R then Some (rebuilt D ip) else None, None)"
    unfolding complete_iff [OF dg st1] using build_whole [OF dg st1] by simp
  with st1 show thesis by (rule that)
qed


subsection \<open>Runs of the defragmenter\<close>

text \<open>
  The calls for a sequence of packets, and the abstract view of one flow: the set of the pieces received, emptied when
  the datagram is complete.
\<close>

fun defrag_run :: "IPv4Defragmenter \<Rightarrow> (IPv4 \<times> int) list \<Rightarrow> (IPv4Defragmenter \<times> (IPv4 option \<times> goerr option) list) option" where
  "defrag_run d [] = Some (d, [])"
| "defrag_run d ((ip, t) # ps) = do {
     (d1, r) \<leftarrow> DefragIPv4WithTimestamp d ip t;
     (d2, rs) \<leftarrow> defrag_run d1 ps;
     Some (d2, r # rs) }"

fun completions :: "(nat \<times> nat) set \<Rightarrow> (nat \<times> nat) set \<Rightarrow> (nat \<times> nat) list \<Rightarrow> bool list" where
  "completions A R [] = []"
| "completions A R (c # cs) =
     (if A \<subseteq> insert c R then True # completions A {} cs else False # completions A (insert c R) cs)"

definition cut_of :: "IPv4 \<Rightarrow> nat \<times> nat" where
  "cut_of ip = (unat (ip_FragOffset ip) * 8, unat (ip_Length ip - 20))"

text \<open>The length of the header, without options, and of the payload agree with the total length.\<close>

definition fits :: "IPv4 \<Rightarrow> bool" where
  "fits ip \<longleftrightarrow> unat (ip_Length ip - 20) \<le> length (Payload ip)"

definition fits_all :: "IPv4Defragmenter \<Rightarrow> bool" where
  "fits_all d \<longleftrightarrow> (\<forall>k fl. map_of d k = Some fl \<longrightarrow> (\<forall>f \<in> set (fl_List fl). fits f))"

definition flow_of :: "IPv4Defragmenter \<Rightarrow> ipv4_key \<Rightarrow> fragmentList" where
  "flow_of d k = (case map_of d k of None \<Rightarrow> new_fragmentList 0 | Some fl \<Rightarrow> fl)"

lemma build_loop_returns: "\<forall>f \<in> set L. fits f \<Longrightarrow> build_loop L final cur \<noteq> None"
proof (induction L arbitrary: final cur)
  case (Cons f L)
  have s: "slice (Payload f) (unat s) (length (Payload f)) \<noteq> None" if "\<not> s > ip_Length f - 20" for s
    using that Cons.prems by (simp add: slice_def fits_def word_less_nat_alt)
  have L: "build_loop L g c \<noteq> None" for g c using Cons by simp
  show ?case
  proof (cases "ip_Length f - 20 < cur - ip_FragOffset f * 8")
    case False
    then obtain rest where "slice (Payload f) (unat (cur - ip_FragOffset f * 8)) (length (Payload f)) = Some rest" using s by blast
    then show ?thesis using L by (simp add: Let_def del: not_None_eq)
  qed (use L in \<open>simp add: Let_def del: not_None_eq\<close>)
qed simp

lemma insert_scan_set: "insert_scan ip L = Some l \<Longrightarrow> set l \<subseteq> insert ip (set L)"
  by (induction L arbitrary: l) (fastforce split: if_splits)+

lemma fl_insert_returns:
  assumes "\<forall>f \<in> set (fl_List fl). fits f" "fits ip"
  obtains fl1 r where "fl_insert fl ip t = Some (fl1, r)" "\<forall>f \<in> set (fl_List fl1). fits f"
proof (cases "if ip_FragOffset ip * 8 \<ge> fl_Highest fl then Some (fl_List fl @ [ip]) else insert_scan ip (fl_List fl)")
  case None
  then show thesis using that assms(1) by (simp add: fl_insert_def Let_def)
next
  case (Some l)
  then have "set l \<subseteq> insert ip (set (fl_List fl))" using insert_scan_set by (fastforce split: if_splits)
  then have l: "\<forall>f \<in> set l. fits f" using assms by blast
  let ?f1 = "insert_counters fl l ip t"
  obtain r where b: "build ?f1 ip = Some r" using build_loop_returns [OF l, of "[]" 0] by (auto simp: build_def insert_counters_def Let_def)
  have "\<exists>r. fl_insert fl ip t = Some (?f1, r)"
    unfolding fl_insert_def Let_def Some option.case by (simp only: b) (cases r; simp)
  then show thesis using that [of ?f1] l by (auto simp: insert_counters_def Let_def)
qed

lemma fits_allD: "fits_all d \<Longrightarrow> map_of d k = Some fl \<Longrightarrow> f \<in> set (fl_List fl) \<Longrightarrow> fits f"
  unfolding fits_all_def by blast

lemma DefragIPv4_returns:
  assumes "fits_all d" "fits ip" "newIPv4 ip \<noteq> None"
  obtains d1 r where "DefragIPv4WithTimestamp d ip t = Some (d1, r)" "fits_all d1"
proof (cases "dontDefrag ip \<or> securityChecks ip \<noteq> None")
  case True
  then have "\<exists>r. DefragIPv4WithTimestamp d ip t = Some (d, r)" by (auto simp: DefragIPv4WithTimestamp_def)
  then show thesis using that assms(1) by blast
next
  case False
  obtain k where k: "newIPv4 ip = Some k" using assms(3) by blast
  have "\<forall>f \<in> set (fl_List (flow_of d k)). fits f"
    using fits_allD [OF assms(1), of k] by (auto simp: flow_of_def new_fragmentList_def split: option.splits)
  then obtain fl1 out e where i: "fl_insert (flow_of d k) ip t = Some (fl1, out, e)" "\<forall>f \<in> set (fl_List fl1). fits f"
    using fl_insert_returns [OF _ assms(2)] by (metis prod_cases3 surj_pair)
  have u: "fits_all (AList.update k fl1 d)" "fits_all (defrag_flush (AList.update k fl1 d) k)"
    using assms(1) i(2) by (auto simp: fits_all_def update_conv' delete_conv' defrag_flush_def restrict_map_def)
  have "\<exists>d1 r. DefragIPv4WithTimestamp d ip t = Some (d1, r) \<and> fits_all d1"
    using False k i(1) u by (auto simp: DefragIPv4WithTimestamp_def flow_of_def [symmetric] Let_def)
  then show thesis using that by blast
qed

lemma DefragIPv4_other:
  assumes "DefragIPv4WithTimestamp d ip t = Some (d1, r)" "newIPv4 ip \<noteq> Some k"
  shows "map_of d1 k = map_of d k"
proof (cases "dontDefrag ip \<or> securityChecks ip \<noteq> None")
  case True
  then show ?thesis using assms(1) by (auto simp: DefragIPv4WithTimestamp_def split: option.splits if_splits)
next
  case False
  then obtain k' fl1 out e where r: "newIPv4 ip = Some k'" "fl_insert (flow_of d k') ip t = Some (fl1, out, e)"
      "d1 = AList.update k' fl1 d \<or> d1 = defrag_flush (AList.update k' fl1 d) k'"
    using assms(1) by (auto simp: DefragIPv4WithTimestamp_def flow_of_def [symmetric] bind_eq_Some_conv Let_def split: if_splits)
  then show ?thesis using assms(2) by (auto simp: defrag_flush_def update_conv' delete_conv' restrict_map_def)
qed


lemma frag_accepted:
  assumes dg: "datagram D cuts" and two: "2 \<le> length cuts" and c: "c \<in> set cuts" "frag_of D c ip"
  shows "\<not> dontDefrag ip" and "securityChecks ip = None"
proof -
  obtain b n where bn: "c = (b, n)" by (cases c)
  obtain xs ys where s: "cuts = xs @ (b, n) # ys" "\<forall>c \<in> set xs. fst c < b" "\<forall>c \<in> set ys. b + n \<le> fst c" "8 \<le> n"
      "\<And>c. c \<in> set cuts \<Longrightarrow> fst c + snd c \<le> length D"
    using cut_split [OF dg c(1) [unfolded bn], of thesis] by blast
  note w = frag_words [OF c(2)]
  have D: "length D \<le> 65515" "b \<le> 65464" using dg c(1) bn by (auto simp: datagram_def)
  have f: "unat (ip_FragOffset ip) * 8 = b" "ip_IHL ip = 5" "ip_Flags ip = (if b + n = length D then 0 else 1)"
    using c(2) bn by (simp_all add: frag_of_def)
  have "b \<noteq> 0" if "b + n = length D"
  proof
    assume "b = 0"
    then have "xs = []" using s(2) by (metis list.set_intros(1) neq_Nil_conv not_less_zero)
    then obtain y where y: "y \<in> set ys" using two s(1) by (cases ys) auto
    then have "b + n \<le> fst y" "fst y + snd y \<le> length D" "8 \<le> snd y" using s cuts_sorted [of 0 cuts "fst y" "snd y"] dg by (auto simp: datagram_def)
    then show False using that by simp
  qed
  then show "\<not> dontDefrag ip" using f by (auto simp: dontDefrag_def)
  have "ip_Length ip - ucast (ip_IHL ip) * 4 = ip_Length ip - 20" using f(2) by simp
  moreover have "\<not> ip_Length ip - 20 < IPv4MinimumFragmentSize"
    using w(2) [OF D(1)] bn s(4) by (simp add: word_less_nat_alt IPv4MinimumFragmentSize_def)
  moreover have "\<not> IPv4MaximumFragmentOffset < ip_FragOffset ip" using f(1) D(2) by (simp add: word_less_nat_alt IPv4MaximumFragmentOffset_def)
  moreover have "\<not> IPv4MaximumSize < ip_FragOffset ip * 8 + ip_Length ip"
    using unat_u16_less [of "ip_FragOffset ip * 8 + ip_Length ip"] by (simp add: word_less_nat_alt IPv4MaximumSize_def)
  ultimately show "securityChecks ip = None" by (simp only: securityChecks_def Let_def if_False)
qed

lemma frag_count:
  assumes "datagram D cuts" "frag_state D cuts R f"
  shows "length (fl_List f) \<le> 8189"
proof -
  have ok: "cuts_ok 0 cuts" "cuts \<noteq> []" "cuts_end cuts = length D" "length D \<le> 65515" using assms(1) by (simp_all add: datagram_def)
  have "length cuts * 8 \<le> sum_list (map snd cuts)" if "\<forall>c \<in> set cuts. 8 \<le> snd c" for cuts :: "(nat \<times> nat) list"
    using that by (induction cuts) auto
  then have "length cuts * 8 \<le> length D" using cuts_sorted [OF ok(1)] cuts_sum [OF ok(1,2)] ok(3) by fastforce
  moreover have "length (fl_List f) \<le> length cuts"
    using assms(2) length_filter_le [of "\<lambda>c. c \<in> R" cuts] by (metis frag_state_def list_all2_lengthD)
  ultimately show ?thesis using ok(4) by simp
qed

lemma DefragIPv4_own:
  assumes dg: "datagram D cuts" and two: "2 \<le> length cuts" and c: "c \<in> set cuts" "frag_of D c ip" and k: "newIPv4 ip = Some k"
    and st: "frag_state D cuts R (flow_of d k)" and part: "\<not> set cuts \<subseteq> R"
  obtains d1 where "DefragIPv4WithTimestamp d ip t = Some (d1, if set cuts \<subseteq> insert c R then Some (rebuilt D ip) else None, None)"
    and "frag_state D cuts (if set cuts \<subseteq> insert c R then {} else insert c R) (flow_of d1 k)"
proof -
  obtain f1 where f1: "frag_state D cuts (insert c R) f1"
      "fl_insert (flow_of d k) ip t = Some (f1, if set cuts \<subseteq> insert c R then Some (rebuilt D ip) else None, None)"
  proof (cases "c \<in> R")
    case True
    then have "insert c R = R" by blast
    then show thesis using that [of "flow_of d k"] fl_insert_duplicate [OF dg st c(1) True c(2)] st part by simp
  next
    case False
    then show thesis using fl_insert_new [OF dg st c(1) False c(2)] that by metis
  qed
  let ?u = "AList.update k f1 d"
  have len: "\<not> length (fl_List f1) + 1 > IPv4MaximumFragmentListLen" using frag_count [OF dg f1(1)] by (simp add: IPv4MaximumFragmentListLen_def)
  have "DefragIPv4WithTimestamp d ip t = Some (if set cuts \<subseteq> insert c R then defrag_flush ?u k else ?u,
        if set cuts \<subseteq> insert c R then Some (rebuilt D ip) else None, None)"
    using frag_accepted [OF dg two c] k f1(2) len by (simp add: DefragIPv4WithTimestamp_def flow_of_def [symmetric] Let_def)
  moreover have "frag_state D cuts (if set cuts \<subseteq> insert c R then {} else insert c R) (flow_of (if set cuts \<subseteq> insert c R then defrag_flush ?u k else ?u) k)"
    using f1(1) by (simp add: flow_of_def defrag_flush_def update_conv' delete_conv' new_fragmentList_def frag_state_def cuts_end_def)
  ultimately show thesis by (rule that)
qed

definition own :: "ipv4_key \<Rightarrow> IPv4 \<Rightarrow> bool" where
  "own k ip \<longleftrightarrow> newIPv4 ip = Some k"

lemma defrag_run_refines:
  assumes dg: "datagram D cuts" and two: "2 \<le> length cuts"
    and ps: "\<forall>p \<in> set ps. fits (fst p) \<and> newIPv4 (fst p) \<noteq> None \<and> (own k (fst p) \<longrightarrow> cut_of (fst p) \<in> set cuts \<and> frag_of D (cut_of (fst p)) (fst p))"
    and st: "frag_state D cuts R (flow_of d k)" and part: "\<not> set cuts \<subseteq> R" and fit: "fits_all d"
  shows "\<exists>d1 outs. defrag_run d ps = Some (d1, outs) \<and> length outs = length ps \<and>
     map snd (filter (own k \<circ> fst) (zip (map fst ps) outs))
     = map2 (\<lambda>ip whole. (if whole then Some (rebuilt D ip) else None, None)) (filter (own k) (map fst ps))
         (completions (set cuts) R (map cut_of (filter (own k) (map fst ps))))"
  using ps st part fit
proof (induction ps arbitrary: d R)
  case (Cons p ps)
  obtain ip t where p: "p = (ip, t)" by (cases p)
  obtain d1 r where step: "DefragIPv4WithTimestamp d ip t = Some (d1, r)" "fits_all d1"
    using DefragIPv4_returns [OF Cons.prems(4)] Cons.prems(1) p by (metis fst_conv list.set_intros(1))
  have rest: "\<forall>p \<in> set ps. fits (fst p) \<and> newIPv4 (fst p) \<noteq> None \<and> (own k (fst p) \<longrightarrow> cut_of (fst p) \<in> set cuts \<and> frag_of D (cut_of (fst p)) (fst p))"
    using Cons.prems(1) by simp
  show ?case
  proof (cases "own k ip")
    case True
    let ?c = "cut_of ip" and ?R = "if set cuts \<subseteq> insert (cut_of ip) R then {} else insert (cut_of ip) R"
    have c: "?c \<in> set cuts" "frag_of D ?c ip" using Cons.prems(1) p True by simp_all
    have r: "r = (if set cuts \<subseteq> insert ?c R then Some (rebuilt D ip) else None, None)" "frag_state D cuts ?R (flow_of d1 k)"
      using DefragIPv4_own [OF dg two c True [unfolded own_def] Cons.prems(2,3)] step(1) by (metis Pair_inject option.inject)+
    have "\<not> set cuts \<subseteq> ?R" using dg by (auto simp: datagram_def)
    from Cons.IH [OF rest r(2) this step(2)] obtain d2 outs where "defrag_run d1 ps = Some (d2, outs)" "length outs = length ps"
      "map snd (filter (own k \<circ> fst) (zip (map fst ps) outs))
       = map2 (\<lambda>ip whole. (if whole then Some (rebuilt D ip) else None, None)) (filter (own k) (map fst ps))
           (completions (set cuts) ?R (map cut_of (filter (own k) (map fst ps))))" by blast
    then show ?thesis using step(1) True r(1) p by (cases "set cuts \<subseteq> insert ?c R") (simp_all add: comp_def)
  next
    case False
    then have "flow_of d1 k = flow_of d k" using DefragIPv4_other [OF step(1)] by (simp add: flow_of_def own_def)
    then show ?thesis using Cons.IH [OF rest _ Cons.prems(3) step(2)] Cons.prems(2) step(1) False p by auto
  qed
qed simp


text \<open>C12. The defragmenter implements the abstract view of each flow: for a datagram cut into at least two non-overlapping
  pieces whose fragments have a header without options, sent in any order, with duplicates and between packets of other
  flows, the call returns nothing until the last missing piece arrives and then the whole payload, after which the flow
  starts again with no piece received. No call panics or reports an error for these fragments.\<close>

theorem defrag_refines:
  assumes "datagram D cuts" and "2 \<le> length cuts"
    and "\<forall>p \<in> set ps. fits (fst p) \<and> newIPv4 (fst p) \<noteq> None \<and> (own k (fst p) \<longrightarrow> cut_of (fst p) \<in> set cuts \<and> frag_of D (cut_of (fst p)) (fst p))"
  shows "\<exists>d outs. defrag_run NewIPv4Defragmenter ps = Some (d, outs) \<and> length outs = length ps \<and>
     map snd (filter (own k \<circ> fst) (zip (map fst ps) outs))
     = map2 (\<lambda>ip whole. (if whole then Some (rebuilt D ip) else None, None)) (filter (own k) (map fst ps))
         (completions (set cuts) {} (map cut_of (filter (own k) (map fst ps))))"
proof (rule defrag_run_refines [OF assms])
  show "frag_state D cuts {} (flow_of NewIPv4Defragmenter k)"
    by (simp add: frag_state_def flow_of_def NewIPv4Defragmenter_def new_fragmentList_def cuts_end_def)
  show "\<not> set cuts \<subseteq> {}" using assms(2) by auto
qed (simp add: fits_all_def NewIPv4Defragmenter_def)

definition sample_frag :: "u16 \<Rightarrow> u8 \<Rightarrow> u16 \<Rightarrow> u16 \<Rightarrow> bytes \<Rightarrow> IPv4" where
  "sample_frag ident flags off len pl = \<lparr>Contents = [], Payload = pl, ip_Version = 4, ip_IHL = 5, ip_TOS = 0, ip_Length = len, ip_Id = ident,
     ip_Flags = flags, ip_FragOffset = off, ip_TTL = 64, ip_Protocol = 17, ip_Checksum = 0, ip_SrcIP = [10, 0, 0, 1], ip_DstIP = [10, 0, 0, 2],
     ip_Options = [], ip_Padding = []\<rparr>"

definition sample_data :: bytes where
  "sample_data = map of_nat [0..<24]"

definition sample_fragments :: "(IPv4 \<times> int) list" where
  "sample_fragments = [(sample_frag 7 0 2 28 (drop 16 sample_data), 1), (sample_frag 8 1 0 36 (take 16 sample_data), 2),
     (sample_frag 7 0 2 28 (drop 16 sample_data), 3), (sample_frag 7 1 0 36 (take 16 sample_data), 4)]"

theorem defrag_refines_witness:
  "let k = the (newIPv4 (sample_frag 7 0 0 0 [])) in
   datagram sample_data [(0, 16), (16, 8)] \<and> filter (own k) (map fst sample_fragments) \<noteq> map fst sample_fragments \<and>
   completions (set [(0, 16), (16, 8)]) {} (map cut_of (filter (own k) (map fst sample_fragments))) = [False, False, True] \<and>
   (\<exists>d outs. defrag_run NewIPv4Defragmenter sample_fragments = Some (d, outs) \<and>
     map snd (filter (own k \<circ> fst) (zip (map fst sample_fragments) outs))
     = [(None, None), (None, None), (Some (rebuilt sample_data (sample_frag 7 1 0 36 (take 16 sample_data))), None)])"
proof -
  define k where "k = the (newIPv4 (sample_frag 7 0 0 0 []))"
  have dg: "datagram sample_data [(0, 16), (16, 8)]" by (simp add: datagram_def cuts_end_def sample_data_def)
  have c: "completions (set [(0, 16), (16, 8)]) {} (map cut_of (filter (own k) (map fst sample_fragments))) = [False, False, True]"
    unfolding k_def by code_simp
  have f: "filter (own k) (map fst sample_fragments) \<noteq> map fst sample_fragments" unfolding k_def by code_simp
  have o: "filter (own k) (map fst sample_fragments) = [sample_frag 7 0 2 28 (drop 16 sample_data), sample_frag 7 0 2 28 (drop 16 sample_data),
      sample_frag 7 1 0 36 (take 16 sample_data)]" unfolding k_def by code_simp
  have "\<forall>p \<in> set sample_fragments. fits (fst p) \<and> newIPv4 (fst p) \<noteq> None \<and>
      (own k (fst p) \<longrightarrow> cut_of (fst p) \<in> set [(0, 16), (16, 8)] \<and> frag_of sample_data (cut_of (fst p)) (fst p))"
    unfolding k_def by code_simp
  from defrag_refines [OF dg _ this] have "\<exists>d outs. defrag_run NewIPv4Defragmenter sample_fragments = Some (d, outs) \<and>
     map snd (filter (own k \<circ> fst) (zip (map fst sample_fragments) outs))
     = [(None, None), (None, None), (Some (rebuilt sample_data (sample_frag 7 1 0 36 (take 16 sample_data))), None)]"
    unfolding c unfolding o by auto
  then show ?thesis using dg c f unfolding k_def Let_def by blast
qed

text \<open>A last fragment that carries fewer than eight bytes is refused, although the last fragment of a datagram may have
  any length, so that a datagram whose length is one to seven more than a multiple of its fragments is never delivered.\<close>

lemma short_last_fragment_refused:
  assumes "ip_Flags ip = 0" "ip_FragOffset ip \<noteq> 0" "ip_IHL ip = 5" "ip_Length ip = 20 + n" "n < 8"
  shows "\<exists>e. DefragIPv4WithTimestamp d ip t = Some (d, None, Some e)"
proof -
  have "ip_Length ip - ucast (ip_IHL ip) * 4 = n" using assms(3,4) by simp
  then have "securityChecks ip \<noteq> None" using assms(5) by (simp add: securityChecks_def IPv4MinimumFragmentSize_def Let_def)
  then show ?thesis using assms(1,2) by (auto simp: DefragIPv4WithTimestamp_def dontDefrag_def)
qed

lemma short_last_fragment_refused_witness:
  "\<exists>e. DefragIPv4WithTimestamp [] (sample_frag 7 0 2 24 [1, 2, 3, 4]) 0 = Some ([], None, Some e)"
  by (rule short_last_fragment_refused [where n = 4]) (simp_all add: sample_frag_def)

subsection \<open>Panics\<close>

lemma defrag_run_returns:
  assumes "fits_all d" "\<forall>p \<in> set ps. fits (fst p) \<and> newIPv4 (fst p) \<noteq> None"
  shows "\<exists>d' outs. defrag_run d ps = Some (d', outs) \<and> length outs = length ps"
  using assms
proof (induction ps arbitrary: d)
  case (Cons p ps)
  obtain ip t where p: "p = (ip, t)" by (cases p)
  obtain d1 r where "DefragIPv4WithTimestamp d ip t = Some (d1, r)" "fits_all d1"
    using DefragIPv4_returns [OF Cons.prems(1), of ip t] Cons.prems(2) p by auto
  then show ?case using Cons.IH [of d1] Cons.prems(2) p by fastforce
qed simp

text \<open>C13. The defragmenter never panics on packets whose payload is at least as long as their length field says for a header of 20
  bytes, however they overlap, repeat or contradict each other: every packet of any sequence gets an answer.\<close>

theorem defrag_never_panics:
  assumes "\<forall>p \<in> set ps. fits (fst p) \<and> newIPv4 (fst p) \<noteq> None"
  shows "\<exists>d outs. defrag_run NewIPv4Defragmenter ps = Some (d, outs) \<and> length outs = length ps"
  using defrag_run_returns [OF _ assms] by (simp add: fits_all_def NewIPv4Defragmenter_def)

theorem defrag_never_panics_witness:
  "\<exists>d outs. defrag_run NewIPv4Defragmenter [(sample_frag 7 1 0 44 (replicate 24 0), 1), (sample_frag 7 0 1 28 (replicate 8 0), 2)] = Some (d, outs)
     \<and> length outs = 2"
  using defrag_never_panics [of "[(sample_frag 7 1 0 44 (replicate 24 0), 1), (sample_frag 7 0 1 28 (replicate 8 0), 2)]"]
  by (simp add: fits_def sample_frag_def newIPv4_def IPv4_NetworkFlow_def NewFlow_def MaxEndpointSize_def numeral_2_eq_2)

lemma of_nat_u16_less: "x < 65536 \<Longrightarrow> y < 65536 \<Longrightarrow> (of_nat x :: u16) < of_nat y \<longleftrightarrow> x < y"
  by (simp add: word_less_nat_alt unat_of_nat_u16)

lemma of_nat_u16_eq: "x < 65536 \<Longrightarrow> y < 65536 \<Longrightarrow> (of_nat x :: u16) = of_nat y \<longleftrightarrow> x = y"
  by (simp add: word_unat_eq_iff unat_of_nat_u16)

lemma build_loop_options_panic:
  assumes "8 * m < n" "n - 8 * m \<le> l" "length (Payload f) < n - 8 * m" "n < 65536" "l < 65536"
    and "ip_FragOffset f * 8 = of_nat (8 * m)" "ip_Length f - 20 = of_nat l"
  shows "build_loop (f # es) final (of_nat n) = None"
proof -
  have s: "of_nat n - of_nat (8 * m) = (of_nat (n - 8 * m) :: u16)" using assms(1) by (simp add: of_nat_diff)
  have "unat (of_nat (n - 8 * m) :: u16) = n - 8 * m" using assms(4) by (intro unat_of_nat_u16) simp
  then have "slice (Payload f) (unat (of_nat (n - 8 * m) :: u16)) (length (Payload f)) = None" using assms(3) by (simp add: slice_def)
  moreover have "\<not> of_nat l < (of_nat (n - 8 * m) :: u16)" using assms(2,4,5) by (subst of_nat_u16_less) simp_all
  moreover have "(of_nat (8 * m) :: u16) < of_nat n" "(of_nat (8 * m) :: u16) \<noteq> of_nat n" using assms(1,4) by (auto simp only: of_nat_u16_less of_nat_u16_eq)
  ultimately show ?thesis unfolding build_loop.simps assms(6,7) s Let_def by simp
qed

text \<open>A fragment with a header of \<open>h\<close> words, at the offset \<open>8 * m\<close>, with \<open>p\<close> bytes.\<close>

definition frag_at :: "nat \<Rightarrow> nat \<Rightarrow> nat \<Rightarrow> u8 \<Rightarrow> IPv4 \<Rightarrow> bool" where
  "frag_at h m p flags ip \<longleftrightarrow> ip_IHL ip = of_nat h \<and> ip_FragOffset ip = of_nat m \<and> ip_Length ip = of_nat (4 * h + p)
     \<and> length (Payload ip) = p \<and> ip_Flags ip = flags"

lemma frag_at_words:
  assumes "frag_at h m p flags ip" "5 \<le> h" "h \<le> 15"
  shows "ip_FragOffset ip * 8 = of_nat (8 * m)" "ip_Length ip - 20 = of_nat (4 * (h - 5) + p)" "ip_Length ip - ucast (ip_IHL ip) * 4 = of_nat p"
proof -
  show "ip_FragOffset ip * 8 = of_nat (8 * m)" using assms(1) by (simp add: frag_at_def mult.commute)
  have "4 * h + p = 20 + (4 * (h - 5) + p)" using assms(2) by simp
  then have "ip_Length ip = of_nat (20 + (4 * (h - 5) + p))" using assms(1) unfolding frag_at_def by metis
  then show "ip_Length ip - 20 = of_nat (4 * (h - 5) + p)" by simp
  have "unat (of_nat h :: u8) = h" using assms(3) by (simp add: unat_of_nat)
  then have "ucast (of_nat h :: u8) = (of_nat h :: u16)" by (metis of_nat_unat)
  then show "ip_Length ip - ucast (ip_IHL ip) * 4 = of_nat p" using assms(1) by (simp add: frag_at_def)
qed

lemma frag_at_accepted:
  assumes f: "frag_at h m p flags ip" and "5 \<le> h" "h \<le> 15" "8 \<le> p" "p < 65536" "m \<le> 8183" "flags = 1 \<or> flags = 0 \<and> m \<noteq> 0"
  shows "\<not> dontDefrag ip" "securityChecks ip = None"
proof -
  have m: "unat (of_nat m :: u16) = m" using assms(6) by (intro unat_of_nat_u16) simp
  then have "m \<noteq> 0 \<Longrightarrow> (of_nat m :: u16) \<noteq> 0" by (metis unat_0)
  then show "\<not> dontDefrag ip" using f assms(7) by (auto simp: dontDefrag_def frag_at_def)
  have "\<not> of_nat p < IPv4MinimumFragmentSize" using assms(4,5) unat_of_nat_u16 [of p] by (simp add: IPv4MinimumFragmentSize_def word_less_nat_alt)
  moreover have "\<not> IPv4MaximumFragmentOffset < ip_FragOffset ip" using f m assms(6) by (simp add: IPv4MaximumFragmentOffset_def word_less_nat_alt frag_at_def)
  moreover have "\<not> IPv4MaximumSize < ip_FragOffset ip * 8 + ip_Length ip"
    using unat_u16_less [of "ip_FragOffset ip * 8 + ip_Length ip"] by (simp add: word_less_nat_alt IPv4MaximumSize_def)
  ultimately show "securityChecks ip = None" unfolding securityChecks_def frag_at_words(3) [OF f assms(2,3)] Let_def by simp
qed

lemma stored_fragment:
  assumes "\<not> dontDefrag ip" "securityChecks ip = None" "newIPv4 ip = Some k" "fl_insert (flow_of d k) ip t = Some (fl1, None, None)"
    and "length (fl_List fl1) < 8192"
  shows "DefragIPv4WithTimestamp d ip t = Some (AList.update k fl1 d, None, None)"
  using assms by (simp add: DefragIPv4WithTimestamp_def flow_of_def [symmetric] Let_def IPv4MaximumFragmentListLen_def)

lemma insert_counters_nat:
  assumes "ip_FragOffset ip * 8 = of_nat a" "ip_Length ip - 20 = of_nat l" "fl_Highest f = of_nat H" "fl_Current f = of_nat C"
    and "H < 65536" "a + l < 65536"
  shows "insert_counters f L ip t = \<lparr>fl_List = L, fl_Highest = of_nat (max H (a + l)), fl_Current = of_nat (C + l),
      fl_FinalReceived = (ip_Flags ip AND IPv4MoreFragments = 0 \<or> fl_FinalReceived f), fl_LastSeen = t\<rparr>"
proof -
  have "(if fl_Highest f < of_nat a + of_nat l then of_nat a + of_nat l else fl_Highest f) = (of_nat (max H (a + l)) :: u16)"
    using of_nat_u16_less [OF assms(5,6)] assms(3) by (simp add: max_def del: of_nat_add flip: of_nat_add)
  then show ?thesis using assms(4) by (simp add: insert_counters_def Let_def assms(1,2))
qed

text \<open>C14. A fragment with IP options can make the defragmenter panic, because the length that an overlap is checked against assumes
  a header of 20 bytes. For any first fragment, any fragment with options that starts inside it but has fewer bytes than
  the overlap, while its length less 20 reaches the end of the overlap, and the last fragment at the offset where the
  counters agree, the third of these to arrive makes \<^verbatim>\<open>build\<close> slice the payload behind its end.\<close>

theorem defrag_options_panic:
  assumes flow: "newIPv4 f1 = Some k" "newIPv4 f2 = Some k" "newIPv4 f3 = Some k" "map_of d k = None"
    and f1: "frag_at 5 0 n 1 f1" and f2: "frag_at 5 q 8 0 f2" and f3: "frag_at h m p 1 f3"
    and h: "5 < h" "h \<le> 15" and p: "8 \<le> p" "p < n - 8 * m" "n - 8 * m \<le> 4 * (h - 5) + p" and m: "0 < m"
    and q: "8 * q = n + 4 * (h - 5) + p" "q \<le> 8183"
  shows "defrag_run d [(f1, t1), (f2, t2), (f3, t3)] = None"
proof -
  define l where "l = 4 * (h - 5) + p"
  have b: "8 * m < n" "n + l \<le> 65464" "8 * m + l < n + l" "8 \<le> n" "0 < l" "n < 65536" "p < 65536" "m \<le> 8183" "m < q" "8 * q = n + l"
    unfolding l_def using p q m h by linarith+
  note w1 = frag_at_words [OF f1] and w2 = frag_at_words [OF f2] and w3 = frag_at_words [OF f3 less_imp_le [OF h(1)] h(2), folded l_def]
  have fl: "ip_Flags f1 = 1" "ip_Flags f2 = 0" "ip_Flags f3 = 1" "ip_FragOffset f1 = 0" "ip_FragOffset f2 = of_nat q" "ip_FragOffset f3 = of_nat m"
    using f1 f2 f3 by (simp_all add: frag_at_def)
  let ?g1 = "\<lparr>fl_List = [f1], fl_Highest = of_nat n, fl_Current = of_nat n, fl_FinalReceived = False, fl_LastSeen = t1\<rparr>"
  let ?g2 = "\<lparr>fl_List = [f1, f2], fl_Highest = of_nat (8 * q + 8), fl_Current = of_nat (n + 8), fl_FinalReceived = True, fl_LastSeen = t2\<rparr>"
  let ?g3 = "\<lparr>fl_List = [f1, f3, f2], fl_Highest = of_nat (8 * q + 8), fl_Current = of_nat (8 * q + 8), fl_FinalReceived = True, fl_LastSeen = t3\<rparr>"
  have "insert_counters (new_fragmentList 0) [f1] f1 t1 = ?g1"
    using insert_counters_nat [of f1 0 n "new_fragmentList 0" 0 0 "[f1]" t1] w1 fl(1) b(6) by (simp add: new_fragmentList_def)
  then have i1: "fl_insert (new_fragmentList 0) f1 t1 = Some (?g1, None, None)"
    by (simp add: fl_insert_def fl(4)) (simp add: new_fragmentList_def)
  have d1: "DefragIPv4WithTimestamp d f1 t1 = Some (AList.update k ?g1 d, None, None)"
    by (rule stored_fragment [OF _ _ flow(1)]) (use frag_at_accepted [OF f1] b i1 flow(4) in \<open>simp_all add: flow_of_def\<close>)
  have "insert_counters ?g1 [f1, f2] f2 t2 = ?g2"
    using insert_counters_nat [of f2 "8 * q" 8 ?g1 n n "[f1, f2]" t2] w2 fl(2) b by (simp del: of_nat_add of_nat_mult add: max_def)
  moreover have "of_nat n \<le> (of_nat (8 * q) :: u16)" "(of_nat (8 * q + 8) :: u16) \<noteq> of_nat (n + 8)"
    using b by (simp_all only: not_less [symmetric] of_nat_u16_less of_nat_u16_eq)
  ultimately have i2: "fl_insert ?g1 f2 t2 = Some (?g2, None, None)" by (simp add: fl_insert_def w2 del: of_nat_add of_nat_mult)
  have d2: "DefragIPv4WithTimestamp (AList.update k ?g1 d) f2 t2 = Some (AList.update k ?g2 (AList.update k ?g1 d), None, None)"
    by (rule stored_fragment [OF _ _ flow(2)]) (use frag_at_accepted [OF f2] b q i2 in \<open>simp_all add: flow_of_def update_conv'\<close>)
  have g3: "insert_counters ?g2 [f1, f3, f2] f3 t3 = ?g3"
    using insert_counters_nat [of f3 "8 * m" l ?g2 "8 * q + 8" "n + 8" "[f1, f3, f2]" t3] w3 fl(3) b by (simp del: of_nat_add of_nat_mult add: max_def ac_simps)
  have cmp: "\<not> of_nat (8 * q + 8) \<le> (of_nat (8 * m) :: u16)" "(of_nat m :: u16) \<noteq> of_nat 0" "\<not> (of_nat m :: u16) < of_nat 0"
      "(of_nat m :: u16) \<noteq> of_nat q" "(of_nat m :: u16) < of_nat q"
    using b m by (simp_all only: not_le of_nat_u16_less of_nat_u16_eq)
  have "insert_scan f3 [f1, f2] = Some [f1, f3, f2]" using cmp fl by simp
  moreover have "build_loop [f1, f3, f2] [] 0 = build_loop [f3, f2] (Payload f1) (of_nat n)" using fl(4) w1(2) by simp
  moreover have "\<dots> = None" using b p f3 by (intro build_loop_options_panic [OF b(1), where l = l]) (simp_all add: w3 l_def frag_at_def)
  ultimately have i3: "fl_insert ?g2 f3 t3 = None" using cmp(1) g3 by (simp add: fl_insert_def w3 build_def del: of_nat_add of_nat_mult)
  have "DefragIPv4WithTimestamp (AList.update k ?g2 (AList.update k ?g1 d)) f3 t3 = None"
    using frag_at_accepted [OF f3] h p b i3 flow(3) by (simp add: DefragIPv4WithTimestamp_def update_conv')
  then show ?thesis using d1 d2 by simp
qed


theorem defrag_options_panic_witness:
  "defrag_run NewIPv4Defragmenter
     [(sample_frag 7 1 0 44 (replicate 24 0), 1),
      (sample_frag 7 0 9 28 (replicate 8 0), 2),
      ((sample_frag 7 1 1 68 (replicate 8 0))\<lparr>ip_IHL := 15\<rparr>, 3)] = None"
proof -
  obtain k where "newIPv4 (sample_frag 7 1 0 44 (replicate 24 0)) = Some k" "newIPv4 (sample_frag 7 0 9 28 (replicate 8 0)) = Some k"
      "newIPv4 ((sample_frag 7 1 1 68 (replicate 8 0))\<lparr>ip_IHL := 15\<rparr>) = Some k"
    by (simp add: sample_frag_def newIPv4_def IPv4_NetworkFlow_def NewFlow_def MaxEndpointSize_def)
  then show ?thesis
    by (rule defrag_options_panic [where n = 24 and q = 9 and h = 15 and m = 1 and p = 8])
      (simp_all add: frag_at_def sample_frag_def NewIPv4Defragmenter_def)
qed

end
