(* ===== verification/Stacks.thy ===== *)
theory Stacks
  imports Layer_Ethernet Layer_Tags Layer_IPv4 Layer_IPv6 Layer_UDP Layer_TCP Parser
begin

section \<open>Stacks of layers\<close>

text \<open>
  The layers put together the way the package documentation of \<^verbatim>\<open>doc.go\<close> does it: a parser over the structs for
  Ethernet, 802.1Q, IPv4, IPv6, UDP, TCP and the payload, and frames that are serialized layer by layer and parsed back.
\<close>

record layer_store =
  s_eth :: Ethernet
  s_dot1q :: Dot1Q
  s_ip4 :: IPv4
  s_ip6 :: IPv6
  s_udp :: UDP
  s_tcp :: TCP
  s_payload :: bytes

definition stack_layers :: "port_table \<Rightarrow> port_table \<Rightarrow> layer_store DecodingLayer list" where
  "stack_layers udp tcp =
     [in_store s_eth (\<lambda>l st. st\<lparr>s_eth := l\<rparr>) LayerTypeEthernet Ethernet_DecodeFromBytes Ethernet_NextLayerType Payload,
      in_store s_dot1q (\<lambda>l st. st\<lparr>s_dot1q := l\<rparr>) LayerTypeDot1Q Dot1Q_DecodeFromBytes Dot1Q_NextLayerType Payload,
      in_store s_ip4 (\<lambda>l st. st\<lparr>s_ip4 := l\<rparr>) LayerTypeIPv4 IPv4_DecodeFromBytes IPv4_NextLayerType Payload,
      in_store s_ip6 (\<lambda>l st. st\<lparr>s_ip6 := l\<rparr>) LayerTypeIPv6 IPv6_DecodeFromBytes IPv6_NextLayerType Payload,
      in_store s_udp (\<lambda>l st. st\<lparr>s_udp := l\<rparr>) LayerTypeUDP UDP_DecodeFromBytes (UDP_NextLayerType udp) Payload,
      in_store s_tcp (\<lambda>l st. st\<lparr>s_tcp := l\<rparr>) LayerTypeTCP TCP_DecodeFromBytes (TCP_NextLayerType tcp) Payload,
      in_store s_payload (\<lambda>l st. st\<lparr>s_payload := l\<rparr>) LayerTypePayload Payload_DecodeFromBytes Payload_NextLayerType Payload_LayerPayload]"

definition layer_ok :: "'st DecodingLayer \<Rightarrow> bool" where
  "layer_ok d \<longleftrightarrow> (\<forall>st data df. DecodeFromBytes d st data df \<noteq> None \<and>
     (\<forall>st' df'. DecodeFromBytes d st data df = Some (st', df', None) \<longrightarrow> LayerPayload d st' = [] \<or> length (LayerPayload d st') < length data))"

lemma in_store_ok:
  assumes "total_decoder decode payload view" and "\<And>l st. get (put l st) = l"
  shows "layer_ok (in_store get put t decode nxt payload)"
  unfolding layer_ok_def
proof (intro allI conjI impI)
  fix st data df st' df'
  let ?d = "in_store get put t decode nxt payload"
  show "DecodeFromBytes ?d st data df \<noteq> None"
    using total_decoder.no_panic [OF assms(1), of "get st" data df] by (simp add: in_store_def)
  assume "DecodeFromBytes ?d st data df = Some (st', df', None)"
  then obtain l where "decode (get st) data df = Some (l, df', None)" "st' = put l st" by (auto simp: in_store_def)
  then show "LayerPayload ?d st' = [] \<or> length (LayerPayload ?d st') < length data"
    using total_decoder.payload_shorter [OF assms(1)] by (simp add: in_store_def assms(2))
qed

lemmas stack_total =
  eth_dl.total_decoder_axioms dq_dl.total_decoder_axioms ip4_dl.total_decoder_axioms ip6_td.total_decoder_axioms
  udp_dl.total_decoder_axioms tcp_dl.total_decoder_axioms

lemma payload_ok: "layer_ok (in_store get put t Payload_DecodeFromBytes nxt Payload_LayerPayload)"
  by (simp add: layer_ok_def in_store_def Payload_DecodeFromBytes_def Payload_LayerPayload_def)

lemma stack_layers_ok: "d \<in> set (stack_layers udp tcp) \<Longrightarrow> layer_ok d"
  by (auto simp: stack_layers_def payload_ok intro: stack_total [THEN in_store_ok])

interpretation stack: parser_layers "stack_layers udp tcp" for udp tcp
  by unfold_locales (use stack_layers_ok in \<open>unfold layer_ok_def, blast+\<close>)

lemma types_of_in_store [simp]: "types_of (in_store get put t decode nxt payload) = [t]"
  by (simp add: in_store_def types_of_def LC_LayerTypes_def)

lemma stack_decoders:
  "latest_decoder (stack_layers udp tcp) 17 = Some (in_store s_eth (\<lambda>l st. st\<lparr>s_eth := l\<rparr>) 17 Ethernet_DecodeFromBytes Ethernet_NextLayerType Payload)"
  "latest_decoder (stack_layers udp tcp) 20 = Some (in_store s_ip4 (\<lambda>l st. st\<lparr>s_ip4 := l\<rparr>) 20 IPv4_DecodeFromBytes IPv4_NextLayerType Payload)"
  "latest_decoder (stack_layers udp tcp) 45 = Some (in_store s_udp (\<lambda>l st. st\<lparr>s_udp := l\<rparr>) 45 UDP_DecodeFromBytes (UDP_NextLayerType udp) Payload)"
  "latest_decoder (stack_layers udp tcp) 44 = Some (in_store s_tcp (\<lambda>l st. st\<lparr>s_tcp := l\<rparr>) 44 TCP_DecodeFromBytes (TCP_NextLayerType tcp) Payload)"
  "latest_decoder (stack_layers udp tcp) 2 = Some (in_store s_payload (\<lambda>l st. st\<lparr>s_payload := l\<rparr>) 2 Payload_DecodeFromBytes Payload_NextLayerType Payload_LayerPayload)"
  by (simp_all add: latest_decoder_def stack_layers_def)

text \<open>C16. A parser over the documented set of layers that starts with Ethernet returns on every input, whatever its structs
  held before: it ends, no decoder panics, and it reports at most as many layers as there are bytes (one for no bytes), all of the set.\<close>

theorem stack_parser_total:
  "\<exists>l. NewDecodingLayerParser LayerTypeEthernet (stack_layers udp tcp) = Some l \<and>
     (\<exists>err decoded' st' df'. DecodeLayers l data decoded st = Some (Parsed err decoded' st' df')
        \<and> length decoded' \<le> max 1 (length data) \<and> set decoded' \<subseteq> {17, 15, 20, 21, 45, 44, 2})"
proof -
  obtain l where l: "NewDecodingLayerParser LayerTypeEthernet (stack_layers udp tcp) = Some l" "parses_with l (stack_layers udp tcp)"
      "first l = LayerTypeEthernet"
    using NewDecodingLayerParser_parses by metis
  obtain err decoded' st' df' where r: "DecodeLayers l data decoded st = Some (Parsed err decoded' st' df')"
      "length decoded' \<le> max 1 (length data)" "\<forall>t \<in> set decoded'. \<exists>d \<in> set (stack_layers udp tcp). t \<in> set (types_of d)"
    using stack.DecodeLayers_returns [OF l(2), of data decoded st] l(3) by (auto simp: stack_decoders)
  have "set decoded' \<subseteq> {17, 15, 20, 21, 45, 44, 2}" using r(3) by (fastforce simp: stack_layers_def)
  with l(1) r(1,2) show ?thesis by blast
qed


subsection \<open>A frame with a UDP datagram\<close>

definition layer_eth :: "Ethernet \<Rightarrow> SerializableLayer" where
  "layer_eth eth = \<lparr>sl_LayerType = LayerTypeEthernet, sl_SerializeTo = (\<lambda>b opts. map_option snd (Ethernet_SerializeTo eth b opts))\<rparr>"

definition layer_ip4 :: "IPv4 \<Rightarrow> SerializableLayer" where
  "layer_ip4 ip = \<lparr>sl_LayerType = LayerTypeIPv4, sl_SerializeTo = (\<lambda>b opts. map_option snd (IPv4_SerializeTo ip b opts))\<rparr>"

definition layer_udp :: "UDP \<Rightarrow> SerializableLayer" where
  "layer_udp u = \<lparr>sl_LayerType = LayerTypeUDP, sl_SerializeTo = (\<lambda>b opts. map_option snd (UDP_SerializeTo u b opts))\<rparr>"

definition layer_payload :: "bytes \<Rightarrow> SerializableLayer" where
  "layer_payload p = \<lparr>sl_LayerType = LayerTypePayload, sl_SerializeTo = Payload_SerializeTo p\<rparr>"

lemma serialize_step:
  assumes "sl_SerializeTo l w opts = Some (w1, None)"
  shows "serialize_loop w opts (l # ls) = serialize_loop (PushLayer w1 (sl_LayerType l)) opts ls"
  using assms by simp

lemma loop_next:
  assumes "dec (get st) data df = Some (l, df1, None)" "get (put l st) = l" "pl l \<noteq> []" "look (nxt l) = Some (Some d1)"
  shows "decode_loop look (in_store get put t dec nxt pl) ty data decoded st df = decode_loop look d1 (nxt l) (pl l) (decoded @ [ty]) (put l st) df1"
  using assms by (subst decode_loop.simps) (simp add: in_store_def)

lemma loop_last:
  assumes "dec (get st) data df = Some (l, df1, None)" "get (put l st) = l" "pl l = []"
  shows "decode_loop look (in_store get put t dec nxt pl) ty data decoded st df = Some (Returned LayerTypeZero None (decoded @ [ty]) (put l st) df1)"
  using assms by (subst decode_loop.simps) (simp add: in_store_def)

lemma UDP_next_fixed: "udp_SrcPort u' = udp_SrcPort u \<Longrightarrow> udp_DstPort u' = udp_DstPort u \<Longrightarrow> UDP_NextLayerType tbl u' = UDP_NextLayerType tbl u"
  by (simp add: UDP_NextLayerType_def Let_def)

lemma udp_frame_serializes:
  assumes w: "sb_inv w" and o: "FixLengths opts" and eth: "length (eth_DstMAC eth) = 6" "length (eth_SrcMAC eth) = 6" "eth_Length eth = 0"
      "eth_EthernetType eth = 0x0800"
    and ip: "wf_ip ip" and ph: "ComputeChecksums opts \<Longrightarrow> udp_pseudoheader u = Some (PH4 ip)"
    and fit: "28 + length (opts_wire (ip_Options ip)) + length p < 65536"
  obtains w' csum ip' dg where "SerializeLayers w opts [layer_eth eth, layer_ip4 ip, layer_udp u, layer_payload p] = Some (w', None)"
    and "dg = udp_wire (udp_fixed u (length p)) csum @ p"
    and "ip' = (ip_fixed ip dg)\<lparr>ip_Checksum := ip_csum (ip_fixed ip dg) opts\<rparr>"
    and "Bytes w' = eth_frame eth 0x0800 (ip_wire ip' (ip_Checksum ip') @ dg)"
    and "ComputeChecksums opts \<Longrightarrow> computeChecksum (Some (PH4 ip)) dg 17 = Some (Some (PH4 ip), Inr 0)"
proof -
  obtain w0 where w0: "Clear w = Some w0" "sb_inv w0" "Bytes w0 = []" using sb.clear_ok [OF w] by blast
  obtain w1 where w1: "sl_SerializeTo (layer_payload p) w0 opts = Some (w1, None)" "sb_inv w1" "Bytes w1 = p"
    using Payload_encodes [of opts LayerTypePayload p] w0 by (auto simp: layer_encodes_def layer_payload_def)
  let ?w1 = "PushLayer w1 (sl_LayerType (layer_payload p))"
  have wph: "wf_ph (PH4 ip)" using ip by (simp add: wf_ph_def wf_ip_def)
  have i1: "sb_inv ?w1" "Bytes ?w1 = p" "length (Bytes ?w1) + 8 < 65536" using w1 fit by simp_all
  obtain w2 c where w2: "UDP_SerializeTo u ?w1 opts = Some ((udp_fixed u (length p))\<lparr>udp_Checksum := c\<rparr>, w2, None)" "sb_inv w2"
      "Bytes w2 = udp_wire (udp_fixed u (length p)) c @ p"
      "if ComputeChecksums opts then computeChecksum (Some (PH4 ip)) (udp_wire (udp_fixed u (length p)) 0 @ p) 17 = Some (Some (PH4 ip), Inr c)
       else c = udp_Checksum u"
    using UDP_SerializeTo_ok [OF i1(1) o i1(3), of u "PH4 ip", unfolded i1(2)] ph wph by blast
  define dg where "dg = udp_wire (udp_fixed u (length p)) c @ p"
  let ?w2 = "PushLayer w2 (sl_LayerType (layer_udp u))"
  have i2: "sb_inv ?w2" "Bytes ?w2 = dg" "20 + length (opts_wire (ip_Options ip)) + length (Bytes ?w2) < 65536"
    using w2 fit by (simp_all add: dg_def)
  define ip' where "ip' = (ip_fixed ip dg)\<lparr>ip_Checksum := ip_csum (ip_fixed ip dg) opts\<rparr>"
  obtain w3 where w3: "IPv4_SerializeTo ip ?w2 opts = Some (ip', w3, None)" "sb_inv w3" "Bytes w3 = ip_wire ip' (ip_Checksum ip') @ dg"
    using IPv4_roundtrip_bytes [OF i2(1) ip o i2(3)] unfolding i2(2) ip'_def by blast
  let ?w3 = "PushLayer w3 (sl_LayerType (layer_ip4 ip))"
  have i3: "sb_inv ?w3" using w3 by simp
  obtain w4 where w4: "Ethernet_SerializeTo eth ?w3 opts = Some (eth, w4, None)" "Bytes w4 = eth_frame eth 0x0800 (ip_wire ip' (ip_Checksum ip') @ dg)"
    using Ethernet_SerializeTo_type [OF i3 eth(1-3)] eth(4) w3(3) by auto
  have "SerializeLayers w opts [layer_eth eth, layer_ip4 ip, layer_udp u, layer_payload p] = Some (PushLayer w4 LayerTypeEthernet, None)"
    using w0(1) w1(1) w2(1) w3(1) w4(1)
    by (simp add: SerializeLayers_def layer_eth_def layer_ip4_def layer_udp_def layer_payload_def)
  moreover have "ComputeChecksums opts \<Longrightarrow> computeChecksum (Some (PH4 ip)) dg 17 = Some (Some (PH4 ip), Inr 0)"
    using udp_wire_verifies [OF wph] w2(4) fit by (simp add: dg_def)
  ultimately show thesis using that [of "PushLayer w4 LayerTypeEthernet" dg c ip'] w4(2) by (simp add: dg_def ip'_def)
qed


text \<open>C15. A UDP datagram in an IPv4 packet in an Ethernet frame comes back as it was sent: \<^verbatim>\<open>SerializeLayers\<close> succeeds on any
  buffer, and a parser over the documented layers decodes the bytes, padding to the minimum frame size included, to the
  layers Ethernet, IPv4, UDP and payload with the same addresses, options, ports and payload, whatever its structs held
  before. With checksums computed, both checksums verify at the receiver.\<close>

theorem udp_frame_roundtrip:
  assumes "sb_inv w" and "FixLengths opts" and "length (eth_DstMAC eth) = 6" "length (eth_SrcMAC eth) = 6" "eth_Length eth = 0"
      "eth_EthernetType eth = 0x0800"
    and "wf_ip ip" "ip_Protocol ip = 17" "ip_FragOffset ip = 0" "ip_Flags ip AND 1 = 0"
    and "ComputeChecksums opts \<longrightarrow> udp_pseudoheader u = Some (PH4 ip)" "UDP_NextLayerType udp u = LayerTypePayload"
    and "p \<noteq> []" "28 + length (opts_wire (ip_Options ip)) + length p < 65536"
  shows "\<exists>w' l st. SerializeLayers w opts [layer_eth eth, layer_ip4 ip, layer_udp u, layer_payload p] = Some (w', None)
     \<and> NewDecodingLayerParser LayerTypeEthernet (stack_layers udp tcp) = Some l
     \<and> DecodeLayers l (Bytes w') decoded st0 = Some (Parsed None [LayerTypeEthernet, LayerTypeIPv4, LayerTypeUDP, LayerTypePayload] st False)
     \<and> s_payload st = p \<and> udp_SrcPort (s_udp st) = udp_SrcPort u \<and> udp_DstPort (s_udp st) = udp_DstPort u
     \<and> ip_SrcIP (s_ip4 st) = ip_SrcIP ip \<and> ip_DstIP (s_ip4 st) = ip_DstIP ip \<and> ip_Options (s_ip4 st) = ip_Options ip
     \<and> ip_TTL (s_ip4 st) = ip_TTL ip \<and> ip_Id (s_ip4 st) = ip_Id ip \<and> ip_TOS (s_ip4 st) = ip_TOS ip
     \<and> eth_SrcMAC (s_eth st) = eth_SrcMAC eth \<and> eth_DstMAC (s_eth st) = eth_DstMAC eth
     \<and> (ComputeChecksums opts \<longrightarrow> tcpipChecksum (Contents (s_ip4 st)) 0 = 0
          \<and> computeChecksum (Some (PH4 ip)) (Payload (s_ip4 st)) 17 = Some (Some (PH4 ip), Inr 0))"
proof -
  obtain w' csum ip' dg where s: "SerializeLayers w opts [layer_eth eth, layer_ip4 ip, layer_udp u, layer_payload p] = Some (w', None)"
      "dg = udp_wire (udp_fixed u (length p)) csum @ p" "ip' = (ip_fixed ip dg)\<lparr>ip_Checksum := ip_csum (ip_fixed ip dg) opts\<rparr>"
      "Bytes w' = eth_frame eth 0x0800 (ip_wire ip' (ip_Checksum ip') @ dg)"
      "ComputeChecksums opts \<Longrightarrow> computeChecksum (Some (PH4 ip)) dg 17 = Some (Some (PH4 ip), Inr 0)"
    using udp_frame_serializes [OF assms(1-7) _ assms(14), of u] assms(11) by metis
  obtain l where l: "NewDecodingLayerParser LayerTypeEthernet (stack_layers udp tcp) = Some l" "parses_with l (stack_layers udp tcp)"
      "first l = LayerTypeEthernet" "\<not> IgnoreUnsupported l"
    using NewDecodingLayerParser_parses by metis
  let ?n = "length (ip_wire ip' (ip_Checksum ip') @ dg)"
  let ?pad = "replicate (46 - ?n) 0 :: bytes"
  let ?c = "ip_csum (ip_fixed ip dg) opts"
  let ?eth = "eth\<lparr>Contents := take 14 (Bytes w'), Payload := ip_wire ip' (ip_Checksum ip') @ dg @ ?pad\<rparr>"
  let ?ip = "(ip_fixed ip dg)\<lparr>ip_Checksum := ?c, Contents := ip_wire (ip_fixed ip dg) ?c, Payload := dg, ip_Padding := []\<rparr>"
  let ?u = "(udp_fixed u (length p))\<lparr>udp_Checksum := csum, Contents := udp_wire (udp_fixed u (length p)) csum, Payload := p,
             udp_sPort := be16 (udp_SrcPort u), udp_dPort := be16 (udp_DstPort u), udp_pseudoheader := udp_pseudoheader (s_udp st0)\<rparr>"
  let ?st = "st0\<lparr>s_eth := ?eth, s_ip4 := ?ip, s_udp := ?u, s_payload := p\<rparr>"
  have eth: "Ethernet_DecodeFromBytes (s_eth st0) (Bytes w') False = Some (?eth, False, None)"
    unfolding s(4) using assms(5,6) by (simp add: Ethernet_decode_simp eth_frame_decode [OF assms(3,4)] Let_def)
  have wire: "ip_wire ip' (ip_Checksum ip') = ip_wire (ip_fixed ip dg) ?c"
    by (simp add: s(3) ip_wire_def ip_fixed_part_def flagsfrags_def)
  have fit: "20 + length (opts_wire (ip_Options ip)) + length dg < 65536" "length p + 8 < 65536" using assms(14) s(2) by simp_all
  have ip: "IPv4_DecodeFromBytes (s_ip4 st0) (ip_wire ip' (ip_Checksum ip') @ dg @ ?pad) False = Some (?ip, False, None)"
    unfolding wire by (rule IPv4_decode_wire [OF assms(7) fit(1)])
  have u: "UDP_DecodeFromBytes (s_udp st0) dg False = Some (?u, False, None)"
    using UDP_decode_wire [OF refl fit(2), of "s_udp st0" u csum "[]" False] s(2) by simp
  have nxt: "Ethernet_NextLayerType ?eth = LayerTypeIPv4" "IPv4_NextLayerType ?ip = LayerTypeUDP" "UDP_NextLayerType udp ?u = LayerTypePayload"
    using assms(6,8-10) UDP_next_fixed [of ?u u udp] assms(12)
    by (simp_all add: Ethernet_NextLayerType_def IPv4_NextLayerType_def EthernetType_LayerType_def EthernetTypeMetadata_def
        IPProtocol_LayerType_def IPProtocolMetadata_def ip_fixed_def udp_fixed_def)
  let ?L = "\<lambda>t. Some (latest_decoder (stack_layers udp tcp) t)"
  have ne: "ip_wire ip' (ip_Checksum ip') @ dg @ ?pad \<noteq> []" "dg \<noteq> []" using assms(13) s(2) by simp_all
  let ?eth_l = "in_store s_eth (\<lambda>l st. st\<lparr>s_eth := l\<rparr>) 17 Ethernet_DecodeFromBytes Ethernet_NextLayerType Payload"
  let ?ip_l = "in_store s_ip4 (\<lambda>l st. st\<lparr>s_ip4 := l\<rparr>) 20 IPv4_DecodeFromBytes IPv4_NextLayerType Payload"
  let ?udp_l = "in_store s_udp (\<lambda>l st. st\<lparr>s_udp := l\<rparr>) 45 UDP_DecodeFromBytes (UDP_NextLayerType udp) Payload"
  let ?pay_l = "in_store s_payload (\<lambda>l st. st\<lparr>s_payload := l\<rparr>) 2 Payload_DecodeFromBytes Payload_NextLayerType Payload_LayerPayload"
  have "decode_loop ?L ?eth_l 17 (Bytes w') [] st0 False
      = decode_loop ?L ?ip_l 20 (ip_wire ip' (ip_Checksum ip') @ dg @ ?pad) [17] (st0\<lparr>s_eth := ?eth\<rparr>) False"
    by (subst loop_next [where l = ?eth and ?df1.0 = False and ?d1.0 = ?ip_l]) (use eth nxt(1) ne(1) in \<open>simp_all add: stack_decoders\<close>)
  also have "\<dots> = decode_loop ?L ?udp_l 45 dg [17, 20] (st0\<lparr>s_eth := ?eth, s_ip4 := ?ip\<rparr>) False"
    by (subst loop_next [where l = ?ip and ?df1.0 = False and ?d1.0 = ?udp_l]) (use ip nxt(2) ne(2) in \<open>simp_all add: stack_decoders\<close>)
  also have "\<dots> = decode_loop ?L ?pay_l 2 p [17, 20, 45] (st0\<lparr>s_eth := ?eth, s_ip4 := ?ip, s_udp := ?u\<rparr>) False"
    by (subst loop_next [where l = ?u and ?df1.0 = False and ?d1.0 = ?pay_l]) (use u nxt(3) assms(13) in \<open>simp_all add: stack_decoders\<close>)
  also have "\<dots> = Some (Returned LayerTypeZero None [17, 20, 45, 2] ?st False)"
    by (subst loop_last [where l = p and ?df1.0 = False]) (simp_all add: Payload_DecodeFromBytes_def Payload_LayerPayload_def)
  finally have "DecodeLayers l (Bytes w') decoded st0 = Some (Parsed None [17, 20, 45, 2] ?st False)"
    using l(2,3) by (simp add: DecodeLayers_def parses_with_def layers_spec_def stack_decoders)
  moreover have "wf_ip (ip_fixed ip dg)" using assms(7) by (simp add: wf_ip_def ip_fixed_def)
  then have "ComputeChecksums opts \<longrightarrow> tcpipChecksum (Contents ?ip) 0 = 0" using ip_wire_verifies by (simp add: ip_csum_def)
  ultimately show ?thesis using s(1,5) l(1) by (intro exI [of _ w'] exI [of _ l] exI [of _ ?st]) (simp add: ip_fixed_def udp_fixed_def)
qed


definition ex_eth :: Ethernet where
  "ex_eth = zero_Ethernet\<lparr>eth_SrcMAC := [2, 0, 0, 0, 0, 1], eth_DstMAC := [2, 0, 0, 0, 0, 2], eth_EthernetType := 0x0800\<rparr>"

theorem udp_frame_roundtrip_witness:
  "\<forall>st0. \<exists>w' l st. SerializeLayers NewSerializeBuffer \<lparr>FixLengths = True, ComputeChecksums = True\<rparr>
         [layer_eth ex_eth, layer_ip4 ex_ip, layer_udp ex_udp, layer_payload [1, 2, 3]] = Some (w', None)
     \<and> NewDecodingLayerParser LayerTypeEthernet (stack_layers (\<lambda>_. 0) (\<lambda>_. 0)) = Some l
     \<and> DecodeLayers l (Bytes w') [] st0 = Some (Parsed None [LayerTypeEthernet, LayerTypeIPv4, LayerTypeUDP, LayerTypePayload] st False)
     \<and> s_payload st = [1, 2, 3] \<and> udp_DstPort (s_udp st) = 53 \<and> tcpipChecksum (Contents (s_ip4 st)) 0 = 0"
proof
  fix st0
  have a: "length (eth_DstMAC ex_eth) = 6" "length (eth_SrcMAC ex_eth) = 6" "eth_Length ex_eth = 0" "eth_EthernetType ex_eth = 0x0800"
    by (simp_all add: ex_eth_def zero_Ethernet_def)
  have b: "ip_Protocol ex_ip = 17" "ip_FragOffset ex_ip = 0" "ip_Flags ex_ip AND 1 = 0" by (simp_all add: ex_ip_def zero_IPv4_def)
  have c: "udp_pseudoheader ex_udp = Some (PH4 ex_ip)" "UDP_NextLayerType (\<lambda>_. 0) ex_udp = LayerTypePayload" "udp_DstPort ex_udp = 53"
    by (simp_all add: ex_udp_def UDP_NextLayerType_def UDPPort_LayerType_def)
  have d: "28 + length (opts_wire (ip_Options ex_ip)) + length ([1, 2, 3] :: bytes) < 65536" by (simp add: wf_ex_ip)
  show "\<exists>w' l st. SerializeLayers NewSerializeBuffer \<lparr>FixLengths = True, ComputeChecksums = True\<rparr>
         [layer_eth ex_eth, layer_ip4 ex_ip, layer_udp ex_udp, layer_payload [1, 2, 3]] = Some (w', None)
     \<and> NewDecodingLayerParser LayerTypeEthernet (stack_layers (\<lambda>_. 0) (\<lambda>_. 0)) = Some l
     \<and> DecodeLayers l (Bytes w') [] st0 = Some (Parsed None [LayerTypeEthernet, LayerTypeIPv4, LayerTypeUDP, LayerTypePayload] st False)
     \<and> s_payload st = [1, 2, 3] \<and> udp_DstPort (s_udp st) = 53 \<and> tcpipChecksum (Contents (s_ip4 st)) 0 = 0"
    using udp_frame_roundtrip [OF sb_inv_New _ a wf_ex_ip(1) b _ c(2) _ d, of "\<lparr>FixLengths = True, ComputeChecksums = True\<rparr>" "\<lambda>_. 0" "[]" st0] c(1,3)
    by auto
qed

end
