(* ===== verification/Pcap_File.thy ===== *)
theory Pcap_File
  imports Packet_Source
begin

section \<open>Capture files (\<^verbatim>\<open>pcapgo/write.go\<close>, \<^verbatim>\<open>pcapgo/read.go\<close>, \<^verbatim>\<open>pcapgo/snoop.go\<close>)\<close>

text \<open>
  The writer and the reader of pcap files and the reader of snoop files. The \<^verbatim>\<open>io.Writer\<close> is a function on the state of
  a sink, the \<^verbatim>\<open>io.Reader\<close> the bytes it has still to deliver. A time is its number of nanoseconds since the Unix
  epoch. Decompression of gzip data is an argument of \<^verbatim>\<open>NewReader\<close>; a 64-bit \<^verbatim>\<open>int\<close> is an unbounded integer, as
  all its values here are sums of 32-bit values.
\<close>

subsection \<open>Library functions of Go\<close>

type_synonym 's io_writer = "'s \<Rightarrow> bytes \<Rightarrow> 's \<times> goerr option"

definition buffer_Write :: "bytes io_writer" where
  "buffer_Write s b = (s @ b, None)"

definition ReadFull :: "bytes \<Rightarrow> nat \<Rightarrow> bytes \<times> bytes \<times> read_err option" where
  "ReadFull r n =
     (if n \<le> length r then (take n r, drop n r, None)
      else if r = [] then ([], [], Some EOF)
      else (r, [], Some ErrUnexpectedEOF))"

definition zero_time :: int where
  "zero_time = -62135596800 * 1000000000"

definition Unix :: "int \<Rightarrow> int" where "Unix t = t div 1000000000"

definition Nanosecond :: "int \<Rightarrow> int" where "Nanosecond t = t mod 1000000000"

definition time_Unix :: "int \<Rightarrow> int \<Rightarrow> int" where "time_Unix secs nsecs = secs * 1000000000 + nsecs"

definition Uint16_at :: "bool \<Rightarrow> bytes \<Rightarrow> nat \<Rightarrow> u16" where
  "Uint16_at big b i = (if big then mk16 (b ! i) (b ! (i + 1)) else mk16 (b ! (i + 1)) (b ! i))"

definition Uint32_at :: "bool \<Rightarrow> bytes \<Rightarrow> nat \<Rightarrow> u32" where
  "Uint32_at big b i =
     (if big then mk32 (b ! i) (b ! (i + 1)) (b ! (i + 2)) (b ! (i + 3))
      else mk32 (b ! (i + 3)) (b ! (i + 2)) (b ! (i + 1)) (b ! i))"

subsection \<open>Writing\<close>

definition magicMicroseconds :: u32 where "magicMicroseconds = 0xA1B2C3D4"
definition magicNanoseconds :: u32 where "magicNanoseconds = 0xA1B23C4D"
definition magicMicrosecondsBigendian :: u32 where "magicMicrosecondsBigendian = 0xD4C3B2A1"
definition magicNanosecondsBigendian :: u32 where "magicNanosecondsBigendian = 0x4D3CB2A1"
definition versionMajor :: u16 where "versionMajor = 2"
definition versionMinor :: u16 where "versionMinor = 4"
definition nanosPerMicro :: int where "nanosPerMicro = 1000"
definition nanosPerNano :: int where "nanosPerNano = 1"

record 's Writer =
  wr_w :: 's
  wr_tsScaler :: int

definition NewWriterNanos :: "'s \<Rightarrow> 's Writer" where
  "NewWriterNanos w = \<lparr>wr_w = w, wr_tsScaler = nanosPerNano\<rparr>"

definition NewWriter :: "'s \<Rightarrow> 's Writer" where
  "NewWriter w = \<lparr>wr_w = w, wr_tsScaler = nanosPerMicro\<rparr>"

definition WriteFileHeader :: "'s io_writer \<Rightarrow> 's Writer \<Rightarrow> u32 \<Rightarrow> u8 \<Rightarrow> 's Writer \<times> goerr option" where
  "WriteFileHeader write w snaplen linktype =
     (let buf = le32 (if wr_tsScaler w = nanosPerMicro then magicMicroseconds else magicNanoseconds)
                @ le16 versionMajor @ le16 versionMinor @ replicate 8 0 @ le32 snaplen @ le32 (ucast linktype);
          (s, err) = write (wr_w w) buf
      in (w\<lparr>wr_w := s\<rparr>, err))"

definition writePacketHeader :: "'s io_writer \<Rightarrow> int \<Rightarrow> 's Writer \<Rightarrow> CaptureInfo \<Rightarrow> 's Writer \<times> goerr option" where
  "writePacketHeader write now w ci =
     (let t = (if Timestamp ci = zero_time then now else Timestamp ci);
          secs = Unix t;
          usecs = Nanosecond t div wr_tsScaler w;
          buf = le32 (of_int secs) @ le32 (of_int usecs) @ le32 (of_int (CaptureLength ci)) @ le32 (of_int (Length ci));
          (s, err) = write (wr_w w) buf
      in (w\<lparr>wr_w := s\<rparr>, err))"

definition WritePacket :: "'s io_writer \<Rightarrow> int \<Rightarrow> 's Writer \<Rightarrow> CaptureInfo \<Rightarrow> bytes \<Rightarrow> 's Writer \<times> goerr option" where
  "WritePacket write now w ci data =
     (if CaptureLength ci \<noteq> int (length data)
      then (w, Some (Errorf ''capture length %d does not match data length %d'' [CaptureLength ci, int (length data)]))
      else if CaptureLength ci > Length ci
      then (w, Some (Errorf ''invalid capture info %+v:  capture length > length'' [CaptureLength ci, Length ci]))
      else case writePacketHeader write now w ci of
             (w1, Some err) \<Rightarrow> (w1, Some (Errorf ''error writing packet header: %v'' []))
           | (w1, None) \<Rightarrow> let (s, err) = write (wr_w w1) data in (w1\<lparr>wr_w := s\<rparr>, err))"

subsection \<open>Reading\<close>

record Reader =
  rd_r :: bytes
  rd_byteOrder :: bool
  rd_nanoSecsFactor :: u32
  rd_versionMajor :: u16
  rd_versionMinor :: u16
  rd_snaplen :: u32
  rd_linkType :: u8
  rd_packetBuf :: bytes

text \<open>The byte order is \<open>True\<close> for big-endian; the errors of a failed \<^verbatim>\<open>Peek\<close> and of \<^verbatim>\<open>gzip.NewReader\<close> are passed on.\<close>

definition readHeader :: "(bytes \<Rightarrow> read_err + bytes) \<Rightarrow> bytes \<Rightarrow> read_err + Reader" where
  "readHeader gunzip r0 =
     (if length r0 < 2 then Inl EOF
      else case (if r0 ! 0 = 0x1f \<and> r0 ! 1 = 0x8b then gunzip r0 else Inr r0) of
        Inl err \<Rightarrow> Inl err
      | Inr r \<Rightarrow>
          (case ReadFull r 24 of
             (buf, r1, Some err) \<Rightarrow> Inl err
           | (buf, r1, None) \<Rightarrow>
               let magic = Uint32_at False buf 0
               in case (if magic = magicNanoseconds then Some (False, 1)
                        else if magic = magicNanosecondsBigendian then Some (True, 1)
                        else if magic = magicMicroseconds then Some (False, 1000)
                        else if magic = magicMicrosecondsBigendian then Some (True, 1000)
                        else None) of
                    None \<Rightarrow> Inl (OtherErr (Errorf ''Unknown magic %x'' [uint magic]))
                  | Some (big, factor) \<Rightarrow>
                      if Uint16_at big buf 4 \<noteq> versionMajor
                      then Inl (OtherErr (Errorf ''Unknown major version %d'' [uint (Uint16_at big buf 4)]))
                      else if Uint16_at big buf 6 \<noteq> versionMinor
                      then Inl (OtherErr (Errorf ''Unknown minor version %d'' [uint (Uint16_at big buf 6)]))
                      else Inr \<lparr>rd_r = r1, rd_byteOrder = big, rd_nanoSecsFactor = factor, rd_versionMajor = Uint16_at big buf 4,
                                rd_versionMinor = Uint16_at big buf 6, rd_snaplen = Uint32_at big buf 16,
                                rd_linkType = ucast (Uint32_at big buf 20), rd_packetBuf = []\<rparr>))"

definition NewReader :: "(bytes \<Rightarrow> read_err + bytes) \<Rightarrow> bytes \<Rightarrow> read_err + Reader" where
  "NewReader gunzip r = readHeader gunzip r"

definition readPacketHeader :: "Reader \<Rightarrow> Reader \<times> CaptureInfo \<times> read_err option" where
  "readPacketHeader r =
     (case ReadFull (rd_r r) 16 of
        (buf, r1, Some err) \<Rightarrow> (r\<lparr>rd_r := r1\<rparr>, zero_CaptureInfo\<lparr>Timestamp := zero_time\<rparr>, Some err)
      | (buf, r1, None) \<Rightarrow>
          (r\<lparr>rd_r := r1\<rparr>,
           zero_CaptureInfo\<lparr>Timestamp := time_Unix (uint (Uint32_at (rd_byteOrder r) buf 0))
                                              (uint (Uint32_at (rd_byteOrder r) buf 4 * rd_nanoSecsFactor r)),
             CaptureLength := uint (Uint32_at (rd_byteOrder r) buf 8), Length := uint (Uint32_at (rd_byteOrder r) buf 12)\<rparr>, None))"

text \<open>The checks that \<^verbatim>\<open>ReadPacketData\<close> and \<^verbatim>\<open>ZeroCopyReadPacketData\<close> share.\<close>

definition capture_error :: "Reader \<Rightarrow> CaptureInfo \<Rightarrow> read_err option" where
  "capture_error r ci =
     (if CaptureLength ci > uint (rd_snaplen r)
      then Some (OtherErr (Errorf ''capture length exceeds snap length: %d > %d'' [CaptureLength ci, uint (rd_snaplen r)]))
      else if CaptureLength ci > Length ci
      then Some (OtherErr (Errorf ''capture length exceeds original packet length: %d > %d'' [CaptureLength ci, Length ci]))
      else None)"

text \<open>Bytes read into the front of a buffer.\<close>

definition fill :: "bytes \<Rightarrow> bytes \<Rightarrow> bytes" where
  "fill buf got = got @ drop (length got) buf"

definition pcap_ReadPacketData :: "Reader \<Rightarrow> Reader \<times> bytes \<times> CaptureInfo \<times> read_err option" where
  "pcap_ReadPacketData r =
     (case readPacketHeader r of
        (r1, ci, Some err) \<Rightarrow> (r1, [], ci, Some err)
      | (r1, ci, None) \<Rightarrow>
          (case capture_error r ci of
             Some err \<Rightarrow> (r1, [], ci, Some err)
           | None \<Rightarrow>
               let n = nat (CaptureLength ci); (got, r2, err) = ReadFull (rd_r r1) n
               in (r1\<lparr>rd_r := r2\<rparr>, fill (replicate n 0) got, ci, err)))"

text \<open>The slice \<^verbatim>\<open>packetBuf[:n]\<close> cannot panic, because the buffer was grown before.\<close>

definition ZeroCopyReadPacketData :: "Reader \<Rightarrow> Reader \<times> bytes \<times> CaptureInfo \<times> read_err option" where
  "ZeroCopyReadPacketData r =
     (case readPacketHeader r of
        (r1, ci, Some err) \<Rightarrow> (r1, [], ci, Some err)
      | (r1, ci, None) \<Rightarrow>
          (case capture_error r ci of
             Some err \<Rightarrow> (r1, [], ci, Some err)
           | None \<Rightarrow>
               let n = nat (CaptureLength ci);
                   snaplen = (if uint (rd_snaplen r) < CaptureLength ci then CaptureLength ci else uint (rd_snaplen r));
                   packetBuf = (if int (length (rd_packetBuf r1)) < CaptureLength ci then replicate (nat snaplen) 0 else rd_packetBuf r1);
                   (got, r2, err) = ReadFull (rd_r r1) n;
                   packetBuf1 = fill packetBuf got
               in (r1\<lparr>rd_r := r2, rd_packetBuf := packetBuf1\<rparr>, take n packetBuf1, ci, err)))"

definition SetSnaplen :: "Reader \<Rightarrow> u32 \<Rightarrow> Reader" where
  "SetSnaplen r newSnaplen = r\<lparr>rd_snaplen := newSnaplen\<rparr>"

text \<open>\<^verbatim>\<open>TimestampResolution\<close> by its base and its exponent.\<close>

definition Resolution :: "Reader \<Rightarrow> int \<times> int" where
  "Resolution r = (if rd_nanoSecsFactor r = 1 then (10, -6) else (10, -9))"


subsection \<open>Files read back\<close>

fun WritePackets :: "'s io_writer \<Rightarrow> int \<Rightarrow> 's Writer \<Rightarrow> (CaptureInfo \<times> bytes) list \<Rightarrow> 's Writer \<times> goerr option" where
  "WritePackets write now w [] = (w, None)"
| "WritePackets write now w ((ci, data) # ps) =
     (case WritePacket write now w ci data of (w1, None) \<Rightarrow> WritePackets write now w1 ps | r \<Rightarrow> r)"

fun ReadPackets :: "nat \<Rightarrow> Reader \<Rightarrow> Reader \<times> (bytes \<times> CaptureInfo \<times> read_err option) list" where
  "ReadPackets 0 r = (r, [])"
| "ReadPackets (Suc n) r =
     (let (r1, x) = pcap_ReadPacketData r; (r2, xs) = ReadPackets n r1 in (r2, x # xs))"

text \<open>The capture information that fits the format, and what is left of it in a file with the given resolution.\<close>

definition capture_ok :: "u32 \<Rightarrow> CaptureInfo \<times> bytes \<Rightarrow> bool" where
  "capture_ok snaplen p \<longleftrightarrow> (let (ci, data) = p in
     0 \<le> Timestamp ci \<and> Timestamp ci < 4294967296 * 1000000000 \<and> CaptureLength ci = int (length data)
     \<and> CaptureLength ci \<le> Length ci \<and> Length ci < 4294967296 \<and> CaptureLength ci \<le> uint snaplen)"

definition stored :: "int \<Rightarrow> CaptureInfo \<Rightarrow> CaptureInfo" where
  "stored scale ci = ci\<lparr>Timestamp := Timestamp ci div scale * scale, InterfaceIndex := 0\<rparr>"

definition packet_record :: "int \<Rightarrow> CaptureInfo \<times> bytes \<Rightarrow> bytes" where
  "packet_record scale p = le32 (of_int (Unix (Timestamp (fst p)))) @ le32 (of_int (Nanosecond (Timestamp (fst p)) div scale))
     @ le32 (of_int (CaptureLength (fst p))) @ le32 (of_int (Length (fst p))) @ snd p"

lemma uint_of_int_u32: "0 \<le> i \<Longrightarrow> i < 4294967296 \<Longrightarrow> uint (of_int i :: u32) = i"
  by (simp add: unsigned_of_int take_bit_int_eq_self_iff)

lemma Uint32_at_le32:
  "length xs = i \<Longrightarrow> Uint32_at False (xs @ le32 w @ rest) i = w" "length xs = i \<Longrightarrow> Uint32_at False (xs @ le32 w) i = w"
  by (auto simp: Uint32_at_def le32_def nth_append mk32_split)

lemma Uint16_at_le16: "length xs = i \<Longrightarrow> Uint16_at False (xs @ le16 w @ rest) i = w"
  by (auto simp: Uint16_at_def le16_def nth_append mk16_split)

lemma le32_fields:
  "Uint32_at False (le32 a @ le32 b @ le32 c @ le32 d) 0 = a" "Uint32_at False (le32 a @ le32 b @ le32 c @ le32 d) 4 = b"
  "Uint32_at False (le32 a @ le32 b @ le32 c @ le32 d) 8 = c" "Uint32_at False (le32 a @ le32 b @ le32 c @ le32 d) 12 = d"
  using Uint32_at_le32(1) [of "[]" 0 a "le32 b @ le32 c @ le32 d"] Uint32_at_le32(1) [of "le32 a" 4 b "le32 c @ le32 d"]
    Uint32_at_le32(1) [of "le32 a @ le32 b" 8 c "le32 d"] Uint32_at_le32(2) [of "le32 a @ le32 b @ le32 c" 12 d]
  by simp_all

lemma scaled_time:
  assumes "scale = 1 \<or> scale = 1000"
  shows "time_Unix (Unix t) (Nanosecond t div scale * scale) = t div scale * scale"
proof -
  have "t = t div 1000000000 * 1000000000 + t mod 1000000000" by simp
  moreover have "(q * 1000000000 + r) div 1000 = q * 1000000 + r div 1000" for q r :: int by simp
  ultimately have "t div 1000 = t div 1000000000 * 1000000 + t mod 1000000000 div 1000" by metis
  then show ?thesis using assms by (auto simp: time_Unix_def Unix_def Nanosecond_def)
qed

lemma WritePacket_buffer:
  assumes "capture_ok snaplen p"
  shows "WritePacket buffer_Write now w (fst p) (snd p) = (w\<lparr>wr_w := wr_w w @ packet_record (wr_tsScaler w) p\<rparr>, None)"
proof -
  have "Timestamp (fst p) \<noteq> zero_time" using assms by (auto simp: capture_ok_def zero_time_def)
  then show ?thesis using assms
    by (simp add: WritePacket_def writePacketHeader_def buffer_Write_def packet_record_def capture_ok_def split_beta Let_def)
qed

lemma WritePackets_buffer:
  assumes "\<forall>p \<in> set ps. capture_ok snaplen p"
  shows "WritePackets buffer_Write now w ps = (w\<lparr>wr_w := wr_w w @ concat (map (packet_record (wr_tsScaler w)) ps)\<rparr>, None)"
  using assms
proof (induction ps arbitrary: w)
  case (Cons p ps)
  then show ?case using WritePacket_buffer [of snaplen p now w] by (cases p) simp
qed simp

lemma read_record:
  assumes ok: "capture_ok snaplen p" and sc: "scale = 1 \<or> scale = 1000"
    and r: "rd_r r = packet_record scale p @ rest" "\<not> rd_byteOrder r" "rd_nanoSecsFactor r = of_int scale" "rd_snaplen r = snaplen"
  shows "pcap_ReadPacketData r = (r\<lparr>rd_r := rest\<rparr>, snd p, stored scale (fst p), None)"
proof -
  obtain ci data where p: "p = (ci, data)" by (cases p)
  have o: "0 \<le> Timestamp ci" "Timestamp ci < 4294967296 * 1000000000" "CaptureLength ci = int (length data)" "CaptureLength ci \<le> Length ci"
      "Length ci < 4294967296" "CaptureLength ci \<le> uint snaplen" using ok p by (simp_all add: capture_ok_def)
  let ?h = "le32 (of_int (Unix (Timestamp ci))) @ le32 (of_int (Nanosecond (Timestamp ci) div scale))
     @ le32 (of_int (CaptureLength ci)) @ le32 (of_int (Length ci))"
  have s: "0 \<le> Unix (Timestamp ci)" "Unix (Timestamp ci) < 4294967296" using o(1,2) by (simp_all add: Unix_def)
  have n: "0 \<le> Nanosecond (Timestamp ci)" "Nanosecond (Timestamp ci) < 1000000000" by (simp_all add: Nanosecond_def)
  have f: "uint (of_int (Nanosecond (Timestamp ci) div scale) * of_int scale :: u32) = Nanosecond (Timestamp ci) div scale * scale"
    unfolding of_int_mult [symmetric] by (rule uint_of_int_u32) (use sc n in auto)
  have w: "uint (of_int (Unix (Timestamp ci)) :: u32) = Unix (Timestamp ci)" "uint (of_int (CaptureLength ci) :: u32) = CaptureLength ci"
      "uint (of_int (Length ci) :: u32) = Length ci" by (rule uint_of_int_u32; use o s in linarith)+
  have rf: "ReadFull (rd_r r) 16 = (?h, data @ rest, None)" using r(1) p by (simp add: ReadFull_def packet_record_def)
  have "readPacketHeader r = (r\<lparr>rd_r := data @ rest\<rparr>, stored scale ci, None)"
    unfolding readPacketHeader_def rf using r(2,3) f w
    by (cases ci) (simp add: le32_fields scaled_time [OF sc] stored_def zero_CaptureInfo_def)
  moreover have "capture_error r (stored scale ci) = None" using o(4,6) r(4) by (simp add: capture_error_def stored_def)
  ultimately show ?thesis using o(3) p
    by (simp add: pcap_ReadPacketData_def ReadFull_def fill_def Let_def stored_def)
qed

lemma read_records:
  assumes "\<forall>p \<in> set ps. capture_ok snaplen p" "scale = 1 \<or> scale = 1000"
    and "rd_r r = concat (map (packet_record scale) ps)" "\<not> rd_byteOrder r" "rd_nanoSecsFactor r = of_int scale" "rd_snaplen r = snaplen"
  shows "ReadPackets (length ps) r = (r\<lparr>rd_r := []\<rparr>, map (\<lambda>(ci, data). (data, stored scale ci, None)) ps)"
  using assms
proof (induction ps arbitrary: r)
  case (Cons p ps)
  have "pcap_ReadPacketData r = (r\<lparr>rd_r := concat (map (packet_record scale) ps)\<rparr>, snd p, stored scale (fst p), None)"
    by (rule read_record) (use Cons.prems in auto)
  moreover have "ReadPackets (length ps) (r\<lparr>rd_r := concat (map (packet_record scale) ps)\<rparr>)
      = (r\<lparr>rd_r := []\<rparr>, map (\<lambda>(ci, data). (data, stored scale ci, None)) ps)"
    using Cons.IH [of "r\<lparr>rd_r := concat (map (packet_record scale) ps)\<rparr>"] Cons.prems by simp
  ultimately show ?case by (simp add: split_beta)
qed simp

lemma ucast_byte_u32: "ucast (ucast (b :: u8) :: u32) = b"
  by (rule bit_word_eqI) (simp add: bit_simps)

lemma read_file_header:
  assumes "w = \<lparr>wr_w = [], wr_tsScaler = scale\<rparr>" "scale = nanosPerNano \<or> scale = nanosPerMicro"
  shows "readHeader gunzip (wr_w (fst (WriteFileHeader buffer_Write w snaplen linktype)) @ rest)
     = Inr \<lparr>rd_r = rest, rd_byteOrder = False, rd_nanoSecsFactor = of_int scale, rd_versionMajor = 2, rd_versionMinor = 4,
            rd_snaplen = snaplen, rd_linkType = linktype, rd_packetBuf = []\<rparr>"
proof -
  let ?m = "if scale = nanosPerMicro then magicMicroseconds else magicNanoseconds"
  let ?buf = "le32 ?m @ le16 2 @ le16 4 @ replicate 8 0 @ le32 snaplen @ le32 (ucast linktype)"
  have b: "wr_w (fst (WriteFileHeader buffer_Write w snaplen linktype)) = ?buf"
    using assms(1) by (simp add: WriteFileHeader_def buffer_Write_def versionMajor_def versionMinor_def)
  have f: "Uint32_at False ?buf 0 = ?m" "Uint16_at False ?buf 4 = 2" "Uint16_at False ?buf 6 = 4" "Uint32_at False ?buf 16 = snaplen"
      "Uint32_at False ?buf 20 = ucast linktype"
    using Uint32_at_le32(1) [of "[]" 0 ?m "le16 2 @ le16 4 @ replicate 8 0 @ le32 snaplen @ le32 (ucast linktype)"]
      Uint16_at_le16 [of "le32 ?m" 4 2 "le16 4 @ replicate 8 0 @ le32 snaplen @ le32 (ucast linktype)"]
      Uint16_at_le16 [of "le32 ?m @ le16 2" 6 4 "replicate 8 0 @ le32 snaplen @ le32 (ucast linktype)"]
      Uint32_at_le32(1) [of "le32 ?m @ le16 2 @ le16 4 @ replicate 8 0" 16 snaplen "le32 (ucast linktype)"]
      Uint32_at_le32(2) [of "le32 ?m @ le16 2 @ le16 4 @ replicate 8 0 @ le32 snaplen" 20 "ucast linktype"]
    by simp_all
  define buf where "buf = ?buf"
  have z: "(buf @ rest) ! 0 \<noteq> 0x1f" "length buf = 24" using assms(2)
    by (auto simp: buf_def le32_def magicMicroseconds_def magicNanoseconds_def nanosPerMicro_def nanosPerNano_def)
  have "ReadFull (buf @ rest) 24 = (buf, rest, None)" using z(2) by (simp add: ReadFull_def)
  then have "readHeader gunzip (buf @ rest) = Inr \<lparr>rd_r = rest, rd_byteOrder = False, rd_nanoSecsFactor = of_int scale, rd_versionMajor = 2, rd_versionMinor = 4,
            rd_snaplen = snaplen, rd_linkType = linktype, rd_packetBuf = []\<rparr>"
    using z assms(2) f [folded buf_def] unfolding readHeader_def
    by (auto simp: Let_def magicMicroseconds_def magicNanoseconds_def magicMicrosecondsBigendian_def magicNanosecondsBigendian_def
        versionMajor_def versionMinor_def nanosPerNano_def nanosPerMicro_def ucast_byte_u32)
  then show ?thesis unfolding b buf_def .
qed


text \<open>C17. A pcap file written to a buffer is read back: for captures whose lengths agree and whose times fit 32 bits of
  seconds, writing reports no error, the reader finds the snapshot length and the link type of the file, and it returns
  the packets in order with their times rounded down to the resolution of the file, then the end of file.\<close>

theorem pcap_roundtrip:
  assumes "\<forall>p \<in> set ps. capture_ok snaplen p" and "w0 = NewWriter [] \<or> w0 = NewWriterNanos []"
  shows "\<exists>w1 w2 r r'. WriteFileHeader buffer_Write w0 snaplen linktype = (w1, None) \<and> WritePackets buffer_Write now w1 ps = (w2, None)
     \<and> NewReader gunzip (wr_w w2) = Inr r \<and> rd_snaplen r = snaplen \<and> rd_linkType r = linktype
     \<and> ReadPackets (length ps) r = (r', map (\<lambda>(ci, data). (data, stored (wr_tsScaler w0) ci, None)) ps)
     \<and> snd (snd (snd (pcap_ReadPacketData r'))) = Some EOF"
proof -
  let ?s = "wr_tsScaler w0"
  have w0: "w0 = \<lparr>wr_w = [], wr_tsScaler = ?s\<rparr>" "?s = nanosPerNano \<or> ?s = nanosPerMicro" "?s = 1 \<or> ?s = 1000"
    using assms(2) by (auto simp: NewWriter_def NewWriterNanos_def nanosPerNano_def nanosPerMicro_def)
  obtain w1 where w1: "WriteFileHeader buffer_Write w0 snaplen linktype = (w1, None)" "wr_tsScaler w1 = ?s"
    by (auto simp: WriteFileHeader_def buffer_Write_def)
  let ?body = "concat (map (packet_record ?s) ps)"
  let ?r = "\<lparr>rd_r = ?body, rd_byteOrder = False, rd_nanoSecsFactor = of_int ?s, rd_versionMajor = 2, rd_versionMinor = 4,
            rd_snaplen = snaplen, rd_linkType = linktype, rd_packetBuf = []\<rparr>"
  have w2: "WritePackets buffer_Write now w1 ps = (w1\<lparr>wr_w := wr_w w1 @ ?body\<rparr>, None)"
    using WritePackets_buffer [OF assms(1), of now w1] w1(2) by simp
  have r: "NewReader gunzip (wr_w w1 @ ?body) = Inr ?r"
    using read_file_header [OF w0(1,2), of gunzip snaplen linktype ?body] w1(1) by (simp add: NewReader_def)
  have "ReadPackets (length ps) ?r = (?r\<lparr>rd_r := []\<rparr>, map (\<lambda>(ci, data). (data, stored ?s ci, None)) ps)"
    by (rule read_records [OF assms(1) w0(3)]) simp_all
  moreover have "snd (snd (snd (pcap_ReadPacketData (?r\<lparr>rd_r := []\<rparr>)))) = Some EOF"
    by (simp add: pcap_ReadPacketData_def readPacketHeader_def ReadFull_def)
  ultimately show ?thesis using w1(1) w2 r by fastforce
qed

definition ex_captures :: "(CaptureInfo \<times> bytes) list" where
  "ex_captures = [(\<lparr>Timestamp = 1500000000123456789, CaptureLength = 3, Length = 60, InterfaceIndex = 1\<rparr>, [1, 2, 3]),
     (\<lparr>Timestamp = 1500000001000000000, CaptureLength = 0, Length = 0, InterfaceIndex = 0\<rparr>, [])]"

theorem pcap_roundtrip_witness:
  "\<exists>w1 w2 r r'. WriteFileHeader buffer_Write (NewWriter []) 65535 1 = (w1, None) \<and> WritePackets buffer_Write 0 w1 ex_captures = (w2, None)
     \<and> NewReader (\<lambda>_. Inl EOF) (wr_w w2) = Inr r \<and> rd_linkType r = 1
     \<and> ReadPackets 2 r = (r', [([1, 2, 3], \<lparr>Timestamp = 1500000000123456000, CaptureLength = 3, Length = 60, InterfaceIndex = 0\<rparr>, None),
          ([], \<lparr>Timestamp = 1500000001000000000, CaptureLength = 0, Length = 0, InterfaceIndex = 0\<rparr>, None)])
     \<and> snd (snd (snd (pcap_ReadPacketData r'))) = Some EOF"
proof -
  have "\<forall>p \<in> set ex_captures. capture_ok 65535 p" by (simp add: ex_captures_def capture_ok_def)
  from pcap_roundtrip [OF this, of "NewWriter []" 1 0 "\<lambda>_. Inl EOF"] show ?thesis
    by (auto simp: ex_captures_def stored_def NewWriter_def nanosPerMicro_def numeral_2_eq_2)
qed

subsection \<open>Reading without copies\<close>

text \<open>C18. \<^verbatim>\<open>ZeroCopyReadPacketData\<close> returns what \<^verbatim>\<open>ReadPacketData\<close> returns, on every reader and whatever its buffer holds:
  the same capture information, the same error, the same data unless the file ends inside the packet, and it leaves the
  underlying reader at the same place. Its buffer never shrinks.\<close>

theorem zero_copy_agrees:
  "\<exists>r1 r2 d1 d2 ci err. pcap_ReadPacketData r = (r1, d1, ci, err) \<and> ZeroCopyReadPacketData r = (r2, d2, ci, err)
     \<and> r2 = r1\<lparr>rd_packetBuf := rd_packetBuf r2\<rparr> \<and> (err = None \<longrightarrow> d1 = d2) \<and> length d1 = length d2
     \<and> length (rd_packetBuf r) \<le> length (rd_packetBuf r2)"
proof -
  obtain r0 ci err where h: "readPacketHeader r = (r0, ci, err)" by (metis prod_cases3)
  have keep: "rd_packetBuf r0 = rd_packetBuf r" "err = None \<Longrightarrow> 0 \<le> CaptureLength ci"
    using h by (auto simp: readPacketHeader_def split: prod.splits option.splits)
  show ?thesis
  proof (cases "err = None \<and> capture_error r ci = None")
    case True
    obtain got rest e where g: "ReadFull (rd_r r0) (nat (CaptureLength ci)) = (got, rest, e)" by (metis prod_cases3)
    have l: "length got \<le> nat (CaptureLength ci)" "e = None \<Longrightarrow> length got = nat (CaptureLength ci)"
      using g by (auto simp: ReadFull_def split: if_splits)
    have c: "CaptureLength ci \<le> uint (rd_snaplen r)" using True by (auto simp: capture_error_def split: if_splits)
    then have n: "nat (CaptureLength ci) \<le> unat (rd_snaplen r)" by (metis nat_mono unat_eq_nat_uint)
    have b: "int x < CaptureLength ci \<Longrightarrow> x \<le> unat (rd_snaplen r)" for x using n by linarith
    show ?thesis using True h g l c keep n
      by (auto simp: pcap_ReadPacketData_def ZeroCopyReadPacketData_def fill_def Let_def min_def dest!: b)
  next
    case False
    then show ?thesis using h keep(1)
      by (cases err; cases "capture_error r ci") (auto simp: pcap_ReadPacketData_def ZeroCopyReadPacketData_def)
  qed
qed

definition ex_reader :: Reader where
  "ex_reader = \<lparr>rd_r = [0,0,0,5, 0,0,0,1, 0,0,0,3, 0,0,0,60, 7,8,9, 1], rd_byteOrder = True, rd_nanoSecsFactor = 1000, rd_versionMajor = 2,
     rd_versionMinor = 4, rd_snaplen = 100, rd_linkType = 1, rd_packetBuf = [1]\<rparr>"

theorem zero_copy_agrees_witness:
  "snd (pcap_ReadPacketData ex_reader) = ([7,8,9], \<lparr>Timestamp = 5000001000, CaptureLength = 3, Length = 60, InterfaceIndex = 0\<rparr>, None)
   \<and> snd (ZeroCopyReadPacketData ex_reader) = snd (pcap_ReadPacketData ex_reader)"
proof -
  have "snd (pcap_ReadPacketData ex_reader) = ([7,8,9], \<lparr>Timestamp = 5000001000, CaptureLength = 3, Length = 60, InterfaceIndex = 0\<rparr>, None)"
    by code_simp
  then show ?thesis using zero_copy_agrees [of ex_reader] by auto
qed

lemma Resolution_swapped:
  assumes "NewReader gunzip (wr_w (fst (WriteFileHeader buffer_Write (NewWriterNanos []) snaplen linktype))) = Inr r"
  shows "Resolution r = (10, -6)"
  using assms read_file_header [of "NewWriterNanos []" nanosPerNano gunzip snaplen linktype "[]"]
  by (auto simp: NewWriterNanos_def nanosPerNano_def NewReader_def Resolution_def)

end
