(* ===== verification/Snoop_File.thy ===== *)
theory Snoop_File
  imports Pcap_File
begin

section \<open>Snoop files (\<^verbatim>\<open>pcapgo/snoop.go\<close>)\<close>

text \<open>
  The reader of snoop capture files. A result \<open>None\<close> is a panic: of \<^verbatim>\<open>make\<close> with a negative length or of a slice
  expression beyond the capacity.
\<close>

definition snoopMagic :: u64 where "snoopMagic = 0x736e6f6f70000000"
definition snoopVersion :: u32 where "snoopVersion = 2"
definition maxCaptureLen :: int where "maxCaptureLen = 4096"

record SnoopReader =
  sr_r :: bytes
  sr_Version :: u32
  sr_linkType :: u32
  sr_pad :: int
  sr_packetBuf :: bytes

text \<open>The link types Ethernet, token ring, C-HDLC and FDDI by their codes.\<close>

definition layerTypes :: "(u32 \<times> u8) list" where
  "layerTypes = [(0, 1), (2, 6), (4, 1), (5, 104), (8, 10)]"

definition snoop_LinkType :: "SnoopReader \<Rightarrow> goerr + u8" where
  "snoop_LinkType r = (case map_of layerTypes (sr_linkType r) of
       Some lt \<Rightarrow> Inr lt
     | None \<Rightarrow> Inl (Errorf ''Unknown Link Type, Code:%d'' [uint (sr_linkType r)]))"

definition Uint64_be :: "bytes \<Rightarrow> u64" where
  "Uint64_be b = push_bit 32 (ucast (Uint32_at True b 0)) OR ucast (Uint32_at True b 4)"

definition snoop_readHeader :: "bytes \<Rightarrow> read_err + SnoopReader" where
  "snoop_readHeader r =
     (case ReadFull r 16 of
        (buf, r1, Some err) \<Rightarrow> Inl err
      | (buf, r1, None) \<Rightarrow>
          let magic = Uint64_be buf; version = Uint32_at True buf 8; linkType = Uint32_at True buf 12
          in if magic \<noteq> snoopMagic then Inl (OtherErr (Errorf ''Unknown Snoop Magic Bytes: %x'' [uint magic]))
             else if version \<noteq> snoopVersion then Inl (OtherErr (Errorf ''Unknown Snoop Format Version: %d'' [uint version]))
             else if linkType > 10 then Inl (OtherErr (Errorf ''Unknown Link Type, Code:%d'' [uint linkType]))
             else Inr \<lparr>sr_r = r1, sr_Version = version, sr_linkType = linkType, sr_pad = 0, sr_packetBuf = []\<rparr>)"

definition NewSnoopReader :: "bytes \<Rightarrow> read_err + SnoopReader" where
  "NewSnoopReader r = snoop_readHeader r"

definition snoop_readPacketHeader :: "SnoopReader \<Rightarrow> SnoopReader \<times> CaptureInfo \<times> read_err option" where
  "snoop_readPacketHeader r =
     (case ReadFull (sr_r r) 24 of
        (buf, r1, Some err) \<Rightarrow> (r\<lparr>sr_r := r1\<rparr>, zero_CaptureInfo\<lparr>Timestamp := zero_time\<rparr>, Some err)
      | (buf, r1, None) \<Rightarrow>
          let ci = zero_CaptureInfo\<lparr>Timestamp := time_Unix (uint (Uint32_at True buf 16)) (uint (Uint32_at True buf 20 * 1000)),
                     Length := uint (Uint32_at True buf 0), CaptureLength := uint (Uint32_at True buf 4)\<rparr>;
              r2 = r\<lparr>sr_r := r1, sr_pad := uint (Uint32_at True buf 8) - (24 + Length ci)\<rparr>
          in if CaptureLength ci > Length ci
             then (r2, ci, Some (OtherErr (Errorf ''Capture length exceeds original packet length'' [])))
             else if CaptureLength ci > maxCaptureLen
             then (r2, ci, Some (OtherErr (Errorf ''Capture length exceeds max capture length'' [])))
             else (r2, ci, None))"

definition snoop_ReadPacketData :: "SnoopReader \<Rightarrow> (SnoopReader \<times> bytes \<times> CaptureInfo \<times> read_err option) option" where
  "snoop_ReadPacketData r =
     (case snoop_readPacketHeader r of
        (r1, ci, Some err) \<Rightarrow> Some (r1, [], ci, Some err)
      | (r1, ci, None) \<Rightarrow>
          let n = CaptureLength ci + sr_pad r1
          in if n < 0 then None
             else let (got, r2, err) = ReadFull (sr_r r1) (nat n)
                  in do { d \<leftarrow> slice (fill (replicate (nat n) 0) got) 0 (nat (CaptureLength ci));
                          Some (r1\<lparr>sr_r := r2\<rparr>, d, ci, err) })"

definition snoop_ZeroCopyReadPacketData :: "SnoopReader \<Rightarrow> (SnoopReader \<times> bytes \<times> CaptureInfo \<times> read_err option) option" where
  "snoop_ZeroCopyReadPacketData r =
     (case snoop_readPacketHeader r of
        (r1, ci, Some err) \<Rightarrow> Some (r1, [], ci, Some err)
      | (r1, ci, None) \<Rightarrow>
          let n = CaptureLength ci + sr_pad r1;
              packetBuf = (if int (length (sr_packetBuf r1)) < n then replicate (nat n) 0 else sr_packetBuf r1)
          in if n < 0 then None
             else let (got, r2, err) = ReadFull (sr_r r1) (nat n); packetBuf1 = fill packetBuf got
                  in do { d \<leftarrow> slice packetBuf1 0 (nat (CaptureLength ci));
                          Some (r1\<lparr>sr_r := r2, sr_packetBuf := packetBuf1\<rparr>, d, ci, err) })"

subsection \<open>Records\<close>

text \<open>A record as RFC 1761 lays it out: the record length counts the header, the included bytes and the padding.\<close>

definition snoop_record :: "u32 \<Rightarrow> u32 \<Rightarrow> u32 \<Rightarrow> u32 \<Rightarrow> bytes \<Rightarrow> bytes \<Rightarrow> bytes" where
  "snoop_record orig drops secs usecs data pad =
     be32 orig @ be32 (of_nat (length data)) @ be32 (of_nat (24 + length data + length pad)) @ be32 drops @ be32 secs @ be32 usecs @ data @ pad"

lemma Uint32_at_be32:
  "length xs = i \<Longrightarrow> Uint32_at True (xs @ be32 w @ rest) i = w" "length xs = i \<Longrightarrow> Uint32_at True (xs @ be32 w) i = w"
  by (auto simp: Uint32_at_def be32_def nth_append mk32_split)

lemma be32_fields:
  "Uint32_at True (be32 a @ be32 b @ be32 c @ be32 d @ be32 e @ be32 f) 0 = a" "Uint32_at True (be32 a @ be32 b @ be32 c @ be32 d @ be32 e @ be32 f) 4 = b"
  "Uint32_at True (be32 a @ be32 b @ be32 c @ be32 d @ be32 e @ be32 f) 8 = c" "Uint32_at True (be32 a @ be32 b @ be32 c @ be32 d @ be32 e @ be32 f) 16 = e"
  "Uint32_at True (be32 a @ be32 b @ be32 c @ be32 d @ be32 e @ be32 f) 20 = f"
  using Uint32_at_be32(1) [of "[]" 0 a "be32 b @ be32 c @ be32 d @ be32 e @ be32 f"] Uint32_at_be32(1) [of "be32 a" 4 b "be32 c @ be32 d @ be32 e @ be32 f"]
    Uint32_at_be32(1) [of "be32 a @ be32 b" 8 c "be32 d @ be32 e @ be32 f"] Uint32_at_be32(1) [of "be32 a @ be32 b @ be32 c @ be32 d" 16 e "be32 f"]
    Uint32_at_be32(2) [of "be32 a @ be32 b @ be32 c @ be32 d @ be32 e" 20 f]
  by simp_all

lemma uint_of_nat_u32: "n < 4294967296 \<Longrightarrow> uint (of_nat n :: u32) = int n"
  using uint_of_int_u32 [of "int n"] by simp

lemma snoop_record_header:
  assumes "sr_r r = snoop_record orig drops secs usecs data pad @ rest" "length data \<le> 4096" "length pad \<le> 4096" "length data \<le> unat orig"
  obtains ci where "snoop_readPacketHeader r
      = (r\<lparr>sr_r := data @ pad @ rest, sr_pad := int (length data + length pad) - int (unat orig)\<rparr>, ci, None)"
    and "CaptureLength ci = int (length data)" "Length ci = int (unat orig)" "Timestamp ci = time_Unix (uint secs) (uint (usecs * 1000))"
proof -
  let ?h = "be32 orig @ be32 (of_nat (length data)) @ be32 (of_nat (24 + length data + length pad)) @ be32 drops @ be32 secs @ be32 usecs"
  have rf: "ReadFull (sr_r r) 24 = (?h, data @ pad @ rest, None)" using assms(1) by (simp add: ReadFull_def snoop_record_def)
  have u: "uint (of_nat (length data) :: u32) = int (length data)"
      "uint (of_nat (24 + length data + length pad) :: u32) = int (24 + length data + length pad)"
    by (rule uint_of_nat_u32; use assms in linarith)+
  have "int (length data) \<le> int (unat orig)" using assms(4) by (rule of_nat_mono)
  then have le: "\<not> uint orig < int (length data)" by simp
  let ?ci = "zero_CaptureInfo\<lparr>Timestamp := time_Unix (uint secs) (uint (usecs * 1000)), Length := int (unat orig), CaptureLength := int (length data)\<rparr>"
  have "snoop_readPacketHeader r
      = (r\<lparr>sr_r := data @ pad @ rest, sr_pad := int (length data + length pad) - int (unat orig)\<rparr>, ?ci, None)"
    unfolding snoop_readPacketHeader_def rf be32_fields prod.case option.case Let_def u using assms(2) le
    by (simp add: maxCaptureLen_def)
  then show thesis by (rule that) simp_all
qed

text \<open>C19. The snoop reader handles complete packets only: for a record that holds the whole packet it returns the data, drops
  the padding and stands at the next record; for a record of a packet that was cut off by more than the padding it panics,
  because it computes the padding from the length of the original packet instead of the included length.\<close>

theorem snoop_records:
  assumes "sr_r r = snoop_record orig drops secs usecs data pad @ rest" and "length data \<le> 4096" and "length pad \<le> 4096"
  shows "(unat orig = length data \<longrightarrow> (\<exists>r' ci. snoop_ReadPacketData r = Some (r', data, ci, None) \<and> sr_r r' = rest
            \<and> CaptureLength ci = int (length data) \<and> Length ci = int (length data)
            \<and> Timestamp ci = time_Unix (uint secs) (uint (usecs * 1000))))
    \<and> (length data + length pad < unat orig \<longrightarrow> snoop_ReadPacketData r = None)"
proof (intro conjI impI)
  assume o: "unat orig = length data"
  then have "length data \<le> unat orig" by simp
  from snoop_record_header [OF assms this] o
  show "\<exists>r' ci. snoop_ReadPacketData r = Some (r', data, ci, None) \<and> sr_r r' = rest \<and> CaptureLength ci = int (length data)
      \<and> Length ci = int (length data) \<and> Timestamp ci = time_Unix (uint secs) (uint (usecs * 1000))"
    by (fastforce simp: snoop_ReadPacketData_def ReadFull_def fill_def Let_def nat_add_distrib)
next
  assume o: "length data + length pad < unat orig"
  then have "length data \<le> unat orig" by simp
  then obtain ci where h: "snoop_readPacketHeader r
      = (r\<lparr>sr_r := data @ pad @ rest, sr_pad := int (length data + length pad) - int (unat orig)\<rparr>, ci, None)" "CaptureLength ci = int (length data)"
    using snoop_record_header [OF assms] by metis
  let ?n = "int (length data) + (int (length data + length pad) - int (unat orig))"
  have "?n < 0 \<or> nat ?n < length data" using o by linarith
  moreover obtain got rest' err where g: "ReadFull (data @ pad @ rest) (nat ?n) = (got, rest', err)" by (metis prod_cases3)
  moreover have "length got \<le> nat ?n" using g by (auto simp: ReadFull_def split: if_splits)
  ultimately show "snoop_ReadPacketData r = None" using h
    by (auto simp: snoop_ReadPacketData_def fill_def Let_def slice_def)
qed

theorem snoop_records_witness:
  "(let r = \<lparr>sr_r = snoop_record 3 0 7 5 [1, 2, 3] [0] @ [9], sr_Version = 2, sr_linkType = 4, sr_pad = 0, sr_packetBuf = []\<rparr>
    in \<exists>r' ci. snoop_ReadPacketData r = Some (r', [1, 2, 3], ci, None) \<and> sr_r r' = [9] \<and> Timestamp ci = 7000005000)
   \<and> (let r = \<lparr>sr_r = snoop_record 60 0 7 5 [1, 2, 3] [0] @ [9], sr_Version = 2, sr_linkType = 4, sr_pad = 0, sr_packetBuf = []\<rparr>
      in snoop_ReadPacketData r = None)"
  using snoop_records [of "\<lparr>sr_r = snoop_record 3 0 7 5 [1, 2, 3] [0] @ [9], sr_Version = 2, sr_linkType = 4, sr_pad = 0, sr_packetBuf = []\<rparr>" 3 0 7 5 "[1, 2, 3]" "[0]" "[9]"]
    snoop_records [of "\<lparr>sr_r = snoop_record 60 0 7 5 [1, 2, 3] [0] @ [9], sr_Version = 2, sr_linkType = 4, sr_pad = 0, sr_packetBuf = []\<rparr>" 60 0 7 5 "[1, 2, 3]" "[0]" "[9]"]
  by (auto simp: Let_def time_Unix_def)

end
