(* ===== verification/Tcp_Reader.thy ===== *)
theory Tcp_Reader
  imports Tcp_Assembly Packet_Source
begin

section \<open>Streams as readers (\<^verbatim>\<open>tcpassembly/tcpreader/reader.go\<close>)\<close>

text \<open>
  A \<^verbatim>\<open>ReaderStream\<close> passes reassembled data from the goroutine of the assembler to a goroutine that reads it. The two
  meet on two unbuffered channels, \<^verbatim>\<open>reassembled\<close> for the data and \<^verbatim>\<open>done\<close> for the acknowledgement. The state holds where
  each of them stands; the rules of \<open>rstep\<close> are the steps of the code between two channel operations, a channel operation
  being one step of both. The reading goroutine starts a call of \<^verbatim>\<open>Read\<close> or \<^verbatim>\<open>Close\<close> whenever it is in none. Streams are
  made by \<^verbatim>\<open>NewReaderStream\<close>, so that the checks of \<^verbatim>\<open>initiated\<close> succeed.
\<close>

datatype rerr = R_EOF | R_DataLost

record ReaderStream =
  rs_LossErrors :: bool
  rs_current :: "Reassembly list"
  rs_closed :: bool
  rs_lossReported :: bool
  rs_first :: bool

definition NewReaderStream :: "bool \<Rightarrow> ReaderStream" where
  "NewReaderStream lossErrors =
     \<lparr>rs_LossErrors = lossErrors, rs_current = [], rs_closed = False, rs_lossReported = False, rs_first = True\<rparr>"

fun strip_current :: "Reassembly list \<Rightarrow> bool \<Rightarrow> Reassembly list \<times> bool" where
  "strip_current [] lossReported = ([], lossReported)"
| "strip_current (c # cs) lossReported = (if ra_Bytes c = [] then strip_current cs False else (c # cs, lossReported))"

definition stripEmpty :: "ReaderStream \<Rightarrow> ReaderStream" where
  "stripEmpty r = (let (cur, loss) = strip_current (rs_current r) (rs_lossReported r)
                   in r\<lparr>rs_current := cur, rs_lossReported := loss\<rparr>)"

text \<open>The end of \<^verbatim>\<open>Read\<close>, after its loop, for a slice of \<open>n\<close> bytes: the new state, the bytes copied and the error.\<close>

definition Read_finish :: "ReaderStream \<Rightarrow> nat \<Rightarrow> ReaderStream \<times> bytes \<times> rerr option" where
  "Read_finish r n =
     (case rs_current r of
        c # cs \<Rightarrow>
          if rs_LossErrors r \<and> \<not> rs_lossReported r \<and> ra_Skip c \<noteq> 0
          then (r\<lparr>rs_lossReported := True\<rparr>, [], Some R_DataLost)
          else (r\<lparr>rs_current := c\<lparr>ra_Bytes := drop n (ra_Bytes c)\<rparr> # cs\<rparr>, take n (ra_Bytes c), None)
      | [] \<Rightarrow> (r, [], Some R_EOF))"

text \<open>Where the assembler stands: between two calls, in \<^verbatim>\<open>Reassembled\<close> at the send of the data or at the receive of the
  acknowledgement, or behind \<^verbatim>\<open>ReassemblyComplete\<close>. Where the reader stands: in no call, in \<^verbatim>\<open>Read\<close> at the head of the loop,
  at the send of the acknowledgement or at the receive of data, in \<^verbatim>\<open>Close\<close> at either, or in a panic.\<close>

datatype apc = A_Idle | A_Send "Reassembly list" | A_Wait | A_Complete

datatype rpc = R_Idle | R_Loop nat | R_Done nat | R_Recv nat | C_Recv | C_Done | R_Panic

record conf =
  todo :: "Reassembly list list"
  apc :: apc
  rpc :: rpc
  stream :: ReaderStream
  results :: "(bytes \<times> rerr option) list"

inductive rstep :: "conf \<Rightarrow> conf \<Rightarrow> bool" where
  call_Reassembled:
    "\<lbrakk>apc s = A_Idle; todo s = b # bs\<rbrakk> \<Longrightarrow> rstep s (s\<lparr>apc := A_Send b, todo := bs\<rparr>)"
| call_ReassemblyComplete:
    "\<lbrakk>apc s = A_Idle; todo s = []\<rbrakk> \<Longrightarrow> rstep s (s\<lparr>apc := A_Complete\<rparr>)"
| call_Read:
    "rpc s = R_Idle \<Longrightarrow> rstep s (s\<lparr>rpc := R_Loop n, stream := stripEmpty (stream s)\<rparr>)"
| Read_wait:
    "\<lbrakk>rpc s = R_Loop n; \<not> rs_closed (stream s); rs_current (stream s) = []\<rbrakk>
     \<Longrightarrow> rstep s (s\<lparr>rpc := (if rs_first (stream s) then R_Recv n else R_Done n), stream := (stream s)\<lparr>rs_first := False\<rparr>\<rparr>)"
| Read_return:
    "\<lbrakk>rpc s = R_Loop n; rs_closed (stream s) \<or> rs_current (stream s) \<noteq> []; Read_finish (stream s) n = (r, res)\<rbrakk>
     \<Longrightarrow> rstep s (s\<lparr>rpc := R_Idle, stream := r, results := results s @ [res]\<rparr>)"
| acknowledge:
    "\<lbrakk>rpc s = R_Done n; apc s = A_Wait\<rbrakk> \<Longrightarrow> rstep s (s\<lparr>rpc := R_Recv n, apc := A_Idle\<rparr>)"
| acknowledge_closed:
    "\<lbrakk>rpc s = R_Done n; apc s = A_Complete\<rbrakk> \<Longrightarrow> rstep s (s\<lparr>rpc := R_Panic\<rparr>)"
| receive:
    "\<lbrakk>rpc s = R_Recv n; apc s = A_Send b\<rbrakk>
     \<Longrightarrow> rstep s (s\<lparr>rpc := R_Loop n, apc := A_Wait, stream := stripEmpty ((stream s)\<lparr>rs_current := b\<rparr>)\<rparr>)"
| receive_closed:
    "\<lbrakk>rpc s = R_Recv n; apc s = A_Complete\<rbrakk>
     \<Longrightarrow> rstep s (s\<lparr>rpc := R_Loop n, stream := (stream s)\<lparr>rs_current := [], rs_closed := True\<rparr>\<rparr>)"
| call_Close:
    "rpc s = R_Idle \<Longrightarrow> rstep s (s\<lparr>rpc := C_Recv, stream := (stream s)\<lparr>rs_current := [], rs_closed := True\<rparr>\<rparr>)"
| Close_receive:
    "\<lbrakk>rpc s = C_Recv; apc s = A_Send b\<rbrakk> \<Longrightarrow> rstep s (s\<lparr>rpc := C_Done, apc := A_Wait\<rparr>)"
| Close_acknowledge:
    "\<lbrakk>rpc s = C_Done; apc s = A_Wait\<rbrakk> \<Longrightarrow> rstep s (s\<lparr>rpc := C_Recv, apc := A_Idle\<rparr>)"
| Close_acknowledge_closed:
    "\<lbrakk>rpc s = C_Done; apc s = A_Complete\<rbrakk> \<Longrightarrow> rstep s (s\<lparr>rpc := R_Panic\<rparr>)"
| Close_return:
    "\<lbrakk>rpc s = C_Recv; apc s = A_Complete\<rbrakk> \<Longrightarrow> rstep s (s\<lparr>rpc := R_Idle\<rparr>)"

definition start :: "bool \<Rightarrow> Reassembly list list \<Rightarrow> conf" where
  "start lossErrors bs = \<lparr>todo = bs, apc = A_Idle, rpc = R_Idle, stream = NewReaderStream lossErrors, results = []\<rparr>"


subsection \<open>Discarding\<close>

text \<open>The two loops over any reader, given by the function of its \<^verbatim>\<open>Read\<close>; they need not end.\<close>

partial_function (option) DiscardBytesToFirstError :: "('s \<Rightarrow> 's \<times> nat \<times> 'e option) \<Rightarrow> 's \<Rightarrow> nat \<Rightarrow> ('s \<times> nat \<times> 'e) option" where
  "DiscardBytesToFirstError read s discarded =
     (case read s of
        (s1, n, Some e) \<Rightarrow> Some (s1, discarded + n, e)
      | (s1, n, None) \<Rightarrow> DiscardBytesToFirstError read s1 (discarded + n))"

partial_function (option) DiscardBytesToEOF :: "('s \<Rightarrow> 's \<times> nat \<times> rerr option) \<Rightarrow> 's \<Rightarrow> nat \<Rightarrow> ('s \<times> nat) option" where
  "DiscardBytesToEOF read s discarded =
     (case DiscardBytesToFirstError read s 0 of
        None \<Rightarrow> None
      | Some (s1, n, e) \<Rightarrow> if e = R_EOF then Some (s1, discarded + n) else DiscardBytesToEOF read s1 (discarded + n))"

subsection \<open>The reader delivers the stream\<close>

definition bytes_of :: "Reassembly list \<Rightarrow> bytes" where
  "bytes_of rs = concat (map ra_Bytes rs)"

definition pending :: "apc \<Rightarrow> bytes" where
  "pending a = (case a of A_Send b \<Rightarrow> bytes_of b | _ \<Rightarrow> [])"

definition delivered :: "conf \<Rightarrow> bytes" where
  "delivered s = concat (map fst (results s))"

definition all_bytes :: "conf \<Rightarrow> bytes" where
  "all_bytes s = delivered s @ bytes_of (rs_current (stream s)) @ pending (apc s) @ concat (map bytes_of (todo s))"

text \<open>The positions that fit together as long as the reader does not close the stream.\<close>

definition phase :: "conf \<Rightarrow> bool" where
  "phase s \<longleftrightarrow> (case rpc s of
       R_Recv n \<Rightarrow> 0 < n \<and> \<not> rs_first (stream s) \<and> \<not> rs_closed (stream s) \<and> rs_current (stream s) = [] \<and> apc s \<noteq> A_Wait
     | R_Done n \<Rightarrow> 0 < n \<and> \<not> rs_first (stream s) \<and> \<not> rs_closed (stream s) \<and> rs_current (stream s) = [] \<and> apc s = A_Wait
     | C_Recv \<Rightarrow> False | C_Done \<Rightarrow> False | R_Panic \<Rightarrow> False
     | _ \<Rightarrow> (\<forall>n. rpc s = R_Loop n \<longrightarrow> 0 < n \<and> (\<forall>c cs. rs_current (stream s) = c # cs \<longrightarrow> ra_Bytes c \<noteq> []))
          \<and> (if rs_first (stream s) then \<not> rs_closed (stream s) \<and> rs_current (stream s) = [] \<and> apc s \<noteq> A_Wait
             else if rs_closed (stream s) then apc s = A_Complete \<and> rs_current (stream s) = []
             else apc s = A_Wait))"

definition results_ok :: "conf \<Rightarrow> bool" where
  "results_ok s \<longleftrightarrow> (\<forall>(d, e) \<in> set (results s). (e = None \<longleftrightarrow> d \<noteq> []) \<and> (e = Some R_EOF \<longrightarrow> rs_closed (stream s)))"

definition reader_inv :: "Reassembly list list \<Rightarrow> conf \<Rightarrow> bool" where
  "reader_inv bs s \<longleftrightarrow> all_bytes s = concat (map bytes_of bs) \<and> phase s \<and> results_ok s \<and> (apc s = A_Complete \<longrightarrow> todo s = [])"

text \<open>The steps of a reader that only reads, into slices that are not empty.\<close>

definition reader_step :: "conf \<Rightarrow> conf \<Rightarrow> bool" where
  "reader_step s t \<longleftrightarrow> rstep s t \<and> rpc t \<noteq> C_Recv \<and> rpc t \<noteq> R_Loop 0"

lemma strip_current_spec:
  "strip_current cs l = (cs', l') \<Longrightarrow> bytes_of cs' = bytes_of cs \<and> (\<forall>d ds. cs' = d # ds \<longrightarrow> ra_Bytes d \<noteq> [])"
  by (induction cs l rule: strip_current.induct) (auto simp: bytes_of_def split: if_splits)

lemma stripEmpty_spec:
  "bytes_of (rs_current (stripEmpty r)) = bytes_of (rs_current r)" "rs_current (stripEmpty r) = d # ds \<Longrightarrow> ra_Bytes d \<noteq> []"
  "rs_first (stripEmpty r) = rs_first r" "rs_closed (stripEmpty r) = rs_closed r" "rs_current r = [] \<Longrightarrow> rs_current (stripEmpty r) = []"
proof -
  obtain cur loss where c: "strip_current (rs_current r) (rs_lossReported r) = (cur, loss)" by (metis surj_pair)
  have e: "stripEmpty r = r\<lparr>rs_current := cur, rs_lossReported := loss\<rparr>" by (simp add: stripEmpty_def c)
  note sp = strip_current_spec [OF c]
  show "bytes_of (rs_current (stripEmpty r)) = bytes_of (rs_current r)" "rs_current (stripEmpty r) = d # ds \<Longrightarrow> ra_Bytes d \<noteq> []"
    "rs_first (stripEmpty r) = rs_first r" "rs_closed (stripEmpty r) = rs_closed r" using sp by (auto simp: e)
  show "rs_current r = [] \<Longrightarrow> rs_current (stripEmpty r) = []" using c by (simp add: e)
qed

lemma Read_finish_spec:
  assumes "Read_finish r n = (r', d, e)" "0 < n" "\<forall>c cs. rs_current r = c # cs \<longrightarrow> ra_Bytes c \<noteq> []"
  shows "bytes_of (rs_current r) = d @ bytes_of (rs_current r')" "rs_first r' = rs_first r" "rs_closed r' = rs_closed r"
    "e = None \<longleftrightarrow> d \<noteq> []" "e = Some R_EOF \<Longrightarrow> rs_current r = []" "rs_current r = [] \<longleftrightarrow> rs_current r' = []"
  using assms by (auto simp: Read_finish_def bytes_of_def split: list.splits if_splits)

lemma bytes_of_Nil [simp]: "bytes_of [] = []"
  by (simp add: bytes_of_def)

lemmas strip_simps [simp] = stripEmpty_spec(1,3,4,5)

lemma reader_inv_return:
  assumes "reader_inv bs s" "rpc s = R_Loop n" "rs_closed (stream s) \<or> rs_current (stream s) \<noteq> []" "Read_finish (stream s) n = (r, res)"
  shows "reader_inv bs (s\<lparr>rpc := R_Idle, stream := r, results := results s @ [res]\<rparr>)" (is "reader_inv bs ?t")
proof -
  obtain d e where res: "res = (d, e)" by (cases res)
  have n: "0 < n" "\<forall>c cs. rs_current (stream s) = c # cs \<longrightarrow> ra_Bytes c \<noteq> []"
    using assms(1,2) by (auto simp: reader_inv_def phase_def)
  note f = Read_finish_spec [OF assms(4) [unfolded res] n]
  have i: "all_bytes s = concat (map bytes_of bs)" "phase s" "results_ok s" "apc s = A_Complete \<longrightarrow> todo s = []"
    using assms(1) by (simp_all add: reader_inv_def)
  have "all_bytes ?t = all_bytes s" using f(1) by (simp add: all_bytes_def delivered_def res)
  moreover have "phase ?t" using i(2) assms(2) f(2,3,6) by (auto simp: phase_def split: if_splits)
  moreover have "results_ok ?t" using i(3) assms(3) f(3,4,5) by (auto simp: results_ok_def res)
  ultimately show ?thesis using i(1,4) by (simp add: reader_inv_def)
qed

lemma reader_inv_step:
  assumes "rstep s t" "reader_inv bs s" "rpc t \<noteq> C_Recv" "rpc t \<noteq> R_Loop 0"
  shows "reader_inv bs t"
proof -
  have i: "all_bytes s = concat (map bytes_of bs)" "phase s" "results_ok s" "apc s = A_Complete \<longrightarrow> todo s = []"
    using assms(2) by (simp_all add: reader_inv_def)
  from assms(1) show ?thesis
  proof (cases rule: rstep.cases)
    case (Read_return n r res)
    then show ?thesis using reader_inv_return [OF assms(2)] by simp
  next
    case (call_Read n)
    then show ?thesis using i assms(4)
      by (auto simp: reader_inv_def all_bytes_def delivered_def results_ok_def phase_def dest: stripEmpty_spec(2) split: if_splits)
  next
    case (receive n b)
    then show ?thesis using i assms(4)
      by (auto simp: reader_inv_def all_bytes_def delivered_def results_ok_def phase_def pending_def dest: stripEmpty_spec(2))
  next
    case (Read_wait n)
    then show ?thesis using i
      by (simp add: reader_inv_def all_bytes_def delivered_def results_ok_def phase_def split: if_splits)
  next
    case (receive_closed n)
    then show ?thesis using i assms(4)
      by (simp add: reader_inv_def all_bytes_def delivered_def results_ok_def phase_def) fastforce
  next
    case (call_Reassembled b bs')
    then show ?thesis using i
      by (cases "rpc s") (simp_all add: reader_inv_def all_bytes_def delivered_def results_ok_def phase_def pending_def split: if_splits)
  next
    case call_ReassemblyComplete
    then show ?thesis using i
      by (cases "rpc s") (simp_all add: reader_inv_def all_bytes_def delivered_def results_ok_def phase_def pending_def split: if_splits)
  next
    case (acknowledge n)
    then show ?thesis using i
      by (simp add: reader_inv_def all_bytes_def delivered_def results_ok_def phase_def pending_def)
  qed (use i(2) assms(3) in \<open>simp_all add: phase_def\<close>)
qed


lemma reader_inv_reachable: "reader_step\<^sup>*\<^sup>* (start le bs) s \<Longrightarrow> reader_inv bs s"
proof (induction rule: rtranclp_induct)
  case base
  show ?case
    by (simp add: reader_inv_def start_def NewReaderStream_def all_bytes_def delivered_def pending_def phase_def results_ok_def)
next
  case (step s t)
  then show ?case using reader_inv_step by (auto simp: reader_step_def)
qed

text \<open>C5. Whatever the order in which the assembler and a reader that reads into non-empty slices run, the reader never panics,
  what its calls of \<^verbatim>\<open>Read\<close> returned is a prefix of the reassembled bytes, a call without error returned at least one byte, and
  once a call returned \<^verbatim>\<open>io.EOF\<close> all the bytes were returned.\<close>

theorem reader_delivers:
  assumes "reader_step\<^sup>*\<^sup>* (start lossErrors bs) s"
  shows "rpc s \<noteq> R_Panic \<and> (\<exists>rest. delivered s @ rest = concat (map bytes_of bs))
    \<and> (\<forall>(d, e) \<in> set (results s). e = None \<longleftrightarrow> d \<noteq> [])
    \<and> (Some R_EOF \<in> snd ` set (results s) \<longrightarrow> delivered s = concat (map bytes_of bs))"
proof -
  have i: "reader_inv bs s" by (rule reader_inv_reachable [OF assms])
  then have a: "all_bytes s = concat (map bytes_of bs)" "phase s" "results_ok s" "apc s = A_Complete \<longrightarrow> todo s = []"
    by (simp_all add: reader_inv_def)
  have "delivered s = concat (map bytes_of bs)" if eof: "Some R_EOF \<in> snd ` set (results s)"
  proof -
    have c: "rs_closed (stream s)" using eof a(3) by (fastforce simp: results_ok_def)
    then have "apc s = A_Complete" "rs_current (stream s) = []" using a(2) by (auto simp: phase_def split: rpc.splits if_splits)
    then show ?thesis using a(1,4) by (simp add: all_bytes_def pending_def)
  qed
  moreover have "rpc s \<noteq> R_Panic" using a(2) by (auto simp: phase_def)
  moreover have "\<forall>(d, e) \<in> set (results s). e = None \<longleftrightarrow> d \<noteq> []" using a(3) by (auto simp: results_ok_def)
  ultimately show ?thesis using a(1) by (auto simp: all_bytes_def)
qed

text \<open>The work that is left until the reader is in no call again, if it starts no other one.\<close>

fun assembler_work :: "apc \<Rightarrow> nat \<Rightarrow> nat" where
  "assembler_work A_Idle n = 3 * n + 1"
| "assembler_work (A_Send _) n = 3 * n + 3"
| "assembler_work A_Wait n = 3 * n + 2"
| "assembler_work A_Complete n = 0"

definition work :: "conf \<Rightarrow> nat" where
  "work s = 6 * assembler_work (apc s) (length (todo s))
     + (if rs_closed (stream s) then 0 else 3) + (case rpc s of R_Loop _ \<Rightarrow> 2 | R_Done _ \<Rightarrow> 1 | R_Recv _ \<Rightarrow> 1 | _ \<Rightarrow> 0)"

lemma Read_finish_closed: "Read_finish r n = (r', res) \<Longrightarrow> rs_closed r' = rs_closed r"
  by (auto simp: Read_finish_def split: list.splits if_splits)

text \<open>C6. The two goroutines never block each other: a reader in a call of \<^verbatim>\<open>Read\<close> can always go on or be gone on with, and every
  step but the start of a new call takes one off a bounded amount of work, so that every call of \<^verbatim>\<open>Read\<close> returns.\<close>

theorem reader_progress:
  assumes "reader_step\<^sup>*\<^sup>* (start lossErrors bs) s"
  shows "(rpc s \<noteq> R_Idle \<longrightarrow> (\<exists>t. reader_step s t)) \<and>
    (\<forall>t. reader_step s t \<longrightarrow> (rpc s = R_Idle \<and> rpc t \<noteq> R_Idle) \<or> work t < work s)"
proof (intro conjI impI allI)
  have p: "phase s" using reader_inv_reachable [OF assms] by (simp add: reader_inv_def)
  assume busy: "rpc s \<noteq> R_Idle"
  show "\<exists>t. reader_step s t"
  proof (cases "rpc s")
    case (R_Loop n)
    show ?thesis
    proof (cases "rs_closed (stream s) \<or> rs_current (stream s) \<noteq> []")
      case True
      obtain r res where "Read_finish (stream s) n = (r, res)" by (metis surj_pair)
      from rstep.Read_return [OF R_Loop True this] show ?thesis by (auto simp: reader_step_def intro!: exI)
    next
      case False
      then have "rstep s (s\<lparr>rpc := (if rs_first (stream s) then R_Recv n else R_Done n), stream := (stream s)\<lparr>rs_first := False\<rparr>\<rparr>)"
        using rstep.Read_wait [OF R_Loop] by simp
      then show ?thesis by (auto simp: reader_step_def split: if_splits intro!: exI)
    qed
  next
    case (R_Done n)
    with p have "apc s = A_Wait" by (simp add: phase_def)
    from rstep.acknowledge [OF R_Done this] show ?thesis by (auto simp: reader_step_def intro!: exI)
  next
    case (R_Recv n)
    with p have n: "0 < n" "apc s \<noteq> A_Wait" by (simp_all add: phase_def)
    show ?thesis
    proof (cases "apc s")
      case A_Idle
      then show ?thesis using rstep.call_Reassembled [of s "hd (todo s)" "tl (todo s)"] rstep.call_ReassemblyComplete [of s] R_Recv
        by (cases "todo s") (auto simp: reader_step_def intro!: exI)
    next
      case (A_Send b)
      from rstep.receive [OF R_Recv this] show ?thesis using n(1) by (auto simp: reader_step_def intro!: exI)
    next
      case A_Complete
      from rstep.receive_closed [OF R_Recv this] show ?thesis using n(1) by (auto simp: reader_step_def intro!: exI)
    qed (use n in simp)
  qed (use busy p in \<open>simp_all add: phase_def\<close>)
next
  fix t assume "reader_step s t"
  moreover have "phase s" using reader_inv_reachable [OF assms] by (simp add: reader_inv_def)
  ultimately have st: "rstep s t" "rpc t \<noteq> C_Recv" "phase s" by (simp_all add: reader_step_def)
  then show "(rpc s = R_Idle \<and> rpc t \<noteq> R_Idle) \<or> work t < work s"
    by (cases rule: rstep.cases) (auto simp: work_def phase_def Read_finish_closed)
qed


definition one_byte :: Reassembly where
  "one_byte = \<lparr>ra_Bytes = [7], ra_Skip = 0, ra_Start = True, ra_End = False, ra_Seen = 0\<rparr>"

text \<open>A first read of one byte, step by step.\<close>

definition first_read :: "nat \<Rightarrow> conf" where
  "first_read k =
     (let s0 = start False [[one_byte]];
          s1 = s0\<lparr>apc := A_Send [one_byte], todo := []\<rparr>;
          s2 = s1\<lparr>rpc := R_Loop 4, stream := stripEmpty (stream s1)\<rparr>;
          s3 = s2\<lparr>rpc := R_Recv 4, stream := (stream s2)\<lparr>rs_first := False\<rparr>\<rparr>;
          s4 = s3\<lparr>rpc := R_Loop 4, apc := A_Wait, stream := stripEmpty ((stream s3)\<lparr>rs_current := [one_byte]\<rparr>)\<rparr>;
          s5 = s4\<lparr>rpc := R_Idle, stream := fst (Read_finish (stream s4) 4), results := [([7], None)]\<rparr>
      in [s0, s1, s2, s3, s4, s5] ! k)"

lemma first_read_steps:
  "reader_step\<^sup>*\<^sup>* (start False [[one_byte]]) (first_read 2)" "reader_step\<^sup>*\<^sup>* (start False [[one_byte]]) (first_read 5)"
proof -
  note d = first_read_def start_def NewReaderStream_def stripEmpty_def Let_def one_byte_def reader_step_def
  have "reader_step (first_read 0) (first_read 1)" using rstep.call_Reassembled [of "first_read 0" "[one_byte]" "[]"] by (simp add: d)
  moreover have "reader_step (first_read 1) (first_read 2)" using rstep.call_Read [of "first_read 1" 4] by (simp add: d)
  moreover have "first_read 0 = start False [[one_byte]]" by (simp add: first_read_def Let_def)
  ultimately show s2: "reader_step\<^sup>*\<^sup>* (start False [[one_byte]]) (first_read 2)"
    by (metis (no_types, lifting) rtranclp.rtrancl_into_rtrancl rtranclp.rtrancl_refl)
  have "reader_step (first_read 2) (first_read 3)" using rstep.Read_wait [of "first_read 2" 4] by (simp add: d)
  moreover have "reader_step (first_read 3) (first_read 4)" using rstep.receive [of "first_read 3" 4 "[one_byte]"] by (simp add: d)
  moreover have "reader_step (first_read 4) (first_read 5)"
    using rstep.Read_return [of "first_read 4" 4 "fst (Read_finish (stream (first_read 4)) 4)" "([7], None)"] by (simp add: d Read_finish_def)
  ultimately show "reader_step\<^sup>*\<^sup>* (start False [[one_byte]]) (first_read 5)"
    using s2 by (meson rtranclp.rtrancl_into_rtrancl)
qed

lemma first_read_state:
  "apc (first_read 5) = A_Wait" "rpc (first_read 5) = R_Idle" "results (first_read 5) = [([7], None)]" "todo (first_read 5) = []"
  "rpc (first_read 2) = R_Loop 4"
  by (simp_all add: first_read_def Let_def)

theorem reader_delivers_witness:
  "reader_step\<^sup>*\<^sup>* (start False [[one_byte]]) (first_read 5) \<and> delivered (first_read 5) = [7]
   \<and> (\<exists>rest. delivered (first_read 5) @ rest = concat (map bytes_of [[one_byte]]))"
  using reader_delivers [OF first_read_steps(2)] first_read_steps(2) by (simp add: delivered_def first_read_state)

theorem reader_progress_witness:
  "reader_step\<^sup>*\<^sup>* (start False [[one_byte]]) (first_read 2) \<and> rpc (first_read 2) = R_Loop 4 \<and>
   (\<exists>t. reader_step (first_read 2) t \<and> work t < work (first_read 2))"
proof -
  have "rpc (first_read 2) \<noteq> R_Idle" by (simp add: first_read_state)
  then show ?thesis using reader_progress [OF first_read_steps(1)] first_read_steps(1) first_read_state(5) by blast
qed


subsection \<open>Discarding a finite reader\<close>

text \<open>For a reader that returns the given counts and then \<^verbatim>\<open>io.EOF\<close>, both loops end with the sum.\<close>

fun read_counts :: "nat list \<Rightarrow> nat list \<times> nat \<times> rerr option" where
  "read_counts [] = ([], 0, Some R_EOF)"
| "read_counts (n # ns) = (ns, n, None)"

lemma DiscardBytesToFirstError_counts: "DiscardBytesToFirstError read_counts ns k = Some ([], k + sum_list ns, R_EOF)"
  by (induction ns arbitrary: k) (subst DiscardBytesToFirstError.simps, simp)+

lemma DiscardBytesToEOF_counts: "DiscardBytesToEOF read_counts ns k = Some ([], k + sum_list ns)"
  by (subst DiscardBytesToEOF.simps) (simp add: DiscardBytesToFirstError_counts)

end
