(* ===== verification/Reassembly.thy ===== *)
theory Reassembly
  imports Layer_TCP Packet "HOL-Library.AList"
begin

section \<open>Two-way TCP reassembly (\<^verbatim>\<open>reassembly/tcpassembly.go\<close>, \<^verbatim>\<open>reassembly/memory.go\<close>)\<close>

text \<open>
  The assembler of the package \<^verbatim>\<open>reassembly\<close>: connections of two halves, the queue of out-of-order pages of each half and
  the pages its stream asked to keep, the treatment of overlaps, the scatter-gather objects handed to the streams, flushing.
  A doubly linked list of pages is the list from its first to its last page. The user's stream is a record of functions on
  a state: \<^verbatim>\<open>Accept\<close>, \<^verbatim>\<open>ReassembledSG\<close>, which returns the argument of its last call of \<^verbatim>\<open>KeepFrom\<close> (\<open>-1\<close> for none), and
  \<^verbatim>\<open>ReassemblyComplete\<close>. A page taken from the page cache keeps the end flag of its last use; the flag of the \<open>n\<close>-th page
  taken is \<open>stale n\<close>. The pool's map is an association list; its free list, which only saves allocations, locks, and debug
  output are left out. \<open>None\<close> is a panic, and in the flushing loops also a loop that does not end.
\<close>

subsection \<open>Sequence numbers\<close>

definition uint32Max :: int where "uint32Max = 0xFFFFFFFF"

abbreviation (input) noSequence :: int where "noSequence \<equiv> -1"

definition re_Difference :: "int \<Rightarrow> int \<Rightarrow> int" where
  "re_Difference s t =
     (if s > uint32Max - uint32Max div 4 \<and> t < uint32Max div 4 then t + uint32Max - s
      else if t > uint32Max - uint32Max div 4 \<and> s < uint32Max div 4 then t - (s + uint32Max)
      else t - s)"

definition re_Add :: "int \<Rightarrow> int \<Rightarrow> int" where
  "re_Add s t = (s + t) mod 4294967296"

subsection \<open>Pages, packets and scatter-gather objects\<close>

definition re_pageBytes :: nat where "re_pageBytes = 1900"

record re_page =
  rp_bytes :: bytes
  rp_seq :: int
  rp_ac :: "CaptureInfo option"
  rp_seen :: int
  rp_start :: bool
  rp_end :: bool

record livePacket =
  lp_bytes :: bytes
  lp_start :: bool
  lp_end :: bool
  lp_ac :: CaptureInfo
  lp_seq :: int

datatype byteContainer = Page re_page | Live livePacket

fun getBytes :: "byteContainer \<Rightarrow> bytes" where
  "getBytes (Page p) = rp_bytes p" | "getBytes (Live lp) = lp_bytes lp"

fun isStart :: "byteContainer \<Rightarrow> bool" where
  "isStart (Page p) = rp_start p" | "isStart (Live lp) = lp_start lp"

fun isEnd :: "byteContainer \<Rightarrow> bool" where
  "isEnd (Page p) = rp_end p" | "isEnd (Live lp) = lp_end lp"

fun getSeq :: "byteContainer \<Rightarrow> int" where
  "getSeq (Page p) = rp_seq p" | "getSeq (Live lp) = lp_seq lp"

definition page_isPacket :: "re_page \<Rightarrow> bool" where
  "page_isPacket p \<longleftrightarrow> rp_ac p \<noteq> None"

fun isPacket :: "byteContainer \<Rightarrow> bool" where
  "isPacket (Page p) = page_isPacket p" | "isPacket (Live lp) = True"

fun assemblerContext :: "byteContainer \<Rightarrow> CaptureInfo option" where
  "assemblerContext (Page p) = rp_ac p" | "assemblerContext (Live lp) = Some (lp_ac lp)"

text \<open>The method call on a nil context panics.\<close>

definition captureInfo :: "byteContainer \<Rightarrow> CaptureInfo option" where
  "captureInfo c = assemblerContext c"

record reassemblyObject =
  sg_all :: "byteContainer list"
  sg_Skip :: int
  sg_Direction :: bool
  sg_saved :: nat
  sg_queuedBytes :: int
  sg_queuedPackets :: int
  sg_overlapBytes :: int
  sg_overlapPackets :: int

definition sg_Lengths :: "reassemblyObject \<Rightarrow> nat \<times> nat" where
  "sg_Lengths rl = (sum_list (map (length \<circ> getBytes) (sg_all rl)), sg_saved rl)"

definition sg_Fetch :: "reassemblyObject \<Rightarrow> nat \<Rightarrow> bytes option" where
  "sg_Fetch rl l = (case sg_all rl of
       [] \<Rightarrow> None
     | c # cs \<Rightarrow> if l \<le> length (getBytes c) then slice (getBytes c) 0 l else slice (concat (map getBytes (sg_all rl))) 0 l)"

fun ci_loop :: "byteContainer list \<Rightarrow> int \<Rightarrow> int \<Rightarrow> CaptureInfo option" where
  "ci_loop [] current offset = Some zero_CaptureInfo"
| "ci_loop (r # rs) current offset =
     (if current + int (length (getBytes r)) > offset then captureInfo r else ci_loop rs (current + int (length (getBytes r))) offset)"

definition sg_CaptureInfo :: "reassemblyObject \<Rightarrow> int \<Rightarrow> CaptureInfo option" where
  "sg_CaptureInfo rl offset = (if offset < 0 then Some zero_CaptureInfo else ci_loop (sg_all rl) 0 offset)"

definition sg_Info :: "reassemblyObject \<Rightarrow> (bool \<times> bool \<times> bool \<times> int) option" where
  "sg_Info rl = (if sg_all rl = [] then None
                 else Some (sg_Direction rl, isStart (hd (sg_all rl)), isEnd (last (sg_all rl)), sg_Skip rl))"

definition sg_Stats :: "reassemblyObject \<Rightarrow> nat \<times> nat \<times> int \<times> int \<times> int \<times> int" where
  "sg_Stats rl = (length (sg_all rl), length (filter isPacket (sg_all rl)), sg_queuedBytes rl, sg_queuedPackets rl, sg_overlapBytes rl, sg_overlapPackets rl)"

subsection \<open>The page cache\<close>

record re_pageCache =
  re_used :: int
  re_gets :: nat

definition re_newPageCache :: re_pageCache where
  "re_newPageCache = \<lparr>re_used = 0, re_gets = 0\<rparr>"

text \<open>The bytes, sequence number and context that a page from the cache still has are overwritten before they are read.\<close>

definition re_next :: "(nat \<Rightarrow> bool) \<Rightarrow> re_pageCache \<Rightarrow> int \<Rightarrow> re_page \<times> re_pageCache" where
  "re_next stale c ts =
     (\<lparr>rp_bytes = [], rp_seq = 0, rp_ac = None, rp_seen = ts, rp_start = False, rp_end = stale (re_gets c)\<rparr>,
      c\<lparr>re_used := re_used c + 1, re_gets := re_gets c + 1\<rparr>)"

definition re_replace :: "re_pageCache \<Rightarrow> re_pageCache" where
  "re_replace c = c\<lparr>re_used := re_used c - 1\<rparr>"

function lp_pages :: "(nat \<Rightarrow> bool) \<Rightarrow> re_pageCache \<Rightarrow> int \<Rightarrow> CaptureInfo option \<Rightarrow> int \<Rightarrow> bytes \<Rightarrow> bool \<Rightarrow> re_page list \<times> re_pageCache" where
  "lp_pages stale pc ts ac sq bytes fin =
     (let (current, pc1) = re_next stale pc ts;
          len = min (length bytes) re_pageBytes;
          page = current\<lparr>rp_bytes := take len bytes, rp_seq := sq, rp_ac := ac\<rparr>;
          rest = drop len bytes
      in if rest = [] then ([page\<lparr>rp_end := fin\<rparr>], pc1)
         else let (ps, pc2) = lp_pages stale pc1 ts None (re_Add sq (int len)) rest fin in (page # ps, pc2))"
  by pat_completeness auto
termination
  by (relation "measure (\<lambda>(stale, pc, ts, ac, sq, bytes, fin). length bytes)") (auto simp: re_pageBytes_def)

declare lp_pages.simps [simp del]

definition convertToPages ::
  "(nat \<Rightarrow> bool) \<Rightarrow> re_pageCache \<Rightarrow> int \<Rightarrow> CaptureInfo option \<Rightarrow> byteContainer \<Rightarrow> (re_page list \<times> re_pageCache) option" where
  "convertToPages stale pc skip ac c =
     (case c of
        Page p \<Rightarrow>
          if skip \<noteq> 0
          then if skip < 0 then None
               else do { b \<leftarrow> slice (rp_bytes p) (nat skip) (length (rp_bytes p));
                         Some ([p\<lparr>rp_bytes := b, rp_seq := re_Add (rp_seq p) skip\<rparr>], pc) }
          else Some ([p], pc)
      | Live lp \<Rightarrow>
          if skip < 0 then None
          else do { b \<leftarrow> slice (lp_bytes lp) (nat skip) (length (lp_bytes lp));
                    Some (lp_pages stale pc (Timestamp (lp_ac lp)) ac (re_Add (lp_seq lp) skip) b (lp_end lp)) })"

fun release :: "re_pageCache \<Rightarrow> byteContainer \<Rightarrow> re_pageCache \<times> int" where
  "release pc (Page p) = (re_replace pc, 1)"
| "release pc (Live lp) = (pc, 0)"

subsection \<open>Half connections\<close>

record halfconnection =
  hf_dir :: bool
  hf_pages :: int
  hf_saved :: "re_page list"
  hf_queue :: "re_page list"
  hf_nextSeq :: int
  hf_ackSeq :: int
  hf_created :: int
  hf_lastSeen :: int
  hf_closed :: bool
  hf_queuedBytes :: int
  hf_queuedPackets :: int
  hf_overlapBytes :: int
  hf_overlapPackets :: int

record 's re_connection =
  rc_key :: "Flow \<times> Flow"
  rc_c2s :: halfconnection
  rc_s2c :: halfconnection
  rc_stream :: 's

definition new_half :: "bool \<Rightarrow> int \<Rightarrow> halfconnection" where
  "new_half dir ts = \<lparr>hf_dir = dir, hf_pages = 0, hf_saved = [], hf_queue = [], hf_nextSeq = noSequence, hf_ackSeq = noSequence,
     hf_created = ts, hf_lastSeen = ts, hf_closed = False, hf_queuedBytes = 0, hf_queuedPackets = 0, hf_overlapBytes = 0, hf_overlapPackets = 0\<rparr>"

definition rc_reset :: "Flow \<times> Flow \<Rightarrow> 's \<Rightarrow> int \<Rightarrow> 's re_connection" where
  "rc_reset k s ts = \<lparr>rc_key = k, rc_c2s = new_half False ts, rc_s2c = new_half True ts, rc_stream = s\<rparr>"

definition rc_lastSeen :: "'s re_connection \<Rightarrow> int" where
  "rc_lastSeen c = (if hf_lastSeen (rc_c2s c) < hf_lastSeen (rc_s2c c) then hf_lastSeen (rc_s2c c) else hf_lastSeen (rc_c2s c))"

definition half_of :: "'s re_connection \<Rightarrow> bool \<Rightarrow> halfconnection" where
  "half_of c dir = (if dir then rc_s2c c else rc_c2s c)"

definition put_half :: "'s re_connection \<Rightarrow> bool \<Rightarrow> halfconnection \<Rightarrow> 's re_connection" where
  "put_half c dir h = (if dir then c\<lparr>rc_s2c := h\<rparr> else c\<lparr>rc_c2s := h\<rparr>)"

record 's stream_ops =
  op_New :: "Flow \<Rightarrow> Flow \<Rightarrow> TCP \<Rightarrow> CaptureInfo \<Rightarrow> 's"
  op_Accept :: "'s \<Rightarrow> TCP \<Rightarrow> CaptureInfo \<Rightarrow> bool \<Rightarrow> int \<Rightarrow> bool \<Rightarrow> 's \<times> bool \<times> bool"
  op_ReassembledSG :: "'s \<Rightarrow> reassemblyObject \<Rightarrow> CaptureInfo option \<Rightarrow> 's \<times> int"
  op_ReassemblyComplete :: "'s \<Rightarrow> 's \<times> bool"

record re_options =
  re_MaxBufferedPagesTotal :: int
  re_MaxBufferedPagesPerConnection :: int


subsection \<open>Overlaps\<close>

text \<open>
  The loop of \<^verbatim>\<open>checkOverlap\<close> from the last page of the queue to the first: the pages not yet visited, last first, the pages
  behind them, the bytes that are left of the new packet, the half connection for its counters and the page cache. The
  numbers are those of the cases in the source. A slice of a page beyond its bytes is a panic here, while the code could reach the
  stale bytes up to the size of the page; without a wrap-around the slices end within the bytes. After case 6 no bytes are left, so that nothing is inserted and the
  position between the two lists does not matter.
\<close>

fun overlap_loop ::
  "int \<Rightarrow> int \<Rightarrow> re_page list \<Rightarrow> re_page list \<Rightarrow> bytes \<Rightarrow> halfconnection \<Rightarrow> re_pageCache
     \<Rightarrow> (re_page list \<times> re_page list \<times> bytes \<times> halfconnection \<times> re_pageCache) option" where
  "overlap_loop start fin [] after bytes half pc = Some ([], after, bytes, half, pc)"
| "overlap_loop start fin (cur # prevs) after bytes half pc =
     (if re_Difference fin (rp_seq cur) > 0 then overlap_loop start fin prevs (cur # after) bytes half pc
      else let curEnd = re_Add (rp_seq cur) (int (length (rp_bytes cur)))
           in if re_Difference start curEnd \<le> 0 then Some (cur # prevs, after, bytes, half, pc)
              else let diffStart = re_Difference start (rp_seq cur); diffEnd = re_Difference fin curEnd
                   in if diffEnd \<le> 0 \<and> diffStart \<ge> 0
                      then overlap_loop start fin prevs after bytes
                             (half\<lparr>hf_overlapPackets := hf_overlapPackets half + (if page_isPacket cur then 1 else 0),
                                   hf_overlapBytes := hf_overlapBytes half + int (length (rp_bytes cur)), hf_pages := hf_pages half - 1\<rparr>)
                             (re_replace pc)
                      else if diffEnd < 0 \<and> re_Difference start curEnd > 0
                      then (if - diffStart < 0 then None
                            else do { b \<leftarrow> slice (rp_bytes cur) 0 (nat (- diffStart));
                                      Some (cur\<lparr>rp_bytes := b\<rparr> # prevs, after, bytes, half, pc) })
                      else if diffStart > 0 \<and> re_Difference fin (rp_seq cur) < 0
                      then do { b \<leftarrow> slice (rp_bytes cur) (nat (- re_Difference fin (rp_seq cur))) (length (rp_bytes cur));
                                overlap_loop start fin prevs
                                  (cur\<lparr>rp_bytes := b, rp_seq := re_Add (rp_seq cur) (- re_Difference fin (rp_seq cur))\<rparr> # after) bytes half pc }
                      else if diffEnd \<ge> 0 \<and> diffStart \<le> 0
                      then do { b \<leftarrow> write_at (rp_bytes cur) (nat (- diffStart)) bytes;
                                overlap_loop start fin prevs (cur\<lparr>rp_bytes := b\<rparr> # after) [] half pc }
                      else overlap_loop start fin prevs (cur # after) bytes half pc)"

definition checkOverlap ::
  "(nat \<Rightarrow> bool) \<Rightarrow> re_pageCache \<Rightarrow> halfconnection \<Rightarrow> livePacket \<Rightarrow> bool \<Rightarrow> CaptureInfo \<Rightarrow> (re_pageCache \<times> halfconnection \<times> livePacket) option" where
  "checkOverlap stale pc half lp queue ac = do {
     let start = lp_seq lp;
     (before, after, bytes, half1, pc1) \<leftarrow>
       overlap_loop start (re_Add start (int (length (lp_bytes lp)))) (rev (hf_queue half)) [] (lp_bytes lp) half pc;
     let lp1 = lp\<lparr>lp_bytes := bytes\<rparr>;
     if bytes \<noteq> [] \<and> queue
     then do {
       (new, pc2) \<leftarrow> convertToPages stale pc1 0 (Some ac) (Live lp1);
       Some (pc2, half1\<lparr>hf_queuedPackets := hf_queuedPackets half1 + 1, hf_queuedBytes := hf_queuedBytes half1 + int (length bytes),
                        hf_pages := hf_pages half1 + int (length new), hf_queue := rev before @ new @ after\<rparr>, lp1) }
     else Some (pc1, half1\<lparr>hf_queue := rev before @ after\<rparr>, lp1)
   }"

definition overlapExisting :: "halfconnection \<Rightarrow> int \<Rightarrow> bytes \<Rightarrow> (halfconnection \<times> bytes \<times> int) option" where
  "overlapExisting half start bytes =
     (if hf_nextSeq half = noSequence then Some (half, bytes, start)
      else let diff = re_Difference start (hf_nextSeq half)
           in if diff = 0 then Some (half, bytes, start)
              else let half1 = (if bytes \<noteq> [] then half\<lparr>hf_overlapPackets := hf_overlapPackets half + 1, hf_overlapBytes := hf_overlapBytes half + diff\<rparr> else half);
                       s = (if diff \<ge> int (length bytes) then int (length bytes) else diff)
                   in if s < 0 then None
                      else do { b \<leftarrow> slice bytes (nat s) (length bytes); Some (half1, b, hf_nextSeq half1) })"

subsection \<open>From the queue to the stream\<close>

definition re_addNextFromConn :: "halfconnection \<Rightarrow> byteContainer list \<Rightarrow> halfconnection \<times> byteContainer list" where
  "re_addNextFromConn half ret = (case hf_queue half of
       [] \<Rightarrow> (half, ret)
     | p # ps \<Rightarrow> (half\<lparr>hf_queue := ps\<rparr>, ret @ [Page p]))"

definition handleBytes ::
  "(nat \<Rightarrow> bool) \<Rightarrow> re_options \<Rightarrow> re_pageCache \<Rightarrow> bytes \<Rightarrow> int \<Rightarrow> halfconnection \<Rightarrow> bool \<Rightarrow> bool \<Rightarrow> bool \<Rightarrow> CaptureInfo
     \<Rightarrow> (re_pageCache \<times> halfconnection \<times> byteContainer list) option" where
  "handleBytes stale opts pc bytes sq half start fin queue ac =
     (let lp = \<lparr>lp_bytes = bytes, lp_start = start, lp_end = fin, lp_ac = ac, lp_seq = sq\<rparr>
      in if queue
         then do {
           (pc1, half1, lp1) \<leftarrow> checkOverlap stale pc half lp True ac;
           let (half2, ret) = (if (re_MaxBufferedPagesPerConnection opts > 0 \<and> hf_pages half1 \<ge> re_MaxBufferedPagesPerConnection opts) \<or>
                                  (re_MaxBufferedPagesTotal opts > 0 \<and> re_used pc1 \<ge> re_MaxBufferedPagesTotal opts)
                               then re_addNextFromConn half1 [] else (half1, []));
           Some (pc1, half2, ret) }
         else do {
           (half1, b, sq1) \<leftarrow> overlapExisting half sq bytes;
           (pc1, half2, lp1) \<leftarrow> checkOverlap stale pc half1 (lp\<lparr>lp_bytes := b, lp_seq := sq1\<rparr>) False ac;
           Some (pc1, half2, if lp_bytes lp1 \<noteq> [] \<or> fin \<or> start then [Live lp1] else []) })"

definition addPending :: "re_pageCache \<Rightarrow> halfconnection \<Rightarrow> byteContainer list \<Rightarrow> int \<Rightarrow> (re_pageCache \<times> halfconnection \<times> byteContainer list \<times> nat)" where
  "addPending pc half ret firstSeq =
     (case hf_saved half of
        [] \<Rightarrow> (pc, half, ret, 0)
      | p # ps \<Rightarrow>
          let s = sum_list (map (length \<circ> rp_bytes) (p # ps))
          in if re_Add (rp_seq p) (int s) \<noteq> firstSeq
             then ((re_replace ^^ length (p # ps)) pc, half\<lparr>hf_saved := []\<rparr>, ret, 0)
             else (pc, half, map Page (p # ps) @ ret, s))"

fun contiguous_loop :: "re_page list \<Rightarrow> int \<Rightarrow> byteContainer list \<Rightarrow> re_page list \<times> int \<times> byteContainer list" where
  "contiguous_loop [] lastSeq ret = ([], lastSeq, ret)"
| "contiguous_loop (p # ps) lastSeq ret =
     (if re_Difference lastSeq (rp_seq p) = 0 then contiguous_loop ps (re_Add lastSeq (int (length (rp_bytes p)))) (ret @ [Page p])
      else (p # ps, lastSeq, ret))"

definition re_addContiguous :: "halfconnection \<Rightarrow> byteContainer list \<Rightarrow> int \<Rightarrow> halfconnection \<times> byteContainer list \<times> int" where
  "re_addContiguous half ret lastSeq =
     (case hf_queue half of
        [] \<Rightarrow> (half, ret, lastSeq)
      | p # ps \<Rightarrow>
          let (queue, lastSeq1, ret1) = contiguous_loop (p # ps) (if lastSeq = noSequence then rp_seq p else lastSeq) ret
          in (half\<lparr>hf_queue := queue\<rparr>, ret1, lastSeq1))"

text \<open>\<^verbatim>\<open>buildSG\<close> indexes the first container and so panics for none.\<close>

definition buildSG :: "re_pageCache \<Rightarrow> halfconnection \<Rightarrow> byteContainer list \<Rightarrow> (re_pageCache \<times> halfconnection \<times> reassemblyObject \<times> bool \<times> int) option" where
  "buildSG pc half ret =
     (case ret of
        [] \<Rightarrow> None
      | c # cs \<Rightarrow>
          let skip = (if hf_nextSeq half \<noteq> noSequence then re_Difference (hf_nextSeq half) (getSeq c) else -1);
              lastSeq = re_Add (getSeq c) (int (length (getBytes c)));
              (pc1, half1, ret1, saved) = addPending pc half ret (getSeq c);
              (half2, ret2, nextSeq) = re_addContiguous half1 ret1 lastSeq
          in Some (pc1, half2\<lparr>hf_queuedBytes := 0, hf_queuedPackets := 0, hf_overlapBytes := 0, hf_overlapPackets := 0\<rparr>,
               \<lparr>sg_all = ret2, sg_Skip = skip, sg_Direction = hf_dir half2, sg_saved = saved,
                sg_queuedBytes = hf_queuedBytes half2, sg_queuedPackets = hf_queuedPackets half2,
                sg_overlapBytes = hf_overlapBytes half2, sg_overlapPackets = hf_overlapPackets half2\<rparr>,
               isEnd (last ret2), nextSeq))"

text \<open>The first container to keep and the number of its bytes to skip; the index is the number of containers when there is none.\<close>

fun find_keep :: "byteContainer list \<Rightarrow> int \<Rightarrow> int \<Rightarrow> int \<Rightarrow> nat \<Rightarrow> nat \<times> int" where
  "find_keep [] toKeep cur skip ndx = (ndx, skip)"
| "find_keep (r # rs) toKeep cur skip ndx =
     (if toKeep < cur + int (length (getBytes r)) then (ndx, skip)
      else find_keep rs toKeep (cur + int (length (getBytes r)))
             (if skip \<ge> int (length (getBytes r)) then skip - int (length (getBytes r)) else skip) (ndx + 1))"

fun release_all :: "re_pageCache \<Rightarrow> int \<Rightarrow> byteContainer list \<Rightarrow> re_pageCache \<times> int" where
  "release_all pc pages [] = (pc, pages)"
| "release_all pc pages (r # rs) = (let (pc1, n) = release pc r in release_all pc1 (pages - n) rs)"

text \<open>The containers that are kept, as pages. Converting a page shortens it by \<open>skip\<close>; converting a packet leaves the packet,
  whose length is compared afterwards, as it is.\<close>

fun keep_pages :: "(nat \<Rightarrow> bool) \<Rightarrow> re_pageCache \<Rightarrow> CaptureInfo option \<Rightarrow> int \<Rightarrow> byteContainer list \<Rightarrow> (re_page list \<times> re_pageCache) option" where
  "keep_pages stale pc ac skip [] = Some ([], pc)"
| "keep_pages stale pc ac skip (r # rs) = do {
     (ps, pc1) \<leftarrow> convertToPages stale pc skip ac r;
     let delta = (case r of Page p \<Rightarrow> int (length (rp_bytes p)) - int (length (rp_bytes (hd ps))) | Live lp \<Rightarrow> 0);
     (qs, pc2) \<leftarrow> keep_pages stale pc1 ac (if delta > skip then 0 else skip - delta) rs;
     Some (ps @ qs, pc2) }"

definition cleanSG :: "(nat \<Rightarrow> bool) \<Rightarrow> re_pageCache \<Rightarrow> halfconnection \<Rightarrow> reassemblyObject \<Rightarrow> int \<Rightarrow> CaptureInfo option \<Rightarrow> (re_pageCache \<times> halfconnection) option" where
  "cleanSG stale pc half sg toKeep ac = do {
     let (ndx, skip) = (if toKeep < 0 then (length (sg_all sg), 0) else find_keep (sg_all sg) toKeep 0 toKeep 0);
     let (pc1, pages) = release_all pc (hf_pages half) (take ndx (sg_all sg));
     (saved, pc2) \<leftarrow> keep_pages stale pc1 ac skip (drop ndx (sg_all sg));
     Some (pc2, half\<lparr>hf_pages := pages, hf_saved := saved\<rparr>)
   }"

text \<open>\<^verbatim>\<open>closeHalfConnection\<close> gives the first page back to the cache; that clears the page's link to the next one, so that the
  loop ends there. The flag tells whether the connection is to be removed from the pool.\<close>

definition closeHalfConnection :: "'s stream_ops \<Rightarrow> re_pageCache \<Rightarrow> 's re_connection \<Rightarrow> bool \<Rightarrow> re_pageCache \<times> 's re_connection \<times> bool" where
  "closeHalfConnection ops pc conn dir =
     (let half = half_of conn dir;
          (pc1, half1) = (if hf_queue half = [] then (pc, half)
                          else (re_replace pc, half\<lparr>hf_pages := hf_pages half - 1, hf_queue := take 1 (hf_queue half)\<rparr>));
          conn1 = put_half conn dir (half1\<lparr>hf_closed := True\<rparr>)
      in if hf_closed (rc_s2c conn1) \<and> hf_closed (rc_c2s conn1)
         then let (s, remove) = op_ReassemblyComplete ops (rc_stream conn1) in (pc1, conn1\<lparr>rc_stream := s\<rparr>, remove)
         else (pc1, conn1, False))"

definition re_sendToConnection ::
  "(nat \<Rightarrow> bool) \<Rightarrow> 's stream_ops \<Rightarrow> re_pageCache \<Rightarrow> 's re_connection \<Rightarrow> bool \<Rightarrow> byteContainer list \<Rightarrow> CaptureInfo option
     \<Rightarrow> (re_pageCache \<times> 's re_connection \<times> bool \<times> int) option" where
  "re_sendToConnection stale ops pc conn dir ret ac = do {
     (pc1, half1, sg, fin, nextSeq) \<leftarrow> buildSG pc (half_of conn dir) ret;
     let (s, toKeep) = op_ReassembledSG ops (rc_stream conn) sg ac;
     (pc2, half2) \<leftarrow> cleanSG stale pc1 half1 sg toKeep ac;
     let conn1 = (put_half conn dir half2)\<lparr>rc_stream := s\<rparr>;
     if fin then (let (pc3, conn2, remove) = closeHalfConnection ops pc2 conn1 dir in Some (pc3, conn2, remove, nextSeq))
     else Some (pc2, conn1, False, nextSeq)
   }"

definition set_nextSeq :: "'s re_connection \<Rightarrow> bool \<Rightarrow> int \<Rightarrow> 's re_connection" where
  "set_nextSeq conn dir sq = put_half conn dir ((half_of conn dir)\<lparr>hf_nextSeq := sq\<rparr>)"

definition re_skipFlush ::
  "(nat \<Rightarrow> bool) \<Rightarrow> 's stream_ops \<Rightarrow> re_pageCache \<Rightarrow> 's re_connection \<Rightarrow> bool \<Rightarrow> (re_pageCache \<times> 's re_connection \<times> bool) option" where
  "re_skipFlush stale ops pc conn dir =
     (if hf_queue (half_of conn dir) = [] then Some (closeHalfConnection ops pc conn dir)
      else let (half1, ret) = re_addNextFromConn (half_of conn dir) []
           in do {
             (pc1, conn1, remove, nextSeq) \<leftarrow> re_sendToConnection stale ops pc (put_half conn dir half1) dir ret (assemblerContext (hd ret));
             Some (pc1, if nextSeq \<noteq> noSequence then set_nextSeq conn1 dir nextSeq else conn1, remove) })"


subsection \<open>The assembler\<close>

record 's re_assembler =
  ra_options :: re_options
  ra_pc :: re_pageCache
  ra_conns :: "((Flow \<times> Flow) \<times> 's re_connection) list"

definition re_NewAssembler :: "'s re_assembler" where
  "re_NewAssembler = \<lparr>ra_options = \<lparr>re_MaxBufferedPagesTotal = 0, re_MaxBufferedPagesPerConnection = 0\<rparr>, ra_pc = re_newPageCache, ra_conns = []\<rparr>"

definition key_Reverse :: "Flow \<times> Flow \<Rightarrow> Flow \<times> Flow" where
  "key_Reverse k = (Reverse (fst k), Reverse (snd k))"

text \<open>The connection of a key and the direction of the packet: \<open>False\<close> is from the client to the server.\<close>

definition getHalf :: "((Flow \<times> Flow) \<times> 's re_connection) list \<Rightarrow> Flow \<times> Flow \<Rightarrow> ('s re_connection \<times> bool) option" where
  "getHalf conns k = (case map_of conns k of
       Some conn \<Rightarrow> Some (conn, False)
     | None \<Rightarrow> (case map_of conns (key_Reverse k) of Some conn \<Rightarrow> Some (conn, True) | None \<Rightarrow> None))"

definition re_getConnection ::
  "'s stream_ops \<Rightarrow> ((Flow \<times> Flow) \<times> 's re_connection) list \<Rightarrow> Flow \<times> Flow \<Rightarrow> TCP \<Rightarrow> CaptureInfo
     \<Rightarrow> ((Flow \<times> Flow) \<times> 's re_connection) list \<times> 's re_connection \<times> bool" where
  "re_getConnection ops conns k t ac =
     (case getHalf conns k of
        Some (conn, dir) \<Rightarrow> (conns, conn, dir)
      | None \<Rightarrow> let conn = rc_reset k (op_New ops (fst k) (snd k) t ac) (Timestamp ac) in (AList.update k conn conns, conn, False))"

definition re_save :: "((Flow \<times> Flow) \<times> 's re_connection) list \<Rightarrow> 's re_connection \<Rightarrow> bool \<Rightarrow> ((Flow \<times> Flow) \<times> 's re_connection) list" where
  "re_save conns conn remove = (if remove then AList.delete (rc_key conn) conns else AList.update (rc_key conn) conn conns)"

text \<open>The body of \<^verbatim>\<open>AssembleWithContext\<close> on the connection and the half that the packet belongs to.\<close>

definition assemble_half ::
  "(nat \<Rightarrow> bool) \<Rightarrow> 's stream_ops \<Rightarrow> re_options \<Rightarrow> re_pageCache \<Rightarrow> 's re_connection \<Rightarrow> bool \<Rightarrow> TCP \<Rightarrow> CaptureInfo
     \<Rightarrow> (re_pageCache \<times> 's re_connection \<times> bool) option" where
  "assemble_half stale ops opts pc conn dir t ac =
     (let half0 = half_of conn dir;
          half = (if hf_lastSeen half0 < Timestamp ac then half0\<lparr>hf_lastSeen := Timestamp ac\<rparr> else half0);
          (s, accepted, start) = op_Accept ops (rc_stream conn) t ac (hf_dir half) (hf_nextSeq half) (hf_nextSeq half = noSequence \<and> tcp_SYN t);
          conn1 = (put_half conn dir half)\<lparr>rc_stream := s\<rparr>
      in if \<not> accepted then Some (pc, conn1, False)
         else if hf_closed half then Some (pc, conn1, False)
         else
           let sq0 = uint (tcp_Seq t);
               half1 = (if tcp_ACK t then half\<lparr>hf_ackSeq := uint (tcp_Ack t)\<rparr> else half);
               (sq, half2, queue) =
                 (if hf_nextSeq half1 = noSequence
                  then (if tcp_SYN t then (re_Add sq0 1, half1\<lparr>hf_nextSeq := re_Add sq0 1\<rparr>, False)
                        else if start then (sq0, half1\<lparr>hf_nextSeq := sq0\<rparr>, False)
                        else (sq0, half1, True))
                  else (sq0, half1, re_Difference (hf_nextSeq half1) sq0 > 0))
           in do {
             (pc1, half3, ret) \<leftarrow> handleBytes stale opts pc (Payload t) sq half2 (tcp_SYN t) (tcp_RST t \<or> tcp_FIN t) queue ac;
             let conn2 = put_half conn1 dir half3;
             if ret = [] then Some (pc1, conn2, False)
             else do {
               (pc2, conn3, remove, nextSeq) \<leftarrow> re_sendToConnection stale ops pc1 conn2 dir ret (Some ac);
               Some (pc2, if nextSeq \<noteq> noSequence then set_nextSeq conn3 dir (if tcp_FIN t then re_Add nextSeq 1 else nextSeq) else conn3, remove) } })"

definition AssembleWithContext ::
  "(nat \<Rightarrow> bool) \<Rightarrow> 's stream_ops \<Rightarrow> 's re_assembler \<Rightarrow> Flow \<Rightarrow> TCP \<Rightarrow> CaptureInfo \<Rightarrow> 's re_assembler option" where
  "AssembleWithContext stale ops a netFlow t ac = do {
     tf \<leftarrow> TCP_TransportFlow t;
     let (conns, conn, dir) = re_getConnection ops (ra_conns a) (netFlow, tf) t ac;
     (pc1, conn1, remove) \<leftarrow> assemble_half stale ops (ra_options a) (ra_pc a) conn dir t ac;
     Some (a\<lparr>ra_pc := pc1, ra_conns := re_save conns conn1 remove\<rparr>)
   }"

subsection \<open>Flushing\<close>

partial_function (option) flush_pages ::
  "(nat \<Rightarrow> bool) \<Rightarrow> 's stream_ops \<Rightarrow> re_pageCache \<Rightarrow> 's re_connection \<Rightarrow> bool \<Rightarrow> int \<Rightarrow> bool \<Rightarrow> bool
     \<Rightarrow> (re_pageCache \<times> 's re_connection \<times> bool \<times> bool) option" where
  "flush_pages stale ops pc conn dir t flushed remove =
     (if hf_queue (half_of conn dir) \<noteq> [] \<and> rp_seen (hd (hf_queue (half_of conn dir))) < t
      then (case re_skipFlush stale ops pc conn dir of
              None \<Rightarrow> None
            | Some (pc1, conn1, rm1) \<Rightarrow>
                if hf_closed (half_of conn1 dir) then Some (pc1, conn1, True, remove \<or> rm1)
                else flush_pages stale ops pc1 conn1 dir t True (remove \<or> rm1))
      else Some (pc, conn, flushed, remove))"

text \<open>\<^verbatim>\<open>flushClose\<close>: the results are whether data was flushed and whether the half was closed; the last flag collects removals.\<close>

definition flushClose ::
  "(nat \<Rightarrow> bool) \<Rightarrow> 's stream_ops \<Rightarrow> re_pageCache \<Rightarrow> 's re_connection \<Rightarrow> bool \<Rightarrow> int \<Rightarrow> int
     \<Rightarrow> (re_pageCache \<times> 's re_connection \<times> bool \<times> bool \<times> bool) option" where
  "flushClose stale ops pc conn dir t tc =
     (if hf_closed (half_of conn dir) then Some (pc, conn, False, False, False)
      else do {
        (pc1, conn1, flushed, remove) \<leftarrow> flush_pages stale ops pc conn dir t False False;
        if hf_closed (half_of conn1 dir) then Some (pc1, conn1, flushed, True, remove)
        else if hf_queue (half_of conn1 dir) = [] \<and> rc_lastSeen conn1 < tc
        then (let (pc2, conn2, rm2) = closeHalfConnection ops pc1 conn1 dir in Some (pc2, conn2, flushed, True, remove \<or> rm2))
        else Some (pc1, conn1, flushed, False, remove) })"

definition re_flush_conn ::
  "(nat \<Rightarrow> bool) \<Rightarrow> 's stream_ops \<Rightarrow> int \<Rightarrow> int \<Rightarrow> 's re_assembler \<times> nat \<times> nat \<Rightarrow> 's re_connection \<Rightarrow> ('s re_assembler \<times> nat \<times> nat) option" where
  "re_flush_conn stale ops T TC st conn = (case st of (a, flushes, closes) \<Rightarrow> do {
     (pc1, conn1, f1, c1, r1) \<leftarrow> flushClose stale ops (ra_pc a) conn True T TC;
     (pc2, conn2, f2, c2, r2) \<leftarrow> flushClose stale ops pc1 conn1 False T TC;
     let remove = (hf_closed (rc_s2c conn2) \<and> hf_closed (rc_c2s conn2) \<and> hf_lastSeen (rc_s2c conn2) < TC \<and> hf_lastSeen (rc_c2s conn2) < TC);
     Some (a\<lparr>ra_pc := pc2, ra_conns := re_save (ra_conns a) conn2 (remove \<or> r1 \<or> r2)\<rparr>,
           flushes + (if f1 then 1 else 0) + (if f2 then 1 else 0), closes + (if c1 then 1 else 0) + (if c2 then 1 else 0)) })"

fun fold_conns :: "('a \<Rightarrow> 'c \<Rightarrow> 'a option) \<Rightarrow> 'a \<Rightarrow> 'c list \<Rightarrow> 'a option" where
  "fold_conns f a [] = Some a"
| "fold_conns f a (c # cs) = do { a1 \<leftarrow> f a c; fold_conns f a1 cs }"

definition re_FlushWithOptions :: "(nat \<Rightarrow> bool) \<Rightarrow> 's stream_ops \<Rightarrow> 's re_assembler \<Rightarrow> int \<Rightarrow> int \<Rightarrow> ('s re_assembler \<times> nat \<times> nat) option" where
  "re_FlushWithOptions stale ops a T TC = fold_conns (re_flush_conn stale ops T TC) (a, 0, 0) (map snd (ra_conns a))"

definition FlushCloseOlderThan :: "(nat \<Rightarrow> bool) \<Rightarrow> 's stream_ops \<Rightarrow> 's re_assembler \<Rightarrow> int \<Rightarrow> ('s re_assembler \<times> nat \<times> nat) option" where
  "FlushCloseOlderThan stale ops a t = re_FlushWithOptions stale ops a t t"

partial_function (option) flush_half ::
  "(nat \<Rightarrow> bool) \<Rightarrow> 's stream_ops \<Rightarrow> re_pageCache \<Rightarrow> 's re_connection \<Rightarrow> bool \<Rightarrow> bool \<Rightarrow> (re_pageCache \<times> 's re_connection \<times> bool) option" where
  "flush_half stale ops pc conn dir remove =
     (if hf_closed (half_of conn dir) then Some (pc, conn, remove)
      else (case re_skipFlush stale ops pc conn dir of
              None \<Rightarrow> None
            | Some (pc1, conn1, rm1) \<Rightarrow> flush_half stale ops pc1 conn1 dir (remove \<or> rm1)))"

definition flushall_conn :: "(nat \<Rightarrow> bool) \<Rightarrow> 's stream_ops \<Rightarrow> 's re_assembler \<Rightarrow> 's re_connection \<Rightarrow> 's re_assembler option" where
  "flushall_conn stale ops a conn = do {
     (pc1, conn1, r1) \<leftarrow> flush_half stale ops (ra_pc a) conn True False;
     (pc2, conn2, r2) \<leftarrow> flush_half stale ops pc1 conn1 False False;
     Some (a\<lparr>ra_pc := pc2, ra_conns := re_save (ra_conns a) conn2 (r1 \<or> r2)\<rparr>) }"

definition re_FlushAll :: "(nat \<Rightarrow> bool) \<Rightarrow> 's stream_ops \<Rightarrow> 's re_assembler \<Rightarrow> ('s re_assembler \<times> nat) option" where
  "re_FlushAll stale ops a = do {
     a1 \<leftarrow> fold_conns (flushall_conn stale ops) a (map snd (ra_conns a));
     Some (a1, length (ra_conns a)) }"

end
