(* ===== verification/Reassembly_Stream.thy ===== *)
theory Reassembly_Stream
  imports Reassembly
begin

section \<open>Two-way TCP reassembly delivers streams\<close>

text \<open>
  One direction of a connection: packets of a byte stream that arrive in any order, repeatedly and with overlaps, are
  delivered in order to a stream that accepts all packets and keeps nothing. Positions in the stream are natural numbers;
  position \<open>i\<close> has the sequence number \<open>base + i\<close>. The sequence numbers must not wrap around: the theory also shows
  what \<^verbatim>\<open>Difference\<close> does there.
\<close>

subsection \<open>Sequence numbers that do not wrap\<close>

definition plain :: "bytes \<Rightarrow> int \<Rightarrow> bool" where
  "plain D base \<longleftrightarrow> 1 \<le> base \<and>
     (base + int (length D) + 1 \<le> uint32Max - uint32Max div 4 \<or> (uint32Max div 4 < base \<and> base + int (length D) + 1 \<le> uint32Max))"

lemma plain_Difference:
  assumes "plain D base" "-1 \<le> i" "i \<le> int (length D) + 1" "-1 \<le> j" "j \<le> int (length D) + 1"
  shows "re_Difference (base + i) (base + j) = j - i"
  using assms by (auto simp: plain_def re_Difference_def uint32Max_def)

lemma plain_Add:
  assumes "plain D base" "-1 \<le> i" "-1 \<le> i + j" "i + j \<le> int (length D) + 1"
  shows "re_Add (base + i) j = base + (i + j)"
proof -
  have "0 \<le> base + (i + j)" "base + (i + j) < 4294967296" using assms by (auto simp: plain_def uint32Max_def)
  then show ?thesis by (simp add: re_Add_def add.assoc)
qed

subsection \<open>Queues of pieces of a stream\<close>

definition off :: "int \<Rightarrow> re_page \<Rightarrow> nat" where
  "off base p = nat (rp_seq p - base)"

abbreviation len :: "re_page \<Rightarrow> nat" where
  "len p \<equiv> length (rp_bytes p)"

definition seg :: "bytes \<Rightarrow> nat \<Rightarrow> nat \<Rightarrow> bytes" where
  "seg D s e = take (e - s) (drop s D)"

definition page_ok :: "bytes \<Rightarrow> int \<Rightarrow> re_page \<Rightarrow> bool" where
  "page_ok D base p \<longleftrightarrow> base \<le> rp_seq p \<and> 0 < len p \<and> off base p + len p \<le> length D \<and> rp_bytes p = seg D (off base p) (off base p + len p)
     \<and> (rp_end p \<longrightarrow> off base p + len p = length D)"

definition queue_ok :: "bytes \<Rightarrow> int \<Rightarrow> nat \<Rightarrow> re_page list \<Rightarrow> bool" where
  "queue_ok D base k ps \<longleftrightarrow> (\<forall>p \<in> set ps. page_ok D base p \<and> k \<le> off base p) \<and> sorted_wrt (\<lambda>p q. off base p + len p \<le> off base q) ps"

definition hold :: "int \<Rightarrow> re_page list \<Rightarrow> nat set" where
  "hold base ps = (\<Union>p \<in> set ps. {off base p ..< off base p + len p})"

lemma length_seg [simp]: "e \<le> length D \<Longrightarrow> length (seg D s e) = e - s"
  by (simp add: seg_def)

lemma seg_append:
  assumes "s \<le> m" "m \<le> e"
  shows "seg D s m @ seg D m e = seg D s e"
proof -
  obtain a b where "m = s + a" "e = s + a + b" using assms by (metis le_add_diff_inverse)
  then show ?thesis by (simp add: seg_def take_add add.commute)
qed

lemma seg_take: "m \<le> e \<Longrightarrow> take (m - s) (seg D s e) = seg D s m"
  by (simp add: seg_def min_def)

lemma seg_drop: "s \<le> m \<Longrightarrow> drop (m - s) (seg D s e) = seg D m e"
  by (simp add: seg_def drop_take)

lemma seg_empty [simp]: "seg D s s = []"
  by (simp add: seg_def)

lemma take_seg: "k \<le> m \<Longrightarrow> take k D @ seg D k m = take m D"
  by (simp add: seg_def) (metis le_add_diff_inverse take_add)

lemma page_seq: "page_ok D base p \<Longrightarrow> rp_seq p = base + int (off base p)"
  by (simp add: page_ok_def off_def)

lemma queue_ok_mono: "queue_ok D base k ps \<Longrightarrow> k' \<le> k \<Longrightarrow> queue_ok D base k' ps"
  by (auto simp: queue_ok_def)

lemma hold_simps [simp]:
  "hold base [] = {}" "hold base (p # ps) = {off base p ..< off base p + len p} \<union> hold base ps" "hold base (ps @ qs) = hold base ps \<union> hold base qs"
  "hold base (rev ps) = hold base ps"
  by (auto simp: hold_def)

lemma queue_ok_append:
  "queue_ok D base k (ps @ qs) \<longleftrightarrow> queue_ok D base k ps \<and> queue_ok D base k qs \<and> (\<forall>p \<in> set ps. \<forall>q \<in> set qs. off base p + len p \<le> off base q)"
  by (auto simp: queue_ok_def sorted_wrt_append)

lemma queue_ok_Cons:
  "queue_ok D base k (p # qs) \<longleftrightarrow> page_ok D base p \<and> k \<le> off base p \<and> queue_ok D base (off base p + len p) qs"
  by (auto simp: queue_ok_def)

lemma queue_ok_snoc:
  "queue_ok D base k (qs @ [p]) \<longleftrightarrow> page_ok D base p \<and> k \<le> off base p \<and> queue_ok D base k qs \<and> (\<forall>q \<in> set qs. off base q + len q \<le> off base p)"
  by (auto simp: queue_ok_def sorted_wrt_append)

text \<open>What an operation may change besides the queue: the counters.\<close>

definition flow :: "halfconnection \<Rightarrow> int \<times> bool \<times> re_page list \<times> bool" where
  "flow h = (hf_nextSeq h, hf_closed h, hf_saved h, hf_dir h)"

definition same_flow :: "halfconnection \<Rightarrow> halfconnection \<Rightarrow> bool" where
  "same_flow h h' \<longleftrightarrow> flow h' = flow h \<and> hf_queue h' = hf_queue h"

lemma same_flow_refl [simp]: "same_flow h h"
  by (simp add: same_flow_def)


subsection \<open>Overlaps\<close>

text \<open>The result of the loop for the piece from \<open>s\<close> to \<open>e\<close>: either nothing in the queue overlaps the piece any more, or the piece is
  part of a page and nothing is left of it.\<close>

definition overlap_done :: "bytes \<Rightarrow> int \<Rightarrow> nat \<Rightarrow> nat \<Rightarrow> nat \<Rightarrow> nat \<Rightarrow> re_page list \<Rightarrow> re_page list \<Rightarrow> re_page list \<Rightarrow> bytes \<Rightarrow> bytes \<Rightarrow> bool" where
  "overlap_done D base k m s e rs before mid bytes bytes' \<longleftrightarrow>
     queue_ok D base k (rev before @ mid) \<and> (\<forall>p \<in> set (before @ mid). off base p + len p \<le> m) \<and>
     (bytes' = bytes \<and> (\<forall>p \<in> set before. off base p + len p \<le> s) \<and> (\<forall>p \<in> set mid. e \<le> off base p)
        \<and> hold base (before @ mid) \<union> {s..<e} = hold base rs \<union> {s..<e}
      \<or> bytes' = [] \<and> {s..<e} \<subseteq> hold base (before @ mid) \<and> hold base (before @ mid) = hold base rs
        \<and> (\<exists>p \<in> set rs. off base p \<le> s \<and> e \<le> off base p + len p))"

lemma overlap_loop_stop:
  assumes "plain D base" "queue_ok D base k (rev rs)" "\<forall>p \<in> set rs. off base p + len p \<le> s" "s \<le> e" "e \<le> length D + 1"
  shows "overlap_loop (base + int s) (base + int e) rs after bytes half pc = Some (rs, after, bytes, half, pc)"
proof (cases rs)
  case (Cons cur prevs)
  have c: "page_ok D base cur" "off base cur + len cur \<le> s" using assms(2,3) Cons by (auto simp: queue_ok_def)
  have q: "rp_seq cur = base + int (off base cur)" by (rule page_seq [OF c(1)])
  have "re_Difference (base + int e) (rp_seq cur) = int (off base cur) - int e"
    unfolding q by (rule plain_Difference [OF assms(1)]) (use c(2) assms(4,5) in auto)
  moreover have "re_Add (rp_seq cur) (int (len cur)) = base + int (off base cur + len cur)"
    unfolding q by (subst plain_Add [OF assms(1)]) (use c(2) assms(4,5) in auto)
  moreover have "re_Difference (base + int s) (base + int (off base cur + len cur)) = int (off base cur + len cur) - int s"
    by (rule plain_Difference [OF assms(1)]) (use c(2) assms(4,5) in auto)
  ultimately show ?thesis using Cons c(2) assms(4) by (simp add: Let_def)
qed simp

declare overlap_loop.simps(2) [simp del]

lemma overlap_done_snoc:
  assumes od: "overlap_done D base k n s e prevs before mid bytes bytes'"
    and p: "page_ok D base p" "k \<le> off base p" "n \<le> off base p" "e \<le> off base p" "off base p + len p \<le> m"
    and h: "hold base [p] \<union> {s..<e} = hold base [cur] \<union> {s..<e}" "hold base [p] = hold base [cur] \<or> (\<forall>q \<in> set prevs. off base q + len q < e)"
  shows "overlap_done D base k m s e (cur # prevs) before (mid @ [p]) bytes bytes'"
proof -
  have q: "queue_ok D base k (rev before @ mid)" "\<forall>q \<in> set (before @ mid). off base q + len q \<le> n" using od by (simp_all add: overlap_done_def)
  have "queue_ok D base k ((rev before @ mid) @ [p])" unfolding queue_ok_snoc using q p(1,2) by (auto intro: order_trans [OF _ p(3)])
  moreover have nm: "n \<le> m" using p(3,5) by linarith
  then have "\<forall>q \<in> set (before @ mid @ [p]). off base q + len q \<le> m" using q(2) p(5) by (auto intro: order_trans [OF _ nm])
  moreover from od consider
      (A) "bytes' = bytes" "\<forall>p \<in> set before. off base p + len p \<le> s" "\<forall>p \<in> set mid. e \<le> off base p"
        "hold base (before @ mid) \<union> {s..<e} = hold base prevs \<union> {s..<e}"
    | (B) "bytes' = []" "{s..<e} \<subseteq> hold base (before @ mid)" "hold base (before @ mid) = hold base prevs"
        "\<exists>p \<in> set prevs. off base p \<le> s \<and> e \<le> off base p + len p" unfolding overlap_done_def by blast
  then have "bytes' = bytes \<and> (\<forall>p \<in> set before. off base p + len p \<le> s) \<and> (\<forall>p \<in> set (mid @ [p]). e \<le> off base p)
        \<and> hold base (before @ mid @ [p]) \<union> {s..<e} = hold base (cur # prevs) \<union> {s..<e}
      \<or> bytes' = [] \<and> {s..<e} \<subseteq> hold base (before @ mid @ [p]) \<and> hold base (before @ mid @ [p]) = hold base (cur # prevs)
        \<and> (\<exists>p \<in> set (cur # prevs). off base p \<le> s \<and> e \<le> off base p + len p)"
  proof cases
    case A
    have "hold base (before @ mid @ [p]) \<union> {s..<e} = (hold base (before @ mid) \<union> {s..<e}) \<union> (hold base [p] \<union> {s..<e})" by auto
    also have "\<dots> = hold base (cur # prevs) \<union> {s..<e}" unfolding A(4) h(1) by auto
    finally show ?thesis using A p(4) by auto
  next
    case B
    then have "hold base [p] = hold base [cur]" using h(2) by fastforce
    then have "hold base (before @ mid @ [p]) = hold base (cur # prevs)" using B(3) by auto
    then show ?thesis using B by auto
  qed
  ultimately show ?thesis unfolding overlap_done_def by simp
qed

lemma overlap_done_drop:
  assumes od: "overlap_done D base k n s e prevs before mid bytes bytes'"
    and h: "hold base [cur] \<subseteq> {s..<e}" "n \<le> m" "\<forall>q \<in> set prevs. off base q + len q \<le> n" "n < e"
  shows "overlap_done D base k m s e (cur # prevs) before mid bytes bytes'"
proof -
  have no: "\<not> (\<exists>p \<in> set prevs. off base p \<le> s \<and> e \<le> off base p + len p)" using h(3,4) by fastforce
  then have A: "queue_ok D base k (rev before @ mid)" "\<forall>p \<in> set (before @ mid). off base p + len p \<le> n" "bytes' = bytes"
      "\<forall>p \<in> set before. off base p + len p \<le> s" "\<forall>p \<in> set mid. e \<le> off base p" "hold base (before @ mid) \<union> {s..<e} = hold base prevs \<union> {s..<e}"
    using od unfolding overlap_done_def by blast+
  have "hold base (before @ mid) \<union> {s..<e} = hold base (cur # prevs) \<union> {s..<e}" unfolding A(6) using h(1) by auto
  moreover have "\<forall>p \<in> set (before @ mid). off base p + len p \<le> m" using A(2) h(2) by fastforce
  ultimately show ?thesis unfolding overlap_done_def using A by blast
qed

lemma overlap_loop_spec:
  assumes "plain D base" "s \<le> e" "e \<le> length D" "bytes = seg D s e"
  shows "\<lbrakk>queue_ok D base k (rev rs); \<forall>p \<in> set rs. off base p + len p \<le> m\<rbrakk> \<Longrightarrow>
    \<exists>before mid bytes' half' pc'. overlap_loop (base + int s) (base + int e) rs after bytes half pc = Some (before, mid @ after, bytes', half', pc')
      \<and> same_flow half half' \<and> overlap_done D base k m s e rs before mid bytes bytes'"
proof (induction rs arbitrary: after half pc m)
  case Nil
  then show ?case by (auto simp: overlap_done_def queue_ok_def intro!: exI [of _ "[]"])
next
  case (Cons cur prevs)
  let ?o = "off base cur" and ?l = "len cur"
  have c: "page_ok D base cur" "k \<le> ?o" "queue_ok D base k (rev prevs)" "\<forall>q \<in> set prevs. off base q + len q \<le> ?o" "?o + ?l \<le> m"
    using Cons.prems by (auto simp: queue_ok_snoc)
  have ol: "?o + ?l \<le> length D" "0 < ?l" "rp_bytes cur = seg D ?o (?o + ?l)" "rp_end cur \<longrightarrow> ?o + ?l = length D" using c(1) by (simp_all add: page_ok_def)
  have q: "rp_seq cur = base + int ?o" by (rule page_seq [OF c(1)])
  have d: "re_Difference (base + int e) (rp_seq cur) = int ?o - int e" "re_Add (rp_seq cur) (int ?l) = base + int (?o + ?l)"
    "re_Difference (base + int s) (base + int (?o + ?l)) = int (?o + ?l) - int s"
    "re_Difference (base + int e) (base + int (?o + ?l)) = int (?o + ?l) - int e" "re_Difference (base + int s) (rp_seq cur) = int ?o - int s"
    unfolding q using ol assms(2,3) plain_Add [OF assms(1), of "int ?o" "int ?l"] by (auto simp: plain_Difference [OF assms(1)])
  have prevs_le: "\<forall>p \<in> set prevs. off base p + len p \<le> ?o" by (rule c(4))
  note loop = overlap_loop.simps(2) [of "base + int s" "base + int e" cur prevs after bytes half pc, unfolded d Let_def]
  consider (c5) "e < ?o" | (c1) "?o \<le> e" "?o + ?l \<le> s" | (c3) "?o \<le> e" "s < ?o + ?l" "?o + ?l \<le> e" "s \<le> ?o"
    | (c2) "?o < s" "s < ?o + ?l" "?o + ?l < e" | (c4) "s < ?o" "?o < e" "e < ?o + ?l" | (c6) "?o \<le> s" "e \<le> ?o + ?l" "s < ?o + ?l" "?o < s \<or> e < ?o + ?l"
    | (c0) "?o = e" "s < e" using assms(2) by linarith
  then show ?case
  proof cases
    case c5
    from Cons.IH [OF c(3) prevs_le, of "cur # after" half pc] obtain before mid bytes' half' pc' where
      r: "overlap_loop (base + int s) (base + int e) prevs (cur # after) bytes half pc = Some (before, mid @ cur # after, bytes', half', pc')"
        "same_flow half half'" "overlap_done D base k ?o s e prevs before mid bytes bytes'" by blast
    have "overlap_done D base k m s e (cur # prevs) before (mid @ [cur]) bytes bytes'"
      by (rule overlap_done_snoc [OF r(3) c(1,2) _ _ c(5)]) (use c5 in auto)
    then show ?thesis using loop r(1,2) c5 by (intro exI [of _ before] exI [of _ "mid @ [cur]"] exI) auto
  next
    case c1
    have all: "\<forall>p \<in> set (cur # prevs). off base p + len p \<le> s" using c1 c(4) by fastforce
    have "overlap_done D base k m s e (cur # prevs) (cur # prevs) [] bytes bytes"
      using Cons.prems all by (auto simp: overlap_done_def)
    then show ?thesis using overlap_loop_stop [OF assms(1) Cons.prems(1) all assms(2)] assms(3)
      by (intro exI [of _ "cur # prevs"] exI [of _ "[]"] exI [of _ bytes] exI [of _ half] exI [of _ pc]) simp
  next
    case c3
    let ?h = "half\<lparr>hf_overlapPackets := hf_overlapPackets half + (if page_isPacket cur then 1 else 0),
                    hf_overlapBytes := hf_overlapBytes half + int ?l, hf_pages := hf_pages half - 1\<rparr>"
    from Cons.IH [OF c(3) prevs_le, of after ?h "re_replace pc"] obtain before mid bytes' half' pc' where
      r: "overlap_loop (base + int s) (base + int e) prevs after bytes ?h (re_replace pc) = Some (before, mid @ after, bytes', half', pc')"
        "same_flow ?h half'" "overlap_done D base k ?o s e prevs before mid bytes bytes'" by blast
    have "overlap_done D base k m s e (cur # prevs) before mid bytes bytes'"
    proof (rule overlap_done_drop [OF r(3)])
      show "?o < e" "?o \<le> m" using c3(3) c(5) ol(2) by linarith+
    qed (use c3 c(4) in auto)
    moreover have "same_flow half half'" using r(2) by (simp add: same_flow_def flow_def)
    ultimately show ?thesis using loop r(1) c3 by (intro exI [of _ before] exI [of _ mid] exI) auto
  next
    case c2
    let ?cur = "cur\<lparr>rp_bytes := seg D ?o s\<rparr>"
    have b: "slice (rp_bytes cur) 0 (nat (int s - int ?o)) = Some (seg D ?o s)"
      using c2 ol(1) seg_take [of s "?o + ?l" ?o D] ol(3) by (simp add: nat_diff_distrib')
    have cur': "off base ?cur = ?o" "len ?cur = s - ?o" using c2 ol(1) by (simp_all add: off_def)
    have pok: "page_ok D base ?cur" using c(1) c2 ol(4) assms(3) by (auto simp: page_ok_def cur')
    have "queue_ok D base k (rev (?cur # prevs))" using pok c(2,3,4) by (simp add: queue_ok_snoc cur')
    moreover have "{?o..<s} \<union> {s..<e} = {?o..<?o + ?l} \<union> {s..<e}" using c2 by auto
    ultimately have "overlap_done D base k m s e (cur # prevs) (?cur # prevs) [] bytes bytes"
      using c2 c(4,5) cur' by (fastforce simp: overlap_done_def)
    then show ?thesis using loop b c2 by (intro exI [of _ "?cur # prevs"] exI [of _ "[]"] exI) auto
  next
    case c4
    let ?cur = "cur\<lparr>rp_bytes := seg D e (?o + ?l), rp_seq := re_Add (rp_seq cur) (- (int ?o - int e))\<rparr>"
    have b: "slice (rp_bytes cur) (nat (- (int ?o - int e))) ?l = Some (seg D e (?o + ?l))"
      using c4 ol(1) seg_drop [of ?o e D "?o + ?l"] ol(3) by (simp add: nat_diff_distrib')
    have sq: "re_Add (rp_seq cur) (- (int ?o - int e)) = base + int e"
      unfolding q using c4 ol(1) by (subst plain_Add [OF assms(1)]) auto
    have sq': "rp_seq ?cur = base + int e" using sq by simp
    have cur': "off base ?cur = e" unfolding off_def [of base ?cur] sq' by simp
    have len': "len ?cur = ?o + ?l - e" using ol(1) by simp
    have pok: "page_ok D base ?cur" unfolding page_ok_def cur' len' sq' using c4 ol by simp
    from Cons.IH [OF c(3) prevs_le, of "?cur # after" half pc] obtain before mid bytes' half' pc' where
      r: "overlap_loop (base + int s) (base + int e) prevs (?cur # after) bytes half pc = Some (before, mid @ ?cur # after, bytes', half', pc')"
        "same_flow half half'" "overlap_done D base k ?o s e prevs before mid bytes bytes'" by blast
    have "overlap_done D base k m s e (cur # prevs) before (mid @ [?cur]) bytes bytes'"
      by (rule overlap_done_snoc [OF r(3) pok]) (use c4 c(2,4,5) cur' len' in fastforce)+
    then show ?thesis using loop b r(1,2) c4 by (intro exI [of _ before] exI [of _ "mid @ [?cur]"] exI) auto
  next
    case c6
    have j: "seg D ?o s @ seg D s e @ seg D e (?o + ?l) = rp_bytes cur"
      using c6 assms(2) ol(3) by (simp add: seg_append)
    have "take (s - ?o) (rp_bytes cur) = seg D ?o s" "drop (e - ?o) (rp_bytes cur) = seg D e (?o + ?l)"
      using c6 assms(2) ol(3) seg_take [of s "?o + ?l" ?o D] seg_drop [of ?o e D "?o + ?l"] by simp_all
    then have w: "write_at (rp_bytes cur) (nat (- (int ?o - int s))) bytes = Some (rp_bytes cur)"
      using c6 j assms(2-4) by (auto simp: write_at_def nat_diff_distrib')
    have le: "\<forall>p \<in> set prevs. off base p + len p \<le> s" using c(4) c6 by fastforce
    have cur: "cur\<lparr>rp_bytes := rp_bytes cur\<rparr> = cur" by simp
    have "overlap_done D base k m s e (cur # prevs) prevs [cur] bytes []"
      using Cons.prems c6 c(4,5) by (fastforce simp: overlap_done_def)
    moreover have "overlap_loop (base + int s) (base + int e) (cur # prevs) after bytes half pc = Some (prevs, [cur] @ after, [], half, pc)"
      using loop w cur c6 assms(2,3) overlap_loop_stop [OF assms(1) c(3) le assms(2), of "cur # after" "[]" half pc] by auto
    ultimately show ?thesis using same_flow_refl by blast
  next
    case c0
    from Cons.IH [OF c(3) prevs_le, of "cur # after" half pc] obtain before mid bytes' half' pc' where
      r: "overlap_loop (base + int s) (base + int e) prevs (cur # after) bytes half pc = Some (before, mid @ cur # after, bytes', half', pc')"
        "same_flow half half'" "overlap_done D base k ?o s e prevs before mid bytes bytes'" by blast
    have "overlap_done D base k m s e (cur # prevs) before (mid @ [cur]) bytes bytes'"
      by (rule overlap_done_snoc [OF r(3) c(1,2) _ _ c(5)]) (use c0 in auto)
    then show ?thesis using loop r(1,2) c0 ol(2) by (intro exI [of _ before] exI [of _ "mid @ [cur]"] exI) auto
  qed
qed


subsection \<open>Pages of a packet\<close>

text \<open>A packet of more than one page gets the end flags that the pages had at their last use, so that long packets are only
  considered where these flags are not set.\<close>

definition fits :: "(nat \<Rightarrow> bool) \<Rightarrow> nat \<Rightarrow> bool" where
  "fits stale n \<longleftrightarrow> n \<le> re_pageBytes \<or> (\<forall>i. \<not> stale i)"

lemma lp_pages_spec:
  assumes "plain D base"
  shows "\<lbrakk>s < e; e \<le> length D; fits stale (e - s); fin \<longrightarrow> e = length D\<rbrakk> \<Longrightarrow>
    \<exists>ps pc'. lp_pages stale pc ts ac (base + int s) (seg D s e) fin = (ps, pc') \<and> queue_ok D base s ps
      \<and> (\<forall>p \<in> set ps. off base p + len p \<le> e) \<and> hold base ps = {s..<e}"
proof (induction "e - s" arbitrary: s pc ac rule: less_induct)
  case less
  define m where "m = min e (s + re_pageBytes)"
  have m: "s < m" "m \<le> e" "min (e - s) re_pageBytes = m - s" using less.prems(1) by (auto simp: m_def re_pageBytes_def)
  define page where "page fl = \<lparr>rp_bytes = seg D s m, rp_seq = base + int s, rp_ac = ac, rp_seen = ts, rp_start = False, rp_end = fl\<rparr>" for fl
  have pg: "off base (page fl) = s" "len (page fl) = m - s" for fl using m less.prems(2) by (simp_all add: page_def off_def)
  have ok: "fl \<longrightarrow> m = length D \<Longrightarrow> page_ok D base (page fl)" for fl
    unfolding page_ok_def pg using m less.prems(2) by (simp add: page_def)
  have em: "(seg D m e = []) = (e - s \<le> m - s)" using m length_seg [OF less.prems(2), of m] by (cases "seg D m e") auto
  have unf: "lp_pages stale pc ts ac (base + int s) (seg D s e) fin =
      (let pc1 = pc\<lparr>re_used := re_used pc + 1, re_gets := re_gets pc + 1\<rparr>
       in if e - s \<le> m - s then ([page fin], pc1)
          else let (ps, pc2) = lp_pages stale pc1 ts None (base + int m) (seg D m e) fin in (page (stale (re_gets pc)) # ps, pc2))"
    using m less.prems(2) seg_take [of m e s D] seg_drop [of s m D e] plain_Add [OF assms, of "int s" "int (m - s)"]
    by (subst lp_pages.simps) (simp add: re_next_def page_def Let_def of_nat_diff em)
  show ?case
  proof (cases "m = e")
    case True
    then show ?thesis using ok [of fin] less.prems(4) m pg unf by (simp add: Let_def queue_ok_Cons queue_ok_def)
  next
    case False
    then have big: "\<not> e - s \<le> re_pageBytes" "m < e" using m by auto
    then have ns: "\<forall>i. \<not> stale i" using less.prems(3) by (simp add: fits_def)
    have lt: "e - m < e - s" "fits stale (e - m)" using m big(2) ns by (auto simp: fits_def)
    from less.hyps [OF lt(1) big(2) less.prems(2) lt(2) less.prems(4), of "pc\<lparr>re_used := re_used pc + 1, re_gets := re_gets pc + 1\<rparr>" None] obtain ps pc' where
      r: "lp_pages stale (pc\<lparr>re_used := re_used pc + 1, re_gets := re_gets pc + 1\<rparr>) ts None (base + int m) (seg D m e) fin = (ps, pc')"
        "queue_ok D base m ps" "\<forall>p \<in> set ps. off base p + len p \<le> e" "hold base ps = {m..<e}" by blast
    have "\<not> e - s \<le> m - s" using big(2) m by linarith
    moreover have "queue_ok D base s (page False # ps)" using r(2) ok [of False] m pg by (simp add: queue_ok_Cons)
    moreover have "hold base (page False # ps) = {s..<e}" using r(4) m pg by auto
    ultimately show ?thesis using unf r ns m pg by (intro exI [of _ "page False # ps"] exI [of _ pc']) (simp add: Let_def)
  qed
qed

subsection \<open>A packet and the queue\<close>

lemma packet_overlap:
  assumes "plain D base" "queue_ok D base k (hf_queue half)" "s \<le> e" "e \<le> length D" "lp_bytes lp = seg D s e" "lp_seq lp = base + int s"
  shows "\<exists>before mid bytes' half' pc'.
    overlap_loop (lp_seq lp) (re_Add (lp_seq lp) (int (length (lp_bytes lp)))) (rev (hf_queue half)) [] (lp_bytes lp) half pc = Some (before, mid, bytes', half', pc')
    \<and> flow half' = flow half \<and> overlap_done D base k (length D) s e (rev (hf_queue half)) before mid (lp_bytes lp) bytes'"
proof -
  have q: "queue_ok D base k (rev (rev (hf_queue half)))" "\<forall>p \<in> set (rev (hf_queue half)). off base p + len p \<le> length D"
    using assms(2) by (auto simp: queue_ok_def page_ok_def)
  have "re_Add (lp_seq lp) (int (length (lp_bytes lp))) = base + int e"
    using assms(3-6) plain_Add [OF assms(1), of "int s" "int (e - s)"] by (simp add: of_nat_diff)
  then show ?thesis using overlap_loop_spec [OF assms(1,3,4,5) q, of "[]" half pc] assms(6) by (simp add: same_flow_def) blast
qed

lemma checkOverlap_queue:
  assumes "plain D base" "queue_ok D base k (hf_queue half)" "k \<le> s" "s \<le> e" "e \<le> length D" "fits stale (e - s)"
    and lp: "lp_bytes lp = seg D s e" "lp_seq lp = base + int s" "lp_end lp \<longrightarrow> e = length D"
  shows "\<exists>pc' half' lp'. checkOverlap stale pc half lp True ac = Some (pc', half', lp') \<and> flow half' = flow half
    \<and> queue_ok D base k (hf_queue half') \<and> hold base (hf_queue half') = hold base (hf_queue half) \<union> {s..<e}"
proof -
  from packet_overlap [OF assms(1,2,4,5) lp(1,2), of pc] obtain before mid bytes' half' pc' where
    r: "overlap_loop (lp_seq lp) (re_Add (lp_seq lp) (int (length (lp_bytes lp)))) (rev (hf_queue half)) [] (lp_bytes lp) half pc = Some (before, mid, bytes', half', pc')"
      "flow half' = flow half"
    and od: "overlap_done D base k (length D) s e (rev (hf_queue half)) before mid (lp_bytes lp) bytes'" by blast
  have ok: "queue_ok D base k (rev before @ mid)" using od by (simp add: overlap_done_def)
  show ?thesis
  proof (cases "bytes' = []")
    case True
    then have "{s..<e} = {} \<or> {s..<e} \<subseteq> hold base (before @ mid)" "hold base (before @ mid) \<union> {s..<e} = hold base (hf_queue half) \<union> {s..<e}"
      using od lp(1) length_seg [OF assms(5), of s] by (auto simp: overlap_done_def)
    then have "hold base (before @ mid) = hold base (hf_queue half) \<union> {s..<e}" by auto
    then show ?thesis using True r ok by (simp add: checkOverlap_def Let_def flow_def)
  next
    case False
    then have A: "bytes' = seg D s e" "\<forall>p \<in> set before. off base p + len p \<le> s" "\<forall>p \<in> set mid. e \<le> off base p"
      "hold base (before @ mid) \<union> {s..<e} = hold base (hf_queue half) \<union> {s..<e}" using od lp(1) by (auto simp: overlap_done_def)
    have se: "s < e" using False A(1) assms(4) by (cases "s = e") auto
    from lp_pages_spec [OF assms(1) se assms(5,6) lp(3), of pc' "Timestamp (lp_ac lp)" "Some ac"] obtain ps pc2 where
      ps: "lp_pages stale pc' (Timestamp (lp_ac lp)) (Some ac) (base + int s) (seg D s e) (lp_end lp) = (ps, pc2)" "queue_ok D base s ps"
        "\<forall>p \<in> set ps. off base p + len p \<le> e" "hold base ps = {s..<e}" by blast
    have sq: "re_Add (base + int s) 0 = base + int s" using plain_Add [OF assms(1), of "int s" 0] assms(4,5) by simp
    have conv: "convertToPages stale pc' 0 (Some ac) (Live (lp\<lparr>lp_bytes := bytes'\<rparr>)) = Some (ps, pc2)"
      using ps(1) sq lp(2) A(1) by (simp add: convertToPages_def)
    have "queue_ok D base k (rev before @ ps @ mid)"
      unfolding queue_ok_append
    proof (intro conjI ballI)
      show "queue_ok D base k ps" by (rule queue_ok_mono [OF ps(2) assms(3)])
      fix p q assume "p \<in> set ps" "q \<in> set mid"
      then show "off base p + len p \<le> off base q" using ps(3) A(3) by fastforce
    next
      fix p q assume pq: "p \<in> set (rev before)" "q \<in> set (ps @ mid)"
      then have "s \<le> off base q" using ps(2) A(3) se by (fastforce simp: queue_ok_def)
      then show "off base p + len p \<le> off base q" using A(2) pq(1) by fastforce
    qed (use ok in \<open>simp_all add: queue_ok_append\<close>)
    moreover have "hold base (rev before @ ps @ mid) = hold base (hf_queue half) \<union> {s..<e}" using A(4) ps(4) by auto
    ultimately show ?thesis using False r conv by (simp add: checkOverlap_def Let_def flow_def)
  qed
qed

text \<open>A packet that starts where the stream goes on: whatever is left in the queue starts at its end or later.\<close>

lemma checkOverlap_live:
  assumes "plain D base" "queue_ok D base k (hf_queue half)" "k < e \<longrightarrow> (\<forall>p \<in> set (hf_queue half). k < off base p)" "k \<le> e" "e \<le> length D"
    and lp: "lp_bytes lp = seg D k e" "lp_seq lp = base + int k"
  shows "\<exists>pc' half'. checkOverlap stale pc half lp False ac = Some (pc', half', lp) \<and> flow half' = flow half
    \<and> queue_ok D base e (hf_queue half') \<and> hold base (hf_queue half') \<union> {k..<e} = hold base (hf_queue half) \<union> {k..<e}"
proof -
  from packet_overlap [OF assms(1,2,4,5) lp, of pc] obtain before mid bytes' half' pc' where
    r: "overlap_loop (lp_seq lp) (re_Add (lp_seq lp) (int (length (lp_bytes lp)))) (rev (hf_queue half)) [] (lp_bytes lp) half pc = Some (before, mid, bytes', half', pc')"
      "flow half' = flow half"
    and od: "overlap_done D base k (length D) k e (rev (hf_queue half)) before mid (lp_bytes lp) bytes'" by blast
  have ok: "queue_ok D base k (rev before @ mid)" using od by (simp add: overlap_done_def)
  have "bytes' = lp_bytes lp \<and> queue_ok D base e (rev before @ mid) \<and> hold base (before @ mid) \<union> {k..<e} = hold base (hf_queue half) \<union> {k..<e}"
  proof (cases "k < e")
    case True
    then have "\<forall>p \<in> set (hf_queue half). \<not> off base p \<le> k" using assms(3) by fastforce
    then have A: "bytes' = lp_bytes lp" "\<forall>p \<in> set before. off base p + len p \<le> k" "\<forall>p \<in> set mid. e \<le> off base p"
      "hold base (before @ mid) \<union> {k..<e} = hold base (hf_queue half) \<union> {k..<e}" using od by (auto simp: overlap_done_def)
    have "p \<notin> set before" for p
    proof
      assume "p \<in> set before"
      then have "k \<le> off base p" "0 < len p" "off base p + len p \<le> k" using A(2) ok by (auto simp: queue_ok_def page_ok_def)
      then show False by linarith
    qed
    then have "before = []" by (cases before) auto
    then show ?thesis using A ok by (auto simp: queue_ok_def)
  next
    case False
    then show ?thesis using od ok lp(1) assms(4) by (auto simp: overlap_done_def)
  qed
  then show ?thesis using r by (simp add: checkOverlap_def Let_def flow_def)
qed

lemma overlapExisting_spec:
  assumes "plain D base" "hf_nextSeq half = base + int k" "k \<le> length D" "i \<le> int k" "-1 \<le> i" "i + int (length bytes) \<le> int (length D)"
  shows "\<exists>half'. overlapExisting half (base + i) bytes = Some (half', drop (nat (int k - i)) bytes, base + int k)
    \<and> flow half' = flow half \<and> hf_queue half' = hf_queue half"
proof -
  have d: "re_Difference (base + i) (base + int k) = int k - i" by (rule plain_Difference [OF assms(1)]) (use assms in auto)
  have ne: "base + int k \<noteq> -1" using assms(1) by (simp add: plain_def)
  show ?thesis
  proof (cases "int k - i = 0")
    case True
    then show ?thesis using ne d assms(2) by (simp add: overlapExisting_def)
  next
    case False
    then show ?thesis using ne d assms(2,4) by (auto simp: overlapExisting_def Let_def flow_def slice_def)
  qed
qed

lemma contiguous_loop_spec:
  assumes "plain D base"
  shows "\<lbrakk>queue_ok D base k ps; k \<le> length D\<rbrakk> \<Longrightarrow>
    \<exists>as qs k'. contiguous_loop ps (base + int k) ret = (qs, base + int k', ret @ map Page as) \<and> k \<le> k' \<and> k' \<le> length D
      \<and> concat (map rp_bytes as) = seg D k k' \<and> queue_ok D base (Suc k') qs \<and> hold base ps \<subseteq> {..<k'} \<union> hold base qs
      \<and> (as = [] \<longleftrightarrow> k' = k) \<and> (as \<noteq> [] \<and> rp_end (last as) \<longrightarrow> k' = length D)"
proof (induction ps arbitrary: k ret)
  case Nil
  then show ?case by (intro exI [of _ "[]"] exI [of _ "[]"] exI [of _ k]) (simp add: queue_ok_def)
next
  case (Cons p ps)
  let ?o = "off base p" and ?m = "off base p + len p"
  have p: "page_ok D base p" "k \<le> ?o" "queue_ok D base ?m ps" using Cons.prems(1) by (simp_all add: queue_ok_Cons)
  have pb: "?m \<le> length D" "0 < len p" "rp_bytes p = seg D ?o ?m" "rp_end p \<longrightarrow> ?m = length D" using p(1) by (simp_all add: page_ok_def)
  have d: "re_Difference (base + int k) (rp_seq p) = int ?o - int k"
    unfolding page_seq [OF p(1)] by (rule plain_Difference [OF assms]) (use Cons.prems(2) pb in auto)
  show ?case
  proof (cases "?o = k")
    case True
    have add: "re_Add (base + int k) (int (len p)) = base + int ?m"
      using plain_Add [OF assms, of "int k" "int (len p)"] True pb by simp
    from Cons.IH [OF p(3) pb(1), of "ret @ [Page p]"] obtain as qs k' where
      r: "contiguous_loop ps (base + int ?m) (ret @ [Page p]) = (qs, base + int k', (ret @ [Page p]) @ map Page as)" "?m \<le> k'" "k' \<le> length D"
        "concat (map rp_bytes as) = seg D ?m k'" "queue_ok D base (Suc k') qs" "hold base ps \<subseteq> {..<k'} \<union> hold base qs"
        "as = [] \<longleftrightarrow> k' = ?m" "as \<noteq> [] \<and> rp_end (last as) \<longrightarrow> k' = length D" by blast
    have "concat (map rp_bytes (p # as)) = seg D k k'" using r(2,4) pb(3) True seg_append [of k ?m k' D] by simp
    moreover have "hold base (p # ps) \<subseteq> {..<k'} \<union> hold base qs" using r(2,6) by auto
    moreover have "contiguous_loop (p # ps) (base + int k) ret = (qs, base + int k', ret @ map Page (p # as))" using d add r(1) True by simp
    moreover have "(p # as = []) = (k' = k)" "k \<le> k'" using r(2) pb(2) True by auto
    moreover have "p # as \<noteq> [] \<and> rp_end (last (p # as)) \<longrightarrow> k' = length D" using r(7,8) pb(4) by (cases "as = []") auto
    ultimately show ?thesis using r(3,5) by blast
  next
    case False
    then have "queue_ok D base (Suc k) (p # ps)" using p by (simp add: queue_ok_Cons)
    then show ?thesis using d False Cons.prems(2) by (intro exI [of _ "[]"] exI [of _ "p # ps"] exI [of _ k]) simp
  qed
qed

subsection \<open>From the queue to the stream\<close>

text \<open>A stream that takes both directions of the connection apart and keeps nothing; it leaves the connection in the pool.\<close>

definition collector :: "(bool \<Rightarrow> bytes) stream_ops" where
  "collector = \<lparr>op_New = (\<lambda>_ _ _ _ _. []), op_Accept = (\<lambda>s _ _ _ _ start. (s, True, start)),
     op_ReassembledSG = (\<lambda>s sg _. (s(sg_Direction sg := s (sg_Direction sg) @ concat (map getBytes (sg_all sg))), -1)),
     op_ReassemblyComplete = (\<lambda>s. (s, False))\<rparr>"

lemma half_of_put_half [simp]:
  "half_of (put_half c d h) d' = (if d' = d then h else half_of c d')" "rc_stream (put_half c d h) = rc_stream c" "rc_key (put_half c d h) = rc_key c"
  "half_of (c\<lparr>rc_stream := s\<rparr>) d' = half_of c d'"
  by (auto simp: half_of_def put_half_def)

lemma put_half_twice [simp]: "put_half ((put_half c d h)\<lparr>rc_stream := s\<rparr>) d h' = (put_half c d h')\<lparr>rc_stream := s\<rparr>" "put_half (put_half c d h) d h' = put_half c d h'"
  by (simp_all add: put_half_def)

lemma getBytes_Page [simp]: "concat (map (getBytes \<circ> Page) as) = concat (map rp_bytes as)"
  by (induction as) auto

lemma close_collector:
  "\<exists>pc' half'. closeHalfConnection collector pc conn d = (pc', put_half conn d half', False) \<and> hf_closed half'"
  by (cases "hf_queue (half_of conn d) = []") (auto simp: closeHalfConnection_def Let_def collector_def put_half_def intro: exI)

lemma buildSG_live:
  assumes "plain D base" "queue_ok D base e (hf_queue half)" "e \<le> length D" "k \<le> e" "hf_saved half = []"
    and lp: "lp_bytes lp = seg D k e" "lp_seq lp = base + int k" "lp_end lp \<longrightarrow> e = length D"
  shows "\<exists>half' sg fin k'. buildSG pc half [Live lp] = Some (pc, half', sg, fin, base + int k') \<and> flow half' = flow half \<and> e \<le> k' \<and> k' \<le> length D
    \<and> sg_Direction sg = hf_dir half \<and> concat (map getBytes (sg_all sg)) = seg D k k' \<and> queue_ok D base (Suc k') (hf_queue half')
    \<and> hold base (hf_queue half) \<subseteq> {..<k'} \<union> hold base (hf_queue half') \<and> (fin \<longrightarrow> k' = length D) \<and> (lp_end lp \<longrightarrow> fin)"
proof -
  have last: "re_Add (lp_seq lp) (int (length (lp_bytes lp))) = base + int e"
    using assms(3,4) plain_Add [OF assms(1), of "int k" "int (e - k)"] lp by (simp add: of_nat_diff)
  from contiguous_loop_spec [OF assms(1,2,3), of "[Live lp]"] obtain as qs k' where
    r: "contiguous_loop (hf_queue half) (base + int e) [Live lp] = (qs, base + int k', [Live lp] @ map Page as)" "e \<le> k'" "k' \<le> length D"
      "concat (map rp_bytes as) = seg D e k'" "queue_ok D base (Suc k') qs" "hold base (hf_queue half) \<subseteq> {..<k'} \<union> hold base qs"
      "as = [] \<longleftrightarrow> k' = e" "as \<noteq> [] \<and> rp_end (last as) \<longrightarrow> k' = length D" by blast
  have "base + int e \<noteq> -1" using assms(1) by (simp add: plain_def)
  then have ac: "re_addContiguous half [Live lp] (base + int e) = (half\<lparr>hf_queue := qs\<rparr>, Live lp # map Page as, base + int k')"
    using r(1) by (cases "hf_queue half") (auto simp: re_addContiguous_def)
  have "isEnd (last (Live lp # map Page as)) \<longrightarrow> k' = length D" using r(7,8) lp(3) by (cases as rule: rev_cases) auto
  moreover have "lp_end lp \<longrightarrow> isEnd (last (Live lp # map Page as))" using r(2,3,7) lp(3) by auto
  ultimately show ?thesis using r ac last assms(4,5) lp(1) seg_append [of k e k' D]
    by (simp add: buildSG_def Let_def addPending_def flow_def)
qed

lemma send_live:
  assumes "plain D base" "queue_ok D base e (hf_queue (half_of conn d))" "e \<le> length D" "k \<le> e" "flow (half_of conn d) = (n, False, [], d)"
    and lp: "lp_bytes lp = seg D k e" "lp_seq lp = base + int k" "lp_end lp \<longrightarrow> e = length D" and st: "rc_stream conn d = take k D"
  shows "\<exists>pc' half' k'. re_sendToConnection stale collector pc conn d [Live lp] ac =
      Some (pc', (put_half conn d half')\<lparr>rc_stream := (rc_stream conn)(d := take k' D)\<rparr>, False, base + int k')
    \<and> e \<le> k' \<and> k' \<le> length D \<and> (hf_closed half' \<longrightarrow> k' = length D) \<and> (lp_end lp \<longrightarrow> hf_closed half')
    \<and> (\<not> hf_closed half' \<longrightarrow> flow half' = (n, False, [], d) \<and> queue_ok D base (Suc k') (hf_queue half')
        \<and> hold base (hf_queue (half_of conn d)) \<subseteq> {..<k'} \<union> hold base (hf_queue half'))"
proof -
  have fl: "hf_saved (half_of conn d) = []" "hf_dir (half_of conn d) = d" "hf_closed (half_of conn d) = False" using assms(5) by (simp_all add: flow_def)
  from buildSG_live [OF assms(1-4) fl(1) lp, of pc] obtain half' sg fin k' where
    r: "buildSG pc (half_of conn d) [Live lp] = Some (pc, half', sg, fin, base + int k')" "flow half' = flow (half_of conn d)" "e \<le> k'" "k' \<le> length D"
      "sg_Direction sg = d" "concat (map getBytes (sg_all sg)) = seg D k k'" "queue_ok D base (Suc k') (hf_queue half')"
      "hold base (hf_queue (half_of conn d)) \<subseteq> {..<k'} \<union> hold base (hf_queue half')" "fin \<longrightarrow> k' = length D" "lp_end lp \<longrightarrow> fin" unfolding fl(2) by blast
  obtain pc1 pages where rel: "release_all pc (hf_pages half') (sg_all sg) = (pc1, pages)" by (metis surj_pair)
  have s: "op_ReassembledSG collector (rc_stream conn) sg ac = ((rc_stream conn)(d := take k' D), -1)"
    using r(3,5,6) st assms(4) take_seg [of k k' D] by (simp add: collector_def)
  have c: "cleanSG stale pc half' sg (-1) ac = Some (pc1, half'\<lparr>hf_pages := pages, hf_saved := []\<rparr>)" using rel by (simp add: cleanSG_def Let_def)
  show ?thesis
  proof (cases fin)
    case True
    obtain pc2 half2 where "closeHalfConnection collector pc1 ((put_half conn d (half'\<lparr>hf_pages := pages, hf_saved := []\<rparr>))\<lparr>rc_stream := (rc_stream conn)(d := take k' D)\<rparr>) d
        = (pc2, (put_half conn d half2)\<lparr>rc_stream := (rc_stream conn)(d := take k' D)\<rparr>, False)" "hf_closed half2"
      using close_collector by (metis put_half_twice(1))
    then show ?thesis using True r s c by (intro exI [of _ pc2] exI [of _ half2] exI [of _ k']) (simp add: re_sendToConnection_def Let_def)
  next
    case False
    have f: "flow (half'\<lparr>hf_pages := pages, hf_saved := []\<rparr>) = (n, False, [], d)" using r(2) assms(5) by (simp add: flow_def)
    then show ?thesis using False r s c
      by (intro exI [of _ pc1] exI [of _ "half'\<lparr>hf_pages := pages, hf_saved := []\<rparr>"] exI [of _ k']) (simp add: re_sendToConnection_def Let_def flow_def)
  qed
qed

subsection \<open>One packet\<close>

text \<open>The packets of a direction: the first one, with the sequence number before that of the first byte, data from one position to
  another, with the \<^verbatim>\<open>FIN\<close> flag at the end of the stream only, and acknowledgements that follow the end.\<close>

datatype pkt = Syn | Data nat nat | After_Fin

fun carries :: "bytes \<Rightarrow> int \<Rightarrow> pkt \<Rightarrow> TCP \<Rightarrow> bool" where
  "carries D base Syn t \<longleftrightarrow> uint (tcp_Seq t) = base - 1 \<and> tcp_SYN t \<and> \<not> tcp_RST t \<and> \<not> tcp_FIN t \<and> Payload t = []"
| "carries D base (Data s e) t \<longleftrightarrow> s \<le> e \<and> e \<le> length D \<and> uint (tcp_Seq t) = base + int s \<and> \<not> tcp_SYN t \<and> \<not> tcp_RST t
     \<and> (tcp_FIN t \<longrightarrow> e = length D) \<and> Payload t = seg D s e"
| "carries D base After_Fin t \<longleftrightarrow> uint (tcp_Seq t) = base + int (length D + 1) \<and> \<not> tcp_SYN t \<and> \<not> tcp_RST t \<and> \<not> tcp_FIN t \<and> Payload t = []"

fun covers :: "pkt \<Rightarrow> nat set" where
  "covers (Data s e) = {s..<e}" | "covers _ = {}"

definition half_inv :: "bytes \<Rightarrow> int \<Rightarrow> bool \<Rightarrow> nat set \<Rightarrow> bool \<Rightarrow> bytes \<Rightarrow> halfconnection \<Rightarrow> bool" where
  "half_inv D base d U syn stream half \<longleftrightarrow>
     (hf_closed half \<and> stream = D) \<or>
     (flow half = (-1, False, [], d) \<and> stream = [] \<and> \<not> syn \<and> queue_ok D base 0 (hf_queue half) \<and> U \<subseteq> hold base (hf_queue half)) \<or>
     (\<exists>k \<le> length D. flow half = (base + int k, False, [], d) \<and> stream = take k D \<and> queue_ok D base (Suc k) (hf_queue half)
        \<and> U \<subseteq> {..<k} \<union> hold base (hf_queue half))"

lemma queue_ok_Suc: "queue_ok D base (Suc k) ps \<longleftrightarrow> queue_ok D base k ps \<and> k \<notin> hold base ps"
proof (intro iffI conjI)
  assume q: "queue_ok D base (Suc k) ps"
  then show "queue_ok D base k ps" by (rule queue_ok_mono) simp
  show "k \<notin> hold base ps" using q by (auto simp: queue_ok_def hold_def)
next
  assume q: "queue_ok D base k ps \<and> k \<notin> hold base ps"
  have "Suc k \<le> off base p" if p: "p \<in> set ps" for p
  proof -
    have "k \<le> off base p" "0 < len p" "k \<notin> {off base p..<off base p + len p}" using q p by (auto simp: queue_ok_def page_ok_def hold_def)
    then show ?thesis by (cases "k = off base p") auto
  qed
  then show "queue_ok D base (Suc k) ps" using q by (auto simp: queue_ok_def)
qed

lemma handle_queue:
  assumes "plain D base" "queue_ok D base k (hf_queue half)" "carries D base x t" "x \<noteq> Syn" "base + int k \<le> uint (tcp_Seq t)" "fits stale (length (Payload t))"
    and opts: "re_MaxBufferedPagesPerConnection opts \<le> 0" "re_MaxBufferedPagesTotal opts \<le> 0"
  shows "\<exists>pc' half'. handleBytes stale opts pc (Payload t) (uint (tcp_Seq t)) half st (tcp_RST t \<or> tcp_FIN t) True ac = Some (pc', half', [])
    \<and> flow half' = flow half \<and> queue_ok D base k (hf_queue half') \<and> hold base (hf_queue half') = hold base (hf_queue half) \<union> covers x"
proof -
  let ?lp = "\<lparr>lp_bytes = Payload t, lp_start = st, lp_end = tcp_RST t \<or> tcp_FIN t, lp_ac = ac, lp_seq = uint (tcp_Seq t)\<rparr>"
  have "\<exists>pc' half' lp'. checkOverlap stale pc half ?lp True ac = Some (pc', half', lp') \<and> flow half' = flow half
    \<and> queue_ok D base k (hf_queue half') \<and> hold base (hf_queue half') = hold base (hf_queue half) \<union> covers x"
  proof (cases x)
    case Syn
    then show ?thesis using assms(4) by simp
  next
    case (Data s e)
    have c: "s \<le> e" "e \<le> length D" "uint (tcp_Seq t) = base + int s" "\<not> tcp_RST t" "tcp_FIN t \<longrightarrow> e = length D" "Payload t = seg D s e"
      using assms(3) Data by auto
    have "k \<le> s" "fits stale (e - s)" using assms(5,6) c by auto
    from checkOverlap_queue [OF assms(1,2) this(1) c(1,2) this(2), of ?lp pc ac] c Data show ?thesis by auto
  next
    case After_Fin
    have q: "queue_ok D base k (rev (rev (hf_queue half)))" "\<forall>p \<in> set (rev (hf_queue half)). off base p + len p \<le> length D + 1"
      using assms(2) by (auto simp: queue_ok_def page_ok_def)
    have sq: "uint (tcp_Seq t) = base + int (length D + 1)" "Payload t = []" using assms(3) After_Fin by auto
    have "re_Add (base + int (length D + 1)) 0 = base + int (length D + 1)" using plain_Add [OF assms(1), of "int (length D + 1)" 0] by simp
    then show ?thesis using overlap_loop_stop [OF assms(1) q le_refl le_refl, of "[]" "[]" half pc] assms(2) sq After_Fin
      by (simp add: checkOverlap_def Let_def flow_def)
  qed
  then show ?thesis using opts by (auto simp: handleBytes_def Let_def)
qed

definition live :: "bytes \<Rightarrow> int \<Rightarrow> nat \<Rightarrow> nat \<Rightarrow> bool \<Rightarrow> bool \<Rightarrow> CaptureInfo \<Rightarrow> livePacket" where
  "live D base k e st fin ac = \<lparr>lp_bytes = seg D k e, lp_start = st, lp_end = fin, lp_ac = ac, lp_seq = base + int k\<rparr>"

lemma handle_live:
  assumes "plain D base" "hf_nextSeq half = base + int k" "queue_ok D base k (hf_queue half)" "k < e \<longrightarrow> (\<forall>p \<in> set (hf_queue half). k < off base p)"
    and "k \<le> e" "e \<le> length D" "-1 \<le> i" "i \<le> int k" "i + int (length bytes) \<le> int (length D)" "drop (nat (int k - i)) bytes = seg D k e"
  shows "\<exists>pc' half'. handleBytes stale opts pc bytes (base + i) half st fin False ac =
      Some (pc', half', if k < e \<or> fin \<or> st then [Live (live D base k e st fin ac)] else [])
    \<and> flow half' = flow half \<and> queue_ok D base e (hf_queue half') \<and> hold base (hf_queue half') \<union> {k..<e} = hold base (hf_queue half) \<union> {k..<e}"
proof -
  have "k \<le> length D" using assms(5,6) by simp
  from overlapExisting_spec [OF assms(1,2) this assms(8,7,9)] obtain half1 where
    o: "overlapExisting half (base + i) bytes = Some (half1, seg D k e, base + int k)" "flow half1 = flow half" "hf_queue half1 = hf_queue half"
    unfolding assms(10) by blast
  have q: "queue_ok D base k (hf_queue half1)" "k < e \<longrightarrow> (\<forall>p \<in> set (hf_queue half1). k < off base p)" using o(3) assms(3,4) by simp_all
  from checkOverlap_live [OF assms(1) q assms(5,6), of "live D base k e st fin ac" stale pc ac] obtain pc' half' where
    c: "checkOverlap stale pc half1 (live D base k e st fin ac) False ac = Some (pc', half', live D base k e st fin ac)" "flow half' = flow half1"
      "queue_ok D base e (hf_queue half')" "hold base (hf_queue half') \<union> {k..<e} = hold base (hf_queue half1) \<union> {k..<e}" by (auto simp: live_def)
  have "(seg D k e = []) = (\<not> k < e)" using length_seg [OF assms(6), of k] assms(5) by (cases "seg D k e") auto
  then show ?thesis using o c unfolding live_def handleBytes_def Let_def by simp
qed

text \<open>What \<^verbatim>\<open>AssembleWithContext\<close> does once it knows the sequence number and whether the packet is out of order.\<close>

definition deliver ::
  "(nat \<Rightarrow> bool) \<Rightarrow> re_options \<Rightarrow> re_pageCache \<Rightarrow> (bool \<Rightarrow> bytes) re_connection \<Rightarrow> bool \<Rightarrow> bytes \<Rightarrow> int \<Rightarrow> halfconnection \<Rightarrow> bool \<Rightarrow> bool \<Rightarrow> bool \<Rightarrow> bool \<Rightarrow> CaptureInfo
     \<Rightarrow> (re_pageCache \<times> (bool \<Rightarrow> bytes) re_connection \<times> bool) option" where
  "deliver stale opts pc conn d bytes sq half st fin queue isfin ac = do {
     (pc1, half3, ret) \<leftarrow> handleBytes stale opts pc bytes sq half st fin queue ac;
     let conn2 = put_half conn d half3;
     if ret = [] then Some (pc1, conn2, False)
     else do {
       (pc2, conn3, remove, nextSeq) \<leftarrow> re_sendToConnection stale collector pc1 conn2 d ret (Some ac);
       Some (pc2, if nextSeq \<noteq> noSequence then set_nextSeq conn3 d (if isfin then re_Add nextSeq 1 else nextSeq) else conn3, remove) } }"

text \<open>A packet that is not queued, from the position \<open>i\<close>, at most the one expected.\<close>

lemma live_step:
  assumes "plain D base" "flow half = (base + int k, False, [], d)" "queue_ok D base k (hf_queue half)" "k < e \<longrightarrow> (\<forall>p \<in> set (hf_queue half). k < off base p)"
    and "k \<le> e" "e \<le> length D" "-1 \<le> i" "i \<le> int k" "i + int (length bytes) \<le> int (length D)" "drop (nat (int k - i)) bytes = seg D k e"
    and fin: "fin \<longrightarrow> e = length D" "isfin \<longrightarrow> fin" and st: "st \<or> k < e \<or> k \<notin> hold base (hf_queue half)" "rc_stream conn d = take k D"
  shows "\<exists>pc' half' k'. deliver stale opts pc conn d bytes (base + i) half st fin False isfin ac
      = Some (pc', (put_half conn d half')\<lparr>rc_stream := (rc_stream conn)(d := take k' D)\<rparr>, False)
    \<and> e \<le> k' \<and> half_inv D base d ({..<e} \<union> hold base (hf_queue half)) True (take k' D) half'"
proof -
  have ns: "hf_nextSeq half = base + int k" using assms(2) by (simp add: flow_def)
  from handle_live [OF assms(1) ns assms(3-10), of stale opts pc st fin ac] obtain pc1 half3 where
    h: "handleBytes stale opts pc bytes (base + i) half st fin False ac = Some (pc1, half3, if k < e \<or> fin \<or> st then [Live (live D base k e st fin ac)] else [])"
      "flow half3 = flow half" "queue_ok D base e (hf_queue half3)" "hold base (hf_queue half3) \<union> {k..<e} = hold base (hf_queue half) \<union> {k..<e}" by blast
  show ?thesis
  proof (cases "k < e \<or> fin \<or> st")
    case True
    have f3: "flow (half_of (put_half conn d half3) d) = (base + int k, False, [], d)" "queue_ok D base e (hf_queue (half_of (put_half conn d half3) d))"
      using h(2,3) assms(2) by simp_all
    from send_live [OF assms(1) f3(2) assms(6,5) f3(1), of "live D base k e st fin ac" stale pc1 "Some ac"] fin(1) st(2) obtain pc2 half4 k' where
      r: "re_sendToConnection stale collector pc1 (put_half conn d half3) d [Live (live D base k e st fin ac)] (Some ac) =
          Some (pc2, (put_half conn d half4)\<lparr>rc_stream := (rc_stream conn)(d := take k' D)\<rparr>, False, base + int k')"
        "e \<le> k'" "k' \<le> length D" "hf_closed half4 \<longrightarrow> k' = length D" "fin \<longrightarrow> hf_closed half4"
        "\<not> hf_closed half4 \<longrightarrow> flow half4 = (base + int k, False, [], d) \<and> queue_ok D base (Suc k') (hf_queue half4)
           \<and> hold base (hf_queue half3) \<subseteq> {..<k'} \<union> hold base (hf_queue half4)" by (auto simp: live_def)
    let ?n = "if isfin then re_Add (base + int k') 1 else base + int k'"
    have ne: "base + int k' \<noteq> -1" using assms(1) by (simp add: plain_def)
    have "half_inv D base d ({..<e} \<union> hold base (hf_queue half)) True (take k' D) (half4\<lparr>hf_nextSeq := ?n\<rparr>)"
    proof (cases "hf_closed half4")
      case True
      then show ?thesis using r(4) by (simp add: half_inv_def)
    next
      case False
      then have "\<not> isfin" "hold base (hf_queue half3) \<subseteq> {..<k'} \<union> hold base (hf_queue half4)" using fin(2) r(5,6) by auto
      moreover have "{..<e} \<union> hold base (hf_queue half) \<subseteq> {..<e} \<union> hold base (hf_queue half3)" using h(4) assms(5) by auto
      ultimately have "{..<e} \<union> hold base (hf_queue half) \<subseteq> {..<k'} \<union> hold base (hf_queue half4)" using r(2) by auto
      then show ?thesis using False r(3,6) \<open>\<not> isfin\<close> by (auto simp: half_inv_def flow_def)
    qed
    then show ?thesis using True h(1) r(1,2) ne
      by (intro exI [of _ pc2] exI [of _ "half4\<lparr>hf_nextSeq := ?n\<rparr>"] exI [of _ k']) (simp add: deliver_def Let_def set_nextSeq_def)
  next
    case False
    then have "e = k" using assms(5) by simp
    then have "queue_ok D base (Suc k) (hf_queue half3)" "hold base (hf_queue half3) = hold base (hf_queue half)"
      using h(3,4) False st(1) by (simp_all add: queue_ok_Suc)
    then have "half_inv D base d ({..<e} \<union> hold base (hf_queue half)) True (take k D) half3"
      using h(2) assms(2,6) \<open>e = k\<close> by (auto simp: half_inv_def)
    moreover have "(put_half conn d half3)\<lparr>rc_stream := (rc_stream conn)(d := take k D)\<rparr> = put_half conn d half3" using st(2) by (simp add: put_half_def fun_upd_idem)
    ultimately show ?thesis using False h(1) \<open>e = k\<close>
      by (intro exI [of _ pc1] exI [of _ half3] exI [of _ k]) (simp add: deliver_def Let_def)
  qed
qed

definition seen :: "TCP \<Rightarrow> CaptureInfo \<Rightarrow> halfconnection \<Rightarrow> halfconnection" where
  "seen t ac half0 =
     (let half = (if hf_lastSeen half0 < Timestamp ac then half0\<lparr>hf_lastSeen := Timestamp ac\<rparr> else half0)
      in if tcp_ACK t then half\<lparr>hf_ackSeq := uint (tcp_Ack t)\<rparr> else half)"

lemma seen_flow [simp]: "flow (seen t ac h) = flow h" "hf_queue (seen t ac h) = hf_queue h" "hf_nextSeq (seen t ac h) = hf_nextSeq h"
  by (simp_all add: seen_def flow_def Let_def)

lemma assemble_collector:
  assumes "\<not> hf_closed (half_of conn d)"
    and "(if hf_nextSeq (half_of conn d) = -1
          then if tcp_SYN t then (re_Add (uint (tcp_Seq t)) 1, (seen t ac (half_of conn d))\<lparr>hf_nextSeq := re_Add (uint (tcp_Seq t)) 1\<rparr>, False)
               else (uint (tcp_Seq t), seen t ac (half_of conn d), True)
          else (uint (tcp_Seq t), seen t ac (half_of conn d), re_Difference (hf_nextSeq (half_of conn d)) (uint (tcp_Seq t)) > 0)) = (sq, half, queue)"
  shows "assemble_half stale collector opts pc conn d t ac =
    deliver stale opts pc conn d (Payload t) sq half (tcp_SYN t) (tcp_RST t \<or> tcp_FIN t) queue (tcp_FIN t) ac"
proof -
  have [simp]: "(put_half conn d h)\<lparr>rc_stream := rc_stream conn\<rparr> = put_half conn d h" for h by (simp add: put_half_def)
  show ?thesis using assms unfolding assemble_half_def deliver_def collector_def seen_def by (auto simp: Let_def split: if_splits)
qed

lemma half_inv_weaken: "\<lbrakk>half_inv D base d U True s h; V \<subseteq> U\<rbrakk> \<Longrightarrow> half_inv D base d V b s h"
  by (fastforce simp: half_inv_def)

lemma queue_step:
  assumes "plain D base" "flow (half_of conn d) = (n, False, [], d)" "queue_ok D base k (hf_queue (half_of conn d))" "carries D base x t" "x \<noteq> Syn"
    and "base + int k \<le> uint (tcp_Seq t)" "fits stale (length (Payload t))" "n = -1 \<or> re_Difference n (uint (tcp_Seq t)) > 0"
    and opts: "re_MaxBufferedPagesPerConnection opts \<le> 0" "re_MaxBufferedPagesTotal opts \<le> 0"
  shows "\<exists>pc' half'. assemble_half stale collector opts pc conn d t ac = Some (pc', put_half conn d half', False)
    \<and> flow half' = flow (half_of conn d) \<and> queue_ok D base k (hf_queue half') \<and> hold base (hf_queue half') = hold base (hf_queue (half_of conn d)) \<union> covers x"
proof -
  have f: "hf_nextSeq (half_of conn d) = n" "\<not> hf_closed (half_of conn d)" using assms(2) by (simp_all add: flow_def)
  have "\<not> tcp_SYN t" using assms(4,5) by (cases x) auto
  then have a: "assemble_half stale collector opts pc conn d t ac =
      deliver stale opts pc conn d (Payload t) (uint (tcp_Seq t)) (seen t ac (half_of conn d)) (tcp_SYN t) (tcp_RST t \<or> tcp_FIN t) True (tcp_FIN t) ac"
    using assms(8) f by (intro assemble_collector) auto
  have "queue_ok D base k (hf_queue (seen t ac (half_of conn d)))" using assms(3) by simp
  from handle_queue [OF assms(1) this assms(4-7) opts, of pc "tcp_SYN t" ac] obtain pc' half' where
    "handleBytes stale opts pc (Payload t) (uint (tcp_Seq t)) (seen t ac (half_of conn d)) (tcp_SYN t) (tcp_RST t \<or> tcp_FIN t) True ac = Some (pc', half', [])"
    "flow half' = flow (half_of conn d)" "queue_ok D base k (hf_queue half')" "hold base (hf_queue half') = hold base (hf_queue (half_of conn d)) \<union> covers x"
    by auto
  then show ?thesis using a by (intro exI [of _ pc'] exI [of _ half']) (simp add: deliver_def Let_def)
qed

definition stepped :: "(nat \<Rightarrow> bool) \<Rightarrow> re_options \<Rightarrow> re_pageCache \<Rightarrow> (bool \<Rightarrow> bytes) re_connection \<Rightarrow> bool \<Rightarrow> TCP \<Rightarrow> CaptureInfo \<Rightarrow> bytes \<Rightarrow> int \<Rightarrow> nat set \<Rightarrow> bool \<Rightarrow> bool" where
  "stepped stale opts pc conn d t ac D base U syn \<longleftrightarrow> (\<exists>pc' half' s'.
     assemble_half stale collector opts pc conn d t ac = Some (pc', (put_half conn d half')\<lparr>rc_stream := (rc_stream conn)(d := s')\<rparr>, False)
     \<and> half_inv D base d U syn s' half')"

lemma put_half_same: "(put_half conn d h)\<lparr>rc_stream := (rc_stream conn)(d := rc_stream conn d)\<rparr> = put_half conn d h"
  by (simp add: put_half_def)

lemma step_before_syn:
  assumes "plain D base" "carries D base x t" "fits stale (length (Payload t))"
    and opts: "re_MaxBufferedPagesPerConnection opts \<le> 0" "re_MaxBufferedPagesTotal opts \<le> 0"
    and inv: "flow (half_of conn d) = (-1, False, [], d)" "rc_stream conn d = []" "\<not> syn" "queue_ok D base 0 (hf_queue (half_of conn d))"
      "U \<subseteq> hold base (hf_queue (half_of conn d))"
  shows "stepped stale opts pc conn d t ac D base (U \<union> covers x) (syn \<or> x = Syn)"
proof (cases "x = Syn")
  case True
  let ?h = "(seen t ac (half_of conn d))\<lparr>hf_nextSeq := base\<rparr>"
  have c: "uint (tcp_Seq t) = base - 1" "tcp_SYN t" "\<not> tcp_RST t" "\<not> tcp_FIN t" "Payload t = []" using assms(2) True by auto
  have sq: "re_Add (base - 1) 1 = base" using plain_Add [OF assms(1), of "-1" 1] by simp
  have nc: "\<not> hf_closed (half_of conn d)" "hf_nextSeq (half_of conn d) = -1" using inv(1) by (simp_all add: flow_def)
  have fl: "flow ?h = (base + int 0, False, [], d)" "queue_ok D base 0 (hf_queue ?h)" "rc_stream conn d = take 0 D" using inv by (simp_all add: flow_def) (simp_all add: seen_def Let_def)
  have a: "assemble_half stale collector opts pc conn d t ac = deliver stale opts pc conn d [] (base + 0) ?h True False False False ac"
    using assemble_collector [OF nc(1), of t ac base ?h False stale opts pc] c sq nc by simp
  from live_step [OF assms(1) fl(1,2), of 0 0 "[]" False False True conn stale opts pc ac] fl(3)
  obtain pc' half' k' where
    r: "assemble_half stale collector opts pc conn d t ac = Some (pc', (put_half conn d half')\<lparr>rc_stream := (rc_stream conn)(d := take k' D)\<rparr>, False)"
      "half_inv D base d ({..<0} \<union> hold base (hf_queue ?h)) True (take k' D) half'" unfolding a by auto
  have "half_inv D base d (U \<union> covers x) (syn \<or> x = Syn) (take k' D) half'"
    by (rule half_inv_weaken [OF r(2)]) (use True inv(5) in simp)
  then show ?thesis using r(1) unfolding stepped_def by blast
next
  case False
  have "base + int 0 \<le> uint (tcp_Seq t)" using assms(2) False by (cases x) auto
  from queue_step [OF assms(1) inv(1,4) assms(2) False this assms(3) _ opts, of pc ac] obtain pc' half' where
    r: "assemble_half stale collector opts pc conn d t ac = Some (pc', put_half conn d half', False)" "flow half' = flow (half_of conn d)"
      "queue_ok D base 0 (hf_queue half')" "hold base (hf_queue half') = hold base (hf_queue (half_of conn d)) \<union> covers x" by auto
  have "half_inv D base d (U \<union> covers x) (syn \<or> x = Syn) (rc_stream conn d) half'" using r inv False by (auto simp: half_inv_def)
  then show ?thesis unfolding stepped_def using r(1) put_half_same by metis
qed

lemma step_after_syn:
  assumes "plain D base" "carries D base x t" "fits stale (length (Payload t))"
    and opts: "re_MaxBufferedPagesPerConnection opts \<le> 0" "re_MaxBufferedPagesTotal opts \<le> 0"
    and inv: "k \<le> length D" "flow (half_of conn d) = (base + int k, False, [], d)" "rc_stream conn d = take k D"
      "queue_ok D base (Suc k) (hf_queue (half_of conn d))" "U \<subseteq> {..<k} \<union> hold base (hf_queue (half_of conn d))"
  shows "stepped stale opts pc conn d t ac D base (U \<union> covers x) syn"
proof -
  let ?h = "seen t ac (half_of conn d)"
  have nc: "\<not> hf_closed (half_of conn d)" "hf_nextSeq (half_of conn d) = base + int k" "base + int k \<noteq> -1"
    using inv(2) assms(1) by (simp_all add: flow_def plain_def)
  have q: "flow ?h = (base + int k, False, [], d)" "queue_ok D base k (hf_queue ?h)" "k \<notin> hold base (hf_queue ?h)" "\<forall>p \<in> set (hf_queue ?h). k < off base p"
    using inv(2,4) by (auto simp: queue_ok_Suc) (use inv(4) in \<open>auto simp: queue_ok_def\<close>)
  have live: ?thesis if i: "uint (tcp_Seq t) = base + i" "-1 \<le> i" "i \<le> int k" and e: "k \<le> e" "e \<le> length D" "drop (nat (int k - i)) (Payload t) = seg D k e"
      "i + int (length (Payload t)) \<le> int (length D)" and fin: "\<not> tcp_RST t" "tcp_FIN t \<longrightarrow> e = length D" and cov: "covers x \<subseteq> {..<e}" for i e
  proof -
    have "re_Difference (base + int k) (base + i) = i - int k" by (rule plain_Difference [OF assms(1)]) (use i inv(1) in auto)
    then have a: "assemble_half stale collector opts pc conn d t ac = deliver stale opts pc conn d (Payload t) (base + i) ?h (tcp_SYN t) (tcp_FIN t) False (tcp_FIN t) ac"
      using assemble_collector [OF nc(1), of t ac "base + i" ?h False stale opts pc] i nc(2,3) fin(1) by simp
    from live_step [OF assms(1) q(1,2) _ e(1,2) i(2,3) e(4,3) fin(2) _ _ inv(3), of "tcp_FIN t" "tcp_SYN t" stale opts pc ac] q(3,4)
    obtain pc' half' k' where
      r: "assemble_half stale collector opts pc conn d t ac = Some (pc', (put_half conn d half')\<lparr>rc_stream := (rc_stream conn)(d := take k' D)\<rparr>, False)"
        "half_inv D base d ({..<e} \<union> hold base (hf_queue ?h)) True (take k' D) half'" unfolding a by blast
    have "U \<union> covers x \<subseteq> {..<e} \<union> hold base (hf_queue ?h)" using inv(5) cov e(1) by auto
    from half_inv_weaken [OF r(2) this, of syn] r(1) show ?thesis unfolding stepped_def by blast
  qed
  show ?thesis
  proof (cases "x \<noteq> Syn \<and> base + int (Suc k) \<le> uint (tcp_Seq t)")
    case True
    have "re_Difference (base + int k) (uint (tcp_Seq t)) > 0"
      using assms(1,2) True inv(1) by (cases x) (auto simp: plain_Difference)
    from queue_step [OF assms(1) inv(2,4) assms(2) _ _ assms(3) _ opts, of pc ac] True this obtain pc' half' where
      r: "assemble_half stale collector opts pc conn d t ac = Some (pc', put_half conn d half', False)" "flow half' = flow (half_of conn d)"
        "queue_ok D base (Suc k) (hf_queue half')" "hold base (hf_queue half') = hold base (hf_queue (half_of conn d)) \<union> covers x" by auto
    have "half_inv D base d (U \<union> covers x) syn (rc_stream conn d) half'" using r inv by (auto simp: half_inv_def)
    then show ?thesis unfolding stepped_def using r(1) put_half_same by metis
  next
    case False
    then show ?thesis
    proof (cases x)
      case Syn
      then show ?thesis using assms(2) inv(1) by (intro live [of "-1" k]) auto
    next
      case (Data s e)
      have c: "s \<le> e" "e \<le> length D" "uint (tcp_Seq t) = base + int s" "\<not> tcp_RST t" "tcp_FIN t \<longrightarrow> e = length D" "Payload t = seg D s e"
        using assms(2) Data by auto
      have sk: "s \<le> k" using False Data c(3) by simp
      have "drop (k - s) (seg D s e) = seg D k (max k e)"
        using sk c(2) seg_drop [OF sk, of D e] by (cases "k \<le> e") (auto simp: max_def)
      then show ?thesis using c sk Data inv(1) by (intro live [of "int s" "max k e"]) (auto simp: nat_diff_distrib')
    next
      case After_Fin
      then show ?thesis using False assms(2) inv(1) by auto
    qed
  qed
qed

lemma assemble_step:
  assumes "plain D base" "carries D base x t" "fits stale (length (Payload t))"
    and opts: "re_MaxBufferedPagesPerConnection opts \<le> 0" "re_MaxBufferedPagesTotal opts \<le> 0"
    and inv: "half_inv D base d U syn (rc_stream conn d) (half_of conn d)"
  shows "stepped stale opts pc conn d t ac D base (U \<union> covers x) (syn \<or> x = Syn)"
  using inv unfolding half_inv_def
proof (elim disjE)
  assume c: "hf_closed (half_of conn d) \<and> rc_stream conn d = D"
  let ?h = "if hf_lastSeen (half_of conn d) < Timestamp ac then (half_of conn d)\<lparr>hf_lastSeen := Timestamp ac\<rparr> else half_of conn d"
  have "(put_half conn d h)\<lparr>rc_stream := rc_stream conn\<rparr> = put_half conn d h" for h by (simp add: put_half_def)
  then have "assemble_half stale collector opts pc conn d t ac = Some (pc, put_half conn d ?h, False)"
    using c by (simp add: assemble_half_def collector_def Let_def)
  moreover have "half_inv D base d (U \<union> covers x) (syn \<or> x = Syn) (rc_stream conn d) ?h" using c by (simp add: half_inv_def)
  ultimately show ?thesis unfolding stepped_def using put_half_same by metis
next
  assume "flow (half_of conn d) = (-1, False, [], d) \<and> rc_stream conn d = [] \<and> \<not> syn \<and> queue_ok D base 0 (hf_queue (half_of conn d)) \<and> U \<subseteq> hold base (hf_queue (half_of conn d))"
  then show ?thesis by (intro step_before_syn [OF assms(1-3) opts]) auto
next
  assume "\<exists>k\<le>length D. flow (half_of conn d) = (base + int k, False, [], d) \<and> rc_stream conn d = take k D \<and> queue_ok D base (Suc k) (hf_queue (half_of conn d))
        \<and> U \<subseteq> {..<k} \<union> hold base (hf_queue (half_of conn d))"
  then show ?thesis using step_after_syn [OF assms(1-3) opts] by blast
qed

subsection \<open>Both directions of a connection\<close>

fun AssembleAll :: "(nat \<Rightarrow> bool) \<Rightarrow> 's stream_ops \<Rightarrow> 's re_assembler \<Rightarrow> (Flow \<times> TCP \<times> CaptureInfo) list \<Rightarrow> 's re_assembler option" where
  "AssembleAll stale ops a [] = Some a"
| "AssembleAll stale ops a ((nf, t, ac) # ps) = do { a1 \<leftarrow> AssembleWithContext stale ops a nf t ac; AssembleAll stale ops a1 ps }"

type_synonym cpkt = "bool \<times> pkt \<times> TCP \<times> CaptureInfo"

fun on_wire :: "Flow \<Rightarrow> cpkt \<Rightarrow> Flow \<times> TCP \<times> CaptureInfo" where
  "on_wire nf (d, x, t, ac) = (if d then Reverse nf else nf, t, ac)"

text \<open>A packet of one of the directions of a connection.\<close>

fun connection_packet :: "(nat \<Rightarrow> bool) \<Rightarrow> (bool \<Rightarrow> bytes) \<Rightarrow> (bool \<Rightarrow> int) \<Rightarrow> Flow \<Rightarrow> cpkt \<Rightarrow> bool" where
  "connection_packet stale D base tf (d, x, t, ac) \<longleftrightarrow>
     carries (D d) (base d) x t \<and> fits stale (length (Payload t)) \<and> TCP_TransportFlow t = Some (if d then Reverse tf else tf)"

definition received :: "cpkt list \<Rightarrow> bool \<Rightarrow> nat set" where
  "received ps d = (\<Union>(d', x, t, ac) \<in> set ps. if d' = d then covers x else {})"

definition syn_received :: "cpkt list \<Rightarrow> bool \<Rightarrow> bool" where
  "syn_received ps d \<longleftrightarrow> (\<exists>(d', x, t, ac) \<in> set ps. d' = d \<and> x = Syn)"

definition asm_inv :: "(bool \<Rightarrow> bytes) \<Rightarrow> (bool \<Rightarrow> int) \<Rightarrow> Flow \<times> Flow \<Rightarrow> cpkt list \<Rightarrow> (bool \<Rightarrow> bytes) re_assembler \<Rightarrow> (bool \<Rightarrow> bytes) re_connection \<Rightarrow> bool" where
  "asm_inv D base k seen_ps a conn \<longleftrightarrow> ra_conns a = [(k, conn)] \<and> rc_key conn = k
     \<and> ra_options a = \<lparr>re_MaxBufferedPagesTotal = 0, re_MaxBufferedPagesPerConnection = 0\<rparr>
     \<and> (\<forall>d. half_inv (D d) (base d) d (received seen_ps d) (syn_received seen_ps d) (rc_stream conn d) (half_of conn d))"

lemma received_snoc [simp]:
  "received (qs @ [(d, x, t, ac)]) d' = received qs d' \<union> (if d = d' then covers x else {})"
  "syn_received (qs @ [(d, x, t, ac)]) d' = (syn_received qs d' \<or> (d = d' \<and> x = Syn))"
  by (auto simp: received_def syn_received_def)

lemma Assemble_two_way:
  assumes "\<forall>d. plain (D d) (base d)" "asm_inv D base (nf, tf) qs a conn" "connection_packet stale D base tf p" "(Reverse nf, Reverse tf) \<noteq> (nf, tf)"
    and "on_wire nf p = (f, t, ac)"
  shows "\<exists>a' conn'. AssembleWithContext stale collector a f t ac = Some a' \<and> asm_inv D base (nf, tf) (qs @ [p]) a' conn'"
proof -
  obtain d x where p: "p = (d, x, t, ac)" "f = (if d then Reverse nf else nf)" using assms(5) by (cases p) auto
  have c: "carries (D d) (base d) x t" "fits stale (length (Payload t))" "TCP_TransportFlow t = Some (if d then Reverse tf else tf)" using assms(3) p by auto
  have i: "ra_conns a = [((nf, tf), conn)]" "rc_key conn = (nf, tf)" "ra_options a = \<lparr>re_MaxBufferedPagesTotal = 0, re_MaxBufferedPagesPerConnection = 0\<rparr>"
    "\<And>d. half_inv (D d) (base d) d (received qs d) (syn_received qs d) (rc_stream conn d) (half_of conn d)" using assms(2) by (auto simp: asm_inv_def)
  have g: "re_getConnection collector (ra_conns a) (f, if d then Reverse tf else tf) t ac = (ra_conns a, conn, d)"
    using i(1) p(2) assms(4) by (auto simp: re_getConnection_def getHalf_def key_Reverse_def)
  have "stepped stale (ra_options a) (ra_pc a) conn d t ac (D d) (base d) (received qs d \<union> covers x) (syn_received qs d \<or> x = Syn)"
    by (rule assemble_step) (use assms(1) c i in auto)
  then obtain pc' half' s' where
    r: "assemble_half stale collector (ra_options a) (ra_pc a) conn d t ac = Some (pc', (put_half conn d half')\<lparr>rc_stream := (rc_stream conn)(d := s')\<rparr>, False)"
      "half_inv (D d) (base d) d (received qs d \<union> covers x) (syn_received qs d \<or> x = Syn) s' half'" unfolding stepped_def by blast
  let ?conn = "(put_half conn d half')\<lparr>rc_stream := (rc_stream conn)(d := s')\<rparr>"
  have run: "AssembleWithContext stale collector a f t ac = Some (a\<lparr>ra_pc := pc', ra_conns := [((nf, tf), ?conn)]\<rparr>)"
    using c(3) g r(1) i(1,2) by (simp add: AssembleWithContext_def Let_def re_save_def)
  have "half_inv (D d') (base d') d' (received (qs @ [p]) d') (syn_received (qs @ [p]) d') (rc_stream ?conn d') (half_of ?conn d')" for d'
    using r(2) i(4) [of d'] p(1) by (cases "d' = d") simp_all
  then have "asm_inv D base (nf, tf) (qs @ [p]) (a\<lparr>ra_pc := pc', ra_conns := [((nf, tf), ?conn)]\<rparr>) ?conn" using i(2,3) by (simp add: asm_inv_def)
  then show ?thesis using run by blast
qed

lemma AssembleAll_inv2:
  assumes "\<forall>d. plain (D d) (base d)" "(Reverse nf, Reverse tf) \<noteq> (nf, tf)"
  shows "\<lbrakk>asm_inv D base (nf, tf) qs a conn; \<forall>p \<in> set ps. connection_packet stale D base tf p\<rbrakk>
    \<Longrightarrow> \<exists>a' conn'. AssembleAll stale collector a (map (on_wire nf) ps) = Some a' \<and> asm_inv D base (nf, tf) (qs @ ps) a' conn'"
proof (induction ps arbitrary: qs a conn)
  case (Cons p ps)
  obtain f t ac where w: "on_wire nf p = (f, t, ac)" by (metis surj_pair)
  have "connection_packet stale D base tf p" using Cons.prems(2) by simp
  from Assemble_two_way [OF assms(1) Cons.prems(1) this assms(2) w] obtain a' conn' where
    r: "AssembleWithContext stale collector a f t ac = Some a'" "asm_inv D base (nf, tf) (qs @ [p]) a' conn'" by auto
  from Cons.IH [OF r(2)] Cons.prems(2) show ?case using r(1) w by auto
qed auto

lemma first_packet:
  assumes "TCP_TransportFlow t = Some tf"
  shows "AssembleWithContext stale collector re_NewAssembler nf t ac =
    AssembleWithContext stale collector (re_NewAssembler\<lparr>ra_conns := [((nf, tf), rc_reset (nf, tf) (\<lambda>_. []) (Timestamp ac))]\<rparr>) nf t ac"
  using assms by (simp add: AssembleWithContext_def re_NewAssembler_def re_getConnection_def getHalf_def collector_def Let_def)

text \<open>C8. Two-way reassembly. Packets of both directions of a connection, whose first packet is one of the client, may arrive in any
  order, interleaved, repeatedly and cut in different ways: the assembler never panics, what it delivers of each direction is
  always a prefix of the bytes that were sent, and once the first packet of a direction and packets covering all its
  bytes arrived, all the bytes were delivered.\<close>

theorem two_way_reassembled:
  assumes "\<forall>d. plain (D d) (base d)" "(Reverse nf, Reverse tf) \<noteq> (nf, tf)" "\<forall>p \<in> set ps. connection_packet stale D base tf p" "ps \<noteq> []" "\<not> fst (hd ps)"
  shows "\<exists>a conn. AssembleAll stale collector re_NewAssembler (map (on_wire nf) ps) = Some a \<and> ra_conns a = [((nf, tf), conn)]
    \<and> (\<forall>d. (\<exists>n. rc_stream conn d = take n (D d)) \<and> (syn_received ps d \<and> {..<length (D d)} \<subseteq> received ps d \<longrightarrow> rc_stream conn d = D d))"
proof -
  obtain x t ac ps' where ps: "ps = (False, x, t, ac) # ps'" using assms(4,5) by (cases ps) auto
  let ?conn = "rc_reset (nf, tf) (\<lambda>_. []) (Timestamp ac)"
  let ?a = "re_NewAssembler\<lparr>ra_conns := [((nf, tf), ?conn)]\<rparr>"
  have "asm_inv D base (nf, tf) [] ?a ?conn"
    by (auto simp: asm_inv_def re_NewAssembler_def rc_reset_def half_inv_def half_of_def new_half_def flow_def queue_ok_def received_def syn_received_def)
  from AssembleAll_inv2 [OF assms(1,2) this assms(3)] obtain a conn where
    r: "AssembleAll stale collector ?a (map (on_wire nf) ps) = Some a" "asm_inv D base (nf, tf) ps a conn" by auto
  have "TCP_TransportFlow t = Some tf" using assms(3) ps by simp
  then have "AssembleAll stale collector re_NewAssembler (map (on_wire nf) ps) = Some a" using r(1) first_packet ps by simp
  moreover have "(\<exists>n. rc_stream conn d = take n (D d)) \<and> (syn_received ps d \<and> {..<length (D d)} \<subseteq> received ps d \<longrightarrow> rc_stream conn d = D d)" for d
  proof -
    have "half_inv (D d) (base d) d (received ps d) (syn_received ps d) (rc_stream conn d) (half_of conn d)" using r(2) by (simp add: asm_inv_def)
    then consider "rc_stream conn d = D d" | "rc_stream conn d = []" "\<not> syn_received ps d"
      | k where "k \<le> length (D d)" "rc_stream conn d = take k (D d)" "k \<notin> hold (base d) (hf_queue (half_of conn d))"
          "received ps d \<subseteq> {..<k} \<union> hold (base d) (hf_queue (half_of conn d))" by (auto simp: half_inv_def queue_ok_Suc)
    then show ?thesis
    proof cases
      case 3
      then have "{..<length (D d)} \<subseteq> received ps d \<Longrightarrow> k = length (D d)" by (cases "k < length (D d)") auto
      then show ?thesis using 3 by auto
    qed (auto intro: exI [of _ "length (D d)"] exI [of _ 0])
  qed
  ultimately show ?thesis using r(2) by (auto simp: asm_inv_def)
qed

definition ex_seg :: "bool \<Rightarrow> u32 \<Rightarrow> bool \<Rightarrow> bool \<Rightarrow> bytes \<Rightarrow> TCP" where
  "ex_seg d sq syn fin bs = zero_TCP\<lparr>tcp_Seq := sq, tcp_SYN := syn, tcp_FIN := fin, Payload := bs,
     tcp_sPort := (if d then [0, 80] else [1, 1]), tcp_dPort := (if d then [1, 1] else [0, 80])\<rparr>"

definition ex_tflow :: Flow where
  "ex_tflow = \<lparr>fl_typ = 4, fl_slen = 2, fl_dlen = 2, fl_src = [1, 1] @ replicate 14 0, fl_dst = [0, 80] @ replicate 14 0\<rparr>"

definition ex_ci :: CaptureInfo where
  "ex_ci = \<lparr>Timestamp = 7, CaptureLength = 60, Length = 60, InterfaceIndex = 0\<rparr>"

definition ex_packets :: "cpkt list" where
  "ex_packets = [(False, Data 2 4, ex_seg False 103 False True [3, 4], ex_ci), (True, Syn, ex_seg True 500 True False [], ex_ci),
     (False, Syn, ex_seg False 100 True False [], ex_ci), (True, Data 0 1, ex_seg True 501 False False [9], ex_ci),
     (False, Data 0 3, ex_seg False 101 False False [1, 2, 3], ex_ci), (False, After_Fin, ex_seg False 106 False False [], ex_ci)]"

theorem two_way_reassembled_witness:
  "\<exists>a conn. AssembleAll (\<lambda>_. True) collector re_NewAssembler (map (on_wire ex_tflow) ex_packets) = Some a \<and> ra_conns a = [((ex_tflow, ex_tflow), conn)]
     \<and> rc_stream conn False = [1, 2, 3, 4] \<and> rc_stream conn True = [9]"
proof -
  let ?D = "\<lambda>d. if d then [9] else [1, 2, 3, 4]" and ?base = "\<lambda>d. if d then 501 else 101"
  have p: "\<forall>d. plain (?D d) (?base d)" by (simp add: plain_def uint32Max_def)
  have r: "(Reverse ex_tflow, Reverse ex_tflow) \<noteq> (ex_tflow, ex_tflow)" by (simp add: Reverse_def ex_tflow_def)
  have sel: "tcp_SYN (ex_seg d sq syn fin bs) = syn" "tcp_FIN (ex_seg d sq syn fin bs) = fin" "tcp_RST (ex_seg d sq syn fin bs) = False"
    "Payload (ex_seg d sq syn fin bs) = bs" "tcp_Seq (ex_seg d sq syn fin bs) = sq"
    "TCP_TransportFlow (ex_seg d sq syn fin bs) = Some (if d then Reverse ex_tflow else ex_tflow)" for d sq syn fin bs
    by (simp_all add: ex_seg_def zero_TCP_def TCP_TransportFlow_def NewFlow_def ex_tflow_def pad16_def MaxEndpointSize_def Reverse_def numeral_eq_Suc)
  have c: "\<forall>p \<in> set ex_packets. connection_packet (\<lambda>_. True) ?D ?base ex_tflow p"
    by (simp add: ex_packets_def sel fits_def re_pageBytes_def seg_def)
  have s: "ex_packets \<noteq> []" "\<not> fst (hd ex_packets)" by (simp_all add: ex_packets_def)
  have full: "syn_received ex_packets d" "{..<length (?D d)} \<subseteq> received ex_packets d" for d
    by (auto simp: syn_received_def received_def ex_packets_def)
  show ?thesis using two_way_reassembled [OF p r c s] full by fastforce
qed

subsection \<open>Where bytes are lost\<close>

text \<open>\<^verbatim>\<open>Difference\<close> between a sequence number and one less than \<open>2\<^sup>3\<^sup>0\<close> after it is exact in both directions, unless the sequence
  numbers wrap around between the two: then it is one too small, since the code adds \<open>2\<^sup>3\<^sup>2 - 1\<close>. So the last sequence number and the
  first, zero, count as the same.\<close>

lemma re_Difference_wrap:
  assumes "0 \<le> s" "s < 4294967296" "0 \<le> d" "d < 1073741824"
  shows "re_Difference s (re_Add s d) = (if s + d < 4294967296 then d else d - 1)
     \<and> re_Difference (re_Add s d) s = - (if s + d < 4294967296 then d else d - 1)"
proof (cases "s + d < 4294967296")
  case True
  then have "re_Add s d = s + d" using assms by (simp add: re_Add_def)
  then show ?thesis using True assms by (simp add: re_Difference_def uint32Max_def)
next
  case False
  then have "re_Add s d = s + d - 4294967296"
    using assms mod_pos_pos_trivial [of "s + d - 4294967296" 4294967296] minus_mod_self2 [of "s + d" 4294967296] by (simp add: re_Add_def)
  then show ?thesis using False assms by (simp add: re_Difference_def uint32Max_def)
qed

lemma re_Difference_wrap_witness:
  "re_Difference 4294967295 0 = 0 \<and> re_Difference 0 4294967295 = 0"
  using re_Difference_wrap [of 4294967295 1] by (simp add: re_Add_def)

text \<open>A packet that starts at 0 while the byte with the last sequence number is still missing is delivered as if nothing was missing, and
  the missing byte is dropped when it arrives.\<close>

lemma wrap_around_loses_byte:
  "\<exists>a conn. AssembleAll (\<lambda>_. False) collector re_NewAssembler
       [(ex_tflow, ex_seg False 4294967293 True False [], ex_ci), (ex_tflow, ex_seg False 4294967294 False False [1], ex_ci),
        (ex_tflow, ex_seg False 0 False False [3, 4], ex_ci), (ex_tflow, ex_seg False 4294967295 False False [2], ex_ci)] = Some a
     \<and> ra_conns a = [((ex_tflow, ex_tflow), conn)] \<and> rc_stream conn False = [1, 3, 4]"
proof -
  let ?run = "AssembleAll (\<lambda>_. False) collector re_NewAssembler
       [(ex_tflow, ex_seg False 4294967293 True False [], ex_ci), (ex_tflow, ex_seg False 4294967294 False False [1], ex_ci),
        (ex_tflow, ex_seg False 0 False False [3, 4], ex_ci), (ex_tflow, ex_seg False 4294967295 False False [2], ex_ci)]"
  have "map_option (map (\<lambda>(k, c). (k, rc_stream c False)) \<circ> ra_conns) ?run = Some [((ex_tflow, ex_tflow), [1, 3, 4])]" by code_simp
  then show ?thesis by (auto simp: map_eq_Cons_conv)
qed

definition sg_total :: "byteContainer list \<Rightarrow> nat" where
  "sg_total rs = length (concat (map getBytes rs))"

lemma find_keep_inside:
  assumes "k < length (getBytes r)"
  shows "find_keep (pre @ r # rs) (cur + int (sg_total pre + k)) cur (int (sg_total pre + k)) n = (n + length pre, int k)"
proof (induction pre arbitrary: cur n)
  case Nil
  then show ?case using assms by (simp add: sg_total_def)
next
  case (Cons q pre)
  have "sg_total (q # pre) = length (getBytes q) + sg_total pre" by (simp add: sg_total_def)
  then show ?case using Cons.IH [of "cur + int (length (getBytes q))" "n + 1"] by (simp add: ac_simps)
qed

lemma lp_pages_bytes: "concat (map rp_bytes (fst (lp_pages stale pc ts ac sq bytes fin))) = bytes"
proof (induction stale pc ts ac sq bytes fin rule: lp_pages.induct)
  case (1 stale pc ts ac sq bytes fin)
  obtain c pc1 where c: "re_next stale pc ts = (c, pc1)" by fastforce
  let ?n = "min (length bytes) re_pageBytes"
  show ?case
  proof (cases "drop ?n bytes = []")
    case True
    then have "take ?n bytes = bytes" by simp
    then show ?thesis using True c by (subst lp_pages.simps) (simp add: Let_def)
  next
    case False
    then have "concat (map rp_bytes (fst (lp_pages stale pc1 ts None (re_Add sq (int ?n)) (drop ?n bytes) fin))) = drop ?n bytes"
      using "1.IH" c by fastforce
    then show ?thesis using False c by (subst lp_pages.simps) (simp add: Let_def split_beta)
  qed
qed

lemma keep_pages_zero: "keep_pages stale pc ac 0 (map Page ps) = Some (ps, pc)"
  by (induction ps) (simp_all add: convertToPages_def)

text \<open>C9. \<^verbatim>\<open>KeepFrom\<close> loses bytes. When the first byte to keep is inside the packet just received, behind its first byte, and a
  page follows the packet, as many bytes are cut off that page as are skipped in the packet; a page with fewer bytes
  makes \<^verbatim>\<open>cleanSG\<close> panic. The pages after it are kept whole.\<close>

theorem KeepFrom_loses_bytes:
  assumes sg: "sg_all sg = pre @ Live lp # Page p # map Page ps" and k: "0 < k" "k < length (lp_bytes lp)"
    and keep: "toKeep = int (sg_total pre + k)"
  shows "if k \<le> length (rp_bytes p)
     then \<exists>pc' half'. cleanSG stale pc half sg toKeep ac = Some (pc', half')
        \<and> concat (map rp_bytes (hf_saved half')) = drop k (lp_bytes lp) @ drop k (rp_bytes p) @ concat (map rp_bytes ps)
     else cleanSG stale pc half sg toKeep ac = None"
proof -
  have f: "find_keep (sg_all sg) toKeep 0 toKeep 0 = (length pre, int k)"
    using find_keep_inside [of k "Live lp" pre "Page p # map Page ps" 0 0] k(2) by (simp add: sg keep)
  obtain pc1 pages where r: "release_all pc (hf_pages half) pre = (pc1, pages)" by fastforce
  obtain qs pc2 where q: "lp_pages stale pc1 (Timestamp (lp_ac lp)) ac (re_Add (lp_seq lp) (int k)) (drop k (lp_bytes lp)) (lp_end lp) = (qs, pc2)"
    by fastforce
  have b: "concat (map rp_bytes qs) = drop k (lp_bytes lp)" by (metis lp_pages_bytes q fst_conv)
  have l: "slice (lp_bytes lp) k (length (lp_bytes lp)) = Some (drop k (lp_bytes lp))" using k(2) by (simp add: slice_def)
  have c: "cleanSG stale pc half sg toKeep ac =
      (keep_pages stale pc1 ac (int k) (Live lp # Page p # map Page ps)) \<bind> (\<lambda>(saved, pc2). Some (pc2, half\<lparr>hf_pages := pages, hf_saved := saved\<rparr>))"
    using f r keep unfolding cleanSG_def by (simp add: sg)
  show ?thesis
  proof (cases "k \<le> length (rp_bytes p)")
    case True
    let ?p = "p\<lparr>rp_bytes := drop k (rp_bytes p), rp_seq := re_Add (rp_seq p) (int k)\<rparr>"
    have "slice (rp_bytes p) k (length (rp_bytes p)) = Some (drop k (rp_bytes p))" using True by (simp add: slice_def)
    then have "keep_pages stale pc1 ac (int k) (Live lp # Page p # map Page ps) = Some (qs @ ?p # ps, pc2)"
      using True l q k(1) keep_pages_zero by (simp add: convertToPages_def)
    then show ?thesis using True b c by simp
  next
    case False
    then have "slice (rp_bytes p) k (length (rp_bytes p)) = None" by (simp add: slice_def)
    then have "keep_pages stale pc1 ac (int k) (Live lp # Page p # map Page ps) = None"
      using l q k(1) by (simp add: convertToPages_def)
    then show ?thesis using False c by simp
  qed
qed


theorem KeepFrom_loses_bytes_witness:
  "\<exists>pc' half'. cleanSG (\<lambda>_. False) re_newPageCache (new_half False 0)
     \<lparr>sg_all = [Live (live [1, 2, 3, 4, 5] 101 0 3 False False ex_ci),
        Page \<lparr>rp_bytes = [4, 5], rp_seq = 104, rp_ac = None, rp_seen = 0, rp_start = False, rp_end = False\<rparr>],
      sg_Skip = 0, sg_Direction = False, sg_saved = 0, sg_queuedBytes = 0, sg_queuedPackets = 0, sg_overlapBytes = 0, sg_overlapPackets = 0\<rparr> 1 (Some ex_ci)
     = Some (pc', half') \<and> concat (map rp_bytes (hf_saved half')) = [2, 3, 5]"
  using KeepFrom_loses_bytes [where pre = "[]" and ps = "[]" and k = 1 and lp = "live [1, 2, 3, 4, 5] 101 0 3 False False ex_ci"
      and p = "\<lparr>rp_bytes = [4, 5], rp_seq = 104, rp_ac = None, rp_seen = 0, rp_start = False, rp_end = False\<rparr>" and toKeep = 1
      and sg = "\<lparr>sg_all = [Live (live [1, 2, 3, 4, 5] 101 0 3 False False ex_ci),
        Page \<lparr>rp_bytes = [4, 5], rp_seq = 104, rp_ac = None, rp_seen = 0, rp_start = False, rp_end = False\<rparr>],
      sg_Skip = 0, sg_Direction = False, sg_saved = 0, sg_queuedBytes = 0, sg_queuedPackets = 0, sg_overlapBytes = 0, sg_overlapPackets = 0\<rparr>"]
  by (simp add: live_def seg_def sg_total_def)

end
