(* ===== verification/Tcp_Check.thy ===== *)
theory Tcp_Check
  imports Reassembly
begin

section \<open>Checks of TCP packets (\<^verbatim>\<open>reassembly/tcpcheck.go\<close>)\<close>

text \<open>
  The two helpers that a stream may call from \<^verbatim>\<open>Accept\<close>: the check of a packet against the options of the two directions, and
  a small state machine of a connection. A direction is a truth value, \<open>False\<close> from the client to the server, and the
  two options are selected by it.
\<close>

subsection \<open>Options\<close>

record tcpStreamOptions =
  so_mss :: int
  so_scale :: int
  so_receiveWindow :: u64

type_synonym TCPOptionCheck = "tcpStreamOptions \<times> tcpStreamOptions"

definition getOptions :: "TCPOptionCheck \<Rightarrow> bool \<Rightarrow> tcpStreamOptions" where
  "getOptions t dir = (if \<not> dir then fst t else snd t)"

definition setOptions :: "TCPOptionCheck \<Rightarrow> bool \<Rightarrow> tcpStreamOptions \<Rightarrow> TCPOptionCheck" where
  "setOptions t dir o' = (if \<not> dir then (o', snd t) else (fst t, o'))"

definition NewTCPOptionCheck :: TCPOptionCheck where
  "NewTCPOptionCheck = (let o' = \<lparr>so_mss = 0, so_scale = -1, so_receiveWindow = 0\<rparr> in (o', o'))"

text \<open>The loop over the options of a \<^verbatim>\<open>SYN\<close> packet; the last of several options counts.\<close>

fun syn_options :: "TCPOption list \<Rightarrow> int \<Rightarrow> int \<Rightarrow> goerr + int \<times> int" where
  "syn_options [] mss scale = Inr (mss, scale)"
| "syn_options (p # ps) mss scale =
     (if topt_OptionType p = 2 \<and> length (topt_OptionData p) \<noteq> 2
      then Inl (Errorf ''MSS option data length expected 2, got %d'' [int (length (topt_OptionData p))])
      else if topt_OptionType p = 3 \<and> length (topt_OptionData p) \<noteq> 1
      then Inl (Errorf ''Window scaling length expected: 1, got %d'' [int (length (topt_OptionData p))])
      else syn_options ps
             (if topt_OptionType p = 2 then uint (mk16 (topt_OptionData p ! 0) (topt_OptionData p ! 1)) else mss)
             (if topt_OptionType p = 3 then uint (topt_OptionData p ! 0) else scale))"

definition window_error :: "tcpStreamOptions \<Rightarrow> TCP \<Rightarrow> int \<Rightarrow> goerr option" where
  "window_error rv tcp nextSeq =
     (let len = int (length (Payload tcp)); diff = re_Difference nextSeq (uint (tcp_Seq tcp))
      in if diff = -1 \<and> (len = 1 \<or> len = 0) then None
         else if diff < 0 then Some (Errorf ''Re-emitted packet (diff:%d,seq:%d,rev-ack:%d)'' [diff, uint (tcp_Seq tcp), nextSeq])
         else if so_mss rv > 0 \<and> len > so_mss rv then Some (Errorf ''%d > mss (%d)'' [len, so_mss rv])
         else if so_receiveWindow rv \<noteq> 0 \<and> so_scale rv < 0 \<and> diff > sint (so_receiveWindow rv)
         then Some (Errorf ''%d > receiveWindow(%d)'' [diff, uint (so_receiveWindow rv)])
         else None)"

definition check_Accept :: "TCPOptionCheck \<Rightarrow> TCP \<Rightarrow> bool \<Rightarrow> int \<Rightarrow> TCPOptionCheck \<times> goerr option" where
  "check_Accept t tcp dir nextSeq =
     (let store = (\<lambda>o'. let w = ucast (tcp_Window tcp) :: u64
                        in (setOptions t dir (o'\<lparr>so_receiveWindow := (if so_scale o' > 0 then push_bit (nat (so_scale o')) w else w)\<rparr>), None))
      in if tcp_SYN tcp
         then (case syn_options (tcp_Options tcp) (-1) (-1) of
                 Inl err \<Rightarrow> (t, Some err)
               | Inr (mss, scale) \<Rightarrow> store ((getOptions t dir)\<lparr>so_mss := mss, so_scale := scale\<rparr>))
         else (case (if nextSeq \<noteq> -1 then window_error (getOptions t (\<not> dir)) tcp nextSeq else None) of
                 Some err \<Rightarrow> (t, Some err)
               | None \<Rightarrow> store (getOptions t dir)))"

subsection \<open>The state machine\<close>

datatype tcpState = TCPStateClosed | TCPStateSynSent | TCPStateEstablished | TCPStateCloseWait | TCPStateLastAck | TCPStateReset

record TCPSimpleFSM =
  fsm_dir :: bool
  fsm_state :: tcpState
  fsm_SupportMissingEstablishment :: bool

definition NewTCPSimpleFSM :: "bool \<Rightarrow> TCPSimpleFSM" where
  "NewTCPSimpleFSM missing = \<lparr>fsm_dir = False, fsm_state = TCPStateClosed, fsm_SupportMissingEstablishment = missing\<rparr>"

text \<open>The state that the first packet of a connection whose start is missing suggests.\<close>

definition guess_state :: "TCPSimpleFSM \<Rightarrow> TCP \<Rightarrow> bool \<Rightarrow> TCPSimpleFSM" where
  "guess_state f tcp dir =
     (if fsm_state f = TCPStateClosed \<and> fsm_SupportMissingEstablishment f \<and> \<not> (tcp_SYN tcp \<and> \<not> tcp_ACK tcp)
      then if tcp_SYN tcp \<and> tcp_ACK tcp then f\<lparr>fsm_state := TCPStateSynSent, fsm_dir := \<not> dir\<rparr>
           else if tcp_FIN tcp \<and> \<not> tcp_ACK tcp then f\<lparr>fsm_state := TCPStateEstablished\<rparr>
           else if tcp_FIN tcp \<and> tcp_ACK tcp then f\<lparr>fsm_state := TCPStateCloseWait, fsm_dir := \<not> dir\<rparr>
           else f\<lparr>fsm_state := TCPStateEstablished\<rparr>
      else f)"

fun fsm_switch :: "tcpState \<Rightarrow> TCPSimpleFSM \<Rightarrow> TCP \<Rightarrow> bool \<Rightarrow> TCPSimpleFSM \<times> bool" where
  "fsm_switch TCPStateClosed f tcp dir =
     (if tcp_SYN tcp \<and> \<not> tcp_ACK tcp then (f\<lparr>fsm_dir := dir, fsm_state := TCPStateSynSent\<rparr>, True) else (f, False))"
| "fsm_switch TCPStateSynSent f tcp dir =
     (if tcp_RST tcp then (f\<lparr>fsm_state := TCPStateReset\<rparr>, True)
      else if tcp_SYN tcp \<and> tcp_ACK tcp \<and> dir = (\<not> fsm_dir f) then (f\<lparr>fsm_state := TCPStateEstablished\<rparr>, True)
      else if tcp_SYN tcp \<and> \<not> tcp_ACK tcp \<and> dir = fsm_dir f then (f, True)
      else (f, False))"
| "fsm_switch TCPStateEstablished f tcp dir =
     (if tcp_RST tcp then (f\<lparr>fsm_state := TCPStateReset\<rparr>, True)
      else if tcp_FIN tcp then (f\<lparr>fsm_state := TCPStateCloseWait, fsm_dir := dir\<rparr>, True)
      else (f, True))"
| "fsm_switch TCPStateCloseWait f tcp dir =
     (if tcp_RST tcp then (f\<lparr>fsm_state := TCPStateReset\<rparr>, True)
      else if tcp_FIN tcp \<and> tcp_ACK tcp \<and> dir = (\<not> fsm_dir f) then (f\<lparr>fsm_state := TCPStateLastAck\<rparr>, True)
      else if tcp_ACK tcp then (f, True)
      else (f, False))"
| "fsm_switch TCPStateLastAck f tcp dir =
     (if tcp_RST tcp then (f\<lparr>fsm_state := TCPStateReset\<rparr>, True)
      else if tcp_ACK tcp \<and> fsm_dir f = dir then (f\<lparr>fsm_state := TCPStateClosed\<rparr>, True)
      else (f, False))"
| "fsm_switch TCPStateReset f tcp dir = (f, False)"

definition CheckState :: "TCPSimpleFSM \<Rightarrow> TCP \<Rightarrow> bool \<Rightarrow> TCPSimpleFSM \<times> bool" where
  "CheckState f tcp dir = (let f1 = guess_state f tcp dir in fsm_switch (fsm_state f1) f1 tcp dir)"

text \<open>A stream that calls \<^verbatim>\<open>CheckState\<close> for its packets and ignores those it rejects: the state and the packets accepted.\<close>

fun check_all :: "TCPSimpleFSM \<Rightarrow> (TCP \<times> bool) list \<Rightarrow> TCPSimpleFSM \<times> (TCP \<times> bool) list" where
  "check_all f [] = (f, [])"
| "check_all f ((t, d) # ps) =
     (let (f1, ok) = CheckState f t d; (f2, qs) = check_all f1 ps in (f2, if ok then (t, d) # qs else qs))"

subsection \<open>Accepted sessions\<close>

lemma check_all_append:
  "check_all f (ps @ qs) = (let (f1, as) = check_all f ps; (f2, bs) = check_all f1 qs in (f2, as @ bs))"
  by (induction ps arbitrary: f) (auto simp: Let_def split: prod.splits)

lemma CheckState_rejects: "CheckState f t d = (f', False) \<Longrightarrow> f' = f"
  by (cases "fsm_state f") (auto simp: CheckState_def guess_state_def Let_def split: if_splits)

lemma Reset_rejects: "fsm_state f = TCPStateReset \<Longrightarrow> check_all f ps = (f, [])"
  by (induction ps) (auto simp: CheckState_def guess_state_def)

text \<open>Packets that do not change the state.\<close>

lemma check_all_stays:
  assumes "\<forall>(t, d) \<in> set ps. CheckState f t d = (f, True)"
  shows "check_all f ps = (f, ps)"
  using assms by (induction ps) auto

definition syn_of :: "bool \<Rightarrow> TCP \<times> bool \<Rightarrow> bool" where
  "syn_of c p \<longleftrightarrow> tcp_SYN (fst p) \<and> \<not> tcp_ACK (fst p) \<and> \<not> tcp_RST (fst p) \<and> snd p = c"

definition syn_ack_of :: "bool \<Rightarrow> TCP \<times> bool \<Rightarrow> bool" where
  "syn_ack_of c p \<longleftrightarrow> tcp_SYN (fst p) \<and> tcp_ACK (fst p) \<and> \<not> tcp_RST (fst p) \<and> snd p = (\<not> c)"

definition plain_packet :: "TCP \<times> bool \<Rightarrow> bool" where
  "plain_packet p \<longleftrightarrow> \<not> tcp_RST (fst p) \<and> \<not> tcp_FIN (fst p)"

definition fin_of :: "bool \<Rightarrow> TCP \<times> bool \<Rightarrow> bool" where
  "fin_of d p \<longleftrightarrow> tcp_FIN (fst p) \<and> \<not> tcp_RST (fst p) \<and> snd p = d"

definition ack_packet :: "TCP \<times> bool \<Rightarrow> bool" where
  "ack_packet p \<longleftrightarrow> tcp_ACK (fst p) \<and> plain_packet p"

text \<open>C10. Every regular session is accepted as a whole and ends in the closed state: the first packet of a side \<open>c\<close>, possibly
  repeated, the answer of the other side, any packets without \<^verbatim>\<open>RST\<close> and \<^verbatim>\<open>FIN\<close>, the end by one side \<open>d\<close>, acknowledged packets, the
  acknowledged end of the other side and a last acknowledgement. So are several sessions one after the other.\<close>

theorem CheckState_session:
  assumes "fsm_state f = TCPStateClosed" "syns \<noteq> []" "\<forall>p \<in> set syns. syn_of c p" "syn_ack_of c sa" "\<forall>p \<in> set data. plain_packet p" "fin_of d fin1"
    and "\<forall>p \<in> set acks. ack_packet p" "fin_of (\<not> d) fin2" "tcp_ACK (fst fin2)" "ack_packet final" "snd final = d"
  shows "\<exists>f'. check_all f (syns @ [sa] @ data @ [fin1] @ acks @ [fin2, final]) = (f', syns @ [sa] @ data @ [fin1] @ acks @ [fin2, final])
    \<and> fsm_state f' = TCPStateClosed"
proof -
  obtain s ss where s: "syns = s # ss" using assms(2) by (cases syns) auto
  let ?f1 = "f\<lparr>fsm_dir := c, fsm_state := TCPStateSynSent\<rparr>"
  let ?f2 = "?f1\<lparr>fsm_state := TCPStateEstablished\<rparr>"
  let ?f3 = "?f2\<lparr>fsm_state := TCPStateCloseWait, fsm_dir := d\<rparr>"
  note d = CheckState_def guess_state_def Let_def
  have 1: "CheckState f (fst s) (snd s) = (?f1, True)" using assms(1,3) s by (auto simp: d syn_of_def)
  have 2: "check_all ?f1 ss = (?f1, ss)" using assms(3) s by (intro check_all_stays) (auto simp: d syn_of_def)
  have 3: "CheckState ?f1 (fst sa) (snd sa) = (?f2, True)" using assms(4) by (auto simp: d syn_ack_of_def)
  have 4: "check_all ?f2 data = (?f2, data)" using assms(5) by (intro check_all_stays) (auto simp: d plain_packet_def)
  have 5: "CheckState ?f2 (fst fin1) (snd fin1) = (?f3, True)" using assms(6) by (auto simp: d fin_of_def)
  have 6: "check_all ?f3 acks = (?f3, acks)" using assms(7) by (intro check_all_stays) (auto simp: d ack_packet_def plain_packet_def)
  have 7: "CheckState ?f3 (fst fin2) (snd fin2) = (?f3\<lparr>fsm_state := TCPStateLastAck\<rparr>, True)" using assms(8,9) by (auto simp: d fin_of_def)
  have 8: "CheckState (?f3\<lparr>fsm_state := TCPStateLastAck\<rparr>) (fst final) (snd final) = (?f3\<lparr>fsm_state := TCPStateClosed\<rparr>, True)"
    using assms(10,11) by (auto simp: d ack_packet_def plain_packet_def)
  show ?thesis using 1 2 3 4 5 6 7 8 unfolding s
    by (cases s; cases sa; cases fin1; cases fin2; cases final) (simp add: check_all_append)
qed


definition ex_tcp :: "bool \<Rightarrow> bool \<Rightarrow> bool \<Rightarrow> TCP" where
  "ex_tcp syn fin ack = zero_TCP\<lparr>tcp_SYN := syn, tcp_FIN := fin, tcp_ACK := ack\<rparr>"

theorem CheckState_session_witness:
  "\<exists>f'. check_all (NewTCPSimpleFSM False)
       [(ex_tcp True False False, False), (ex_tcp True False False, False), (ex_tcp True False True, True), (ex_tcp False False True, False),
        (ex_tcp False True True, True), (ex_tcp False False True, False), (ex_tcp False True True, False), (ex_tcp False False True, True)] =
     (f', [(ex_tcp True False False, False), (ex_tcp True False False, False), (ex_tcp True False True, True), (ex_tcp False False True, False),
        (ex_tcp False True True, True), (ex_tcp False False True, False), (ex_tcp False True True, False), (ex_tcp False False True, True)])
   \<and> fsm_state f' = TCPStateClosed"
  using CheckState_session [of "NewTCPSimpleFSM False" "[(ex_tcp True False False, False), (ex_tcp True False False, False)]" False
      "(ex_tcp True False True, True)" "[(ex_tcp False False True, False)]" True "(ex_tcp False True True, True)" "[(ex_tcp False False True, False)]"
      "(ex_tcp False True True, False)" "(ex_tcp False False True, True)"]
  by (simp add: NewTCPSimpleFSM_def ex_tcp_def zero_TCP_def syn_of_def syn_ack_of_def plain_packet_def fin_of_def ack_packet_def)

subsection \<open>No connection without a handshake\<close>

definition handshake :: "(TCP \<times> bool) list \<Rightarrow> bool" where
  "handshake ps \<longleftrightarrow> (\<exists>xs t ys u zs c. ps = xs @ (t, c) # ys @ (u, \<not> c) # zs \<and> tcp_SYN t \<and> \<not> tcp_ACK t \<and> tcp_SYN u \<and> tcp_ACK u)"

lemma handshake_snoc: "handshake ps \<Longrightarrow> handshake (ps @ [p])"
  unfolding handshake_def by (metis append.assoc append_Cons)

definition opened :: "bool \<Rightarrow> (TCP \<times> bool) list \<Rightarrow> bool" where
  "opened c ps \<longleftrightarrow> (\<exists>t. (t, c) \<in> set ps \<and> tcp_SYN t \<and> \<not> tcp_ACK t)"

lemma opened_handshake:
  assumes "opened c ps" "tcp_SYN u" "tcp_ACK u"
  shows "handshake (ps @ [(u, \<not> c)])"
proof -
  obtain t xs ys where "ps = xs @ (t, c) # ys" "tcp_SYN t" "\<not> tcp_ACK t" using assms(1) by (auto simp: opened_def dest: split_list)
  then show ?thesis using assms(2,3) unfolding handshake_def
    by (intro exI [of _ xs] exI [of _ t] exI [of _ ys] exI [of _ u] exI [of _ "[]"] exI [of _ c]) simp
qed

definition fsm_inv :: "(TCP \<times> bool) list \<Rightarrow> TCPSimpleFSM \<Rightarrow> bool" where
  "fsm_inv ps f \<longleftrightarrow> \<not> fsm_SupportMissingEstablishment f \<and>
     (case fsm_state f of
        TCPStateClosed \<Rightarrow> True | TCPStateSynSent \<Rightarrow> opened (fsm_dir f) ps | TCPStateReset \<Rightarrow> (\<exists>c. opened c ps) | _ \<Rightarrow> handshake ps)"

lemma handshake_opened:
  assumes "handshake ps"
  shows "\<exists>c. opened c ps"
proof -
  from assms obtain xs t ys u zs c where "ps = xs @ (t, c) # ys @ (u, \<not> c) # zs" "tcp_SYN t" "\<not> tcp_ACK t" unfolding handshake_def by blast
  then have "opened c ps" by (auto simp: opened_def)
  then show ?thesis ..
qed

lemma fsm_inv_step:
  assumes "fsm_inv ps f" "CheckState f t d = (f', True)"
  shows "fsm_inv (ps @ [(t, d)]) f'"
proof -
  have sw: "fsm_switch (fsm_state f) f t d = (f', True)" "\<not> fsm_SupportMissingEstablishment f"
    using assms by (simp_all add: CheckState_def guess_state_def fsm_inv_def)
  have mono: "opened c ps \<Longrightarrow> opened c (ps @ [(t, d)])" for c by (auto simp: opened_def)
  have new: "tcp_SYN t \<Longrightarrow> \<not> tcp_ACK t \<Longrightarrow> opened d (ps @ [(t, d)])" by (auto simp: opened_def)
  have hs: "opened (fsm_dir f) ps \<Longrightarrow> tcp_SYN t \<Longrightarrow> tcp_ACK t \<Longrightarrow> d = (\<not> fsm_dir f) \<Longrightarrow> handshake (ps @ [(t, d)])"
    using opened_handshake by blast
  have hm: "handshake ps \<Longrightarrow> handshake (ps @ [(t, d)])" "handshake ps \<Longrightarrow> \<exists>c. opened c (ps @ [(t, d)])"
    using handshake_snoc handshake_opened mono by blast+
  show ?thesis
  proof (cases "fsm_state f")
    case TCPStateClosed
    then show ?thesis using sw new by (auto simp: fsm_inv_def split: if_splits)
  next
    case TCPStateSynSent
    then have op: "opened (fsm_dir f) ps" using assms(1) by (simp add: fsm_inv_def)
    show ?thesis
    proof (cases "tcp_RST t")
      case True
      then show ?thesis using sw TCPStateSynSent mono [OF op] by (auto simp: fsm_inv_def intro!: exI [of _ "fsm_dir f"])
    next
      case False
      then show ?thesis using sw TCPStateSynSent mono [OF op] hs [OF op] by (auto simp: fsm_inv_def split: if_splits)
    qed
  next
    case TCPStateReset
    then show ?thesis using sw by simp
  qed (use sw assms(1) hm in \<open>auto simp: fsm_inv_def split: if_splits\<close>)
qed

lemma fsm_inv_check_all:
  assumes "fsm_inv ps f" "check_all f qs = (f', as)"
  shows "fsm_inv (ps @ as) f'"
  using assms
proof (induction qs arbitrary: f ps as)
  case (Cons q qs)
  obtain t d where q: "q = (t, d)" by fastforce
  obtain f1 ok where c: "CheckState f t d = (f1, ok)" by fastforce
  obtain as1 where r: "check_all f1 qs = (f', as1)" "as = (if ok then (t, d) # as1 else as1)"
    using Cons.prems(2) q c by (auto split: prod.splits)
  show ?case
  proof (cases ok)
    case True
    then have "fsm_inv (ps @ [(t, d)]) f1" using fsm_inv_step [OF Cons.prems(1)] c by simp
    from Cons.IH [OF this r(1)] True r(2) show ?thesis by simp
  next
    case False
    then have "f1 = f" using c CheckState_rejects [of f t d f1] by simp
    then show ?thesis using Cons.IH [OF Cons.prems(1), of as1] r False by simp
  qed
qed simp

text \<open>C11. Unless missing packets are allowed, the state machine is in the established or a closing state only after a handshake: among
  the packets it accepted there is a \<^verbatim>\<open>SYN\<close> packet of one side and, later, an acknowledged \<^verbatim>\<open>SYN\<close> packet of the other side. A packet it
  rejects leaves the state as it is, and after a reset it rejects every packet.\<close>

theorem CheckState_handshake:
  assumes "check_all (NewTCPSimpleFSM False) ps = (f, as)"
  shows "(fsm_state f \<in> {TCPStateEstablished, TCPStateCloseWait, TCPStateLastAck} \<longrightarrow> handshake as)
    \<and> (\<forall>t d f'. CheckState f t d = (f', False) \<longrightarrow> f' = f) \<and> (fsm_state f = TCPStateReset \<longrightarrow> check_all f qs = (f, []))"
proof -
  have "fsm_inv ([] @ as) f" by (rule fsm_inv_check_all [OF _ assms]) (simp add: fsm_inv_def NewTCPSimpleFSM_def)
  then show ?thesis using CheckState_rejects Reset_rejects by (auto simp: fsm_inv_def)
qed

theorem CheckState_handshake_witness:
  "\<exists>f as. check_all (NewTCPSimpleFSM False)
      [(ex_tcp False False True, False), (ex_tcp True False False, False), (ex_tcp True False True, True)] = (f, as)
    \<and> fsm_state f = TCPStateEstablished \<and> length as = 2 \<and> handshake as"
proof -
  let ?r = "check_all (NewTCPSimpleFSM False)
      [(ex_tcp False False True, False), (ex_tcp True False False, False), (ex_tcp True False True, True)]"
  have "fsm_state (fst ?r) = TCPStateEstablished" "length (snd ?r) = 2" by code_simp+
  then show ?thesis using CheckState_handshake [of _ "fst ?r" "snd ?r"] by (metis insertI1 prod.collapse)
qed

end
