(* ===== verification/Spec2Isabelle.thy ===== *)
theory Spec2Isabelle
  imports Flows Serialize_Buffer Checksum Layer_Base Layer_Class Layer_Ethernet Layer_Tags Layer_IPv4 Layer_IPv6 Tcpip Layer_UDP Layer_TCP Layer_DNS Layer_DNS_Wire Layer_Link Layer_GRE Parser Packet Packet_Source Decoders Tcp_Assembly Tcp_Stream Tcp_Accounting Ip4_Defrag Stacks Pcap_File Snoop_File Tcp_Reader Reassembly Reassembly_Stream Tcp_Check
begin

text \<open>
  A verification library for the packet library under \<^verbatim>\<open>src/\<close>: decoding and building packets, the flows they belong to, the
  reassembly of TCP streams and IPv4 datagrams, and capture files.

  The program. Package \<^verbatim>\<open>gopacket\<close> (\<^verbatim>\<open>src/*.go\<close>) decodes a byte string layer by layer, either into packets (\<^verbatim>\<open>packet.go\<close>, eager or
  lazy) or into structs the caller provides (\<^verbatim>\<open>parser.go\<close>, \<^verbatim>\<open>decode.go\<close>, \<^verbatim>\<open>layers_decoder.go\<close>), and builds packets by letting each layer
  prepend its header to a buffer (\<^verbatim>\<open>writer.go\<close>). Layers, in package \<^verbatim>\<open>layers\<close>, are chosen by layer types (\<^verbatim>\<open>layertype.go\<close>,
  \<^verbatim>\<open>layerclass.go\<close>, \<^verbatim>\<open>layers/enums.go\<close>, \<^verbatim>\<open>layers/layertypes.go\<close>). Endpoints and flows (\<^verbatim>\<open>flows.go\<close>) name the two ends of a conversation;
  they are the keys under which the reassembly packages (\<^verbatim>\<open>tcpassembly\<close>, \<^verbatim>\<open>reassembly\<close>, \<^verbatim>\<open>ip4defrag\<close>) keep their state. The readers and
  writers of capture files (\<^verbatim>\<open>pcapgo\<close>) are sources of packets.

  Theories and the code they model.
  \<^item> \<^verbatim>\<open>Go_Prelude\<close>: the fragment of Go in use. A panic is \<^verbatim>\<open>None\<close>, an error a value of \<^verbatim>\<open>goerr\<close>, machine integers are words; slice and
    index expressions check their bounds, \<^verbatim>\<open>binary.BigEndian\<close> and \<^verbatim>\<open>LittleEndian\<close> are functions on byte lists.
  \<^item> \<^verbatim>\<open>Flows\<close> (\<^verbatim>\<open>flows.go\<close>): endpoints and flows in fixed arrays, their order and hashes, the registry of endpoint types.
  \<^item> \<^verbatim>\<open>Serialize_Buffer\<close> (\<^verbatim>\<open>writer.go\<close>): the buffer with its backing array, stale bytes included, and \<^verbatim>\<open>SerializeLayers\<close>. The locale
    \<^verbatim>\<open>byte_buffer\<close> is the contract of the interface \<^verbatim>\<open>SerializeBuffer\<close>.
  \<^item> \<^verbatim>\<open>Checksum\<close> (\<^verbatim>\<open>layers/tcpip.go\<close>, \<^verbatim>\<open>layers/ip4.go\<close>), \<^verbatim>\<open>Tcpip\<close> (\<^verbatim>\<open>layers/tcpip.go\<close>): the Internet checksum and the transport checksum over a pseudo header.
  \<^item> \<^verbatim>\<open>Layer_Base\<close> (\<^verbatim>\<open>layers/base.go\<close>, \<^verbatim>\<open>endpoints.go\<close>, \<^verbatim>\<open>enums.go\<close>, \<^verbatim>\<open>ports.go\<close>): what all layers share. The locale \<^verbatim>\<open>decoding_layer\<close> is what a
    parser relies on: the decoder returns, the header is at least so long, contents and payload are pieces of the data; its
    weaker form \<^verbatim>\<open>total_decoder\<close> is for decoders whose payload is cut differently.
  \<^item> \<^verbatim>\<open>Layer_Ethernet\<close>, \<^verbatim>\<open>Layer_Tags\<close> (802.1Q, MPLS, VXLAN, ERSPAN II, EtherIP), \<^verbatim>\<open>Layer_IPv4\<close>, \<^verbatim>\<open>Layer_IPv6\<close> (with its extension headers),
    \<^verbatim>\<open>Layer_UDP\<close>, \<^verbatim>\<open>Layer_TCP\<close>: one record per header struct, decoder and serializer, and the interpretation of the contract.
  \<^item> \<^verbatim>\<open>Layer_Link\<close> (PPP, PPPoE, LLC, SNAP, loopback, Linux cooked captures, FDDI, ARP), \<^verbatim>\<open>Layer_GRE\<close> (ICMPv4, GRE, UDP-Lite): the same
    for these headers. Their locale \<^verbatim>\<open>header_codec\<close> says that a serializer and a decoder agree.
  \<^item> \<^verbatim>\<open>Layer_DNS\<close>, \<^verbatim>\<open>Layer_DNS_Wire\<close> (\<^verbatim>\<open>layers/dns.go\<close>): DNS messages with compressed names and typed records; the second theory says
    what the bytes of a message are. The locale \<^verbatim>\<open>wire_items\<close> reads back sequences of items.
  \<^item> \<^verbatim>\<open>Layer_Class\<close> (\<^verbatim>\<open>layertype.go\<close>, \<^verbatim>\<open>layerclass.go\<close>): the registry and the two representations of sets of layer types.
  \<^item> \<^verbatim>\<open>Parser\<close> (\<^verbatim>\<open>parser.go\<close>, \<^verbatim>\<open>layers_decoder.go\<close>): the three containers of decoding layers, their common
    contract, the decoding loop and the parser. The structs of a parser are one store, a decoding layer is its methods on it.
  \<^item> \<^verbatim>\<open>Packet\<close>, \<^verbatim>\<open>Packet_Source\<close>, \<^verbatim>\<open>Decoders\<close> (\<^verbatim>\<open>packet.go\<close>, \<^verbatim>\<open>layers/enums.go\<close>, \<^verbatim>\<open>layers/layertypes.go\<close>): the packet builder, eager and lazy
    packets with all accessors, sources and their channel, and the dispatch to the decoders of the layers above. The locale
    \<^verbatim>\<open>packet_decoders\<close> is what the loop needs of the decoders to end: each hands on less data, or as much to one of lower rank.
    \<^verbatim>\<open>Layer_Dot11\<close> (\<^verbatim>\<open>layers/dot11.go\<close>): the data layers of 802.11, which hand on all they get.
  \<^item> \<^verbatim>\<open>Stacks\<close>: the layers put together as in \<^verbatim>\<open>doc.go\<close>.
  \<^item> \<^verbatim>\<open>Tcp_Assembly\<close>, \<^verbatim>\<open>Tcp_Stream\<close>, \<^verbatim>\<open>Tcp_Accounting\<close> (\<^verbatim>\<open>tcpassembly/assembly.go\<close>): one-way stream reassembly; \<^verbatim>\<open>Tcp_Reader\<close>
    (\<^verbatim>\<open>tcpassembly/tcpreader/reader.go\<close>): streams as readers, with the two goroutines as a step relation.
  \<^item> \<^verbatim>\<open>Reassembly\<close>, \<^verbatim>\<open>Reassembly_Stream\<close> (\<^verbatim>\<open>reassembly/tcpassembly.go\<close>, \<^verbatim>\<open>memory.go\<close>), \<^verbatim>\<open>Tcp_Check\<close> (\<^verbatim>\<open>tcpcheck.go\<close>): two-way reassembly, its overlaps,
    the stream's choice of bytes to keep, flushing, and the checks a stream may use.
  \<^item> \<^verbatim>\<open>Ip4_Defrag\<close> (\<^verbatim>\<open>ip4defrag/defrag.go\<close>): IPv4 defragmentation.
  \<^item> \<^verbatim>\<open>Pcap_File\<close> (\<^verbatim>\<open>pcapgo/write.go\<close>, \<^verbatim>\<open>read.go\<close>), \<^verbatim>\<open>Snoop_File\<close> (\<^verbatim>\<open>pcapgo/snoop.go\<close>): capture files.

  What is shown.
  \<^item> Reassembly: whatever the order, repetition, overlap and cut of the packets, the bytes delivered are a prefix of the bytes
    sent, and all of them once all arrived (one-way, with sequence numbers that wrap; two-way, both directions interleaved, away
    from the wrap-around). No packet or flush makes the one-way assembler panic or lose a page, and flushing everything ends. The
    reader of a stream returns these bytes under every interleaving and never blocks, unless it is closed. The state machine of
    a connection accepts regular sessions and needs a handshake. Fragments of a datagram in any order give the datagram exactly
    when the last one arrives.
  \<^item> Round trips: each header, a whole Ethernet, IPv4 and UDP frame with padding, and pcap files are read back as written, and the
    stored checksums verify.
  \<^item> Contracts: the buffer behaves as a byte string that grows at both ends; the containers decode alike; a lazy packet does what
    the eager one does, panics and endless runs included, whatever the decoders of other layers are, and when it ends its
    accessors agree with it; decoding by the modelled layers ends, and so does a parser over the usual layers; layer classes, registry,
    endpoints and concatenated sources behave as sets, maps, ordered keys and one source; the channel of a source carries the
    packets up to the first error of a listed kind.
  \<^item> Defects: where the code does not do what it means to, a theorem says for which inputs: the pages that \<^verbatim>\<open>KeepFrom\<close> loses, the
    deadlock of closing a reader, the panic of the defragmenter on fragments with options (and that it never panics without), the
    snoop reader on short records, the payload behind a hop-by-hop header and the padding of its options. The byte lost at the wrap-around of
    two-way sequence numbers is shown on a run, next to the range in which the difference of numbers is off by one.

  Bounds and recursion. Loops are structural recursions or have a measure, except where the code itself may not end: the
  packet loop and the flushing loops are partial functions with value \<^verbatim>\<open>None\<close> for not ending, and their theorems show that
  they return. There is no fuel. Lengths are not bounded but by the width of the fields that hold them. Goroutines meet only
  in the stream reader; elsewhere one caller at a time is modelled and locks are left out.

  Arguments that stand for code outside the models: decompression of gzip files, the port tables of the next layer, decoders
  of other layers, the sinks that writers write to, the user's streams, and flags left in recycled pages.

  Not modelled: the frame header, management and control layers of 802.11, the decoders of the other layers (sFlow, LLDP, SCTP, OSPF and so on), pcapng files, the bindings to
  libpcap, PF_RING, AF_PACKET and BPF devices, which call C code and the kernel, raw sockets, routing tables, the generated tables of
  hardware prefixes and ports, string forms and dumps, byte differences of \<^verbatim>\<open>bytediff\<close>, command-line tools and examples.
\<close>

end
